(* ===== verification/Prelude.thy ===== *)
theory Prelude
  imports Main "HOL-Library.Word" "HOL-Library.Char_ord" "HOL-Library.List_Lexorder"
    "HOL-Library.Product_Lexorder"
begin

text \<open>
  Shared vocabulary of the development: the fixed-width integers of the C++ sources, the
  named theorem collections the component proofs draw on, and the generic list, option and
  sum facts used by more than one component.

  A C++ \<open>std::uintN_t\<close> is an \<open>N word\<close>; \<open>std::int32_t\<close> is a \<open>32 word\<close> read with
  \<^const>\<open>sint\<close>. Array indices are the \<^const>\<open>unat\<close> of a word. \<open>std::string\<close> is
  \<^typ>\<open>string\<close>, a list of bytes; its ordering is the byte-wise lexicographic one of
  \<open>HOL-Library.List_Lexorder\<close>, which is what \<open>std::string::operator<=>\<close> computes.
\<close>

named_theorems model_defs \<open>definitions of straight-line operations, unfolded by component proofs\<close>
named_theorems shape_simps \<open>what an operation keeps of the fixed array extents\<close>

type_synonym u8 = "8 word"
type_synonym u16 = "16 word"
type_synonym u32 = "32 word"
type_synonym u64 = "64 word"
type_synonym i32 = "32 word"

section \<open>Words\<close>

lemma unat_ucast_up:
  assumes "LENGTH('a) \<le> LENGTH('b)"
  shows "unat (ucast (w :: 'a::len word) :: 'b::len word) = unat w"
proof -
  have "unat w < 2 ^ LENGTH('a)" by (rule unsigned_less)
  also have "(2::nat) ^ LENGTH('a) \<le> 2 ^ LENGTH('b)" using assms by (intro power_increasing) auto
  finally show ?thesis by (simp add: unsigned_ucast_eq take_bit_nat_eq_self_iff)
qed

lemma unat_u8_less: "unat (b :: u8) < 256"
  using unsigned_less [of b, where 'a = nat] by simp

lemma word_mod_less: "m \<noteq> 0 \<Longrightarrow> x mod m < (m :: 'a::len word)"
  by (simp add: word_less_nat_alt unat_mod unat_gt_0)

lemma word_one_le: "1 \<le> x \<longleftrightarrow> x \<noteq> (0 :: 'a::len word)"
  by (simp add: word_le_nat_alt Suc_le_eq unat_gt_0)

lemma unat_succ_not_max: "x \<noteq> - 1 \<Longrightarrow> unat (x + 1) = unat x + 1" for x :: "'a::len word"
  using unatSuc [of x] by (simp add: eq_neg_iff_add_eq_0 add.commute)

section \<open>Options and sums\<close>

text \<open>\<open>std::optional::value_or\<close>.\<close>

definition value_or :: "'a option \<Rightarrow> 'a \<Rightarrow> 'a" where
  "value_or x d = (case x of None \<Rightarrow> d | Some v \<Rightarrow> v)"

lemma value_or_simps [simp]:
  "value_or None d = d"
  "value_or (Some v) d = v"
  by (simp_all add: value_or_def)

text \<open>\<open>has_value\<close> of an optional, with the predicate its payload must satisfy.\<close>

definition opt_all :: "('a \<Rightarrow> bool) \<Rightarrow> 'a option \<Rightarrow> bool" where
  "opt_all P x = (case x of None \<Rightarrow> True | Some v \<Rightarrow> P v)"

lemma opt_all_simps [simp]:
  "opt_all P None = True"
  "opt_all P (Some v) = P v"
  by (simp_all add: opt_all_def)

text \<open>A result is a success.\<close>

definition is_ok :: "'e + 'a \<Rightarrow> bool" where
  "is_ok r = (case r of Inl _ \<Rightarrow> False | Inr _ \<Rightarrow> True)"

lemma is_ok_simps [simp]:
  "is_ok (Inl e) = False"
  "is_ok (Inr v) = True"
  by (simp_all add: is_ok_def)

lemma is_ok_unit_iff: "is_ok (r :: 'e + unit) \<longleftrightarrow> r = Inr ()"
  by (cases r) auto

section \<open>Lists\<close>

text \<open>
  The first position at or after \<open>i\<close> whose element satisfies a predicate, the
  \<open>std::find\<close> / \<open>std::find_if\<close> pattern; \<open>None\<close> stands for the end iterator.
\<close>

fun find_from :: "('a \<Rightarrow> bool) \<Rightarrow> nat \<Rightarrow> 'a list \<Rightarrow> nat option" where
  "find_from P i [] = None"
| "find_from P i (x # xs) = (if P x then Some i else find_from P (Suc i) xs)"

lemma find_from_Some:
  "find_from P i xs = Some j \<Longrightarrow>
     i \<le> j \<and> j < i + length xs \<and> P (xs ! (j - i)) \<and> (\<forall>k. i \<le> k \<and> k < j \<longrightarrow> \<not> P (xs ! (k - i)))"
proof (induction xs arbitrary: i)
  case Nil
  then show ?case by simp
next
  case (Cons x xs)
  show ?case
  proof (cases "P x")
    case True
    with Cons.prems show ?thesis by auto
  next
    case False
    with Cons.prems have "find_from P (Suc i) xs = Some j" by simp
    from Cons.IH [OF this] have ih: "Suc i \<le> j" "j < Suc i + length xs" "P (xs ! (j - Suc i))"
      "\<And>k. Suc i \<le> k \<and> k < j \<Longrightarrow> \<not> P (xs ! (k - Suc i))"
      by auto
    have "\<not> P ((x # xs) ! (k - i))" if "i \<le> k" "k < j" for k
      using False ih(4) [of k] that by (cases "k = i") (auto simp: nth_Cons')
    moreover have "P ((x # xs) ! (j - i))" using ih(1,3) by (simp add: nth_Cons')
    ultimately show ?thesis using ih(1,2) by simp
  qed
qed

lemma find_from_None: "find_from P i xs = None \<longleftrightarrow> (\<forall>x\<in>set xs. \<not> P x)"
  by (induction xs arbitrary: i) auto

text \<open>
  Membership while building a set: the pattern \<open>if (!seen.insert(key).second) fail\<close>
  succeeds on every element exactly when the keys are pairwise distinct and new.
\<close>

fun distinct_from :: "('a \<Rightarrow> 'k) \<Rightarrow> 'k list \<Rightarrow> 'a list \<Rightarrow> bool" where
  "distinct_from f seen [] = True"
| "distinct_from f seen (x # xs) = (f x \<notin> set seen \<and> distinct_from f (f x # seen) xs)"

lemma distinct_from_iff:
  "distinct_from f seen xs \<longleftrightarrow> distinct (map f xs) \<and> set (map f xs) \<inter> set seen = {}"
  by (induction xs arbitrary: seen) auto

lemma list_all_update:
  "list_all P xs \<Longrightarrow> P v \<Longrightarrow> list_all P (xs[i := v])"
  unfolding list_all_iff using set_update_subset_insert [of xs i v] by blast

lemma map_fst_update_eq:
  "i < length xs \<Longrightarrow> f v = f (xs ! i) \<Longrightarrow> map f (xs[i := v]) = map f xs"
  by (metis list_update_id map_update)

text \<open>A list sorted by a key that determines its elements is fixed by its set.\<close>

lemma sorted_key_unique:
  assumes "inj_on f (set xs)" "set xs = set ys" "distinct xs" "distinct ys"
    "sorted (map f xs)" "sorted (map f ys)"
  shows "xs = ys"
  using assms by (intro map_sorted_distinct_set_unique [of f]) (auto simp: distinct_map)

end
