(* ===== verification/Std_Map.thy ===== *)
theory Std_Map
  imports Prelude
begin

text \<open>
  The ordered container \<open>std::map\<close> of the C++ standard library, as the sources use it: a
  finite map whose entries are stored in ascending key order, so that iteration visits keys
  in that order and \<open>operator==\<close> compares entry by entry. The carrier is the sorted entry
  list; two maps with the same lookups are equal (\<open>std_map_eqI\<close>).
\<close>

section \<open>The type\<close>

abbreviation keys_ascending :: "('k::linorder \<times> 'v) list \<Rightarrow> bool" where
  "keys_ascending xs \<equiv> sorted_wrt (<) (map fst xs)"

typedef (overloaded) ('k::linorder, 'v) std_map = "{xs :: ('k \<times> 'v) list. keys_ascending xs}"
  morphisms entries Abs_std_map
proof
  show "[] \<in> {xs :: ('k \<times> 'v) list. keys_ascending xs}" by simp
qed

setup_lifting type_definition_std_map

lemma entries_ascending [simp]: "keys_ascending (entries m)"
  using entries [of m] by simp

lemma entries_distinct [simp]: "distinct (map fst (entries m))"
  using entries_ascending [of m] by (simp add: strict_sorted_iff)

section \<open>Operations\<close>

definition put_entry :: "'k::linorder \<Rightarrow> 'v \<Rightarrow> ('k \<times> 'v) list \<Rightarrow> ('k \<times> 'v) list" where
  "put_entry k v xs =
     filter (\<lambda>e. fst e < k) xs @ (k, v) # filter (\<lambda>e. k < fst e) xs"

definition drop_entry :: "'k::linorder \<Rightarrow> ('k \<times> 'v) list \<Rightarrow> ('k \<times> 'v) list" where
  "drop_entry k xs = filter (\<lambda>e. fst e \<noteq> k) xs"

lemma keys_ascending_filter: "keys_ascending xs \<Longrightarrow> keys_ascending (filter P xs)"
  by (simp add: sorted_wrt_map sorted_wrt_filter)

lemma keys_ascending_put_entry: "keys_ascending xs \<Longrightarrow> keys_ascending (put_entry k v xs)"
  by (auto simp: put_entry_def sorted_wrt_append keys_ascending_filter dest: less_trans)

lift_definition map_empty :: "('k::linorder, 'v) std_map" is "[]"
  by simp

lift_definition lookup :: "('k::linorder, 'v) std_map \<Rightarrow> 'k \<Rightarrow> 'v option" is map_of .

lift_definition insert_or_assign :: "'k::linorder \<Rightarrow> 'v \<Rightarrow> ('k, 'v) std_map \<Rightarrow> ('k, 'v) std_map"
  is put_entry by (rule keys_ascending_put_entry)

lift_definition erase :: "'k::linorder \<Rightarrow> ('k, 'v) std_map \<Rightarrow> ('k, 'v) std_map"
  is drop_entry by (simp add: drop_entry_def keys_ascending_filter)

text \<open>\<open>contains\<close>, \<open>size\<close>, \<open>empty\<close> and \<open>emplace\<close> (which keeps an entry that is there).\<close>

definition contains :: "('k::linorder, 'v) std_map \<Rightarrow> 'k \<Rightarrow> bool" where
  "contains m k = (lookup m k \<noteq> None)"

definition map_size :: "('k::linorder, 'v) std_map \<Rightarrow> nat" where
  "map_size m = length (entries m)"

definition emplace :: "'k::linorder \<Rightarrow> 'v \<Rightarrow> ('k, 'v) std_map \<Rightarrow> ('k, 'v) std_map" where
  "emplace k v m = (if contains m k then m else insert_or_assign k v m)"

definition of_entries :: "('k::linorder \<times> 'v) list \<Rightarrow> ('k, 'v) std_map" where
  "of_entries xs = foldl (\<lambda>m (k, v). emplace k v m) map_empty xs"

text \<open>A range-for over the entries that stops at the first failure.\<close>

definition all_entries :: "('k::linorder \<Rightarrow> 'v \<Rightarrow> bool) \<Rightarrow> ('k, 'v) std_map \<Rightarrow> bool" where
  "all_entries P m = list_all (\<lambda>(k, v). P k v) (entries m)"

text \<open>Rewriting every stored value in place.\<close>

lift_definition map_values :: "('v \<Rightarrow> 'w) \<Rightarrow> ('k::linorder, 'v) std_map \<Rightarrow> ('k, 'w) std_map"
  is "\<lambda>f. map (\<lambda>(k, v). (k, f v))"
  by (simp add: case_prod_beta comp_def)

instantiation std_map :: (linorder, equal) equal
begin

definition equal_std_map :: "('a, 'b) std_map \<Rightarrow> ('a, 'b) std_map \<Rightarrow> bool" where
  "equal_std_map m n = (entries m = entries n)"

instance
  by standard (simp add: equal_std_map_def entries_inject)

end

section \<open>Laws\<close>

lemma map_of_put_entry: "map_of (put_entry k v xs) = (map_of xs)(k \<mapsto> v)"
proof
  fix x
  have lo: "map_of (filter (\<lambda>e. fst e < k) xs) x = (if x < k then map_of xs x else None)"
    by (induction xs) auto
  have hi: "map_of (filter (\<lambda>e. k < fst e) xs) x = (if k < x then map_of xs x else None)"
    by (induction xs) auto
  show "map_of (put_entry k v xs) x = ((map_of xs)(k \<mapsto> v)) x"
    by (auto simp: put_entry_def map_add_def lo hi split: option.splits)
qed

lemma lookup_empty [simp]: "lookup map_empty k = None"
  by transfer simp

lemma lookup_insert_or_assign [simp]:
  "lookup (insert_or_assign k v m) = (lookup m)(k \<mapsto> v)"
  by transfer (rule map_of_put_entry)

lemma lookup_erase [simp]: "lookup (erase k m) = (lookup m)(k := None)"
proof (transfer fixing: k)
  fix xs :: "('a \<times> 'b) list"
  show "map_of (drop_entry k xs) = (map_of xs)(k := None)"
    by (induction xs) (auto simp: drop_entry_def fun_eq_iff)
qed

lemma lookup_map_values [simp]: "lookup (map_values f m) k = map_option f (lookup m k)"
  by transfer (simp add: map_of_map)

lemma lookup_emplace:
  "lookup (emplace k v m) = (if contains m k then lookup m else (lookup m)(k \<mapsto> v))"
  by (simp add: emplace_def)

lemma contains_iff [simp]: "contains m k \<longleftrightarrow> (\<exists>v. lookup m k = Some v)"
  by (simp add: contains_def)

lemma entries_lookup: "(k, v) \<in> set (entries m) \<longleftrightarrow> lookup m k = Some v"
  by transfer (simp add: strict_sorted_iff)

lemma entries_empty [simp]: "entries map_empty = []"
  by transfer simp

lemma std_map_eqI:
  assumes "\<And>k. lookup m k = lookup n k"
  shows "m = n"
proof -
  have "set (entries m) = set (entries n)"
    using assms by (auto simp: entries_lookup)
  moreover have "sorted (map fst (entries m))" "sorted (map fst (entries n))"
    by (simp_all add: strict_sorted_imp_sorted)
  ultimately have "entries m = entries n"
    by (intro map_sorted_distinct_set_unique [where f = fst])
      (auto simp: inj_on_def entries_lookup)
  then show ?thesis by (simp add: entries_inject)
qed

lemma std_map_eq_iff: "m = n \<longleftrightarrow> (\<forall>k. lookup m k = lookup n k)"
  by (auto intro: std_map_eqI)

lemma all_entries_iff: "all_entries P m \<longleftrightarrow> (\<forall>k v. lookup m k = Some v \<longrightarrow> P k v)"
  by (auto simp: all_entries_def list_all_iff entries_lookup)

lemma all_entries_insert:
  "all_entries P m \<Longrightarrow> P k v \<Longrightarrow> all_entries P (insert_or_assign k v m)"
  by (auto simp: all_entries_iff)

lemma all_entries_emplace:
  "all_entries P m \<Longrightarrow> P k v \<Longrightarrow> all_entries P (emplace k v m)"
  by (auto simp: all_entries_iff lookup_emplace split: if_splits)

lemma contains_emplace [simp]: "contains (emplace k v m) x \<longleftrightarrow> x = k \<or> contains m x"
  by (auto simp: lookup_emplace)

lemma map_of_entries [simp]: "map_of (entries m) k = lookup m k"
  by (simp add: lookup.rep_eq)

lemma contains_key_set: "contains m k \<longleftrightarrow> k \<in> fst ` set (entries m)"
  using entries_lookup [of k _ m] by (auto simp: image_iff Bex_def)

lemma foldl_emplace_lookup:
  "lookup (foldl (\<lambda>m (k, v). emplace k v m) m xs) k =
     (case lookup m k of Some v \<Rightarrow> Some v | None \<Rightarrow> map_of xs k)"
  by (induction xs arbitrary: m) (auto simp: lookup_emplace split: option.splits if_splits)

lemma lookup_of_entries [simp]: "lookup (of_entries xs) k = map_of xs k"
  by (simp add: of_entries_def foldl_emplace_lookup)

lemma map_size_eq_card: "map_size m = card {k. contains m k}"
proof -
  have "{k. contains m k} = set (map fst (entries m))"
    by (auto simp: contains_key_set simp del: contains_iff)
  then show ?thesis
    by (metis distinct_card entries_distinct length_map map_size_def)
qed

lemma map_size_of_entries [simp]:
  assumes "distinct (map fst xs)"
  shows "map_size (of_entries xs) = length xs"
proof -
  have "{k. contains (of_entries xs) k} = set (map fst xs)"
    by (force simp: map_of_eq_None_iff [symmetric] image_iff dest: map_of_SomeD
        intro: weak_map_of_SomeI)
  with assms show ?thesis
    by (metis distinct_card length_map map_size_eq_card)
qed

section \<open>The interface clients rely on\<close>

text \<open>
  What a keyed store promises its clients: a successful insertion is seen by the next lookup,
  leaves every other key alone, and a store is determined by its lookups.
\<close>

locale keyed_store =
  fixes look :: "'m \<Rightarrow> 'k \<Rightarrow> 'v option"
    and put :: "'k \<Rightarrow> 'v \<Rightarrow> 'm \<Rightarrow> 'm"
    and del :: "'k \<Rightarrow> 'm \<Rightarrow> 'm"
  assumes look_put: "look (put k v m) = (look m)(k \<mapsto> v)"
    and look_del: "look (del k m) = (look m)(k := None)"
    and ext: "(\<And>k. look m k = look n k) \<Longrightarrow> m = n"
begin

text \<open>Setting a key to an optional value: assign it, or erase it.\<close>

definition assign :: "'k \<Rightarrow> 'v option \<Rightarrow> 'm \<Rightarrow> 'm" where
  "assign k x m = (case x of Some v \<Rightarrow> put k v m | None \<Rightarrow> del k m)"

lemma look_assign: "look (assign k x m) = (look m)(k := x)"
  by (cases x) (simp_all add: assign_def look_put look_del)

lemma assign_current: "look m k = x \<Longrightarrow> assign k x m = m"
  by (rule ext) (simp add: look_assign fun_upd_idem)

lemma assign_assign: "assign k y (assign k x m) = assign k y m"
  by (rule ext) (simp add: look_assign)

lemma assign_commute: "k \<noteq> l \<Longrightarrow> assign k x (assign l y m) = assign l y (assign k x m)"
  by (rule ext) (auto simp: look_assign fun_upd_twist)

end

interpretation std: keyed_store lookup insert_or_assign erase
  by unfold_locales (auto intro: std_map_eqI)

end
