(* ===== verification/Cells.thy ===== *)
theory Cells
  imports Std_Map
begin

text \<open>
  Point changes on a store of cells: the idea behind \<open>AuthoringChange\<close>. A store is anything with
  a read and a write per key; a list of changes runs on it by checking each \<open>before\<close> value and
  writing the \<open>after\<close> value. The locale proves once what the three kinds of store of a Project
  (keyed maps, the Pad banks, the Pattern slot table) need.
\<close>

record 'v authoring_change =
  before :: 'v
  after :: 'v

definition difference :: "'v \<Rightarrow> 'v \<Rightarrow> 'v authoring_change option" where
  "difference x y = (if x = y then None else Some \<lparr>before = x, after = y\<rparr>)"

definition swap_change :: "'v authoring_change \<Rightarrow> 'v authoring_change" where
  "swap_change c = \<lparr>before = after c, after = before c\<rparr>"

text \<open>One change after another on the same cell.\<close>

definition join_changes ::
  "'v authoring_change option \<Rightarrow> 'v authoring_change option \<Rightarrow> 'v authoring_change option option" where
  "join_changes x y =
     (case (x, y) of
        (_, None) \<Rightarrow> Some x
      | (None, Some _) \<Rightarrow> Some y
      | (Some c, Some d) \<Rightarrow>
          if after c \<noteq> before d then None else Some (difference (before c) (after d)))"

fun run_changes ::
  "('m \<Rightarrow> 'k \<Rightarrow> 'v) \<Rightarrow> ('k \<Rightarrow> 'v \<Rightarrow> 'm \<Rightarrow> 'm) \<Rightarrow> ('k \<times> 'v authoring_change) list \<Rightarrow> 'm \<Rightarrow> 'm option" where
  "run_changes get put [] m = Some m"
| "run_changes get put ((k, c) # cs) m =
     (if get m k \<noteq> before c \<or> before c = after c then None
      else run_changes get put cs (put k (after c) m))"

lemma difference_simps [simp]:
  "difference x x = None"
  "difference x y = None \<longleftrightarrow> x = y"
  "difference x y = Some c \<longleftrightarrow> x \<noteq> y \<and> before c = x \<and> after c = y"
  by (auto simp: difference_def)

lemma difference_swap: "difference y x = map_option swap_change (difference x y)"
  by (simp add: difference_def swap_change_def)

lemma swap_swap [simp]: "swap_change (swap_change c) = c"
  by (simp add: swap_change_def)

lemma swap_fields [simp]: "before (swap_change c) = after c" "after (swap_change c) = before c"
  by (simp_all add: swap_change_def)

lemma join_None [simp]: "join_changes x None = Some x"
  by (cases x) (simp_all add: join_changes_def)

lemma join_difference [simp]:
  "join_changes (difference x y) (difference y z) = Some (difference x z)"
  by (auto simp: join_changes_def difference_def)

locale cells =
  fixes get :: "'m \<Rightarrow> 'k \<Rightarrow> 'v" and put :: "'k \<Rightarrow> 'v \<Rightarrow> 'm \<Rightarrow> 'm"
    and store_ok :: "'m \<Rightarrow> bool" and key_ok :: "'k \<Rightarrow> bool"
  assumes get_put: "store_ok m \<Longrightarrow> key_ok k \<Longrightarrow> key_ok l \<Longrightarrow>
      get (put k v m) l = (if l = k then v else get m l)"
    and store_ok_put: "store_ok m \<Longrightarrow> key_ok k \<Longrightarrow> store_ok (put k v m)"
    and cells_ext: "store_ok m \<Longrightarrow> store_ok n \<Longrightarrow> (\<And>k. key_ok k \<Longrightarrow> get m k = get n k) \<Longrightarrow> m = n"
begin

definition keys_ok :: "('k \<times> 'v authoring_change) list \<Rightarrow> bool" where
  "keys_ok cs \<longleftrightarrow> distinct (map fst cs) \<and> (\<forall>k \<in> fst ` set cs. key_ok k)"

lemma run_store_ok:
  "run_changes get put cs m = Some n \<Longrightarrow> keys_ok cs \<Longrightarrow> store_ok m \<Longrightarrow> store_ok n"
  by (induction cs arbitrary: m) (auto simp: keys_ok_def store_ok_put split: if_splits)

text \<open>Running a list of changes from \<open>m\<close> to \<open>n\<close> is being the difference of \<open>m\<close> and \<open>n\<close>.\<close>

lemma run_changes_iff:
  assumes "keys_ok cs" "store_ok m" "store_ok n"
  shows "run_changes get put cs m = Some n \<longleftrightarrow>
    (\<forall>k. key_ok k \<longrightarrow> map_of cs k = difference (get m k) (get n k))"
  using assms
proof (induction cs arbitrary: m)
  case Nil
  then show ?case using cells_ext [of m n] by (auto simp: difference_def split: if_splits)
next
  case (Cons kc cs)
  obtain k c where kc: "kc = (k, c)" by fastforce
  with Cons.prems have k: "key_ok k" "k \<notin> fst ` set cs" "keys_ok cs" by (auto simp: keys_ok_def)
  let ?m = "put k (after c) m"
  have get': "get ?m l = (if l = k then after c else get m l)" if "key_ok l" for l
    using get_put Cons.prems(2) k(1) that by blast
  have none: "map_of cs k = None" using k(2) by (simp add: map_of_eq_None_iff)
  have ih: "run_changes get put cs ?m = Some n \<longleftrightarrow>
      (\<forall>l. key_ok l \<longrightarrow> map_of cs l = difference (get ?m l) (get n l))"
    using Cons.IH [OF k(3) store_ok_put [OF Cons.prems(2) k(1)] Cons.prems(3)] .
  show ?case
  proof
    assume run: "run_changes get put (kc # cs) m = Some n"
    with kc have c: "get m k = before c" "before c \<noteq> after c" and "run_changes get put cs ?m = Some n"
      by (auto split: if_splits)
    with ih have rest: "map_of cs l = difference (get ?m l) (get n l)" if "key_ok l" for l
      using that by blast
    have "get n k = after c"
      using rest [OF k(1)] none get' [OF k(1)] by (auto simp: difference_def split: if_splits)
    then show "\<forall>l. key_ok l \<longrightarrow> map_of (kc # cs) l = difference (get m l) (get n l)"
      using c rest get' kc by (auto simp: difference_def)
  next
    assume diff: "\<forall>l. key_ok l \<longrightarrow> map_of (kc # cs) l = difference (get m l) (get n l)"
    with kc k(1) have c: "difference (get m k) (get n k) = Some c" by (metis map_of_Cons_code(2))
    have "map_of cs l = difference (get ?m l) (get n l)" if "key_ok l" for l
      using diff that get' [OF that] c none kc by (cases "l = k") auto
    with ih c kc show "run_changes get put (kc # cs) m = Some n" by auto
  qed
qed

lemma run_reverse:
  assumes "keys_ok cs" "store_ok m" "run_changes get put cs m = Some n"
  shows "run_changes get put (map (map_prod id swap_change) cs) n = Some m"
proof -
  note n = run_store_ok [OF assms(3,1,2)]
  have "map_of (map (map_prod id swap_change) cs) k = map_option swap_change (map_of cs k)" for k
    by (induction cs) auto
  moreover have "keys_ok (map (map_prod id swap_change) cs)"
    using assms(1) by (auto simp: keys_ok_def comp_def)
  ultimately show ?thesis
    using run_changes_iff [OF assms(1,2) n] run_changes_iff [OF _ n assms(2)] assms(3)
      difference_swap by metis
qed

lemma run_succeeds:
  assumes "keys_ok cs" "store_ok m"
    and "\<And>k c. (k, c) \<in> set cs \<Longrightarrow> get m k = before c \<and> before c \<noteq> after c"
  shows "\<exists>n. run_changes get put cs m = Some n"
  using assms
proof (induction cs arbitrary: m)
  case (Cons kc cs)
  obtain k c where kc: "kc = (k, c)" by fastforce
  have k: "key_ok k" "k \<notin> fst ` set cs" "keys_ok cs" using Cons.prems(1) kc by (auto simp: keys_ok_def)
  have "\<exists>n. run_changes get put cs (put k (after c) m) = Some n"
  proof (rule Cons.IH [OF k(3) store_ok_put [OF Cons.prems(2) k(1)]])
    fix l d
    assume ld: "(l, d) \<in> set cs"
    then have "l \<in> fst ` set cs" by force
    then have "l \<noteq> k" "key_ok l" using k by (auto simp: keys_ok_def)
    with ld Cons.prems(2,3) k(1) show "get (put k (after c) m) l = before d \<and> before d \<noteq> after d"
      by (auto simp: get_put)
  qed
  moreover have "get m k = before c \<and> before c \<noteq> after c" using Cons.prems(3) [of k c] kc by simp
  ultimately show ?case using kc by auto
qed simp

end

sublocale keyed_store \<subseteq> cell: cells look assign "\<lambda>_. True" "\<lambda>_. True"
  by unfold_locales (auto simp: look_assign intro: ext)

end
