(* ===== verification/Foundation.thy ===== *)
theory Foundation
  imports Std_Map
begin

unbundle bit_operations_syntax

text \<open>
  The product-neutral base module \<open>packages/foundation\<close>: typed errors and results
  (\<open>error.hpp\<close>), identifiers (\<open>ids.hpp\<close>), artifact references (\<open>artifact.hpp\<close>), UTF-8
  validation (\<open>json.cpp\<close>), and the text rules for digests, UUIDs and versions which the
  authoring domain (\<open>project.cpp\<close>) and the Sound Set reader (\<open>soundset_manifest.cpp\<close>)
  each implement on their own.
\<close>

section \<open>Errors and results\<close>

datatype error_code =
    invalid_argument
  | not_found
  | revision_conflict
  | duplicate_id
  | unsupported_audio
  | missing_asset
  | invalid_project
  | cook_failed
  | bank_quota_exhausted
  | project_quota_exhausted
  | provider_not_found
  | provider_failed
  | permission_denied
  | io_error
  | internal_error

fun error_code_name :: "error_code \<Rightarrow> string" where
  "error_code_name invalid_argument = ''INVALID_ARGUMENT''"
| "error_code_name not_found = ''NOT_FOUND''"
| "error_code_name revision_conflict = ''REVISION_CONFLICT''"
| "error_code_name duplicate_id = ''DUPLICATE_ID''"
| "error_code_name unsupported_audio = ''UNSUPPORTED_AUDIO''"
| "error_code_name missing_asset = ''MISSING_ASSET''"
| "error_code_name invalid_project = ''INVALID_PROJECT''"
| "error_code_name cook_failed = ''COOK_FAILED''"
| "error_code_name bank_quota_exhausted = ''BANK_QUOTA_EXHAUSTED''"
| "error_code_name project_quota_exhausted = ''PROJECT_QUOTA_EXHAUSTED''"
| "error_code_name provider_not_found = ''PROVIDER_NOT_FOUND''"
| "error_code_name provider_failed = ''PROVIDER_FAILED''"
| "error_code_name permission_denied = ''PERMISSION_DENIED''"
| "error_code_name io_error = ''IO_ERROR''"
| "error_code_name internal_error = ''INTERNAL_ERROR''"

text \<open>
  \<open>Error::details\<close> and a command's event are JSON objects the code only ever writes: a braced
  list of key/value pairs, then assignments through \<open>operator[]\<close>. They are modelled as the
  list of those writes, in order, with the C++ value each write passes to the JSON library.
\<close>

datatype json_arg = ArgString string | ArgUnsigned u64 | ArgSlots "u8 list" | ArgNull

type_synonym json_writes = "(string \<times> json_arg) list"

record error =
  err_code :: error_code
  err_message :: string
  err_details :: json_writes

type_synonym 'a result = "error + 'a"

abbreviation failure :: "error \<Rightarrow> 'a result" where
  "failure e \<equiv> Inl e"

abbreviation success :: "'a \<Rightarrow> 'a result" where
  "success v \<equiv> Inr v"

definition mk_error :: "error_code \<Rightarrow> string \<Rightarrow> error" where
  "mk_error c msg = \<lparr>err_code = c, err_message = msg, err_details = []\<rparr>"

section \<open>Identifiers and artifact references\<close>

text \<open>Each \<open>StrongId<Tag>\<close> wraps a string and inherits its comparison.\<close>

type_synonym project_id = string
type_synonym command_id = string
type_synonym asset_id = string
type_synonym pattern_id = string
type_synonym performance_id = string
type_synonym attempt_id = string

record artifact_ref =
  art_sha256 :: string
  art_media_type :: string
  art_byte_length :: u64

section \<open>Digests, UUIDs and versions\<close>

definition is_lower_hex :: "char \<Rightarrow> bool" where
  "is_lower_hex c = ((CHR ''0'' \<le> c \<and> c \<le> CHR ''9'') \<or> (CHR ''a'' \<le> c \<and> c \<le> CHR ''f''))"

definition is_digit :: "char \<Rightarrow> bool" where
  "is_digit c = (CHR ''0'' \<le> c \<and> c \<le> CHR ''9'')"

definition valid_sha256 :: "string \<Rightarrow> bool" where
  "valid_sha256 s = (length s = 64 \<and> list_all is_lower_hex s)"

definition is_valid_uuid :: "string \<Rightarrow> bool" where
  "is_valid_uuid s =
     (if length s \<noteq> 36 \<or> s ! 8 \<noteq> CHR ''-'' \<or> s ! 13 \<noteq> CHR ''-'' \<or>
         s ! 18 \<noteq> CHR ''-'' \<or> s ! 23 \<noteq> CHR ''-'' then False
      else if \<not> list_all (\<lambda>i. i = 8 \<or> i = 13 \<or> i = 18 \<or> i = 23 \<or> is_lower_hex (s ! i))
                [0..<length s] then False
      else CHR ''1'' \<le> s ! 14 \<and> s ! 14 \<le> CHR ''5'' \<and>
           (s ! 19 = CHR ''8'' \<or> s ! 19 = CHR ''9'' \<or> s ! 19 = CHR ''a'' \<or> s ! 19 = CHR ''b''))"

text \<open>
  The scan of \<open>valid_soundset_semver\<close>: three digit runs, separated by dots, none with a
  leading zero. \<open>semver_part\<close> is one pass of the loop body after the dot, returning what is
  left of the text.
\<close>

definition semver_part :: "string \<Rightarrow> string option" where
  "semver_part s =
     (let digits = takeWhile is_digit s
      in if digits = [] \<or> (1 < length digits \<and> hd digits = CHR ''0'') then None
         else Some (dropWhile is_digit s))"

definition semver_dot :: "string \<Rightarrow> string option" where
  "semver_dot s = (case s of [] \<Rightarrow> None | c # cs \<Rightarrow> if c = CHR ''.'' then Some cs else None)"

definition valid_soundset_semver :: "string \<Rightarrow> bool" where
  "valid_soundset_semver s =
     (case semver_part s of None \<Rightarrow> False | Some s1 \<Rightarrow>
      (case Option.bind (semver_dot s1) semver_part of None \<Rightarrow> False | Some s2 \<Rightarrow>
       (case Option.bind (semver_dot s2) semver_part of None \<Rightarrow> False | Some s3 \<Rightarrow> s3 = [])))"

text \<open>
  The regular expressions of \<open>soundset_manifest.cpp\<close>, as the languages they denote:
  \<open>kUuid\<close> and \<open>kSha256\<close> are fixed sequences of character classes, \<open>kSemver\<close> three
  decimal numerals without leading zeros, joined by dots.
\<close>

definition hex_run :: "nat \<Rightarrow> (char \<Rightarrow> bool) list" where
  "hex_run n = replicate n is_lower_hex"

definition kUuid :: "(char \<Rightarrow> bool) list" where
  "kUuid = hex_run 8 @ [\<lambda>c. c = CHR ''-''] @ hex_run 4 @ [\<lambda>c. c = CHR ''-''] @
     [\<lambda>c. CHR ''1'' \<le> c \<and> c \<le> CHR ''5''] @ hex_run 3 @ [\<lambda>c. c = CHR ''-''] @
     [\<lambda>c. c = CHR ''8'' \<or> c = CHR ''9'' \<or> c = CHR ''a'' \<or> c = CHR ''b''] @ hex_run 3 @
     [\<lambda>c. c = CHR ''-''] @ hex_run 12"

definition kSha256 :: "(char \<Rightarrow> bool) list" where
  "kSha256 = hex_run 64"

definition regex_match :: "(char \<Rightarrow> bool) list \<Rightarrow> string \<Rightarrow> bool" where
  "regex_match ps s = list_all2 (\<lambda>P c. P c) ps s"

definition semver_numeral :: "string \<Rightarrow> bool" where
  "semver_numeral s =
     (s = ''0'' \<or> (s \<noteq> [] \<and> CHR ''1'' \<le> hd s \<and> hd s \<le> CHR ''9'' \<and> list_all is_digit (tl s)))"

fun split_dots :: "string \<Rightarrow> string list" where
  "split_dots [] = [[]]"
| "split_dots (c # cs) =
     (if c = CHR ''.'' then [] # split_dots cs
      else (case split_dots cs of [] \<Rightarrow> [[c]] | p # ps \<Rightarrow> (c # p) # ps))"

definition kSemver_match :: "string \<Rightarrow> bool" where
  "kSemver_match s = (length (split_dots s) = 3 \<and> list_all semver_numeral (split_dots s))"

section \<open>UTF-8\<close>

definition byte_of :: "char \<Rightarrow> u8" where
  "byte_of c = of_char c"

text \<open>Absorbing continuation bytes into a code point; \<open>None\<close> when a byte is not one.\<close>

fun absorb_continuation :: "u32 \<Rightarrow> u8 list \<Rightarrow> u32 option" where
  "absorb_continuation cp [] = Some cp"
| "absorb_continuation cp (b # bs) =
     (if b AND 0xc0 \<noteq> 0x80 then None
      else absorb_continuation ((push_bit 6 cp) OR ucast (b AND 0x3f)) bs)"

text \<open>\<open>foundation::valid_utf8\<close>: the lead byte decides the length, by ranges.\<close>

definition utf8_lead_by_range :: "u8 \<Rightarrow> (nat \<times> u32) option" where
  "utf8_lead_by_range b =
     (if 0xc2 \<le> b \<and> b \<le> 0xdf then Some (2, ucast (b AND 0x1f))
      else if 0xe0 \<le> b \<and> b \<le> 0xef then Some (3, ucast (b AND 0x0f))
      else if 0xf0 \<le> b \<and> b \<le> 0xf4 then Some (4, ucast (b AND 0x07))
      else None)"

definition outside_unicode :: "u32 \<Rightarrow> bool" where
  "outside_unicode cp = (0x10ffff < cp \<or> (0xd800 \<le> cp \<and> cp \<le> 0xdfff))"

definition short_form_exists :: "nat \<Rightarrow> u32 \<Rightarrow> bool" where
  "short_form_exists n cp = ((n = 3 \<and> cp < 0x800) \<or> (n = 4 \<and> cp < 0x10000))"

function valid_utf8_bytes :: "u8 list \<Rightarrow> bool" where
  "valid_utf8_bytes [] = True"
| "valid_utf8_bytes (b # bs) =
     (if b \<le> 0x7f then valid_utf8_bytes bs
      else case utf8_lead_by_range b of None \<Rightarrow> False
       | Some (n, cp0) \<Rightarrow>
           if length (b # bs) < n then False
           else case absorb_continuation cp0 (take (n - 1) bs) of None \<Rightarrow> False
             | Some cp \<Rightarrow>
                 if short_form_exists n cp \<or> outside_unicode cp then False
                 else valid_utf8_bytes (drop (n - 1) bs))"
  by pat_completeness auto
termination
  by (relation "measure length") auto

definition valid_utf8 :: "string \<Rightarrow> bool" where
  "valid_utf8 s = valid_utf8_bytes (map byte_of s)"

text \<open>
  \<open>utf8_code_point_count\<close> of the authoring domain: the lead byte decides the length by its
  high bits, and overlong forms are refused after decoding.
\<close>

definition utf8_lead_by_mask :: "u8 \<Rightarrow> (nat \<times> u32) option" where
  "utf8_lead_by_mask b =
     (if b \<le> 0x7f then Some (1, ucast b)
      else if b AND 0xe0 = 0xc0 then Some (2, ucast (b AND 0x1f))
      else if b AND 0xf0 = 0xe0 then Some (3, ucast (b AND 0x0f))
      else if b AND 0xf8 = 0xf0 then Some (4, ucast (b AND 0x07))
      else None)"

definition overlong :: "nat \<Rightarrow> u32 \<Rightarrow> bool" where
  "overlong n cp =
     ((n = 2 \<and> cp < 0x80) \<or> (n = 3 \<and> cp < 0x800) \<or> (n = 4 \<and> cp < 0x10000))"

function utf8_count_bytes :: "nat \<Rightarrow> u8 list \<Rightarrow> nat option" where
  "utf8_count_bytes count [] = Some count"
| "utf8_count_bytes count (b # bs) =
     (case utf8_lead_by_mask b of None \<Rightarrow> None
      | Some (n, cp0) \<Rightarrow>
          if length (b # bs) < n then None
          else case absorb_continuation cp0 (take (n - 1) bs) of None \<Rightarrow> None
            | Some cp \<Rightarrow>
                if overlong n cp \<or> outside_unicode cp then None
                else utf8_count_bytes (Suc count) (drop (n - 1) bs))"
  by pat_completeness auto
termination
  by (relation "measure (\<lambda>(_, bs). length bs)") auto

definition utf8_code_point_count :: "string \<Rightarrow> nat option" where
  "utf8_code_point_count s = utf8_count_bytes 0 (map byte_of s)"

declare valid_utf8_bytes.simps(2) [simp del] utf8_count_bytes.simps(2) [simp del]

section \<open>The text rules agree\<close>

lemma error_code_name_inj: "error_code_name a = error_code_name b \<Longrightarrow> a = b"
  by (cases a; cases b) simp_all

lemma kUuid_length: "length kUuid = 36"
  by (simp add: kUuid_def hex_run_def)

lemma kUuid_nth:
  assumes "i < 36"
  shows "kUuid ! i =
    (if i = 8 \<or> i = 13 \<or> i = 18 \<or> i = 23 then (\<lambda>c. c = CHR ''-'')
     else if i = 14 then (\<lambda>c. CHR ''1'' \<le> c \<and> c \<le> CHR ''5'')
     else if i = 19 then (\<lambda>c. c = CHR ''8'' \<or> c = CHR ''9'' \<or> c = CHR ''a'' \<or> c = CHR ''b'')
     else is_lower_hex)"
proof -
  from assms have "i \<in> set [0..<36]" by simp
  moreover have "list_all (\<lambda>i. kUuid ! i =
    (if i = 8 \<or> i = 13 \<or> i = 18 \<or> i = 23 then (\<lambda>c. c = CHR ''-'')
     else if i = 14 then (\<lambda>c. CHR ''1'' \<le> c \<and> c \<le> CHR ''5'')
     else if i = 19 then (\<lambda>c. c = CHR ''8'' \<or> c = CHR ''9'' \<or> c = CHR ''a'' \<or> c = CHR ''b'')
     else is_lower_hex)) [0..<36]"
    by (simp add: upt_rec kUuid_def hex_run_def numeral_eq_Suc)
  ultimately show ?thesis unfolding list_all_iff by blast
qed

lemma digit_class_hex:
  "CHR ''1'' \<le> c \<Longrightarrow> c \<le> CHR ''5'' \<Longrightarrow> is_lower_hex c"
  "c = CHR ''8'' \<or> c = CHR ''9'' \<or> c = CHR ''a'' \<or> c = CHR ''b'' \<Longrightarrow> is_lower_hex c"
  by (auto simp: is_lower_hex_def less_eq_char_def)

text \<open>The hand-written UUID check accepts exactly the language of the regular expression.\<close>

lemma is_valid_uuid_regex: "is_valid_uuid s \<longleftrightarrow> regex_match kUuid s"
proof (cases "length s = 36")
  case True
  have "regex_match kUuid s \<longleftrightarrow> (\<forall>i<36. (kUuid ! i) (s ! i))"
    by (simp add: regex_match_def list_all2_conv_all_nth True kUuid_length)
  also have "\<dots> \<longleftrightarrow> is_valid_uuid s"
  proof
    assume a: "\<forall>i<36. (kUuid ! i) (s ! i)"
    have "i = 8 \<or> i = 13 \<or> i = 18 \<or> i = 23 \<or> is_lower_hex (s ! i)" if "i < 36" for i
      using a [rule_format, OF that] kUuid_nth [OF that] digit_class_hex [of "s ! i"]
      by (auto split: if_splits)
    then show "is_valid_uuid s"
      using a [rule_format, of 8] a [rule_format, of 13] a [rule_format, of 18]
        a [rule_format, of 23] a [rule_format, of 14] a [rule_format, of 19]
      by (auto simp: is_valid_uuid_def True list_all_iff kUuid_nth)
  next
    assume "is_valid_uuid s"
    then show "\<forall>i<36. (kUuid ! i) (s ! i)"
      by (auto simp: is_valid_uuid_def True list_all_iff kUuid_nth split: if_splits)
  qed
  finally show ?thesis by simp
next
  case False
  then show ?thesis
    by (auto simp: is_valid_uuid_def regex_match_def kUuid_length dest: list_all2_lengthD)
qed

lemma valid_sha256_regex: "valid_sha256 s \<longleftrightarrow> regex_match kSha256 s"
  by (auto simp: valid_sha256_def regex_match_def kSha256_def hex_run_def list_all2_conv_all_nth
      list_all_length)

text \<open>Versions: the scan and the regular expression accept the same dotted numerals.\<close>

definition dotted_numerals :: "string \<Rightarrow> bool" where
  "dotted_numerals s \<longleftrightarrow>
     (\<exists>a b c. s = a @ ''.'' @ b @ ''.'' @ c \<and>
        semver_numeral a \<and> semver_numeral b \<and> semver_numeral c)"

lemma semver_numeral_digits: "semver_numeral d \<Longrightarrow> list_all is_digit d \<and> d \<noteq> []"
  by (cases d) (auto simp: semver_numeral_def is_digit_def less_eq_char_def)

lemma dot_not_digit [simp]: "\<not> is_digit CHR ''.''"
  by (simp add: is_digit_def less_eq_char_def)

lemma semver_numeral_iff:
  assumes "list_all is_digit d"
  shows "semver_numeral d \<longleftrightarrow> d \<noteq> [] \<and> \<not> (1 < length d \<and> hd d = CHR ''0'')"
proof (cases d)
  case (Cons c cs)
  have "CHR ''1'' \<le> c \<longleftrightarrow> c \<noteq> CHR ''0''" if "CHR ''0'' \<le> c"
  proof -
    from that have "48 \<le> (of_char c :: nat)" by (simp add: less_eq_char_def)
    moreover have "(of_char c :: nat) = 48 \<longleftrightarrow> c = CHR ''0''"
      using of_char_eq_iff [where 'a = nat, of c "CHR ''0''"] by simp
    ultimately show ?thesis by (auto simp: less_eq_char_def)
  qed
  with assms Cons show ?thesis by (auto simp: semver_numeral_def is_digit_def)
qed (simp add: semver_numeral_def)

lemma semver_part_append:
  assumes "semver_numeral d" "r = [] \<or> \<not> is_digit (hd r)"
  shows "semver_part (d @ r) = Some r"
proof -
  from assms(1) have dig: "list_all is_digit d" using semver_numeral_digits by blast
  then have "takeWhile is_digit (d @ r) = d" "dropWhile is_digit (d @ r) = r"
    using assms(2) by (cases r; auto simp: list_all_iff)+
  with assms(1) dig show ?thesis
    by (simp add: semver_part_def Let_def semver_numeral_iff)
qed

lemma semver_part_Some:
  assumes "semver_part s = Some r"
  obtains d where "s = d @ r" "semver_numeral d"
proof
  have "list_all is_digit (takeWhile is_digit s)"
    by (auto simp: list_all_iff dest: set_takeWhileD)
  with assms show "semver_numeral (takeWhile is_digit s)"
    by (auto simp: semver_part_def Let_def semver_numeral_iff split: if_splits)
  from assms show "s = takeWhile is_digit s @ r"
    by (auto simp: semver_part_def Let_def split: if_splits)
qed

lemma semver_scan_dotted: "valid_soundset_semver s \<longleftrightarrow> dotted_numerals s"
proof
  assume "valid_soundset_semver s"
  then obtain s1 t1 s2 t2 where
      "semver_part s = Some s1" "semver_dot s1 = Some t1" "semver_part t1 = Some s2"
      "semver_dot s2 = Some t2" "semver_part t2 = Some []"
    by (auto simp: valid_soundset_semver_def bind_eq_Some_conv split: option.splits)
  moreover from this have "s1 = ''.'' @ t1" "s2 = ''.'' @ t2"
    by (auto simp: semver_dot_def split: list.splits if_splits)
  ultimately show "dotted_numerals s"
    unfolding dotted_numerals_def by (metis append_Nil2 semver_part_Some)
next
  assume "dotted_numerals s"
  then obtain a b c where "s = a @ ''.'' @ b @ ''.'' @ c"
      "semver_numeral a" "semver_numeral b" "semver_numeral c"
    unfolding dotted_numerals_def by blast
  moreover from this have "semver_part c = Some []"
    using semver_part_append [of c "[]"] by simp
  ultimately show "valid_soundset_semver s"
    by (simp add: valid_soundset_semver_def semver_part_append semver_dot_def)
qed

lemma split_dots_nonempty [simp]: "split_dots s \<noteq> []"
  by (induction s) (auto split: list.splits)

lemma split_dots_no_dot: "CHR ''.'' \<notin> set d \<Longrightarrow> split_dots d = [d]"
  by (induction d) auto

lemma split_dots_append:
  "CHR ''.'' \<notin> set d \<Longrightarrow> split_dots (d @ CHR ''.'' # r) = d # split_dots r"
  by (induction d) auto

lemma split_dots_concat: "split_dots s = p # q # ps \<Longrightarrow>
    \<exists>r. s = p @ CHR ''.'' # r \<and> split_dots r = q # ps"
proof (induction s arbitrary: p)
  case (Cons c cs)
  then show ?case by (fastforce split: if_splits list.splits)
qed simp

lemma split_dots_single: "split_dots s = [p] \<Longrightarrow> s = p"
proof (induction s arbitrary: p)
  case (Cons c cs)
  then show ?case by (auto split: if_splits list.splits)
qed simp

lemma semver_numeral_no_dot: "semver_numeral d \<Longrightarrow> CHR ''.'' \<notin> set d"
  using semver_numeral_digits [of d] by (auto simp: list_all_iff)

lemma semver_regex_dotted: "kSemver_match s \<longleftrightarrow> dotted_numerals s"
proof
  assume "kSemver_match s"
  then obtain a b c where abc: "split_dots s = [a, b, c]"
      "semver_numeral a" "semver_numeral b" "semver_numeral c"
    by (auto simp: kSemver_match_def length_Suc_conv numeral_3_eq_3)
  then obtain r where "s = a @ CHR ''.'' # r" "split_dots r = [b, c]"
    using split_dots_concat by blast
  moreover from this obtain r' where "r = b @ CHR ''.'' # r'" "split_dots r' = [c]"
    using split_dots_concat by blast
  ultimately show "dotted_numerals s"
    unfolding dotted_numerals_def using abc split_dots_single by fastforce
next
  assume "dotted_numerals s"
  then show "kSemver_match s"
    by (auto simp: dotted_numerals_def kSemver_match_def split_dots_append
        split_dots_no_dot semver_numeral_no_dot)
qed

end
