(* ===== verification/Project_Data.thy ===== *)
theory Project_Data
  imports Foundation
begin

text \<open>
  The data model of Project Truth: the structs, enums and variants of
  \<open>packages/authoring-domain/include/lmdj/domain/project.hpp\<close>, in its order.

  A scoped enum is a datatype with the source's enumerators. A C++ enum with a fixed
  underlying type can also hold a value that names no enumerator, and the code checks for it
  (\<open>is_valid_eq_kind\<close>, \<open>valid_filter_type\<close>, the \<open>default\<close> branches of
  \<open>is_valid_playback\<close>); those enums carry one more constructor, \<open>\<dots>_unlisted\<close>.
  \<open>PerformanceFx\<close>, which the code also uses as an array index and in JSON, is its underlying
  byte with named values.

  \<open>std::array\<close> members are lists; \<open>array_extents\<close> states the extents the C++ types fix.
\<close>

section \<open>Constants\<close>

abbreviation "kPpq \<equiv> 960 :: u32"
abbreviation "kSixteenthTicks \<equiv> 240 :: u32"
abbreviation "kBarTicks4x4 \<equiv> 3840 :: u32"
abbreviation "kSwingPercentMin \<equiv> 50 :: u8"
abbreviation "kSwingPercentMax \<equiv> 75 :: u8"
abbreviation "kPerformanceNameMax \<equiv> 64 :: nat"
abbreviation "kPerformancePadSlotMax \<equiv> 63 :: u8"
abbreviation "kPatternSlotCount \<equiv> 16 :: u8"
abbreviation "kPatternSlotMax \<equiv> 15 :: u8"
abbreviation "kFxValueMax \<equiv> 1000 :: u16"
abbreviation "kFxCount \<equiv> 8 :: u8"
abbreviation "kFilterCutoffHzMin \<equiv> 20 :: u16"
abbreviation "kFilterCutoffHzMax \<equiv> 20000 :: u16"
abbreviation "kFilterResonanceMilliMax \<equiv> 1000 :: u16"
abbreviation "kPadColourCount \<equiv> 5 :: u8"
abbreviation "kSoundSetSlotCount \<equiv> 16 :: u8"

section \<open>Contract versions\<close>

datatype project_contract = PC_v1 | PC_v2 | PC_v3 | PC_v4 | PC_v5

primrec contract_ordinal :: "project_contract \<Rightarrow> nat" where
  "contract_ordinal PC_v1 = 0"
| "contract_ordinal PC_v2 = 1"
| "contract_ordinal PC_v3 = 2"
| "contract_ordinal PC_v4 = 3"
| "contract_ordinal PC_v5 = 4"

lemma contract_ordinal_inj: "contract_ordinal a = contract_ordinal b \<longleftrightarrow> a = b"
  by (cases a; cases b) simp_all

instantiation project_contract :: linorder
begin

definition less_eq_project_contract :: "project_contract \<Rightarrow> project_contract \<Rightarrow> bool" where
  "less_eq_project_contract a b = (contract_ordinal a \<le> contract_ordinal b)"

definition less_project_contract :: "project_contract \<Rightarrow> project_contract \<Rightarrow> bool" where
  "less_project_contract a b = (contract_ordinal a < contract_ordinal b)"

instance
  by standard
    (auto simp: less_eq_project_contract_def less_project_contract_def contract_ordinal_inj
      dest: antisym)

end

section \<open>Pads and playback\<close>

datatype trigger_mode =
    TM_one_shot | TM_gate | TM_loop_gate | TM_loop_toggle | TM_unlisted u8

datatype loop_mode = LM_forward | LM_ping_pong | LM_unlisted u8

datatype eq_band_kind = EQ_shelf | EQ_cut | EQ_unlisted u8

record pad_eq_shelf =
  shelf_kind :: eq_band_kind
  shelf_freq_hz :: i32
  shelf_gain_millidb :: i32

record pad_eq_bell =
  bell_freq_hz :: i32
  bell_gain_millidb :: i32
  bell_q_milli :: i32

record pad_eq =
  eq_low :: "pad_eq_shelf option"
  eq_mid :: "pad_eq_bell option"
  eq_high :: "pad_eq_shelf option"

record pad_playback =
  trim_start_frame :: u64
  trim_end_frame :: "u64 option"
  trigger_mode :: trigger_mode
  gain_millidb :: i32
  muted :: bool
  reversed :: bool
  pitch_cents :: i32
  pan :: i32
  loop_mode :: loop_mode
  loop_start_frame :: "u64 option"
  loop_crossfade_frames :: u64
  attack_ms :: i32
  release_ms :: i32
  tone :: i32
  playback_eq :: pad_eq

text \<open>The value \<open>PadPlayback{}\<close> of the default member initialisers.\<close>

definition default_playback :: pad_playback where
  "default_playback =
     \<lparr>trim_start_frame = 0, trim_end_frame = None, trigger_mode = TM_one_shot,
      gain_millidb = 0, muted = False, reversed = False, pitch_cents = 0, pan = 0,
      loop_mode = LM_forward, loop_start_frame = None, loop_crossfade_frames = 0,
      attack_ms = 0, release_ms = 0, tone = 0,
      playback_eq = \<lparr>eq_low = None, eq_mid = None, eq_high = None\<rparr>\<rparr>"

record pad_slot_id =
  bank :: u8
  pad :: u8

datatype asset_category = drums | bass | melodic | vocal | texture

record pad_slot =
  slot_id :: pad_slot_id
  slot_asset :: "asset_id option"
  slot_playback :: pad_playback
  slot_colour :: "u8 option"

section \<open>Assets and lineage\<close>

record asset_artifact_lineage_source =
  source_artifact_sha256 :: string
  source_project_revision :: u64

record resample_frame_range =
  range_start_frame :: u64
  range_end_frame :: u64

record resample_lineage_derivation =
  resample_range :: resample_frame_range
  resample_performance_id :: performance_id

record soundset_lineage_source =
  set_id :: string
  set_version :: string
  manifest_sha256 :: string
  set_slot_index :: u8
  set_artifact_sha256 :: string

record capability_lineage_identity =
  cap_id :: string
  cap_contract :: string
  cap_version :: string

record implementation_lineage_identity =
  impl_id :: string
  impl_version :: string
  impl_artifact_sha256 :: string

record slice_interval_recipe =
  slice_start_frame :: u64
  slice_end_frame :: u64
  slice_frame_rate :: u32

record capability_adoption_lineage_derivation =
  adopt_capability :: capability_lineage_identity
  adopt_provider :: implementation_lineage_identity
  adopt_model_identity :: "implementation_lineage_identity option"
  adopt_parameters_sha256 :: string
  adopt_attempt_id :: attempt_id
  adopt_source_asset_id :: asset_id
  adopt_output_artifact :: artifact_ref
  adopt_recipe :: slice_interval_recipe

datatype asset_lineage_source_kind = SK_asset_artifact | SK_soundset

datatype asset_lineage_derivation_kind = DK_resample | DK_soundset_install | DK_capability_adoption

datatype asset_lineage_source =
    ArtifactSource asset_artifact_lineage_source
  | SoundSetSource soundset_lineage_source

datatype asset_lineage_derivation =
    Resample resample_lineage_derivation
  | SoundSetInstall
  | CapabilityAdoption capability_adoption_lineage_derivation

record asset_lineage =
  lineage_source :: asset_lineage_source
  lineage_derivation :: asset_lineage_derivation

record asset =
  asset_key :: asset_id
  asset_artifact :: artifact_ref
  asset_lineage_of :: "asset_lineage option"
  asset_category_of :: "asset_category option"

section \<open>Patterns\<close>

record pattern_event =
  event_slot :: pad_slot_id
  onset_tick :: u32
  duration_tick :: u32
  velocity :: u8

record pattern =
  pattern_key :: pattern_id
  pattern_bars :: u8
  pattern_events :: "pattern_event list"

section \<open>Performances\<close>

type_synonym performance_fx = u8

abbreviation "fx_filter \<equiv> 0 :: performance_fx"

datatype performance_filter_type = FT_lp | FT_hp | FT_bp | FT_unlisted u8

datatype performance_filter_phase = FP_engage | FP_move | FP_release | FP_unlisted u8

datatype performance_event_kind =
    PK_pad_hit | PK_pattern_launch | PK_fx_engage | PK_fx_move | PK_fx_release
  | PK_hold_on | PK_hold_off | PK_filter_change | PK_pad_gates_set

text \<open>The variant \<open>PerformanceEventPayload\<close>, one constructor per struct with its fields in order.\<close>

datatype performance_payload =
    PadHit (hit_slot: u8) (hit_onset: u64) (hit_duration: u64) (hit_velocity: u8)
  | PatternLaunch (launch_slot: u8) (launch_tick: u64)
  | FxEngage (engage_fx: performance_fx) (engage_value: u16) (engage_tick: u64)
  | FxMove (move_fx: performance_fx) (move_value: u16) (move_tick: u64)
  | FxRelease (release_fx: performance_fx) (release_tick: u64)
  | HoldOn (on_tick: u64)
  | HoldOff (off_tick: u64)
  | FilterChange (change_phase: performance_filter_phase) (change_type: performance_filter_type)
      (change_cutoff: u16) (change_resonance: u16) (change_tick: u64)
  | PadGatesSet (gates_muted: u64) (gates_solo: u64) (gates_tick: u64)

record performance_event =
  payload :: performance_payload
  input_sequence :: "u64 option"

record legacy_filter_live_state =
  legacy_engaged :: bool
  legacy_frozen :: bool
  legacy_value :: u16

record independent_filter_live_state =
  indep_engaged :: bool
  indep_frozen :: bool
  indep_type :: performance_filter_type
  indep_cutoff_hz :: u16
  indep_resonance_milli :: u16

datatype performance_filter_live_state =
    LegacyFilter legacy_filter_live_state
  | IndependentFilter independent_filter_live_state

record performance_fx_gate_state =
  gate_engaged :: bool
  gate_frozen :: bool
  gate_value :: u16

record performance_initial_live_state =
  live_hold :: bool
  live_filter :: performance_filter_live_state
  live_other_fx :: "performance_fx_gate_state list"
  live_muted_mask :: u64
  live_solo_mask :: u64

record performance =
  performance_key :: performance_id
  performance_name :: string
  created_bpm :: u16
  recording_revision :: u64
  recording_artifact :: "artifact_ref option"
  performance_events :: "performance_event list"
  initial_live_state :: "performance_initial_live_state option"

datatype performance_event_profile = Profile_legacy | Profile_header_input_sequence

section \<open>The Project\<close>

record project_state =
  contract :: project_contract
  state_id :: project_id
  revision :: u64
  bpm :: u16
  quantize_enabled :: bool
  swing_percent :: u8
  banks :: "pad_slot list list"
  assets :: "(asset_id, asset) std_map"
  patterns :: "(pattern_id, pattern) std_map"
  performances :: "(performance_id, performance) std_map"
  pattern_slots :: "pattern_id option list"

text \<open>
  The extents fixed by the C++ types: \<open>std::array<std::array<PadSlot, 16>, 4> banks\<close> and
  \<open>std::array<std::optional<PatternId>, 16> pattern_slots\<close>.
\<close>

definition array_extents :: "project_state \<Rightarrow> bool" where
  "array_extents s =
     (length (banks s) = 4 \<and> list_all (\<lambda>b. length b = 16) (banks s) \<and>
      length (pattern_slots s) = 16)"

text \<open>\<open>banks.at(slot.bank).at(slot.pad)\<close>, read and written.\<close>

definition pad_at :: "project_state \<Rightarrow> pad_slot_id \<Rightarrow> pad_slot" where
  "pad_at s sl = banks s ! unat (bank sl) ! unat (pad sl)"

definition set_pad :: "pad_slot_id \<Rightarrow> pad_slot \<Rightarrow> project_state \<Rightarrow> project_state" where
  "set_pad sl p s =
     s\<lparr>banks := (banks s)[unat (bank sl) :=
         (banks s ! unat (bank sl))[unat (pad sl) := p]]\<rparr>"

end
