(* ===== verification/Pad_Rules.thy ===== *)
theory Pad_Rules
  imports Project_Data
begin

text \<open>
  Pad addressing, playback validity and the Pad colour rule
  (\<open>packages/authoring-domain/src/project.cpp\<close>).
\<close>

section \<open>Operations\<close>

definition is_valid_slot :: "pad_slot_id \<Rightarrow> bool" where
  "is_valid_slot sl = (bank sl < 4 \<and> pad sl < 16)"

definition in_range :: "i32 \<Rightarrow> i32 \<Rightarrow> i32 \<Rightarrow> bool" where
  "in_range v low high = (sint low \<le> sint v \<and> sint v \<le> sint high)"

fun is_valid_eq_kind :: "eq_band_kind \<Rightarrow> bool" where
  "is_valid_eq_kind EQ_shelf = True"
| "is_valid_eq_kind EQ_cut = True"
| "is_valid_eq_kind (EQ_unlisted _) = False"

definition is_valid_eq_shelf :: "pad_eq_shelf option \<Rightarrow> i32 \<Rightarrow> i32 \<Rightarrow> bool" where
  "is_valid_eq_shelf band freq_min freq_max =
     opt_all (\<lambda>b. is_valid_eq_kind (shelf_kind b) \<and>
                  in_range (shelf_freq_hz b) freq_min freq_max \<and>
                  in_range (shelf_gain_millidb b) (- 18000) 18000) band"

definition is_valid_tone_playback :: "pad_playback \<Rightarrow> bool" where
  "is_valid_tone_playback p =
     (in_range (attack_ms p) 0 2000 \<and> in_range (release_ms p) 0 4000 \<and>
      in_range (tone p) (- 100) 100 \<and>
      is_valid_eq_shelf (eq_low (playback_eq p)) 20 2000 \<and>
      is_valid_eq_shelf (eq_high (playback_eq p)) 1000 20000 \<and>
      opt_all (\<lambda>m. in_range (bell_freq_hz m) 100 10000 \<and>
                   in_range (bell_gain_millidb m) (- 18000) 18000 \<and>
                   in_range (bell_q_milli m) 100 10000) (eq_mid (playback_eq p)))"

definition listed_trigger_mode :: "trigger_mode \<Rightarrow> bool" where
  "listed_trigger_mode m = (case m of TM_unlisted _ \<Rightarrow> False | _ \<Rightarrow> True)"

definition listed_loop_mode :: "loop_mode \<Rightarrow> bool" where
  "listed_loop_mode m = (case m of LM_unlisted _ \<Rightarrow> False | _ \<Rightarrow> True)"

definition loop_start :: "pad_playback \<Rightarrow> u64" where
  "loop_start p = value_or (loop_start_frame p) (trim_start_frame p)"

definition is_valid_playback :: "pad_playback \<Rightarrow> bool" where
  "is_valid_playback p =
     (if \<not> is_valid_tone_playback p then False
      else if \<not> listed_trigger_mode (trigger_mode p) then False
      else if \<not> listed_loop_mode (loop_mode p) then False
      else if sint (gain_millidb p) < - 60000 \<or> sint (gain_millidb p) > 6000 \<or>
              sint (pitch_cents p) < - 2400 \<or> sint (pitch_cents p) > 2400 \<or>
              sint (pan p) < - 100 \<or> sint (pan p) > 100 then False
      else if \<not> opt_all (\<lambda>e. trim_start_frame p < e) (trim_end_frame p) then False
      else if loop_start p < trim_start_frame p \<or>
              \<not> opt_all (\<lambda>e. loop_start p < e) (trim_end_frame p) then False
      else if loop_mode p = LM_ping_pong \<and> loop_crossfade_frames p \<noteq> 0 then False
      else opt_all (\<lambda>e. loop_crossfade_frames p \<le> (e - loop_start p) div 2) (trim_end_frame p))"

definition is_valid_playback_for_source :: "pad_playback \<Rightarrow> u64 \<Rightarrow> bool" where
  "is_valid_playback_for_source p source_frames =
     (if \<not> is_valid_playback p then False
      else let e = value_or (trim_end_frame p) source_frames
           in if e \<le> trim_start_frame p \<or> source_frames < e then False
              else loop_start p < e \<and> loop_crossfade_frames p \<le> (e - loop_start p) div 2)"

definition resolve_slot_asset :: "project_state \<Rightarrow> pad_slot_id \<Rightarrow> asset option" where
  "resolve_slot_asset s sl =
     (if \<not> is_valid_slot sl then None
      else case slot_asset (pad_at s sl) of None \<Rightarrow> None
        | Some aid \<Rightarrow> lookup (assets s) aid)"

fun pad_colour_index :: "asset_category \<Rightarrow> u8" where
  "pad_colour_index drums = 0"
| "pad_colour_index bass = 1"
| "pad_colour_index melodic = 2"
| "pad_colour_index vocal = 3"
| "pad_colour_index texture = 4"

definition kPadPalette :: "(asset_category \<times> string) list" where
  "kPadPalette = [(drums, ''#F3B580''), (bass, ''#DFF779''), (melodic, ''#B49DE8''),
     (vocal, ''#94D2DC''), (texture, ''#E6ED98'')]"

definition soundset_role_category :: "string \<Rightarrow> asset_category option" where
  "soundset_role_category role =
     (if role = ''kick'' \<or> role = ''snare'' \<or> role = ''clap'' \<or> role = ''hat_closed'' \<or>
         role = ''hat_open'' \<or> role = ''perc'' \<or> role = ''cymbal'' then Some drums
      else if role = ''bass'' then Some bass
      else if role = ''melody'' \<or> role = ''chord'' then Some melodic
      else if role = ''vocal'' then Some vocal
      else if role = ''fx'' then Some texture
      else None)"

definition stem_label_category :: "string \<Rightarrow> asset_category option" where
  "stem_label_category label =
     (if label = ''drums'' then Some drums
      else if label = ''bass'' then Some bass
      else if label = ''vocals'' then Some vocal
      else None)"

definition effective_pad_colour :: "project_state \<Rightarrow> pad_slot_id \<Rightarrow> u8 option" where
  "effective_pad_colour s sl =
     (if \<not> is_valid_slot sl then None
      else let p = pad_at s sl in
        if slot_colour p \<noteq> None then slot_colour p
        else case slot_asset p of None \<Rightarrow> None
          | Some aid \<Rightarrow>
              (case lookup (assets s) aid of None \<Rightarrow> None
               | Some a \<Rightarrow> map_option pad_colour_index (asset_category_of a)))"

section \<open>Pads of a Project\<close>

lemma is_valid_slot_nat: "is_valid_slot sl \<longleftrightarrow> unat (bank sl) < 4 \<and> unat (pad sl) < 16"
  by (simp add: is_valid_slot_def word_less_nat_alt)

lemma slot_id_nat_eq: "unat (bank x) = unat (bank y) \<Longrightarrow> unat (pad x) = unat (pad y) \<Longrightarrow> x = (y :: pad_slot_id)"
  by (simp add: word_unat_eq_iff)

lemma array_extentsD:
  assumes "array_extents s" "is_valid_slot sl"
  shows "unat (bank sl) < length (banks s)" "unat (pad sl) < length (banks s ! unat (bank sl))"
  using assms by (auto simp: array_extents_def is_valid_slot_nat list_all_length)

lemma set_pad_fields [simp]:
  "contract (set_pad sl p s) = contract s" "state_id (set_pad sl p s) = state_id s"
  "revision (set_pad sl p s) = revision s" "bpm (set_pad sl p s) = bpm s"
  "quantize_enabled (set_pad sl p s) = quantize_enabled s"
  "swing_percent (set_pad sl p s) = swing_percent s" "assets (set_pad sl p s) = assets s"
  "patterns (set_pad sl p s) = patterns s" "performances (set_pad sl p s) = performances s"
  "pattern_slots (set_pad sl p s) = pattern_slots s"
  by (simp_all add: set_pad_def)

lemma array_extents_set_pad [shape_simps]:
  assumes "array_extents s"
  shows "array_extents (set_pad sl p s)"
proof -
  have "length ((banks s ! unat (bank sl))[unat (pad sl) := p]) = 16"
    if "unat (bank sl) < length (banks s)"
    using assms that by (auto simp: array_extents_def list_all_length)
  with assms show ?thesis
    by (cases "unat (bank sl) < length (banks s)")
      (auto simp: array_extents_def set_pad_def list_update_beyond not_less intro!: list_all_update)
qed

lemma pad_at_set_pad:
  assumes "array_extents s" "is_valid_slot sl" "is_valid_slot sl'"
  shows "pad_at (set_pad sl p s) sl' = (if sl' = sl then p else pad_at s sl')"
proof -
  note ext = array_extentsD [OF assms(1,2)] array_extentsD [OF assms(1,3)]
  show ?thesis
  proof (cases "unat (bank sl') = unat (bank sl)")
    case True
    with ext slot_id_nat_eq [of sl' sl] show ?thesis
      by (auto simp: pad_at_def set_pad_def nth_list_update)
  next
    case False
    then have "sl' \<noteq> sl" by auto
    with False show ?thesis by (simp add: pad_at_def set_pad_def)
  qed
qed

lemma set_pad_same: "set_pad sl (pad_at s sl) s = s"
  by (simp add: set_pad_def pad_at_def)

text \<open>Equality of the Pad arrays is equality at every valid slot.\<close>

lemma banks_eqI:
  assumes "array_extents s" "array_extents t"
    "\<And>sl. is_valid_slot sl \<Longrightarrow> pad_at s sl = pad_at t sl"
  shows "banks s = banks t"
proof (rule nth_equalityI)
  show len: "length (banks s) = length (banks t)" using assms by (simp add: array_extents_def)
  fix b
  assume b: "b < length (banks s)"
  with assms have b4: "b < 4" by (simp add: array_extents_def)
  have l16: "length (banks s ! b) = 16" "length (banks t ! b) = 16"
    using assms b len by (auto simp: array_extents_def list_all_length)
  show "banks s ! b = banks t ! b"
  proof (rule nth_equalityI)
    show "length (banks s ! b) = length (banks t ! b)" using l16 by simp
    fix p
    assume "p < length (banks s ! b)"
    with l16 have p: "p < 16" by simp
    let ?sl = "\<lparr>bank = of_nat b, pad = of_nat p\<rparr>"
    have u: "unat (of_nat b :: u8) = b" "unat (of_nat p :: u8) = p"
      using b4 p by (simp_all add: unat_of_nat)
    have "is_valid_slot ?sl" using b4 p u by (simp add: is_valid_slot_nat)
    from assms(3) [OF this] show "banks s ! b ! p = banks t ! b ! p"
      by (simp add: pad_at_def u)
  qed
qed

section \<open>Playback\<close>

lemma default_playback_valid: "is_valid_playback default_playback"
  by (simp add: is_valid_playback_def default_playback_def is_valid_tone_playback_def
      is_valid_eq_shelf_def in_range_def listed_trigger_mode_def listed_loop_mode_def loop_start_def)

lemmas playback_defs = is_valid_playback_def is_valid_playback_for_source_def Let_def
  is_valid_tone_playback_def loop_start_def

text \<open>Halving an unsigned distance does not wrap.\<close>

lemma half_distance:
  fixes a b c :: u64
  assumes "a < b"
  shows "c \<le> (b - a) div 2 \<longleftrightarrow> unat a + 2 * unat c \<le> unat b"
proof -
  have "unat (b - a) = unat b - unat a"
    using assms by (simp add: unat_sub_if_size word_less_nat_alt)
  then have "unat ((b - a) div 2) = (unat b - unat a) div 2"
    by (simp add: unat_div)
  with assms show ?thesis
    by (simp add: word_le_nat_alt word_less_nat_alt) linarith
qed

text \<open>
  Checking a playback against its source is checking it with the trim closed at
  the source's end: \<open>is_valid_playback_for_source\<close> accepts exactly the playbacks that stay
  valid when an open trim end is replaced by the source length and the trim end lies inside
  the source.
\<close>

lemma playback_for_source_closes_trim:
  "is_valid_playback_for_source p n \<longleftrightarrow>
     is_valid_playback (p\<lparr>trim_end_frame := Some (value_or (trim_end_frame p) n)\<rparr>) \<and>
     value_or (trim_end_frame p) n \<le> n"
  by (cases "trim_end_frame p") (auto simp: playback_defs not_le not_less)

text \<open>
  What an accepted playback guarantees to the renderer, over the true (unwrapped)
  frame counts: the trim is a non-empty part of the source, the loop resumes inside it, and
  two crossfades fit in the loop.
\<close>

lemma playback_for_source_frames:
  assumes "is_valid_playback_for_source p n"
  shows "unat (trim_start_frame p) \<le> unat (loop_start p) \<and>
    unat (loop_start p) + 2 * unat (loop_crossfade_frames p)
      \<le> unat (value_or (trim_end_frame p) n) \<and>
    unat (loop_start p) < unat (value_or (trim_end_frame p) n) \<and>
    unat (value_or (trim_end_frame p) n) \<le> unat n"
proof -
  let ?e = "value_or (trim_end_frame p) n"
  from assms have *: "loop_start p < ?e" "loop_crossfade_frames p \<le> (?e - loop_start p) div 2"
      "\<not> n < ?e" "\<not> loop_start p < trim_start_frame p"
    by (auto simp: is_valid_playback_for_source_def is_valid_playback_def Let_def split: if_splits)
  with half_distance [OF *(1), of "loop_crossfade_frames p"] show ?thesis
    by (simp add: word_less_nat_alt not_less word_le_nat_alt)
qed

lemma playback_for_source_frames_witness:
  "is_valid_playback_for_source default_playback 48000 \<and>
   unat (value_or (trim_end_frame default_playback) 48000) \<le> unat (48000 :: u64)"
proof -
  have "is_valid_playback_for_source default_playback 48000"
    using default_playback_valid
    by (simp add: is_valid_playback_for_source_def default_playback_def loop_start_def)
  with playback_for_source_frames [OF this] show ?thesis by simp
qed

section \<open>Colours\<close>

lemma pad_colour_index_less: "pad_colour_index c < kPadColourCount"
  by (cases c) simp_all

lemma kPadPalette_index: "kPadPalette ! unat (pad_colour_index c) = (c, snd (kPadPalette ! unat (pad_colour_index c)))"
  by (cases c) (simp_all add: kPadPalette_def)

end
