(* ===== verification/Pattern_Rules.thy ===== *)
theory Pattern_Rules
  imports Pad_Rules
begin

text \<open>
  Musical time and Pattern content: tick arithmetic, quantisation, the keyed event merge, the
  Pattern slot table (\<open>project.cpp\<close>) and Pattern validation (\<open>command_handler.cpp\<close>).
\<close>

section \<open>Tick arithmetic\<close>

definition pattern_length_ticks :: "u8 \<Rightarrow> u32" where
  "pattern_length_ticks bars = ucast bars * kBarTicks4x4"

text \<open>\<open>std::clamp\<close>.\<close>

definition clamp :: "'a::linorder \<Rightarrow> 'a \<Rightarrow> 'a \<Rightarrow> 'a" where
  "clamp v lo hi = (if v < lo then lo else if hi < v then hi else v)"

definition quantize_onset_tick :: "u64 \<Rightarrow> u32 \<Rightarrow> bool \<Rightarrow> u8 \<Rightarrow> u32" where
  "quantize_onset_tick raw_tick loop_length_ticks quantize swing =
     (if loop_length_ticks = 0 then 0
      else let loop_tick = ucast (raw_tick mod ucast loop_length_ticks) :: u32 in
        if \<not> quantize then loop_tick
        else let grid_index = (loop_tick + kSixteenthTicks div 2 - 1) div kSixteenthTicks;
                 quantized = (grid_index * kSixteenthTicks) mod loop_length_ticks in
          if quantized = 0 \<or> grid_index mod 2 = 0 then quantized
          else let bounded_swing = clamp swing kSwingPercentMin kSwingPercentMax;
                   pair_start = (grid_index - 1) * kSixteenthTicks
               in (pair_start + (2 * kSixteenthTicks * ucast bounded_swing + 50) div 100)
                    mod loop_length_ticks)"

definition normalize_duration_tick :: "u64 \<Rightarrow> u64 \<Rightarrow> u32 \<Rightarrow> u32 \<Rightarrow> u32" where
  "normalize_duration_tick raw_attack raw_release onset loop_length_ticks =
     (if loop_length_ticks = 0 \<or> loop_length_ticks \<le> onset then 0
      else let remainder = loop_length_ticks - onset;
               raw_duration = (if raw_attack < raw_release then raw_release - raw_attack else 1)
           in ucast (clamp raw_duration 1 (ucast remainder)))"

section \<open>Merging events by key\<close>

type_synonym event_key = "u8 \<times> u8 \<times> u32"

definition key_of_event :: "pattern_event \<Rightarrow> event_key" where
  "key_of_event e = (bank (event_slot e), pad (event_slot e), onset_tick e)"

definition insert_or_replace ::
  "(event_key, pattern_event) std_map \<Rightarrow> pattern_event \<Rightarrow> (event_key, pattern_event) std_map" where
  "insert_or_replace by_key e = insert_or_assign (key_of_event e) e by_key"

definition event_order :: "pattern_event \<Rightarrow> u32 \<times> u8 \<times> u8 \<times> u32 \<times> u8" where
  "event_order e =
     (onset_tick e, bank (event_slot e), pad (event_slot e), duration_tick e, velocity e)"

definition merge_pattern_events ::
  "pattern_event list \<Rightarrow> pattern_event list \<Rightarrow> pattern_event list" where
  "merge_pattern_events stored incoming =
     (let by_key = foldl insert_or_replace (foldl insert_or_replace map_empty stored) incoming
      in sort_key event_order (map snd (entries by_key)))"

section \<open>Pattern slots and Pattern validity\<close>

fun check_pattern_slots ::
  "(pattern_id, pattern) std_map \<Rightarrow> pattern_id list \<Rightarrow> pattern_id option list \<Rightarrow> unit result" where
  "check_pattern_slots pats occupied [] = success ()"
| "check_pattern_slots pats occupied (None # slots) = check_pattern_slots pats occupied slots"
| "check_pattern_slots pats occupied (Some p # slots) =
     (if \<not> is_valid_uuid p \<or> \<not> contains pats p then
        failure (mk_error invalid_argument ''Pattern slot references an invalid or missing Pattern'')
      else if p \<in> set occupied then
        failure (mk_error invalid_argument ''Pattern occupies more than one Pattern slot'')
      else check_pattern_slots pats (p # occupied) slots)"

definition validate_pattern_slots :: "project_state \<Rightarrow> unit result" where
  "validate_pattern_slots s = check_pattern_slots (patterns s) [] (pattern_slots s)"

definition valid_velocity :: "u8 \<Rightarrow> bool" where
  "valid_velocity v = (1 \<le> v \<and> v \<le> 127)"

definition valid_bars :: "u8 \<Rightarrow> bool" where
  "valid_bars b = (b = 1 \<or> b = 2 \<or> b = 4 \<or> b = 8)"

definition valid_pattern_event :: "u32 \<Rightarrow> pattern_event \<Rightarrow> bool" where
  "valid_pattern_event tick_limit e =
     (\<not> (\<not> is_valid_slot (event_slot e) \<or> \<not> valid_velocity (velocity e) \<or>
         tick_limit \<le> onset_tick e \<or> duration_tick e = 0 \<or>
         tick_limit - onset_tick e < duration_tick e))"

definition validate_pattern :: "pattern \<Rightarrow> unit result" where
  "validate_pattern p =
     (if \<not> is_valid_uuid (pattern_key p) then
        failure (mk_error invalid_argument ''pattern id must be a lowercase UUID'')
      else if \<not> valid_bars (pattern_bars p) then
        failure (mk_error invalid_argument ''pattern bars must be one of 1, 2, 4, or 8'')
      else if \<not> list_all (valid_pattern_event (pattern_length_ticks (pattern_bars p)))
                 (pattern_events p) then
        failure (mk_error invalid_argument ''pattern event is invalid'')
      else success ())"

section \<open>Ticks\<close>

lemma unat_pattern_length: "unat (pattern_length_ticks b) = unat b * 3840"
proof -
  have "unat b * 3840 < 4294967296" using unat_u8_less [of b] by simp
  then show ?thesis
    by (simp add: pattern_length_ticks_def unat_word_ariths unat_ucast_up del: unsigned_ucast_eq)
qed

lemma pattern_length_cases:
  "valid_bars b \<Longrightarrow> pattern_length_ticks b \<in> {3840, 7680, 15360, 30720}"
  by (auto simp: valid_bars_def pattern_length_ticks_def)

lemma ucast_loop_tick:
  fixes L :: u32 and raw :: u64
  assumes "L \<noteq> 0"
  shows "unat (ucast (raw mod ucast L) :: u32) = unat raw mod unat L"
proof -
  have "unat (raw mod ucast L) = unat raw mod unat L"
    by (simp only: unat_mod) (simp add: unat_ucast_up del: unsigned_ucast_eq)
  moreover have "unat raw mod unat L < 2 ^ 32"
  proof -
    have "0 < unat L" using assms by (simp add: unat_gt_0)
    then have "unat raw mod unat L < unat L" by (rule mod_less_divisor)
    also have "unat L < 2 ^ 32" using unsigned_less [of L, where 'a = nat] by simp
    finally show ?thesis .
  qed
  ultimately show ?thesis by (simp add: unsigned_ucast_eq take_bit_eq_mod)
qed

text \<open>
  Quantisation never leaves the loop, whatever the raw tick, the switch and the swing are.
\<close>

lemma quantize_onset_less:
  assumes "loop_length \<noteq> 0"
  shows "quantize_onset_tick raw loop_length quantize swing < loop_length"
proof -
  have "ucast (raw mod ucast loop_length) < loop_length"
    using assms by (simp add: word_less_nat_alt ucast_loop_tick unat_gt_0)
  then show ?thesis
    using assms by (simp add: quantize_onset_tick_def Let_def word_mod_less)
qed

lemma clamp_bounds: "lo \<le> hi \<Longrightarrow> lo \<le> clamp v lo hi \<and> clamp v lo hi \<le> hi"
  by (auto simp: clamp_def)

lemma unat_clamp: "unat (clamp v lo hi) = clamp (unat v) (unat lo) (unat hi)"
  by (simp add: clamp_def word_less_nat_alt)

text \<open>The swung position of an odd sixteenth, in ticks after the even one before it.\<close>

definition swing_offset :: "u8 \<Rightarrow> nat" where
  "swing_offset swing = (480 * clamp (unat swing) 50 75 + 50) div 100"

lemma swing_offset_bounds: "240 \<le> swing_offset s \<and> swing_offset s \<le> 360"
  using clamp_bounds [of 50 75 "unat s"] by (auto simp: swing_offset_def)

lemma unat_swing_offset:
  "unat ((2 * kSixteenthTicks * ucast (clamp s kSwingPercentMin kSwingPercentMax) + 50) div 100 :: u32)
     = swing_offset s"
proof -
  let ?c = "clamp s kSwingPercentMin kSwingPercentMax"
  have c: "unat ?c \<le> 75" using clamp_bounds [of 50 75 "unat s"] by (simp add: unat_clamp)
  then have "unat (2 * kSixteenthTicks * ucast ?c + 50 :: u32) = 480 * unat ?c + 50"
    by (simp add: unat_word_ariths unat_ucast_up del: unsigned_ucast_eq)
  then show ?thesis by (simp add: swing_offset_def unat_div unat_clamp)
qed

lemma unat_grid_plus:
  fixes W S :: u32
  assumes "unat W = g" "0 < g" "g \<le> 200" "unat S \<le> 360"
  shows "unat ((W - 1) * 240 + S) = 240 * (g - 1) + unat S"
proof -
  define V where "V = W - 1"
  have V: "unat V = g - 1" using assms by (simp add: V_def unat_sub_if_size word_unat_eq_iff)
  have "unat (V * 240) = (g - 1) * 240" using V assms by (simp add: unat_word_ariths)
  then have "unat (V * 240 + S) = (g - 1) * 240 + unat S"
    using assms by (simp add: unat_word_ariths)
  then show ?thesis by (simp add: V_def mult.commute)
qed

text \<open>
  Property C11. With quantisation on, an onset snaps to the nearest sixteenth of the loop
  (a tick exactly between two goes to the earlier), and an odd sixteenth is then delayed to
  its swung position inside its pair, never past the end of the loop; the tick arithmetic does
  not overflow for any Pattern length.
\<close>

theorem quantize_onset_nearest:
  assumes "valid_bars bars"
  defines "L \<equiv> pattern_length_ticks bars"
  shows "\<exists>g. 240 * g \<le> unat raw mod unat L + 119 \<and> unat raw mod unat L \<le> 240 * g + 120 \<and>
    unat (quantize_onset_tick raw L True swing) =
      (if even g then (240 * g) mod unat L else 240 * (g - 1) + swing_offset swing)"
proof -
  from pattern_length_cases [OF assms(1)] have L: "L \<in> {3840, 7680, 15360, 30720}"
    by (simp add: L_def)
  then have L0: "L \<noteq> 0" and Lmax: "unat L \<le> 30720" and L480: "480 dvd unat L" by auto
  define t where "t = unat raw mod unat L"
  define T :: u32 where "T = ucast (raw mod ucast L)"
  define g where "g = (t + 119) div 240"
  have tT: "unat T = t" using ucast_loop_tick [OF L0] by (simp add: T_def t_def)
  have t: "t < unat L" using L0 by (simp add: t_def unat_gt_0)
  have G: "unat ((T + kSixteenthTicks div 2 - 1) div kSixteenthTicks) = g"
  proof -
    have "T + kSixteenthTicks div 2 - 1 = 119 + T" by simp
    moreover have "unat (119 + T) = t + 119" using tT t Lmax by (simp add: unat_word_ariths)
    ultimately show ?thesis by (simp add: unat_div g_def)
  qed
  define W where "W = (T + kSixteenthTicks div 2 - 1) div kSixteenthTicks"
  have W: "unat W = g" using G by (simp add: W_def)
  have near: "240 * g \<le> t + 119" "t \<le> 240 * g + 120" unfolding g_def by auto
  have gmax: "g \<le> 200" using near t Lmax by linarith
  have odd_fits: "240 * (g + 1) \<le> unat L" if odd: "odd g"
  proof -
    from odd obtain m where "g = 2 * m + 1" by (rule oddE)
    moreover from L480 obtain k where "unat L = 480 * k" by (rule dvdE)
    moreover from calculation have "m < k" using near t by simp
    ultimately show ?thesis by simp
  qed
  have prod: "unat (W * kSixteenthTicks mod L) = (240 * g) mod unat L"
    using W gmax by (simp add: unat_mod unat_word_ariths mult.commute)
  have "W mod 2 = 0 \<longleftrightarrow> even g" using W by (simp add: word_unat_eq_iff unat_mod even_iff_mod_2_eq_zero)
  moreover have "unat (((W - 1) * kSixteenthTicks + (2 * kSixteenthTicks * ucast (clamp swing kSwingPercentMin kSwingPercentMax) + 50) div 100) mod L) = 240 * (g - 1) + swing_offset swing"
    if "odd g"
  proof -
    have "0 < g" using that by (auto intro: Nat.gr0I)
    then have s: "unat ((W - 1) * kSixteenthTicks + (2 * kSixteenthTicks * ucast (clamp swing kSwingPercentMin kSwingPercentMax) + 50) div 100)
        = 240 * (g - 1) + swing_offset swing"
      unfolding unat_swing_offset [of swing, symmetric] using W gmax swing_offset_bounds [of swing]
      by (intro unat_grid_plus) (simp_all only: unat_swing_offset)
    have "240 * (g + 1) \<le> unat L" using odd_fits that by blast
    then have "240 * (g - 1) + swing_offset swing < unat L"
      using swing_offset_bounds [of swing] \<open>0 < g\<close> by (cases g) auto
    then show ?thesis unfolding unat_mod s by (rule mod_less)
  qed
  moreover have "W * kSixteenthTicks mod L \<noteq> 0" if "odd g"
  proof -
    have "0 < g" using that by (auto intro: Nat.gr0I)
    then have "(240 * g) mod unat L \<noteq> 0" using odd_fits [OF that] by simp
    then show ?thesis unfolding prod [symmetric] by (metis unat_0)
  qed
  ultimately have "unat (quantize_onset_tick raw L True swing) =
      (if even g then (240 * g) mod unat L else 240 * (g - 1) + swing_offset swing)"
    unfolding quantize_onset_tick_def Let_def T_def [symmetric] W_def [symmetric]
    using L0 prod by (cases "even g") (simp_all only: simp_thms if_True if_False)
  with near show ?thesis unfolding t_def by blast
qed

theorem quantize_onset_nearest_witness:
  "valid_bars 1 \<and>
   (\<exists>g. 240 * g \<le> unat (365 :: u64) mod unat (pattern_length_ticks 1) + 119 \<and>
      unat (365 :: u64) mod unat (pattern_length_ticks 1) \<le> 240 * g + 120 \<and>
      unat (quantize_onset_tick 365 (pattern_length_ticks 1) True 75) =
        (if even g then (240 * g) mod unat (pattern_length_ticks 1)
         else 240 * (g - 1) + swing_offset 75))"
proof -
  have "valid_bars 1" by (simp add: valid_bars_def)
  with quantize_onset_nearest [OF this, of 365 75] show ?thesis by simp
qed

lemma unat_normalize_duration:
  assumes "onset < loop_length"
  shows "unat (normalize_duration_tick attack release onset loop_length) =
    clamp (if attack < release then unat release - unat attack else 1) 1
      (unat loop_length - unat onset)"
proof -
  define r where "r = unat loop_length - unat onset"
  define raw where "raw = (if attack < release then release - attack else 1)"
  have r: "unat (loop_length - onset) = r" "1 \<le> r" "r < 2 ^ 32"
    using assms unsigned_less [of loop_length, where 'a = nat]
    by (simp_all add: r_def unat_sub_if_size word_less_nat_alt)
  have raw: "unat raw = (if attack < release then unat release - unat attack else 1)"
    by (auto simp: raw_def unat_sub_if_size word_less_nat_alt)
  have "loop_length \<noteq> 0" using assms by auto
  then have "normalize_duration_tick attack release onset loop_length =
      ucast (clamp raw 1 (ucast (loop_length - onset)))"
    using assms by (simp add: normalize_duration_tick_def raw_def Let_def not_le [symmetric])
  moreover have "unat (clamp raw 1 (ucast (loop_length - onset) :: u64)) = clamp (unat raw) 1 r"
    using r(1) by (simp add: unat_clamp unat_ucast_up del: unsigned_ucast_eq)
  moreover have "clamp (unat raw) 1 r \<le> r" using clamp_bounds [OF r(2)] by auto
  ultimately show ?thesis
    using r(3) unfolding raw r_def [symmetric] by (simp add: unsigned_ucast_eq take_bit_eq_mod)
qed

lemma normalize_duration_bounds:
  assumes "onset < loop_length"
  shows "1 \<le> unat (normalize_duration_tick attack release onset loop_length)"
    and "unat onset + unat (normalize_duration_tick attack release onset loop_length)
           \<le> unat loop_length"
proof -
  let ?d = "unat (normalize_duration_tick attack release onset loop_length)"
  from assms have "unat onset < unat loop_length" by (simp add: word_less_nat_alt)
  moreover from this have "1 \<le> ?d \<and> ?d \<le> unat loop_length - unat onset"
    unfolding unat_normalize_duration [OF assms] by (intro clamp_bounds) simp
  ultimately show "1 \<le> ?d" "unat onset + ?d \<le> unat loop_length" by auto
qed

text \<open>
  A recorded duration fits: for an onset inside the loop it is at least one tick,
  never crosses the end of the loop, and equals the played length whenever that fits.
\<close>

lemma normalize_duration_fits:
  assumes "onset < loop_length"
  shows "1 \<le> unat (normalize_duration_tick attack release onset loop_length) \<and>
    unat onset + unat (normalize_duration_tick attack release onset loop_length)
      \<le> unat loop_length \<and>
    (attack < release \<and> unat onset + (unat release - unat attack) \<le> unat loop_length \<longrightarrow>
       unat (normalize_duration_tick attack release onset loop_length)
         = unat release - unat attack)"
  using normalize_duration_bounds [OF assms, of attack release] unat_normalize_duration [OF assms]
  by (auto simp: clamp_def word_less_nat_alt)

lemma normalize_duration_fits_witness:
  "(3600 :: u32) < 3840 \<and>
   unat (3600 :: u32) + unat (normalize_duration_tick 3600 9000 3600 3840) \<le> unat (3840 :: u32)"
proof -
  have "(3600 :: u32) < 3840" by simp
  with normalize_duration_fits [OF this, of 3600 9000] show ?thesis by blast
qed

text \<open>
  What the recorder writes is a valid Pattern event: quantised onset, normalised
  duration, a valid Pad and a valid velocity give an event the Pattern validator accepts, for
  every Pattern length and every raw input.
\<close>

lemma recorded_event_valid:
  assumes "valid_bars bars" "is_valid_slot sl" "valid_velocity vel"
    and "on = quantize_onset_tick raw (pattern_length_ticks bars) quantize swing"
  shows "valid_pattern_event (pattern_length_ticks bars)
    \<lparr>event_slot = sl, onset_tick = on,
     duration_tick = normalize_duration_tick attack release on (pattern_length_ticks bars),
     velocity = vel\<rparr>"
proof -
  define L where "L = pattern_length_ticks bars"
  from pattern_length_cases [OF assms(1)] have "L \<noteq> 0" by (auto simp: L_def)
  then have on: "on < L" by (simp add: assms(4) L_def quantize_onset_less)
  let ?d = "normalize_duration_tick attack release on L"
  note d = normalize_duration_bounds [OF on, of attack release]
  from on have "unat (L - on) = unat L - unat on"
    by (simp add: unat_sub_if_size word_less_nat_alt)
  with d have "\<not> L - on < ?d" by (simp add: word_less_nat_alt)
  moreover from d(1) have "?d \<noteq> 0" by auto
  ultimately show ?thesis using assms(2,3) on
    by (simp add: valid_pattern_event_def not_le L_def)
qed

lemma recorded_event_valid_witness:
  "valid_pattern_event (pattern_length_ticks 1)
    \<lparr>event_slot = \<lparr>bank = 0, pad = 3\<rparr>,
     onset_tick = quantize_onset_tick 365 (pattern_length_ticks 1) True 60,
     duration_tick = normalize_duration_tick 365 500
       (quantize_onset_tick 365 (pattern_length_ticks 1) True 60) (pattern_length_ticks 1),
     velocity = 100\<rparr>"
  by (rule recorded_event_valid [OF _ _ _ refl])
    (simp_all add: valid_bars_def is_valid_slot_def valid_velocity_def)

section \<open>The event merge\<close>

text \<open>The Pattern content as a map from key to event, later writes winning.\<close>

definition event_map :: "pattern_event list \<Rightarrow> event_key \<Rightarrow> pattern_event option" where
  "event_map es = map_of (rev (map (\<lambda>e. (key_of_event e, e)) es))"

definition canonical_events :: "pattern_event list \<Rightarrow> bool" where
  "canonical_events es \<longleftrightarrow> distinct (map key_of_event es) \<and> sorted (map event_order es)"

lemma event_map_Nil [simp]: "event_map [] = Map.empty"
  by (simp add: event_map_def)

lemma event_map_append: "event_map (xs @ ys) = event_map xs ++ event_map ys"
  by (simp add: event_map_def)

lemma event_map_snoc: "event_map (xs @ [e]) = (event_map xs)(key_of_event e \<mapsto> e)"
  by (simp add: event_map_def)

lemma event_map_key: "event_map es k = Some e \<Longrightarrow> key_of_event e = k \<and> e \<in> set es"
  by (auto simp: event_map_def dest!: map_of_SomeD)

lemma foldl_insert_or_replace:
  "lookup (foldl insert_or_replace m es) = lookup m ++ event_map es"
proof (induction es rule: rev_induct)
  case (snoc e es)
  then show ?case
    by (auto simp: insert_or_replace_def event_map_snoc map_add_def fun_eq_iff split: option.splits)
qed simp

lemma event_order_inj: "inj event_order"
  by (rule injI) (simp add: event_order_def pattern_event.equality pad_slot_id.equality)

lemma event_map_distinct:
  assumes "distinct (map key_of_event es)"
  shows "event_map es k = Some e \<longleftrightarrow> e \<in> set es \<and> key_of_event e = k"
proof -
  have "distinct (map fst (rev (map (\<lambda>e. (key_of_event e, e)) es)))"
    using assms by (simp add: rev_map comp_def flip: distinct_rev [of "map key_of_event es"])
  then show ?thesis by (auto simp: event_map_def)
qed

lemma set_merge: "e \<in> set (merge_pattern_events st inc) \<longleftrightarrow>
    event_map (st @ inc) (key_of_event e) = Some e"
proof -
  let ?m = "foldl insert_or_replace (foldl insert_or_replace map_empty st) inc"
  have look: "lookup ?m = event_map (st @ inc)"
    by (auto simp: foldl_insert_or_replace event_map_append map_add_def fun_eq_iff split: option.splits)
  have "e \<in> set (merge_pattern_events st inc) \<longleftrightarrow> (\<exists>k. lookup ?m k = Some e)"
    by (force simp: merge_pattern_events_def Let_def entries_lookup [symmetric] image_iff)
  with look show ?thesis using event_map_key by metis
qed

lemma merge_canonical: "canonical_events (merge_pattern_events st inc)"
proof -
  let ?m = "foldl insert_or_replace (foldl insert_or_replace map_empty st) inc"
  have keys: "map key_of_event (map snd (entries ?m)) = map fst (entries ?m)"
  proof -
    have "key_of_event v = k" if "(k, v) \<in> set (entries ?m)" for k v
    proof -
      from that have "event_map (st @ inc) k = Some v"
        by (auto simp: entries_lookup foldl_insert_or_replace event_map_append map_add_def
            split: option.splits)
      then show ?thesis using event_map_key by blast
    qed
    then show ?thesis by (auto simp: case_prod_beta)
  qed
  have "distinct (map key_of_event (map snd (entries ?m)))" unfolding keys by simp
  then have "distinct (map snd (entries ?m)) \<and> inj_on key_of_event (set (map snd (entries ?m)))"
    by (rule distinct_map [THEN iffD1])
  then have "distinct (map key_of_event (merge_pattern_events st inc))"
    unfolding merge_pattern_events_def Let_def distinct_map [of key_of_event]
    by (simp only: set_sort distinct_sort)
  moreover have "sorted (map event_order (merge_pattern_events st inc))"
    by (simp add: merge_pattern_events_def Let_def)
  ultimately show ?thesis by (simp add: canonical_events_def)
qed

lemma canonical_events_unique:
  assumes "canonical_events xs" "canonical_events ys" "event_map xs = event_map ys"
  shows "xs = ys"
proof (rule sorted_key_unique [of event_order])
  have "e \<in> set zs \<longleftrightarrow> event_map zs (key_of_event e) = Some e" if "canonical_events zs" for e zs
    using that by (simp add: canonical_events_def event_map_distinct)
  with assms show "set xs = set ys" by (metis set_eqI)
qed (use assms in \<open>auto simp: canonical_events_def distinct_map inj_on_subset [OF event_order_inj]\<close>)

lemma event_map_merge: "event_map (merge_pattern_events st inc) = event_map st ++ event_map inc"
proof (rule ext)
  fix k
  have "event_map (merge_pattern_events st inc) k = Some e \<longleftrightarrow> event_map (st @ inc) k = Some e" for e
    using merge_canonical [of st inc] event_map_key [of "st @ inc" k e]
    by (auto simp: canonical_events_def event_map_distinct set_merge)
  then have "event_map (merge_pattern_events st inc) k = event_map (st @ inc) k"
    by (metis not_None_eq)
  then show "event_map (merge_pattern_events st inc) k = (event_map st ++ event_map inc) k"
    by (simp add: event_map_append)
qed

text \<open>
  Property C10. Refinement of the merge: read as a map from (Pad, onset) to event,
  \<open>merge_pattern_events\<close> is right-biased map union, and its result is the one canonical
  event list (distinct keys, sorted by onset, bank, pad, duration, velocity) of that map.
\<close>

theorem merge_refines_union:
  "event_map (merge_pattern_events stored incoming) = event_map stored ++ event_map incoming \<and>
   canonical_events (merge_pattern_events stored incoming)"
  by (simp add: event_map_merge merge_canonical)

text \<open>
  Merging is associative, so a recording merged pass by pass is the recording
  merged at once, and merging nothing into canonical content changes nothing.
\<close>

lemma merge_assoc_unit:
  "merge_pattern_events (merge_pattern_events a b) c =
     merge_pattern_events a (merge_pattern_events b c) \<and>
   merge_pattern_events (merge_pattern_events a b) [] = merge_pattern_events a b"
  by (auto intro!: canonical_events_unique merge_canonical simp: event_map_merge)

lemma merge_subset: "e \<in> set (merge_pattern_events st inc) \<Longrightarrow> e \<in> set st \<or> e \<in> set inc"
  using event_map_key [of "st @ inc" "key_of_event e" e] by (auto simp: set_merge)

lemma merge_list_all:
  "list_all P st \<Longrightarrow> list_all P inc \<Longrightarrow> list_all P (merge_pattern_events st inc)"
  using merge_subset by (fastforce simp: list_all_iff)

section \<open>Pattern slots\<close>

lemma check_pattern_slots_ok:
  "is_ok (check_pattern_slots pats occ slots) \<longleftrightarrow>
     (\<forall>p. Some p \<in> set slots \<longrightarrow> is_valid_uuid p \<and> contains pats p) \<and>
     distinct (filter (\<lambda>x. x \<noteq> None) slots) \<and>
     (\<forall>p\<in>set occ. Some p \<notin> set slots)"
proof (induction pats occ slots rule: check_pattern_slots.induct)
  case (3 pats occ p slots)
  then show ?case by (auto simp: contains_def simp del: contains_iff)
qed (auto simp: contains_def simp del: contains_iff)

lemma validate_pattern_slots_ok:
  "is_ok (validate_pattern_slots s) \<longleftrightarrow>
     (\<forall>p. Some p \<in> set (pattern_slots s) \<longrightarrow> is_valid_uuid p \<and> contains (patterns s) p) \<and>
     distinct (filter (\<lambda>x. x \<noteq> None) (pattern_slots s))"
  by (simp add: validate_pattern_slots_def check_pattern_slots_ok)

lemma validate_pattern_ok:
  "is_ok (validate_pattern p) \<longleftrightarrow>
     is_valid_uuid (pattern_key p) \<and> valid_bars (pattern_bars p) \<and>
     list_all (valid_pattern_event (pattern_length_ticks (pattern_bars p))) (pattern_events p)"
  by (simp add: validate_pattern_def)

end
