(* ===== verification/Lineage.thy ===== *)
theory Lineage
  imports Project_Data
begin

text \<open>
  Asset lineage: where an Asset came from and how it was derived
  (\<open>project.cpp\<close>, \<open>validate_asset_lineage\<close> and the two kind functions).
\<close>

fun source_kind_of :: "asset_lineage_source \<Rightarrow> asset_lineage_source_kind" where
  "source_kind_of (SoundSetSource _) = SK_soundset"
| "source_kind_of (ArtifactSource _) = SK_asset_artifact"

fun derivation_kind_of :: "asset_lineage_derivation \<Rightarrow> asset_lineage_derivation_kind" where
  "derivation_kind_of (CapabilityAdoption _) = DK_capability_adoption"
| "derivation_kind_of SoundSetInstall = DK_soundset_install"
| "derivation_kind_of (Resample _) = DK_resample"

definition asset_lineage_source_kind_of :: "asset_lineage \<Rightarrow> asset_lineage_source_kind" where
  "asset_lineage_source_kind_of l = source_kind_of (lineage_source l)"

definition asset_lineage_derivation_kind_of :: "asset_lineage \<Rightarrow> asset_lineage_derivation_kind" where
  "asset_lineage_derivation_kind_of l = derivation_kind_of (lineage_derivation l)"

definition invalid_asset_lineage :: "string \<Rightarrow> 'a result" where
  "invalid_asset_lineage msg = failure (mk_error invalid_argument msg)"

fun validate_lineage_source :: "asset_lineage_source \<Rightarrow> unit result" where
  "validate_lineage_source (ArtifactSource src) =
     (if \<not> valid_sha256 (source_artifact_sha256 src) then
        invalid_asset_lineage ''asset Lineage source digest must be lowercase SHA-256''
      else success ())"
| "validate_lineage_source (SoundSetSource ss) =
     (if \<not> is_valid_uuid (set_id ss) then
        invalid_asset_lineage ''asset Lineage Sound Set id must be a lowercase UUID''
      else if \<not> valid_soundset_semver (set_version ss) then
        invalid_asset_lineage ''asset Lineage Sound Set version must be SemVer''
      else if \<not> valid_sha256 (manifest_sha256 ss) \<or> \<not> valid_sha256 (set_artifact_sha256 ss) then
        invalid_asset_lineage ''asset Lineage source digest must be lowercase SHA-256''
      else if kSoundSetSlotCount \<le> set_slot_index ss then
        invalid_asset_lineage ''asset Lineage Sound Set slot index is out of range''
      else success ())"

text \<open>The lambda \<open>valid_identity\<close>, the attempt-id alphabet and the limits of the adoption check.\<close>

definition valid_identity :: "implementation_lineage_identity \<Rightarrow> bool" where
  "valid_identity v =
     (impl_id v \<noteq> [] \<and> impl_version v \<noteq> [] \<and> valid_sha256 (impl_artifact_sha256 v))"

definition attempt_char :: "char \<Rightarrow> bool" where
  "attempt_char c =
     ((CHR ''a'' \<le> c \<and> c \<le> CHR ''z'') \<or> (CHR ''A'' \<le> c \<and> c \<le> CHR ''Z'') \<or>
      (CHR ''0'' \<le> c \<and> c \<le> CHR ''9'') \<or> c = CHR ''.'' \<or> c = CHR ''_'' \<or> c = CHR ''-'')"

definition valid_attempt :: "attempt_id \<Rightarrow> bool" where
  "valid_attempt a = (a \<noteq> [] \<and> length a \<le> 128 \<and> list_all attempt_char a)"

abbreviation "maximum_frame \<equiv> 9007199254740991 :: u64"

definition adoption_rejected ::
  "asset_lineage_source \<Rightarrow> capability_adoption_lineage_derivation \<Rightarrow> bool" where
  "adoption_rejected src a =
     (source_kind_of src \<noteq> SK_asset_artifact \<or>
      cap_id (adopt_capability a) \<noteq> ''sample.slice.v1'' \<or>
      cap_contract (adopt_capability a) \<noteq> ''lmdj.capability.v2'' \<or>
      \<not> valid_soundset_semver (cap_version (adopt_capability a)) \<or>
      \<not> valid_identity (adopt_provider a) \<or>
      \<not> valid_soundset_semver (impl_version (adopt_provider a)) \<or>
      \<not> opt_all valid_identity (adopt_model_identity a) \<or>
      \<not> valid_sha256 (adopt_parameters_sha256 a) \<or>
      \<not> valid_attempt (adopt_attempt_id a) \<or>
      \<not> is_valid_uuid (adopt_source_asset_id a) \<or>
      \<not> valid_sha256 (art_sha256 (adopt_output_artifact a)) \<or>
      art_media_type (adopt_output_artifact a) \<noteq> ''application/json'' \<or>
      art_byte_length (adopt_output_artifact a) = 0 \<or>
      262144 < art_byte_length (adopt_output_artifact a) \<or>
      slice_end_frame (adopt_recipe a) \<le> slice_start_frame (adopt_recipe a) \<or>
      maximum_frame < slice_end_frame (adopt_recipe a) \<or>
      (slice_frame_rate (adopt_recipe a) \<noteq> 44100 \<and> slice_frame_rate (adopt_recipe a) \<noteq> 48000))"

fun validate_lineage_derivation ::
  "asset_lineage_source \<Rightarrow> asset_lineage_derivation \<Rightarrow> unit result" where
  "validate_lineage_derivation src (Resample r) =
     (if \<not> is_valid_uuid (resample_performance_id r) then
        invalid_asset_lineage ''asset Lineage Performance id must be a lowercase UUID''
      else if range_end_frame (resample_range r) \<le> range_start_frame (resample_range r) then
        invalid_asset_lineage ''asset Lineage frame range must be non-empty and increasing''
      else success ())"
| "validate_lineage_derivation src SoundSetInstall = success ()"
| "validate_lineage_derivation src (CapabilityAdoption a) =
     (if adoption_rejected src a then
        invalid_asset_lineage ''capability adoption evidence is invalid''
      else success ())"

definition validate_asset_lineage :: "asset_lineage \<Rightarrow> unit result" where
  "validate_asset_lineage l =
     (case validate_lineage_source (lineage_source l) of
        Inl e \<Rightarrow> failure e
      | Inr _ \<Rightarrow> validate_lineage_derivation (lineage_source l) (lineage_derivation l))"

lemma validate_asset_lineage_ok:
  "is_ok (validate_asset_lineage l) \<longleftrightarrow>
     is_ok (validate_lineage_source (lineage_source l)) \<and>
     is_ok (validate_lineage_derivation (lineage_source l) (lineage_derivation l))"
  by (simp add: validate_asset_lineage_def split: sum.split)

text \<open>A valid lineage names a non-empty increasing frame interval whenever it derives from one.\<close>

lemma valid_lineage_interval:
  assumes "is_ok (validate_asset_lineage l)"
  shows "lineage_derivation l = Resample r \<Longrightarrow>
      range_start_frame (resample_range r) < range_end_frame (resample_range r)"
    and "lineage_derivation l = CapabilityAdoption a \<Longrightarrow>
      slice_start_frame (adopt_recipe a) < slice_end_frame (adopt_recipe a) \<and>
      asset_lineage_source_kind_of l = SK_asset_artifact"
  using assms
  by (auto simp: validate_asset_lineage_ok invalid_asset_lineage_def adoption_rejected_def
      asset_lineage_source_kind_of_def split: if_splits)

end
