(* ===== verification/Performance_Rules.thy ===== *)
theory Performance_Rules
  imports Project_Data "HOL-Library.Multiset"
begin

text \<open>
  Recorded Performances: event projections, the two canonical orders, the gesture state machine
  that validates an event stream, and Performance validation (\<open>project.cpp\<close>).
\<close>

section \<open>Event projections\<close>

fun performance_event_kind_of :: "performance_payload \<Rightarrow> performance_event_kind" where
  "performance_event_kind_of (PadHit _ _ _ _) = PK_pad_hit"
| "performance_event_kind_of (PatternLaunch _ _) = PK_pattern_launch"
| "performance_event_kind_of (FxEngage _ _ _) = PK_fx_engage"
| "performance_event_kind_of (FxMove _ _ _) = PK_fx_move"
| "performance_event_kind_of (FxRelease _ _) = PK_fx_release"
| "performance_event_kind_of (HoldOn _) = PK_hold_on"
| "performance_event_kind_of (HoldOff _) = PK_hold_off"
| "performance_event_kind_of (FilterChange _ _ _ _ _) = PK_filter_change"
| "performance_event_kind_of (PadGatesSet _ _ _) = PK_pad_gates_set"

text \<open>\<open>static_cast<std::uint8_t>\<close> of the kind: the declaration order of the enumeration.\<close>

primrec event_kind_number :: "performance_event_kind \<Rightarrow> u8" where
  "event_kind_number PK_pad_hit = 0"
| "event_kind_number PK_pattern_launch = 1"
| "event_kind_number PK_fx_engage = 2"
| "event_kind_number PK_fx_move = 3"
| "event_kind_number PK_fx_release = 4"
| "event_kind_number PK_hold_on = 5"
| "event_kind_number PK_hold_off = 6"
| "event_kind_number PK_filter_change = 7"
| "event_kind_number PK_pad_gates_set = 8"

fun payload_tick :: "performance_payload \<Rightarrow> u64" where
  "payload_tick (PadHit _ t _ _) = t"
| "payload_tick (PatternLaunch _ t) = t"
| "payload_tick (FxEngage _ _ t) = t"
| "payload_tick (FxMove _ _ t) = t"
| "payload_tick (FxRelease _ t) = t"
| "payload_tick (HoldOn t) = t"
| "payload_tick (HoldOff t) = t"
| "payload_tick (FilterChange _ _ _ _ t) = t"
| "payload_tick (PadGatesSet _ _ t) = t"

definition performance_event_tick :: "performance_event \<Rightarrow> u64" where
  "performance_event_tick e = payload_tick (payload e)"

fun payload_fx_or_slot :: "performance_payload \<Rightarrow> u8" where
  "payload_fx_or_slot (PadHit s _ _ _) = s"
| "payload_fx_or_slot (PatternLaunch s _) = s"
| "payload_fx_or_slot (FxEngage f _ _) = f"
| "payload_fx_or_slot (FxMove f _ _) = f"
| "payload_fx_or_slot (FxRelease f _) = f"
| "payload_fx_or_slot _ = 0"

definition performance_event_fx_or_slot :: "performance_event \<Rightarrow> u8" where
  "performance_event_fx_or_slot e = payload_fx_or_slot (payload e)"

definition performance_event_profile_of :: "performance \<Rightarrow> performance_event_profile" where
  "performance_event_profile_of p =
     (if initial_live_state p \<noteq> None then Profile_header_input_sequence else Profile_legacy)"

section \<open>Canonical orders\<close>

definition legacy_order :: "performance_event \<Rightarrow> u64 \<times> u8 \<times> u8" where
  "legacy_order e =
     (performance_event_tick e, event_kind_number (performance_event_kind_of (payload e)),
      performance_event_fx_or_slot e)"

definition headered_order :: "performance_event \<Rightarrow> u64 \<times> u64" where
  "headered_order e = (performance_event_tick e, value_or (input_sequence e) 0)"

text \<open>\<open>std::ranges::stable_sort\<close> is \<^const>\<open>sort_key\<close>, which is stable as well.\<close>

definition canonical_legacy_events :: "performance_event list \<Rightarrow> performance_event list" where
  "canonical_legacy_events es = sort_key legacy_order es"

definition canonical_performance_events ::
  "performance_event list \<Rightarrow> performance_event_profile \<Rightarrow> performance_event list" where
  "canonical_performance_events es profile =
     (if profile = Profile_legacy then canonical_legacy_events es
      else sort_key headered_order es)"

section \<open>The gesture state machine\<close>

definition invalid_performance :: "string \<Rightarrow> 'a result" where
  "invalid_performance msg = failure (mk_error invalid_argument msg)"

abbreviation "kFxValueMin \<equiv> 0 :: u16"
abbreviation "kPatternSlotMin \<equiv> 0 :: u8"

definition valid_fx :: "performance_fx \<Rightarrow> bool" where
  "valid_fx fx = (fx < kFxCount)"

fun valid_filter_type :: "performance_filter_type \<Rightarrow> bool" where
  "valid_filter_type (FT_unlisted _) = False"
| "valid_filter_type _ = True"

fun valid_filter_phase :: "performance_filter_phase \<Rightarrow> bool" where
  "valid_filter_phase (FP_unlisted _) = False"
| "valid_filter_phase _ = True"

text \<open>The local state of the validator: \<open>engaged\<close>, \<open>independent_filter_active\<close>, \<open>hold_enabled\<close>.\<close>

record gesture_state =
  engaged :: "bool list"
  independent_filter_active :: bool
  hold_enabled :: bool

definition gate_active :: "performance_fx_gate_state \<Rightarrow> bool" where
  "gate_active g = (gate_engaged g \<or> gate_frozen g)"

fun legacy_filter_active :: "performance_filter_live_state \<Rightarrow> bool" where
  "legacy_filter_active (LegacyFilter l) = (legacy_engaged l \<or> legacy_frozen l)"
| "legacy_filter_active (IndependentFilter _) = False"

fun independent_active :: "performance_filter_live_state \<Rightarrow> bool" where
  "independent_active (LegacyFilter _) = False"
| "independent_active (IndependentFilter i) = (indep_engaged i \<or> indep_frozen i)"

definition seed_gestures :: "performance_initial_live_state option \<Rightarrow> gesture_state" where
  "seed_gestures seed =
     (case seed of
        None \<Rightarrow> \<lparr>engaged = replicate 8 False, independent_filter_active = False,
                 hold_enabled = False\<rparr>
      | Some s \<Rightarrow>
          \<lparr>engaged = map (\<lambda>i. if i = 0 then legacy_filter_active (live_filter s)
                            else i - 1 < length (live_other_fx s) \<and>
                                 gate_active (live_other_fx s ! (i - 1))) [0..<8],
           independent_filter_active = independent_active (live_filter s),
           hold_enabled = live_hold s\<rparr>)"

fun gesture_step :: "bool \<Rightarrow> gesture_state \<Rightarrow> performance_payload \<Rightarrow> gesture_state result" where
  "gesture_step seeded g (PadHit slot _ duration vel) =
     (if kPerformancePadSlotMax < slot \<or> duration = 0 \<or> vel = 0 \<or> 127 < vel then
        invalid_performance ''pad_hit event is invalid''
      else success g)"
| "gesture_step seeded g (PatternLaunch slot _) =
     (if slot < kPatternSlotMin \<or> kPatternSlotMax < slot then
        invalid_performance ''pattern_launch event is invalid''
      else success g)"
| "gesture_step seeded g (FxEngage fx val _) =
     (if \<not> valid_fx fx \<or> val < kFxValueMin \<or> kFxValueMax < val then
        invalid_performance ''fx_engage event is invalid''
      else if engaged g ! unat fx then
        invalid_performance ''fx_engage requires a disengaged effect''
      else success (g\<lparr>engaged := (engaged g)[unat fx := True],
        independent_filter_active := (if fx = fx_filter then False else independent_filter_active g)\<rparr>))"
| "gesture_step seeded g (FxMove fx val _) =
     (if \<not> valid_fx fx \<or> val < kFxValueMin \<or> kFxValueMax < val then
        invalid_performance ''fx_move event is invalid''
      else if \<not> engaged g ! unat fx then
        invalid_performance ''fx_move requires a matching open fx_engage''
      else success g)"
| "gesture_step seeded g (FxRelease fx _) =
     (if \<not> valid_fx fx then invalid_performance ''fx_release event is invalid''
      else if \<not> engaged g ! unat fx then
        invalid_performance ''fx_release requires a matching open fx_engage''
      else success (g\<lparr>engaged := (engaged g)[unat fx := False]\<rparr>))"
| "gesture_step seeded g (HoldOn _) =
     (if hold_enabled g then invalid_performance ''hold_on requires HOLD to be off''
      else success (g\<lparr>hold_enabled := True\<rparr>))"
| "gesture_step seeded g (HoldOff _) =
     (if \<not> hold_enabled g then invalid_performance ''hold_off requires HOLD to be on''
      else success (g\<lparr>hold_enabled := False\<rparr>))"
| "gesture_step seeded g (FilterChange phase type cutoff resonance _) =
     (if \<not> seeded then
        invalid_performance ''filter_change requires the headered recording profile''
      else if \<not> valid_filter_phase phase \<or> \<not> valid_filter_type type \<or>
              cutoff < kFilterCutoffHzMin \<or> kFilterCutoffHzMax < cutoff \<or>
              kFilterResonanceMilliMax < resonance then
        invalid_performance ''filter_change event is invalid''
      else if phase = FP_engage then
        (if independent_filter_active g then
           invalid_performance
             ''filter_change engage requires a disengaged independent Filter''
         else success (g\<lparr>engaged := (engaged g)[0 := False], independent_filter_active := True\<rparr>))
      else if \<not> independent_filter_active g then
        invalid_performance
          ''filter_change requires a matching active independent Filter gesture''
      else if phase = FP_release then success (g\<lparr>independent_filter_active := False\<rparr>)
      else success g)"
| "gesture_step seeded g (PadGatesSet _ _ _) =
     (if \<not> seeded then
        invalid_performance ''pad_gates_set requires the headered recording profile''
      else success g)"

fun run_gestures :: "bool \<Rightarrow> gesture_state \<Rightarrow> performance_event list \<Rightarrow> gesture_state result" where
  "run_gestures seeded g [] = success g"
| "run_gestures seeded g (e # es) =
     (if seeded \<noteq> (input_sequence e \<noteq> None) then
        invalid_performance
          (if seeded then ''headered performance event is missing its input sequence''
           else ''legacy performance event must not carry an input sequence'')
      else case gesture_step seeded g (payload e) of
             Inl err \<Rightarrow> failure err
           | Inr g' \<Rightarrow> run_gestures seeded g' es)"

definition validate_performance_events_with_seed ::
  "performance_event list \<Rightarrow> performance_initial_live_state option \<Rightarrow> unit result" where
  "validate_performance_events_with_seed es seed =
     (case run_gestures (seed \<noteq> None) (seed_gestures seed) es of
        Inl err \<Rightarrow> failure err
      | Inr _ \<Rightarrow> success ())"

text \<open>The two overloads of \<open>validate_performance_events\<close>.\<close>

definition validate_legacy_events :: "performance_event list \<Rightarrow> unit result" where
  "validate_legacy_events es =
     validate_performance_events_with_seed (canonical_legacy_events es) None"

definition validate_headered_events ::
  "performance_event list \<Rightarrow> performance_initial_live_state \<Rightarrow> unit result" where
  "validate_headered_events es seed =
     validate_performance_events_with_seed
       (canonical_performance_events es Profile_header_input_sequence) (Some seed)"

section \<open>Performance validation\<close>

definition frozen_requires_hold :: "performance_initial_live_state \<Rightarrow> bool \<Rightarrow> bool" where
  "frozen_requires_hold s frozen = (\<not> frozen \<or> live_hold s)"

fun filter_state_rejected ::
  "performance_initial_live_state \<Rightarrow> performance_filter_live_state \<Rightarrow> bool" where
  "filter_state_rejected s (LegacyFilter l) =
     (kFxValueMax < legacy_value l \<or> \<not> frozen_requires_hold s (legacy_frozen l))"
| "filter_state_rejected s (IndependentFilter i) =
     (\<not> valid_filter_type (indep_type i) \<or> indep_cutoff_hz i < kFilterCutoffHzMin \<or>
      kFilterCutoffHzMax < indep_cutoff_hz i \<or>
      kFilterResonanceMilliMax < indep_resonance_milli i \<or>
      \<not> frozen_requires_hold s (indep_frozen i))"

definition validate_initial_live_state :: "performance_initial_live_state \<Rightarrow> unit result" where
  "validate_initial_live_state s =
     (if filter_state_rejected s (live_filter s) then
        invalid_performance ''performance initial live Filter state is invalid''
      else if list_ex (\<lambda>g. kFxValueMax < gate_value g \<or> \<not> frozen_requires_hold s (gate_frozen g))
                (live_other_fx s) then
        invalid_performance ''performance initial live FX state is invalid''
      else success ())"

definition unique_sequences :: "performance_event list \<Rightarrow> bool" where
  "unique_sequences es =
     (list_all (\<lambda>e. input_sequence e \<noteq> None) es \<and> distinct_from input_sequence [] es)"

definition validate_performance :: "performance \<Rightarrow> unit result" where
  "validate_performance p =
     (if \<not> is_valid_uuid (performance_key p) then
        invalid_performance ''performance id must be a lowercase UUID''
      else if (case utf8_code_point_count (performance_name p) of
                 None \<Rightarrow> True | Some n \<Rightarrow> n = 0 \<or> kPerformanceNameMax < n) then
        invalid_performance ''performance name must contain 1 to 64 UTF-8 code points''
      else if created_bpm p < 40 \<or> 240 < created_bpm p then
        invalid_performance ''performance created BPM must be between 40 and 240''
      else if (case recording_artifact p of
                 None \<Rightarrow> False
               | Some a \<Rightarrow> \<not> valid_sha256 (art_sha256 a) \<or> art_media_type a = []) then
        invalid_performance ''performance recording artifact is invalid''
      else case initial_live_state p of
          None \<Rightarrow>
            (if performance_events p \<noteq>
                  canonical_performance_events (performance_events p) (performance_event_profile_of p) then
               invalid_performance ''performance events must use canonical ordering''
             else validate_legacy_events (performance_events p))
        | Some seed \<Rightarrow>
            (case validate_initial_live_state seed of
               Inl e \<Rightarrow> failure e
             | Inr _ \<Rightarrow>
                 (if \<not> unique_sequences (performance_events p) then
                    invalid_performance
                      ''headered performance events must carry unique input sequences''
                  else if performance_events p \<noteq>
                       canonical_performance_events (performance_events p)
                         (performance_event_profile_of p) then
                    invalid_performance ''performance events must use canonical ordering''
                  else validate_headered_events (performance_events p) seed)))"

section \<open>What an accepted stream is\<close>

text \<open>
  The declarative reading of the validator. A control is an effect, the independent Filter or
  HOLD; an event may \<open>switch\<close> a control on or off, and may \<open>require\<close> a control to be on or off.
\<close>

datatype control = FxControl performance_fx | IndependentFilterControl | HoldControl

fun switches :: "control \<Rightarrow> performance_payload \<Rightarrow> bool option" where
  "switches (FxControl f) (FxEngage fx _ _) = (if fx = f then Some True else None)"
| "switches (FxControl f) (FxRelease fx _) = (if fx = f then Some False else None)"
| "switches (FxControl f) (FilterChange FP_engage _ _ _ _) =
     (if f = fx_filter then Some False else None)"
| "switches IndependentFilterControl (FxEngage fx _ _) =
     (if fx = fx_filter then Some False else None)"
| "switches IndependentFilterControl (FilterChange FP_engage _ _ _ _) = Some True"
| "switches IndependentFilterControl (FilterChange FP_release _ _ _ _) = Some False"
| "switches HoldControl (HoldOn _) = Some True"
| "switches HoldControl (HoldOff _) = Some False"
| "switches _ _ = None"

fun requires :: "performance_payload \<Rightarrow> (control \<times> bool) option" where
  "requires (FxEngage fx _ _) = Some (FxControl fx, False)"
| "requires (FxMove fx _ _) = Some (FxControl fx, True)"
| "requires (FxRelease fx _) = Some (FxControl fx, True)"
| "requires (HoldOn _) = Some (HoldControl, False)"
| "requires (HoldOff _) = Some (HoldControl, True)"
| "requires (FilterChange phase _ _ _ _) = Some (IndependentFilterControl, phase \<noteq> FP_engage)"
| "requires _ = None"

fun payload_in_range :: "bool \<Rightarrow> performance_payload \<Rightarrow> bool" where
  "payload_in_range seeded (PadHit slot _ duration vel) =
     (slot \<le> 63 \<and> 1 \<le> duration \<and> 1 \<le> vel \<and> vel \<le> 127)"
| "payload_in_range seeded (PatternLaunch slot _) = (slot \<le> 15)"
| "payload_in_range seeded (FxEngage fx val _) = (fx < 8 \<and> val \<le> 1000)"
| "payload_in_range seeded (FxMove fx val _) = (fx < 8 \<and> val \<le> 1000)"
| "payload_in_range seeded (FxRelease fx _) = (fx < 8)"
| "payload_in_range seeded (FilterChange phase type cutoff resonance _) =
     (seeded \<and> phase \<in> {FP_engage, FP_move, FP_release} \<and> type \<in> {FT_lp, FT_hp, FT_bp} \<and>
      20 \<le> cutoff \<and> cutoff \<le> 20000 \<and> resonance \<le> 1000)"
| "payload_in_range seeded (PadGatesSet _ _ _) = seeded"
| "payload_in_range seeded _ = True"

text \<open>The state of a control after a stream: what the last event that switches it says.\<close>

definition active_after :: "(control \<Rightarrow> bool) \<Rightarrow> control \<Rightarrow> performance_event list \<Rightarrow> bool" where
  "active_after start c es =
     (case find (\<lambda>e. switches c (payload e) \<noteq> None) (rev es) of
        None \<Rightarrow> start c
      | Some e \<Rightarrow> switches c (payload e) = Some True)"

fun control_status :: "gesture_state \<Rightarrow> control \<Rightarrow> bool" where
  "control_status g (FxControl f) = (f < kFxCount \<and> engaged g ! unat f)"
| "control_status g IndependentFilterControl = independent_filter_active g"
| "control_status g HoldControl = hold_enabled g"

definition meets_requirement :: "(control \<Rightarrow> bool) \<Rightarrow> performance_payload \<Rightarrow> bool" where
  "meets_requirement status p = opt_all (\<lambda>(c, b). status c = b) (requires p)"

lemma active_after_Nil [simp]: "active_after s c [] = s c"
  by (simp add: active_after_def)

lemma find_append: "find P (xs @ ys) = (case find P xs of None \<Rightarrow> find P ys | Some x \<Rightarrow> Some x)"
  by (induction xs) auto

lemma active_after_Cons:
  "active_after s c (e # es) =
     active_after (\<lambda>c. case switches c (payload e) of None \<Rightarrow> s c | Some b \<Rightarrow> b) c es"
  by (auto simp: active_after_def find_append split: option.splits)

lemma gesture_step_ok:
  "is_ok (gesture_step seeded g p) \<longleftrightarrow>
     payload_in_range seeded p \<and> meets_requirement (control_status g) p"
proof (cases p)
  case (FilterChange phase type cutoff resonance t)
  then show ?thesis
    by (cases phase; cases type)
      (auto simp: invalid_performance_def meets_requirement_def not_less)
qed (auto simp: invalid_performance_def meets_requirement_def valid_fx_def not_less
    word_one_le)

lemma nth_update_fx:
  assumes "f < kFxCount" "length xs = 8"
  shows "xs[unat fx := b] ! unat f = (if fx = f then b else xs ! unat f)"
    and "xs[0 := b] ! unat f = (if f = fx_filter then b else xs ! unat f)"
proof -
  have "unat f < 8" using assms(1) by (simp add: word_less_nat_alt)
  then show "xs[unat fx := b] ! unat f = (if fx = f then b else xs ! unat f)"
    and "xs[0 := b] ! unat f = (if f = fx_filter then b else xs ! unat f)"
    using assms(2) by (simp_all add: nth_list_update word_unat_eq_iff)
qed

lemma gesture_step_length:
  "gesture_step seeded g p = Inr g' \<Longrightarrow> length (engaged g') = length (engaged g)"
  by (cases p) (auto simp: invalid_performance_def split: if_splits)

lemma gesture_step_status:
  assumes "gesture_step seeded g p = Inr g'" "length (engaged g) = 8"
  shows "control_status g' c = (case switches c p of None \<Rightarrow> control_status g c | Some b \<Rightarrow> b)"
proof (cases c)
  case (FxControl f)
  show ?thesis
  proof (cases "f < kFxCount")
    case True
    note nth = nth_update_fx [OF True assms(2)]
    show ?thesis
    proof (cases p)
      case (FilterChange phase type cutoff resonance t)
      with assms FxControl True show ?thesis
        by (cases phase) (auto simp: invalid_performance_def nth split: if_splits)
    qed (use assms FxControl True in
        \<open>auto simp: invalid_performance_def valid_fx_def nth split: if_splits\<close>)
  next
    case False
    show ?thesis
    proof (cases p)
      case (FilterChange phase type cutoff resonance t)
      with FxControl False show ?thesis by (cases phase) auto
    qed (use assms(1) FxControl False in
        \<open>auto simp: invalid_performance_def valid_fx_def split: if_splits\<close>)
  qed
next
  case IndependentFilterControl
  show ?thesis
  proof (cases p)
    case (FilterChange phase type cutoff resonance t)
    with assms(1) IndependentFilterControl show ?thesis
      by (cases phase) (auto simp: invalid_performance_def split: if_splits)
  qed (use assms(1) IndependentFilterControl in
      \<open>auto simp: invalid_performance_def split: if_splits\<close>)
next
  case HoldControl
  then show ?thesis
    using assms(1) by (cases p) (auto simp: invalid_performance_def split: if_splits)
qed

text \<open>The whole stream, by induction along it from any state.\<close>

definition stream_accepted ::
  "bool \<Rightarrow> (control \<Rightarrow> bool) \<Rightarrow> performance_event list \<Rightarrow> bool" where
  "stream_accepted seeded start es =
     (\<forall>i < length es. (input_sequence (es ! i) \<noteq> None) = seeded \<and>
        payload_in_range seeded (payload (es ! i)) \<and>
        meets_requirement (\<lambda>c. active_after start c (take i es)) (payload (es ! i)))"

lemma stream_accepted_Cons:
  "stream_accepted seeded start (e # es) \<longleftrightarrow>
     (input_sequence e \<noteq> None) = seeded \<and> payload_in_range seeded (payload e) \<and>
     meets_requirement start (payload e) \<and>
     stream_accepted seeded
       (\<lambda>c. case switches c (payload e) of None \<Rightarrow> start c | Some b \<Rightarrow> b) es"
  unfolding stream_accepted_def by (auto simp: All_less_Suc2 active_after_Cons)

lemma run_gestures_accepted:
  "length (engaged g) = 8 \<Longrightarrow>
     is_ok (run_gestures seeded g es) \<longleftrightarrow> stream_accepted seeded (control_status g) es"
proof (induction es arbitrary: g)
  case Nil
  then show ?case by (simp add: stream_accepted_def)
next
  case (Cons e es)
  show ?case
  proof (cases "gesture_step seeded g (payload e)")
    case (Inl err)
    then have "\<not> (payload_in_range seeded (payload e) \<and> meets_requirement (control_status g) (payload e))"
      using gesture_step_ok [of seeded g "payload e"] by simp
    then show ?thesis
      using Inl by (auto simp: stream_accepted_Cons invalid_performance_def)
  next
    case (Inr g')
    then have "payload_in_range seeded (payload e) \<and> meets_requirement (control_status g) (payload e)"
      using gesture_step_ok [of seeded g "payload e"] by simp
    moreover have "control_status g' =
        (\<lambda>c. case switches c (payload e) of None \<Rightarrow> control_status g c | Some b \<Rightarrow> b)"
      using gesture_step_status [OF Inr Cons.prems] by blast
    moreover have "length (engaged g') = 8" using gesture_step_length [OF Inr] Cons.prems by simp
    ultimately show ?thesis
      using Inr Cons.IH [of g']
      by (auto simp: stream_accepted_Cons invalid_performance_def)
  qed
qed

text \<open>The controls that are on at the fence.\<close>

fun seed_status :: "performance_initial_live_state option \<Rightarrow> control \<Rightarrow> bool" where
  "seed_status None c = False"
| "seed_status (Some s) (FxControl f) =
     (if f = fx_filter then legacy_filter_active (live_filter s)
      else f < kFxCount \<and> unat f \<le> length (live_other_fx s) \<and>
           gate_active (live_other_fx s ! (unat f - 1)))"
| "seed_status (Some s) IndependentFilterControl = independent_active (live_filter s)"
| "seed_status (Some s) HoldControl = live_hold s"

lemma seed_gestures_status:
  "length (engaged (seed_gestures seed)) = 8 \<and> control_status (seed_gestures seed) = seed_status seed"
proof
  show "length (engaged (seed_gestures seed)) = 8"
    by (simp add: seed_gestures_def split: option.split)
  show "control_status (seed_gestures seed) = seed_status seed"
  proof
    fix c
    have "unat f < 8 \<and> (unat f = 0 \<longleftrightarrow> f = 0)" if "f < 8" for f :: u8
      using that by (simp add: word_less_nat_alt unat_eq_0)
    then show "control_status (seed_gestures seed) c = seed_status seed c"
      by (cases seed; cases c) (auto simp: seed_gestures_def Suc_le_eq nth_append)
  qed
qed

lemma validate_with_seed_accepted:
  "is_ok (validate_performance_events_with_seed es seed) \<longleftrightarrow>
     stream_accepted (seed \<noteq> None) (seed_status seed) es"
proof -
  have "is_ok (validate_performance_events_with_seed es seed) \<longleftrightarrow>
      is_ok (run_gestures (seed \<noteq> None) (seed_gestures seed) es)"
    by (simp add: validate_performance_events_with_seed_def split: sum.split)
  with seed_gestures_status [of seed] run_gestures_accepted show ?thesis by metis
qed

text \<open>
  Property C9. Soundness and completeness of the gesture validator: a stream is accepted
  exactly when every event carries an input sequence precisely in the headered profile, every
  payload is in range, and every event finds the control it needs in the state it needs, where
  the state of a control is what the last earlier event that switches it left, or the header's
  state when there is none. Engaging either form of the Filter switches the other off.
\<close>

theorem gesture_validator_exact:
  "is_ok (validate_performance_events_with_seed es seed) =
     (\<forall>i < length es.
        (input_sequence (es ! i) \<noteq> None) = (seed \<noteq> None) \<and>
        payload_in_range (seed \<noteq> None) (payload (es ! i)) \<and>
        meets_requirement (\<lambda>c. active_after (seed_status seed) c (take i es)) (payload (es ! i)))"
  by (simp add: validate_with_seed_accepted stream_accepted_def)

section \<open>The single Filter stage\<close>

definition single_filter_stage :: "gesture_state \<Rightarrow> bool" where
  "single_filter_stage g =
     (\<not> (control_status g (FxControl fx_filter) \<and> control_status g IndependentFilterControl))"

lemma single_filter_step:
  assumes "gesture_step seeded g p = Inr g'" "length (engaged g) = 8" "single_filter_stage g"
  shows "single_filter_stage g'"
proof (cases p)
  case (FilterChange phase type cutoff resonance t)
  with assms(3) show ?thesis
    unfolding single_filter_stage_def gesture_step_status [OF assms(1,2)] by (cases phase) auto
qed (use assms(3) in \<open>auto simp: single_filter_stage_def gesture_step_status [OF assms(1,2)]
    simp del: control_status.simps\<close>)

lemma run_single_filter:
  assumes "run_gestures seeded g es = Inr g'" "length (engaged g) = 8" "single_filter_stage g"
  shows "single_filter_stage g'"
  using assms
proof (induction es arbitrary: g)
  case (Cons e es)
  from Cons.prems(1) obtain g1 where g1: "gesture_step seeded g (payload e) = Inr g1"
    and rest: "run_gestures seeded g1 es = Inr g'"
    by (auto simp: invalid_performance_def split: if_splits sum.splits)
  show ?case
    using rest gesture_step_length [OF g1] single_filter_step [OF g1] Cons.prems(2,3)
    by (intro Cons.IH) auto
qed simp

lemma seed_single_filter: "single_filter_stage (seed_gestures seed)"
proof -
  have "control_status (seed_gestures seed) = seed_status seed"
    using seed_gestures_status by blast
  then show ?thesis
    by (cases seed; cases "live_filter (the seed)") (auto simp: single_filter_stage_def)
qed

text \<open>
  The legacy Filter and the independent Filter are never active together: the
  state the validator reaches on any stream it runs through, from any header, has at most one
  of them on.
\<close>

lemma filter_stage_is_single:
  assumes "run_gestures (seed \<noteq> None) (seed_gestures seed) es = Inr g"
  shows "\<not> (engaged g ! 0 \<and> independent_filter_active g)"
  using run_single_filter [OF assms] seed_gestures_status [of seed] seed_single_filter [of seed]
  by (auto simp: single_filter_stage_def)

text \<open>A recorded take that hands the Filter stage over from the legacy to the independent form.\<close>

definition handover_take :: "performance_event list" where
  "handover_take =
     [\<lparr>payload = FxMove 0 500 10, input_sequence = Some 4\<rparr>,
      \<lparr>payload = FilterChange FP_engage FT_lp 800 300 20, input_sequence = Some 6\<rparr>,
      \<lparr>payload = HoldOn 30, input_sequence = Some 7\<rparr>]"

definition handover_seed :: performance_initial_live_state where
  "handover_seed =
     \<lparr>live_hold = False,
      live_filter = LegacyFilter \<lparr>legacy_engaged = True, legacy_frozen = False, legacy_value = 400\<rparr>,
      live_other_fx = replicate 7 \<lparr>gate_engaged = False, gate_frozen = False, gate_value = 0\<rparr>,
      live_muted_mask = 0, live_solo_mask = 0\<rparr>"

lemma handover_run:
  "run_gestures True (seed_gestures (Some handover_seed)) handover_take =
     Inr \<lparr>engaged = replicate 8 False, independent_filter_active = True, hold_enabled = True\<rparr>"
  by code_simp

theorem gesture_validator_exact_witness:
  "is_ok (validate_performance_events_with_seed handover_take (Some handover_seed)) \<and>
   meets_requirement (\<lambda>c. active_after (seed_status (Some handover_seed)) c (take 1 handover_take))
     (payload (handover_take ! 1))"
proof -
  have ok: "is_ok (validate_performance_events_with_seed handover_take (Some handover_seed))"
    by (simp add: validate_performance_events_with_seed_def handover_run)
  moreover have "1 < length handover_take" by (simp add: handover_take_def)
  ultimately show ?thesis
    using gesture_validator_exact [of handover_take "Some handover_seed", THEN iffD1, OF ok] by blast
qed

lemma filter_stage_is_single_witness:
  "run_gestures True (seed_gestures (Some handover_seed)) handover_take =
     Inr \<lparr>engaged = replicate 8 False, independent_filter_active = True, hold_enabled = True\<rparr> \<and>
   \<not> (replicate 8 False ! 0 \<and> True)"
  using filter_stage_is_single [of "Some handover_seed" handover_take] handover_run by simp

section \<open>Canonical order\<close>

lemma headered_order_inj:
  assumes "unique_sequences es"
  shows "inj_on headered_order (set es)" "distinct es"
proof -
  from assms have d: "distinct (map input_sequence es)" and s: "\<forall>e\<in>set es. input_sequence e \<noteq> None"
    by (auto simp: unique_sequences_def distinct_from_iff list_all_iff)
  show "distinct es" using d by (simp add: distinct_map)
  show "inj_on headered_order (set es)"
  proof (rule inj_onI)
    fix x y
    assume xy: "x \<in> set es" "y \<in> set es" "headered_order x = headered_order y"
    with s obtain a b where "input_sequence x = Some a" "input_sequence y = Some b" by blast
    with xy(3) have "input_sequence x = input_sequence y" by (simp add: headered_order_def)
    with d xy(1,2) show "x = y" by (auto simp: distinct_map inj_on_def)
  qed
qed

lemma canonical_headered_unique:
  assumes "unique_sequences xs" "mset xs = mset ys"
  shows "canonical_performance_events xs Profile_header_input_sequence =
    canonical_performance_events ys Profile_header_input_sequence"
proof -
  note inj = headered_order_inj [OF assms(1)]
  have "set xs = set ys" "distinct ys"
    using mset_eq_setD [OF assms(2)] mset_eq_imp_distinct_iff [OF assms(2)] inj(2) by simp_all
  then have "sort_key headered_order xs = sort_key headered_order ys"
    using inj by (intro sorted_key_unique [of headered_order]) auto
  then show ?thesis by (simp add: canonical_performance_events_def)
qed

lemma canonical_mset [simp]: "mset (canonical_performance_events es p) = mset es"
  by (simp add: canonical_performance_events_def canonical_legacy_events_def)

lemma canonical_idem [simp]:
  "canonical_performance_events (canonical_performance_events es p) p =
     canonical_performance_events es p"
  by (simp add: canonical_performance_events_def canonical_legacy_events_def sort_key_stable
      sorted_sort_id sort_key_id_if_sorted)

lemma unique_sequences_mset:
  assumes "mset xs = mset ys"
  shows "unique_sequences xs = unique_sequences ys"
proof -
  have "mset (map input_sequence xs) = mset (map input_sequence ys)" using assms by simp
  then have "distinct (map input_sequence xs) = distinct (map input_sequence ys)"
    by (rule mset_eq_imp_distinct_iff)
  then show ?thesis
    using mset_eq_setD [OF assms] by (simp add: unique_sequences_def distinct_from_iff list_all_iff)
qed

lemma validate_performance_headered:
  assumes "initial_live_state p = Some seed"
  shows "is_ok (validate_performance p) \<longleftrightarrow>
    is_ok (validate_performance (p\<lparr>performance_events := [], initial_live_state := None\<rparr>)) \<and>
    is_ok (validate_initial_live_state seed) \<and> unique_sequences (performance_events p) \<and>
    canonical_performance_events (performance_events p) Profile_header_input_sequence
      = performance_events p \<and>
    stream_accepted True (seed_status (Some seed)) (performance_events p)"
proof -
  have "is_ok (validate_headered_events es seed) \<longleftrightarrow>
      stream_accepted True (seed_status (Some seed))
        (canonical_performance_events es Profile_header_input_sequence)" for es
    by (simp add: validate_headered_events_def validate_with_seed_accepted)
  then show ?thesis
    using assms
    by (auto simp: validate_performance_def performance_event_profile_of_def
        invalid_performance_def validate_legacy_events_def canonical_legacy_events_def
        validate_performance_events_with_seed_def canonical_performance_events_def
        split: sum.splits if_splits)
qed

text \<open>
  Normal form: a valid headered Performance is the only valid arrangement of its
  events. Whatever order the same events arrive in, canonical ordering returns the stored list,
  and no other arrangement passes validation.
\<close>

lemma valid_performance_normal_form:
  assumes "is_ok (validate_performance p)" "initial_live_state p \<noteq> None"
    and "mset es = mset (performance_events p)"
  shows "canonical_performance_events es Profile_header_input_sequence = performance_events p \<and>
    (is_ok (validate_performance (p\<lparr>performance_events := es\<rparr>)) \<longleftrightarrow> es = performance_events p)"
proof -
  from assms(2) obtain seed where seed: "initial_live_state p = Some seed" by blast
  note ok = assms(1) [unfolded validate_performance_headered [OF seed]]
  then have "canonical_performance_events es Profile_header_input_sequence = performance_events p"
    using canonical_headered_unique [of "performance_events p" es] assms(3) by simp
  moreover from this have "es = performance_events p" if "is_ok (validate_performance (p\<lparr>performance_events := es\<rparr>))"
    using that validate_performance_headered [of "p\<lparr>performance_events := es\<rparr>" seed] seed by simp
  moreover have "is_ok (validate_performance (p\<lparr>performance_events := es\<rparr>))" if "es = performance_events p"
    using that assms(1) by simp
  ultimately show ?thesis by blast
qed

definition handover_performance :: performance where
  "handover_performance =
     \<lparr>performance_key = ''0198b8e2-0000-4000-8000-00000000000a'', performance_name = ''Take 1'',
      created_bpm = 120, recording_revision = 3, recording_artifact = None,
      performance_events = handover_take, initial_live_state = Some handover_seed\<rparr>"

lemma handover_performance_valid: "is_ok (validate_performance handover_performance)"
  by code_simp

lemma valid_performance_normal_form_witness:
  "canonical_performance_events (rev handover_take) Profile_header_input_sequence = handover_take \<and>
   (is_ok (validate_performance (handover_performance\<lparr>performance_events := rev handover_take\<rparr>)) \<longleftrightarrow>
      rev handover_take = handover_take)"
  using valid_performance_normal_form [OF handover_performance_valid, of "rev handover_take"]
  by (simp add: handover_performance_def)

end
