(* ===== verification/Content.thy ===== *)
theory Content
  imports Pattern_Rules Lineage Performance_Rules
begin

text \<open>
  What a valid Project is (\<open>valid_content\<close> of \<open>authoring_delta.cpp\<close>) and how one begins
  (\<open>create_project\<close> of \<open>project.cpp\<close>). The parts of the invariant are named so that a command
  that writes one part can leave the others alone.
\<close>

section \<open>The content check\<close>

definition valid_artifact :: "artifact_ref \<Rightarrow> bool" where
  "valid_artifact a = (valid_sha256 (art_sha256 a) \<and> art_media_type a \<noteq> [])"

definition valid_settings :: "project_state \<Rightarrow> bool" where
  "valid_settings s =
     (\<not> (bpm s < 40 \<or> 240 < bpm s \<or> swing_percent s < kSwingPercentMin \<or>
         kSwingPercentMax < swing_percent s))"

definition valid_asset_entry :: "asset_id \<Rightarrow> asset \<Rightarrow> bool" where
  "valid_asset_entry k a =
     (\<not> (k \<noteq> asset_key a \<or> \<not> is_valid_uuid k \<or> length (art_sha256 (asset_artifact a)) \<noteq> 64 \<or>
         art_media_type (asset_artifact a) = [] \<or>
         \<not> list_all is_lower_hex (art_sha256 (asset_artifact a)) \<or>
         \<not> opt_all (\<lambda>l. is_ok (validate_asset_lineage l)) (asset_lineage_of a)))"

definition valid_pad :: "(asset_id, asset) std_map \<Rightarrow> nat \<Rightarrow> nat \<Rightarrow> pad_slot \<Rightarrow> bool" where
  "valid_pad as b p pd =
     (\<not> (unat (bank (slot_id pd)) \<noteq> b \<or> unat (pad (slot_id pd)) \<noteq> p \<or>
         \<not> opt_all (contains as) (slot_asset pd) \<or>
         \<not> opt_all (\<lambda>c. slot_asset pd \<noteq> None \<and> c < kPadColourCount) (slot_colour pd) \<or>
         \<not> is_valid_playback (slot_playback pd)))"

definition valid_banks :: "(asset_id, asset) std_map \<Rightarrow> pad_slot list list \<Rightarrow> bool" where
  "valid_banks as bs =
     list_all (\<lambda>b. list_all (\<lambda>p. valid_pad as b p (bs ! b ! p)) [0..<length (bs ! b)]) [0..<length bs]"

definition valid_pattern_entry :: "pattern_id \<Rightarrow> pattern \<Rightarrow> bool" where
  "valid_pattern_entry k p =
     (\<not> (k \<noteq> pattern_key p \<or> \<not> is_valid_uuid k \<or> \<not> valid_bars (pattern_bars p)) \<and>
      list_all (valid_pattern_event (pattern_length_ticks (pattern_bars p))) (pattern_events p))"

definition valid_performance_entry :: "performance_id \<Rightarrow> performance \<Rightarrow> bool" where
  "valid_performance_entry k p = (\<not> (k \<noteq> performance_key p \<or> \<not> is_ok (validate_performance p)))"

definition valid_content :: "project_state \<Rightarrow> bool" where
  "valid_content s =
     (valid_settings s \<and> is_ok (validate_pattern_slots s) \<and>
      all_entries valid_asset_entry (assets s) \<and> valid_banks (assets s) (banks s) \<and>
      all_entries valid_pattern_entry (patterns s) \<and>
      all_entries valid_performance_entry (performances s))"

section \<open>A new Project\<close>

definition empty_pad :: "nat \<Rightarrow> nat \<Rightarrow> pad_slot" where
  "empty_pad b p =
     \<lparr>slot_id = \<lparr>bank = of_nat b, pad = of_nat p\<rparr>, slot_asset = None,
      slot_playback = default_playback, slot_colour = None\<rparr>"

definition create_project :: "project_id \<Rightarrow> u16 \<Rightarrow> project_state result" where
  "create_project pid tempo =
     (if \<not> is_valid_uuid pid then
        failure (mk_error invalid_argument ''project id must be a lowercase UUID'')
      else if tempo < 40 \<or> 240 < tempo then
        failure ((mk_error invalid_argument ''project BPM must be between 40 and 240'')
          \<lparr>err_details := [(''bpm'', ArgUnsigned (ucast tempo))]\<rparr>)
      else success
        \<lparr>contract = PC_v5, state_id = pid, revision = 0, bpm = tempo, quantize_enabled = True,
         swing_percent = 50, banks = map (\<lambda>b. map (empty_pad b) [0..<16]) [0..<4],
         assets = map_empty, patterns = map_empty, performances = map_empty,
         pattern_slots = replicate 16 None\<rparr>)"

section \<open>Facts\<close>

lemma valid_artifact_entry:
  "valid_asset_entry k a \<longleftrightarrow>
     k = asset_key a \<and> is_valid_uuid k \<and> valid_artifact (asset_artifact a) \<and>
     opt_all (\<lambda>l. is_ok (validate_asset_lineage l)) (asset_lineage_of a)"
  by (auto simp: valid_asset_entry_def valid_artifact_def valid_sha256_def)

lemma valid_pattern_entry_iff:
  "valid_pattern_entry k p \<longleftrightarrow> k = pattern_key p \<and> is_ok (validate_pattern p)"
  by (auto simp: valid_pattern_entry_def validate_pattern_ok)

lemma valid_banks_iff:
  "valid_banks as bs \<longleftrightarrow> (\<forall>b < length bs. \<forall>p < length (bs ! b). valid_pad as b p (bs ! b ! p))"
  by (auto simp: valid_banks_def list_all_iff)

lemma valid_pad_mono:
  assumes "valid_pad as b p pd" "\<And>k. contains as k \<Longrightarrow> contains as' k"
  shows "valid_pad as' b p pd"
  using assms by (cases "slot_asset pd") (auto simp: valid_pad_def simp del: contains_iff)

lemma valid_banks_mono:
  "valid_banks as bs \<Longrightarrow> (\<And>k. contains as k \<Longrightarrow> contains as' k) \<Longrightarrow> valid_banks as' bs"
  unfolding valid_banks_iff using valid_pad_mono by blast

lemma valid_banks_update:
  assumes "valid_banks as bs" "b < length bs" "p < length (bs ! b)" "valid_pad as b p pd"
  shows "valid_banks as (bs[b := (bs ! b)[p := pd]])"
  unfolding valid_banks_iff
proof (intro allI impI)
  fix b' p'
  assume "b' < length (bs[b := (bs ! b)[p := pd]])" "p' < length (bs[b := (bs ! b)[p := pd]] ! b')"
  with assms show "valid_pad as b' p' (bs[b := (bs ! b)[p := pd]] ! b' ! p')"
    by (cases "b' = b"; cases "p' = p") (auto simp: valid_banks_iff)
qed

lemma create_project_valid:
  assumes "create_project pid tempo = Inr s"
  shows "valid_content s" "array_extents s"
proof -
  have "valid_pad map_empty b p (empty_pad b p)" if "b < 4" "p < 16" for b p
  proof -
    have "unat (of_nat b :: u8) = b" "unat (of_nat p :: u8) = p" using that by (simp_all add: unat_of_nat)
    then show ?thesis by (simp add: valid_pad_def empty_pad_def default_playback_valid)
  qed
  then show "valid_content s"
    using assms by (auto simp: create_project_def valid_content_def valid_settings_def
        validate_pattern_slots_ok valid_banks_iff all_entries_iff split: if_splits)
  show "array_extents s"
    using assms by (auto simp: create_project_def array_extents_def list_all_iff split: if_splits)
qed

end
