(* ===== verification/Commands.thy ===== *)
theory Commands
  imports Content
begin

text \<open>
  The Project commands of \<open>commands.hpp\<close> and their handlers in \<open>command_handler.cpp\<close>: every
  \<open>apply_new_command\<close> overload with its refusals in order, and the shared receipt and revision
  check \<open>apply_checked\<close>. Definitions only; the properties are in the theories that follow.
\<close>

section \<open>Commands\<close>

record command_meta =
  meta_command_id :: command_id
  expected_revision :: u64

record pattern_event_key =
  key_slot :: pad_slot_id
  key_onset :: u32

text \<open>\<open>SoundSetInstallAssignment\<close> and \<open>CandidateAdoptionAssignment\<close> have the same members.\<close>

record pad_assignment =
  assign_slot :: pad_slot_id
  assign_asset :: asset

text \<open>
  One constructor per command struct that has an \<open>apply_new_command\<close> overload, its members after
  \<open>meta\<close> in order. \<open>std::variant Command\<close> lists eight of them; the others are applied through
  overloads of \<open>apply\<close> with the same body.
\<close>

datatype command =
    ImportAsset asset
  | AssignPad pad_slot_id "asset_id option"
  | CreatePattern pattern
  | AssignPatternSlot u8 pattern_id
  | ClearPatternSlot u8
  | MovePatternSlot u8 u8
  | MergePatternEvents pattern_id "pattern_event list"
  | UpdateSequenceSettings "u16 option" "bool option" "u8 option"
  | ImportAssignSample asset pad_slot_id
  | SetPadColour pad_slot_id "u8 option"
  | UpdatePadPlayback pad_slot_id pad_playback
  | ResetPadPlayback pad_slot_id
  | EditPatternEvents pattern_id "pattern_event_key list" "pattern_event list"
  | ResizePattern pattern_id u8
  | DoubleUpPattern pattern_id
  | CopyPattern pattern_id pattern_id
  | InstallSoundSet "pad_assignment list"
  | AdoptCandidates project_id asset_id artifact_ref "pad_assignment list"

record applied_command =
  app_state :: project_state
  app_event :: json_writes
  app_replayed :: bool

record command_receipt =
  committed_revision :: u64
  receipt_event :: json_writes

type_synonym receipts = "(command_id, command_receipt) std_map"

section \<open>Shared pieces\<close>

definition invalid :: "string \<Rightarrow> 'a result" where
  "invalid msg = failure (mk_error invalid_argument msg)"

definition duplicate :: "string \<Rightarrow> 'a result" where
  "duplicate msg = failure (mk_error duplicate_id msg)"

definition edit_refused :: "error_code \<Rightarrow> string \<Rightarrow> string \<Rightarrow> 'a result" where
  "edit_refused c msg reason =
     failure ((mk_error c msg)\<lparr>err_details := [(''reason'', ArgString reason)]\<rparr>)"

text \<open>Early return on the error of an inner result, and \<open>invalid(result.error().message)\<close>.\<close>

definition and_then :: "'a result \<Rightarrow> ('a \<Rightarrow> 'b result) \<Rightarrow> 'b result" where
  "and_then r f = (case r of Inl e \<Rightarrow> failure e | Inr v \<Rightarrow> f v)"

definition as_invalid :: "'a result \<Rightarrow> 'a result" where
  "as_invalid r = (case r of Inl e \<Rightarrow> invalid (err_message e) | Inr v \<Rightarrow> success v)"

definition command_event :: "string \<Rightarrow> command_meta \<Rightarrow> u64 \<Rightarrow> json_writes" where
  "command_event type meta r =
     [(''command_id'', ArgString (meta_command_id meta)), (''revision'', ArgUnsigned r),
      (''type'', ArgString type)]"

definition applied ::
  "project_state \<Rightarrow> string \<Rightarrow> command_meta \<Rightarrow> project_contract \<Rightarrow> applied_command result" where
  "applied s type meta c =
     (let s' = s\<lparr>contract := max (contract s) c, revision := revision s + 1\<rparr>
      in success \<lparr>app_state = s', app_event = command_event type meta (revision s'),
                  app_replayed = False\<rparr>)"

text \<open>The writes \<open>result.value().event["key"] = value\<close> that follow \<open>applied\<close>.\<close>

definition with_event :: "json_writes \<Rightarrow> applied_command result \<Rightarrow> applied_command result" where
  "with_event ws r = map_sum id (\<lambda>a. a\<lparr>app_event := app_event a @ ws\<rparr>) r"

definition slot_arg :: "u8 \<Rightarrow> json_arg" where
  "slot_arg n = ArgUnsigned (ucast n)"

text \<open>The write of an Asset to a Pad: the binding, default playback, the colour override kept.\<close>

definition bind_pad :: "pad_slot_id \<Rightarrow> asset_id \<Rightarrow> project_state \<Rightarrow> project_state" where
  "bind_pad sl k s =
     set_pad sl ((pad_at s sl)\<lparr>slot_asset := Some k, slot_playback := default_playback\<rparr>) s"

definition put_asset :: "asset \<Rightarrow> project_state \<Rightarrow> project_state" where
  "put_asset a s = s\<lparr>assets := emplace (asset_key a) a (assets s)\<rparr>"

definition put_pattern_events ::
  "pattern_id \<Rightarrow> pattern \<Rightarrow> pattern_event list \<Rightarrow> project_state \<Rightarrow> project_state" where
  "put_pattern_events k p es s =
     s\<lparr>patterns := insert_or_assign k (p\<lparr>pattern_events := es\<rparr>) (patterns s)\<rparr>"

section \<open>Pattern slots\<close>

definition apply_assign_pattern_slot ::
  "project_state \<Rightarrow> command_meta \<Rightarrow> u8 \<Rightarrow> pattern_id \<Rightarrow> applied_command result" where
  "apply_assign_pattern_slot s meta slot pid =
     and_then (as_invalid (validate_pattern_slots s)) (\<lambda>_.
       if kPatternSlotCount \<le> slot then invalid ''Pattern slot is out of range''
       else if \<not> is_valid_uuid pid \<or> \<not> contains (patterns s) pid then
         invalid ''assigned Pattern does not exist''
       else if pattern_slots s ! unat slot \<noteq> None then invalid ''Pattern slot is already occupied''
       else if Some pid \<in> set (pattern_slots s) then
         invalid ''Pattern is already assigned to a slot''
       else with_event [(''pattern_id'', ArgString pid), (''pattern_slot'', slot_arg slot)]
         (applied (s\<lparr>pattern_slots := (pattern_slots s)[unat slot := Some pid]\<rparr>)
            ''pattern.slot_assigned'' meta PC_v4))"

definition apply_clear_pattern_slot ::
  "project_state \<Rightarrow> command_meta \<Rightarrow> u8 \<Rightarrow> applied_command result" where
  "apply_clear_pattern_slot s meta slot =
     and_then (as_invalid (validate_pattern_slots s)) (\<lambda>_.
       if kPatternSlotCount \<le> slot then invalid ''Pattern slot is out of range''
       else case pattern_slots s ! unat slot of
           None \<Rightarrow> invalid ''Pattern slot is empty''
         | Some pid \<Rightarrow>
             with_event [(''pattern_id'', ArgString pid), (''pattern_slot'', slot_arg slot)]
               (applied (s\<lparr>pattern_slots := (pattern_slots s)[unat slot := None]\<rparr>)
                  ''pattern.slot_cleared'' meta PC_v4))"

definition apply_move_pattern_slot ::
  "project_state \<Rightarrow> command_meta \<Rightarrow> u8 \<Rightarrow> u8 \<Rightarrow> applied_command result" where
  "apply_move_pattern_slot s meta from_slot to_slot =
     and_then (as_invalid (validate_pattern_slots s)) (\<lambda>_.
       if kPatternSlotCount \<le> from_slot \<or> kPatternSlotCount \<le> to_slot then
         invalid ''Pattern slot is out of range''
       else if from_slot = to_slot then invalid ''Pattern slot move requires different slots''
       else case pattern_slots s ! unat from_slot of
           None \<Rightarrow> invalid ''Pattern slot move source is empty''
         | Some pid \<Rightarrow>
             (if pattern_slots s ! unat to_slot \<noteq> None then
                invalid ''Pattern slot move target is occupied''
              else with_event [(''from_slot'', slot_arg from_slot), (''pattern_id'', ArgString pid),
                               (''to_slot'', slot_arg to_slot)]
                (applied (s\<lparr>pattern_slots :=
                     (pattern_slots s)[unat from_slot := None, unat to_slot := Some pid]\<rparr>)
                   ''pattern.slot_moved'' meta PC_v4)))"

section \<open>Assets and Pads\<close>

text \<open>The checks on a new Asset, the same text in the \<open>ImportAsset\<close> and \<open>ImportAssignSample\<close> handlers.\<close>

definition lineage_supported :: "project_state \<Rightarrow> asset_lineage \<Rightarrow> bool" where
  "lineage_supported s l =
     (\<not> (contract s < PC_v4 \<or>
         (asset_lineage_derivation_kind_of l = DK_capability_adoption \<and> contract s < PC_v5)))"

definition check_lineage :: "project_state \<Rightarrow> asset_lineage option \<Rightarrow> unit result" where
  "check_lineage s lo =
     (case lo of
        None \<Rightarrow> success ()
      | Some l \<Rightarrow> and_then (validate_asset_lineage l) (\<lambda>_.
          if \<not> lineage_supported s l then
            invalid ''Asset Lineage is not supported by this Project Contract''
          else success ()))"

definition check_new_asset :: "project_state \<Rightarrow> asset \<Rightarrow> unit result" where
  "check_new_asset s a =
     (if \<not> is_valid_uuid (asset_key a) then invalid ''asset id must be a lowercase UUID''
      else if \<not> valid_artifact (asset_artifact a) then invalid ''artifact reference is invalid''
      else and_then (check_lineage s (asset_lineage_of a)) (\<lambda>_.
        if contains (assets s) (asset_key a) then duplicate ''asset id already exists''
        else success ()))"

definition apply_import_asset ::
  "project_state \<Rightarrow> command_meta \<Rightarrow> asset \<Rightarrow> applied_command result" where
  "apply_import_asset s meta a =
     and_then (check_new_asset s a) (\<lambda>_. applied (put_asset a s) ''asset.imported'' meta PC_v3)"

definition apply_import_assign_sample ::
  "project_state \<Rightarrow> command_meta \<Rightarrow> asset \<Rightarrow> pad_slot_id \<Rightarrow> applied_command result" where
  "apply_import_assign_sample s meta a sl =
     (if \<not> is_valid_slot sl then invalid ''pad slot is invalid''
      else and_then (check_new_asset s a) (\<lambda>_.
        applied (bind_pad sl (asset_key a) (put_asset a s)) ''sample.imported_assigned'' meta PC_v3))"

definition assigned_pad :: "pad_slot \<Rightarrow> asset_id option \<Rightarrow> pad_slot" where
  "assigned_pad pd ao =
     (let resets_playback = (ao = None \<or> slot_asset pd \<noteq> ao) in
      pd\<lparr>slot_asset := ao,
         slot_playback := (if resets_playback then default_playback else slot_playback pd),
         slot_colour := (if ao = None then None else slot_colour pd)\<rparr>)"

definition apply_assign_pad ::
  "project_state \<Rightarrow> command_meta \<Rightarrow> pad_slot_id \<Rightarrow> asset_id option \<Rightarrow> applied_command result" where
  "apply_assign_pad s meta sl ao =
     (if \<not> is_valid_slot sl then invalid ''pad slot is invalid''
      else if \<not> opt_all is_valid_uuid ao then invalid ''asset id must be a lowercase UUID''
      else if \<not> opt_all (contains (assets s)) ao then
        failure (mk_error missing_asset ''assigned asset does not exist'')
      else applied (set_pad sl (assigned_pad (pad_at s sl) ao) s) ''pad.assigned'' meta PC_v3)"

definition apply_set_pad_colour ::
  "project_state \<Rightarrow> command_meta \<Rightarrow> pad_slot_id \<Rightarrow> u8 option \<Rightarrow> applied_command result" where
  "apply_set_pad_colour s meta sl colour =
     (if \<not> is_valid_slot sl then invalid ''pad slot is invalid''
      else if \<not> opt_all (\<lambda>c. c < kPadColourCount) colour then
        edit_refused invalid_argument ''pad colour is not a palette index'' ''pad_colour_out_of_range''
      else if slot_asset (pad_at s sl) = None then
        edit_refused invalid_argument ''an empty Pad has no colour'' ''pad_empty''
      else if slot_colour (pad_at s sl) = colour then
        edit_refused invalid_argument ''pad colour is unchanged'' ''pad_colour_unchanged''
      else applied (set_pad sl ((pad_at s sl)\<lparr>slot_colour := colour\<rparr>) s) ''pad.colour_set'' meta PC_v3)"

definition apply_update_pad_playback ::
  "project_state \<Rightarrow> command_meta \<Rightarrow> pad_slot_id \<Rightarrow> pad_playback \<Rightarrow> applied_command result" where
  "apply_update_pad_playback s meta sl playback =
     (if \<not> is_valid_slot sl then invalid ''pad slot is invalid''
      else if \<not> is_valid_playback playback then invalid ''pad playback is invalid''
      else applied (set_pad sl ((pad_at s sl)\<lparr>slot_playback := playback\<rparr>) s)
        ''pad.playback_updated'' meta PC_v3)"

definition apply_reset_pad_playback ::
  "project_state \<Rightarrow> command_meta \<Rightarrow> pad_slot_id \<Rightarrow> applied_command result" where
  "apply_reset_pad_playback s meta sl =
     (if \<not> is_valid_slot sl then invalid ''pad slot is invalid''
      else applied (set_pad sl ((pad_at s sl)\<lparr>slot_playback := default_playback\<rparr>) s)
        ''pad.playback_reset'' meta PC_v3)"

section \<open>Patterns\<close>

definition apply_create_pattern ::
  "project_state \<Rightarrow> command_meta \<Rightarrow> pattern \<Rightarrow> applied_command result" where
  "apply_create_pattern s meta p =
     and_then (validate_pattern p) (\<lambda>_.
       if contains (patterns s) (pattern_key p) then duplicate ''pattern id already exists''
       else let p' = p\<lparr>pattern_events := merge_pattern_events [] (pattern_events p)\<rparr> in
         applied (s\<lparr>patterns := emplace (pattern_key p') p' (patterns s)\<rparr>)
           ''pattern.created'' meta PC_v3)"

definition apply_merge_pattern_events ::
  "project_state \<Rightarrow> command_meta \<Rightarrow> pattern_id \<Rightarrow> pattern_event list \<Rightarrow> applied_command result" where
  "apply_merge_pattern_events s meta pid events =
     (if \<not> is_valid_uuid pid then invalid ''pattern id must be a lowercase UUID''
      else case lookup (patterns s) pid of
          None \<Rightarrow> failure (mk_error invalid_argument ''pattern does not exist'')
        | Some p \<Rightarrow>
            and_then (validate_pattern
                \<lparr>pattern_key = pid, pattern_bars = pattern_bars p, pattern_events = events\<rparr>) (\<lambda>_.
              applied (put_pattern_events pid p (merge_pattern_events (pattern_events p) events) s)
                ''pattern.events_merged'' meta PC_v3))"

fun check_removed :: "pattern_event_key list \<Rightarrow> pattern_event_key list \<Rightarrow> unit result" where
  "check_removed seen [] = success ()"
| "check_removed seen (k # ks) =
     (if \<not> is_valid_slot (key_slot k) then invalid ''pattern event key is invalid''
      else if k \<in> set seen then
        edit_refused invalid_argument ''pattern edit removes an event twice''
          ''pattern_edit_duplicate_key''
      else check_removed (k # seen) ks)"

definition event_key_of :: "pattern_event \<Rightarrow> pattern_event_key" where
  "event_key_of e = \<lparr>key_slot = event_slot e, key_onset = onset_tick e\<rparr>"

definition apply_edit_pattern_events ::
  "project_state \<Rightarrow> command_meta \<Rightarrow> pattern_id \<Rightarrow> pattern_event_key list \<Rightarrow> pattern_event list
     \<Rightarrow> applied_command result" where
  "apply_edit_pattern_events s meta pid removed put =
     (if \<not> is_valid_uuid pid then invalid ''pattern id must be a lowercase UUID''
      else case lookup (patterns s) pid of
          None \<Rightarrow> edit_refused not_found ''pattern does not exist'' ''pattern_not_found''
        | Some p \<Rightarrow>
            and_then (check_removed [] removed) (\<lambda>_.
              if \<not> distinct_from event_key_of [] put then
                edit_refused invalid_argument ''pattern edit puts an event twice''
                  ''pattern_edit_duplicate_key''
              else if removed = [] \<and> put = [] then
                edit_refused invalid_argument ''pattern edit is empty'' ''pattern_edit_empty''
              else and_then (validate_pattern
                  \<lparr>pattern_key = pid, pattern_bars = pattern_bars p, pattern_events = put\<rparr>) (\<lambda>_.
                let gone = (\<lambda>e. event_key_of e \<in> set removed);
                    kept = filter (\<lambda>e. \<not> gone e) (pattern_events p);
                    matched = length (filter gone (pattern_events p));
                    events = merge_pattern_events kept put
                in if matched \<noteq> length removed then
                     edit_refused not_found ''pattern event to remove does not exist''
                       ''pattern_event_missing''
                   else if events = pattern_events p then
                     edit_refused invalid_argument ''pattern edit changes nothing''
                       ''pattern_edit_unchanged''
                   else applied (put_pattern_events pid p events s)
                     ''pattern.events_edited'' meta PC_v3)))"

definition resize_events :: "u32 \<Rightarrow> pattern_event list \<Rightarrow> pattern_event list" where
  "resize_events tick_limit es =
     map (\<lambda>e. e\<lparr>duration_tick := min (duration_tick e) (tick_limit - onset_tick e)\<rparr>)
       (filter (\<lambda>e. \<not> tick_limit \<le> onset_tick e) es)"

definition apply_resize_pattern ::
  "project_state \<Rightarrow> command_meta \<Rightarrow> pattern_id \<Rightarrow> u8 \<Rightarrow> applied_command result" where
  "apply_resize_pattern s meta pid bars =
     (if \<not> is_valid_uuid pid then invalid ''pattern id must be a lowercase UUID''
      else if \<not> valid_bars bars then invalid ''pattern bars must be one of 1, 2, 4, or 8''
      else case lookup (patterns s) pid of
          None \<Rightarrow> edit_refused not_found ''pattern does not exist'' ''pattern_not_found''
        | Some p \<Rightarrow>
            (if pattern_bars p = bars then
               edit_refused invalid_argument ''pattern already has this length''
                 ''pattern_length_unchanged''
             else with_event [(''pattern_id'', ArgString pid), (''bars'', slot_arg bars)]
               (applied (put_pattern_events pid (p\<lparr>pattern_bars := bars\<rparr>)
                    (resize_events (pattern_length_ticks bars) (pattern_events p)) s)
                  ''pattern.resized'' meta PC_v3)))"

definition shift_event :: "u32 \<Rightarrow> pattern_event \<Rightarrow> pattern_event" where
  "shift_event len e = e\<lparr>onset_tick := onset_tick e + len\<rparr>"

definition apply_double_up_pattern ::
  "project_state \<Rightarrow> command_meta \<Rightarrow> pattern_id \<Rightarrow> applied_command result" where
  "apply_double_up_pattern s meta pid =
     (if \<not> is_valid_uuid pid then invalid ''pattern id must be a lowercase UUID''
      else case lookup (patterns s) pid of
          None \<Rightarrow> edit_refused not_found ''pattern does not exist'' ''pattern_not_found''
        | Some p \<Rightarrow>
            (if 8 \<le> pattern_bars p then
               edit_refused invalid_argument ''pattern is already at the longest length''
                 ''pattern_length_maximum''
             else let len = pattern_length_ticks (pattern_bars p);
                      repeated = map (shift_event len) (pattern_events p);
                      bars = pattern_bars p * 2
               in with_event [(''pattern_id'', ArgString pid), (''bars'', slot_arg bars)]
                 (applied (put_pattern_events pid (p\<lparr>pattern_bars := bars\<rparr>)
                      (merge_pattern_events (pattern_events p) repeated) s)
                    ''pattern.doubled'' meta PC_v3)))"

text \<open>The lowest empty Pattern slot after the one a Pattern holds.\<close>

definition copy_slot :: "pattern_id option list \<Rightarrow> pattern_id \<Rightarrow> nat option" where
  "copy_slot slots source =
     (case find_from (\<lambda>x. x = Some source) 0 slots of
        None \<Rightarrow> None
      | Some held \<Rightarrow> find_from (\<lambda>x. x = None) (held + 1) (drop (held + 1) slots))"

definition apply_copy_pattern ::
  "project_state \<Rightarrow> command_meta \<Rightarrow> pattern_id \<Rightarrow> pattern_id \<Rightarrow> applied_command result" where
  "apply_copy_pattern s meta source pid =
     (if \<not> is_valid_uuid source \<or> \<not> is_valid_uuid pid then
        invalid ''pattern id must be a lowercase UUID''
      else case lookup (patterns s) source of
          None \<Rightarrow> edit_refused not_found ''pattern does not exist'' ''pattern_not_found''
        | Some p \<Rightarrow>
            (if contains (patterns s) pid then duplicate ''pattern id already exists''
             else and_then (as_invalid (validate_pattern_slots s)) (\<lambda>_.
               let slot = copy_slot (pattern_slots s) source;
                   copy = s\<lparr>patterns := emplace pid (p\<lparr>pattern_key := pid\<rparr>) (patterns s),
                     pattern_slots := (case slot of None \<Rightarrow> pattern_slots s
                                       | Some i \<Rightarrow> (pattern_slots s)[i := Some pid])\<rparr>
               in with_event
                    [(''pattern_id'', ArgString pid), (''source_pattern_id'', ArgString source),
                     (''pattern_slot'',
                      case slot of None \<Rightarrow> ArgNull | Some i \<Rightarrow> slot_arg (of_nat i))]
                    (applied copy ''pattern.copied'' meta
                       (if slot \<noteq> None then PC_v4 else PC_v3)))))"

section \<open>Settings\<close>

definition apply_update_sequence_settings ::
  "project_state \<Rightarrow> command_meta \<Rightarrow> u16 option \<Rightarrow> bool option \<Rightarrow> u8 option \<Rightarrow> applied_command result" where
  "apply_update_sequence_settings s meta tempo quantize swing =
     (if tempo = None \<and> quantize = None \<and> swing = None then
        invalid ''sequence settings update is empty''
      else if \<not> opt_all (\<lambda>b. \<not> (b < 40 \<or> 240 < b)) tempo then
        invalid ''project BPM must be between 40 and 240''
      else if \<not> opt_all (\<lambda>p. \<not> (p < kSwingPercentMin \<or> kSwingPercentMax < p)) swing then
        invalid ''swing percent must be between 50 and 75''
      else applied (s\<lparr>bpm := value_or tempo (bpm s),
          quantize_enabled := value_or quantize (quantize_enabled s),
          swing_percent := value_or swing (swing_percent s)\<rparr>)
        ''sequence.settings_updated'' meta PC_v3)"

section \<open>Sound Set install and candidate adoption\<close>

definition install_one :: "pad_assignment \<Rightarrow> project_state \<Rightarrow> project_state" where
  "install_one x s = bind_pad (assign_slot x) (asset_key (assign_asset x)) (put_asset (assign_asset x) s)"

definition install_all :: "pad_assignment list \<Rightarrow> project_state \<Rightarrow> project_state" where
  "install_all xs s = fold install_one xs s"

text \<open>The lineage checks of one install assignment, up to the Set identity.\<close>

definition installed_source :: "asset \<Rightarrow> soundset_lineage_source option" where
  "installed_source a =
     (case asset_lineage_of a of
        None \<Rightarrow> None
      | Some l \<Rightarrow>
          (case (lineage_source l, lineage_derivation l) of
             (SoundSetSource src, SoundSetInstall) \<Rightarrow> Some src
           | _ \<Rightarrow> None))"

definition same_set :: "soundset_lineage_source \<Rightarrow> soundset_lineage_source \<Rightarrow> bool" where
  "same_set x y = (set_id x = set_id y \<and> set_version x = set_version y \<and>
     manifest_sha256 x = manifest_sha256 y)"

fun check_install ::
  "project_state \<Rightarrow> u8 \<Rightarrow> u8 list \<Rightarrow> asset_id list \<Rightarrow> soundset_lineage_source option
     \<Rightarrow> pad_assignment list \<Rightarrow> unit result" where
  "check_install s bk pads ids identity [] = success ()"
| "check_install s bk pads ids identity (x # xs) =
     (let sl = assign_slot x; a = assign_asset x in
      if \<not> is_valid_slot sl then invalid ''pad slot is invalid''
      else if bank sl \<noteq> bk then invalid ''a Sound Set install targets exactly one Bank''
      else if pad sl \<in> set pads then
        invalid ''a Sound Set install assigns each Pad at most once''
      else if \<not> is_valid_uuid (asset_key a) then invalid ''asset id must be a lowercase UUID''
      else if asset_key a \<in> set ids then
        invalid ''a Sound Set install introduces each asset id once''
      else if \<not> valid_artifact (asset_artifact a) then invalid ''artifact reference is invalid''
      else if contains (assets s) (asset_key a) then duplicate ''asset id already exists''
      else case (asset_lineage_of a, installed_source a) of
          (Some l, Some src) \<Rightarrow>
            and_then (as_invalid (validate_asset_lineage l)) (\<lambda>_.
              if set_slot_index src \<noteq> pad sl then
                invalid ''soundset Lineage slot index must match the installed Pad Slot''
              else if set_artifact_sha256 src \<noteq> art_sha256 (asset_artifact a) then
                invalid ''soundset Lineage artifact digest must match the installed Asset''
              else if \<not> opt_all (\<lambda>i. same_set i src) identity then
                invalid ''a Sound Set install carries exactly one Set identity''
              else check_install s bk (pad sl # pads) (asset_key a # ids)
                (Some (value_or identity src)) xs)
        | _ \<Rightarrow> invalid ''an installed Sound Set slot must carry soundset Lineage'')"

definition apply_install_soundset ::
  "project_state \<Rightarrow> command_meta \<Rightarrow> pad_assignment list \<Rightarrow> applied_command result" where
  "apply_install_soundset s meta xs =
     (if contract s < PC_v4 then
        invalid ''installing a Sound Set requires lmdj.project.v4 Project Truth''
      else case xs of
          [] \<Rightarrow> invalid ''installing a Sound Set needs at least one assignment''
        | x # _ \<Rightarrow>
            and_then (check_install s (bank (assign_slot x)) [] [] None xs) (\<lambda>_.
              applied (install_all xs s) ''soundset.installed'' meta PC_v4))"

definition validate_candidate_source ::
  "project_state \<Rightarrow> project_id \<Rightarrow> u64 \<Rightarrow> asset_id \<Rightarrow> artifact_ref \<Rightarrow> unit result" where
  "validate_candidate_source s pid expected source art =
     (if state_id s \<noteq> pid \<or> revision s \<noteq> expected then
        failure (mk_error revision_conflict ''Adoption Project identity or revision changed'')
      else case lookup (assets s) source of
          None \<Rightarrow> edit_refused not_found ''Candidate source Asset is missing'' ''source_asset_missing''
        | Some a \<Rightarrow>
            (if asset_artifact a \<noteq> art then
               edit_refused revision_conflict ''Candidate source binding changed''
                 ''candidate_source_changed''
             else success ()))"

text \<open>
  \<open>get_if\<close> of both variants: the analysis source and the evidence of an adopted Asset.
\<close>

definition adoption_evidence ::
  "asset_lineage \<Rightarrow> (asset_artifact_lineage_source \<times> capability_adoption_lineage_derivation) option" where
  "adoption_evidence l =
     (case (lineage_source l, lineage_derivation l) of
        (ArtifactSource src, CapabilityAdoption ev) \<Rightarrow> Some (src, ev)
      | _ \<Rightarrow> None)"

definition same_analysis ::
  "asset_artifact_lineage_source \<times> capability_adoption_lineage_derivation
     \<Rightarrow> asset_artifact_lineage_source \<times> capability_adoption_lineage_derivation \<Rightarrow> bool" where
  "same_analysis first this =
     ((snd this)\<lparr>adopt_recipe := adopt_recipe (snd first)\<rparr> = snd first \<and> fst this = fst first)"

fun check_adoption ::
  "project_state \<Rightarrow> asset_id \<Rightarrow> artifact_ref \<Rightarrow> (u8 \<times> u8) list \<Rightarrow> asset_id list
     \<Rightarrow> (asset_artifact_lineage_source \<times> capability_adoption_lineage_derivation) option
     \<Rightarrow> pad_assignment list \<Rightarrow> unit result" where
  "check_adoption s source art targets ids evidence [] = success ()"
| "check_adoption s source art targets ids evidence (x # xs) =
     (let sl = assign_slot x; a = assign_asset x in
      if \<not> is_valid_slot sl \<or> (bank sl, pad sl) \<in> set targets then
        invalid ''adoption targets must be valid and unique''
      else if \<not> is_valid_uuid (asset_key a) \<or> asset_key a \<in> set ids \<or>
              contains (assets s) (asset_key a) then
        invalid ''adoption Asset IDs must be new and unique''
      else if \<not> valid_artifact (asset_artifact a) \<or>
              art_media_type (asset_artifact a) \<noteq> ''audio/wav'' then
        invalid ''adoption requires WAV artifacts and valid lineage''
      else case asset_lineage_of a of
          None \<Rightarrow> invalid ''adoption requires WAV artifacts and valid lineage''
        | Some l \<Rightarrow>
            and_then (as_invalid (validate_asset_lineage l)) (\<lambda>_.
              case adoption_evidence l of
                None \<Rightarrow> invalid ''adoption lineage must match its source binding''
              | Some (src, ev) \<Rightarrow>
                  (if source_artifact_sha256 src \<noteq> art_sha256 art \<or>
                      revision s < source_project_revision src \<or>
                      adopt_source_asset_id ev \<noteq> source then
                     invalid ''adoption lineage must match its source binding''
                   else if \<not> opt_all (\<lambda>e. same_analysis e (src, ev)) evidence then
                     invalid ''adoption requires one analysis identity''
                   else check_adoption s source art ((bank sl, pad sl) # targets)
                     (asset_key a # ids) (Some (value_or evidence (src, ev))) xs)))"

definition apply_adopt_candidates ::
  "project_state \<Rightarrow> command_meta \<Rightarrow> project_id \<Rightarrow> asset_id \<Rightarrow> artifact_ref \<Rightarrow> pad_assignment list
     \<Rightarrow> applied_command result" where
  "apply_adopt_candidates s meta pid source art xs =
     and_then (validate_candidate_source s pid (expected_revision meta) source art) (\<lambda>_.
       if xs = [] \<or> 64 < length xs then invalid ''adoption requires explicit Pad targets''
       else and_then (check_adoption s source art [] [] None xs) (\<lambda>_.
         applied (install_all xs s) ''candidate.adopted'' meta PC_v5))"

section \<open>Applying a command\<close>

fun apply_new_command :: "project_state \<Rightarrow> command_meta \<Rightarrow> command \<Rightarrow> applied_command result" where
  "apply_new_command s m (ImportAsset a) = apply_import_asset s m a"
| "apply_new_command s m (AssignPad sl ao) = apply_assign_pad s m sl ao"
| "apply_new_command s m (CreatePattern p) = apply_create_pattern s m p"
| "apply_new_command s m (AssignPatternSlot i p) = apply_assign_pattern_slot s m i p"
| "apply_new_command s m (ClearPatternSlot i) = apply_clear_pattern_slot s m i"
| "apply_new_command s m (MovePatternSlot i j) = apply_move_pattern_slot s m i j"
| "apply_new_command s m (MergePatternEvents p es) = apply_merge_pattern_events s m p es"
| "apply_new_command s m (UpdateSequenceSettings b q w) = apply_update_sequence_settings s m b q w"
| "apply_new_command s m (ImportAssignSample a sl) = apply_import_assign_sample s m a sl"
| "apply_new_command s m (SetPadColour sl c) = apply_set_pad_colour s m sl c"
| "apply_new_command s m (UpdatePadPlayback sl p) = apply_update_pad_playback s m sl p"
| "apply_new_command s m (ResetPadPlayback sl) = apply_reset_pad_playback s m sl"
| "apply_new_command s m (EditPatternEvents p ks es) = apply_edit_pattern_events s m p ks es"
| "apply_new_command s m (ResizePattern p b) = apply_resize_pattern s m p b"
| "apply_new_command s m (DoubleUpPattern p) = apply_double_up_pattern s m p"
| "apply_new_command s m (CopyPattern p q) = apply_copy_pattern s m p q"
| "apply_new_command s m (InstallSoundSet xs) = apply_install_soundset s m xs"
| "apply_new_command s m (AdoptCandidates i a r xs) = apply_adopt_candidates s m i a r xs"

definition apply_checked ::
  "project_state \<Rightarrow> command_meta \<Rightarrow> command \<Rightarrow> receipts \<Rightarrow> applied_command result" where
  "apply_checked s meta c receipts =
     (if \<not> is_valid_uuid (meta_command_id meta) then invalid ''command id must be a lowercase UUID''
      else case lookup receipts (meta_command_id meta) of
          Some receipt \<Rightarrow>
            success \<lparr>app_state = s, app_event = receipt_event receipt, app_replayed = True\<rparr>
        | None \<Rightarrow>
            (if expected_revision meta \<noteq> revision s then
               failure ((mk_error revision_conflict ''command expected a different project revision'')
                 \<lparr>err_details := [(''actual_revision'', ArgUnsigned (revision s)),
                                 (''expected_revision'', ArgUnsigned (expected_revision meta))]\<rparr>)
             else apply_new_command s meta c))"

text \<open>The overload for \<open>AdoptCandidates\<close>, which refuses a replayed command identity.\<close>

definition apply_adopt_request ::
  "project_state \<Rightarrow> command_meta \<Rightarrow> project_id \<Rightarrow> asset_id \<Rightarrow> artifact_ref \<Rightarrow> pad_assignment list
     \<Rightarrow> receipts \<Rightarrow> applied_command result" where
  "apply_adopt_request s meta pid source art xs receipts =
     and_then (validate_candidate_source s pid (expected_revision meta) source art) (\<lambda>_.
       if contains receipts (meta_command_id meta) then
         invalid ''adoption requires a new explicit command identity''
       else apply_checked s meta (AdoptCandidates pid source art xs) receipts)"

definition apply_command ::
  "project_state \<Rightarrow> command_meta \<Rightarrow> command \<Rightarrow> receipts \<Rightarrow> applied_command result" where
  "apply_command s meta c receipts =
     (case c of
        AdoptCandidates pid source art xs \<Rightarrow> apply_adopt_request s meta pid source art xs receipts
      | _ \<Rightarrow> apply_checked s meta c receipts)"

text \<open>\<open>DeletePad\<close> is the null assignment.\<close>

definition apply_delete_pad ::
  "project_state \<Rightarrow> command_meta \<Rightarrow> pad_slot_id \<Rightarrow> receipts \<Rightarrow> applied_command result" where
  "apply_delete_pad s meta sl receipts = apply_command s meta (AssignPad sl None) receipts"

end
