(* ===== verification/Command_Invariants.thy ===== *)
theory Command_Invariants
  imports Commands
begin

text \<open>
  Every command keeps a Project valid. The handlers are read through one predicate,
  \<open>ensures P r\<close>: if \<open>r\<close> is a success, its value satisfies \<open>P\<close>. Its rules turn a handler into the
  facts its own guards establish.
\<close>

section \<open>Reading a handler\<close>

definition ensures :: "('a \<Rightarrow> bool) \<Rightarrow> 'a result \<Rightarrow> bool" where
  "ensures P r = (case r of Inl _ \<Rightarrow> True | Inr a \<Rightarrow> P a)"

lemma ensuresD: "ensures P r \<Longrightarrow> r = Inr a \<Longrightarrow> P a"
  by (simp add: ensures_def)

lemma ensuresI: "(\<And>a. r = Inr a \<Longrightarrow> P a) \<Longrightarrow> ensures P r"
  by (cases r) (simp_all add: ensures_def)

lemma ensures_refusal [simp]:
  "ensures P (Inl e)" "ensures P (invalid m)" "ensures P (duplicate m)" "ensures P (edit_refused c m w)"
  by (simp_all add: ensures_def invalid_def duplicate_def edit_refused_def)

lemma ensures_success [simp]: "ensures P (Inr a) = P a"
  by (simp add: ensures_def)

lemma ensures_and_then [simp]:
  "ensures P (and_then r f) \<longleftrightarrow> (\<forall>v. r = Inr v \<longrightarrow> ensures P (f v))"
  by (cases r) (simp_all add: and_then_def)

lemma ensures_with_event [simp]:
  "ensures P (with_event ws r) \<longleftrightarrow> ensures (\<lambda>a. P (a\<lparr>app_event := app_event a @ ws\<rparr>)) r"
  by (cases r) (simp_all add: with_event_def)

lemma ensures_applied [simp]:
  "ensures P (applied s t m c) \<longleftrightarrow>
     P \<lparr>app_state = s\<lparr>contract := max (contract s) c, revision := revision s + 1\<rparr>,
        app_event = command_event t m (revision s + 1), app_replayed = False\<rparr>"
  by (simp add: applied_def Let_def)

lemma as_invalid_ok [simp]: "as_invalid r = Inr v \<longleftrightarrow> r = Inr v"
  by (cases r) (simp_all add: as_invalid_def invalid_def)

lemma refusal_is_failure [simp]:
  "invalid m \<noteq> Inr v" "duplicate m \<noteq> Inr v" "edit_refused c m w \<noteq> Inr v"
  by (simp_all add: invalid_def duplicate_def edit_refused_def)

lemma and_then_ok [simp]: "and_then r f = Inr v \<longleftrightarrow> (\<exists>u. r = Inr u \<and> f u = Inr v)"
  by (cases r) (simp_all add: and_then_def)

section \<open>The Project invariant\<close>

definition good_project :: "project_state \<Rightarrow> bool" where
  "good_project s = (valid_content s \<and> array_extents s)"

lemma good_project_meta [simp]:
  "good_project (s\<lparr>contract := c, revision := r\<rparr>) = good_project s"
  by (simp add: good_project_def valid_content_def valid_settings_def validate_pattern_slots_def
      array_extents_def)

lemma good_put_asset:
  assumes "good_project s" "valid_asset_entry (asset_key a) a"
  shows "good_project (put_asset a s)"
proof -
  have "valid_banks (assets (put_asset a s)) (banks s)"
    using assms(1) unfolding good_project_def valid_content_def
    by (auto simp: put_asset_def simp del: contains_iff intro!: valid_banks_mono [of "assets s"])
  with assms show ?thesis
    by (simp add: good_project_def valid_content_def valid_settings_def validate_pattern_slots_def
        array_extents_def put_asset_def all_entries_emplace)
qed

lemma good_set_pad:
  assumes "good_project s" "is_valid_slot sl"
    and "valid_pad (assets s) (unat (bank sl)) (unat (pad sl)) pd"
  shows "good_project (set_pad sl pd s)"
proof -
  have "unat (bank sl) < length (banks s)" "unat (pad sl) < length (banks s ! unat (bank sl))"
    using assms(1,2) array_extentsD [of s sl] by (simp_all add: good_project_def)
  then have "valid_banks (assets s) (banks (set_pad sl pd s))"
    using assms valid_banks_update by (simp add: good_project_def valid_content_def set_pad_def)
  with assms array_extents_set_pad [of s sl pd] show ?thesis
    by (simp add: good_project_def valid_content_def valid_settings_def validate_pattern_slots_def
        set_pad_fields)
qed

text \<open>The Pad a slot names is valid in a good Project.\<close>

lemma good_pad_at:
  assumes "good_project s" "is_valid_slot sl"
  shows "valid_pad (assets s) (unat (bank sl)) (unat (pad sl)) (pad_at s sl)"
  using assms array_extentsD [of s sl]
  by (auto simp: good_project_def valid_content_def valid_banks_iff pad_at_def)

lemma good_put_pattern:
  assumes "good_project s" "valid_pattern_entry k p"
  shows "good_project (s\<lparr>patterns := insert_or_assign k p (patterns s)\<rparr>)"
  using assms
  by (auto simp: good_project_def valid_content_def valid_settings_def validate_pattern_slots_ok
      array_extents_def all_entries_insert)

lemma good_pattern:
  "good_project s \<Longrightarrow> lookup (patterns s) k = Some p \<Longrightarrow> valid_pattern_entry k p"
  by (auto simp: good_project_def valid_content_def all_entries_iff)

section \<open>Pattern slot tables\<close>

lemma distinct_filter_index:
  "distinct (filter P xs) \<longleftrightarrow>
     (\<forall>i < length xs. \<forall>j < length xs. P (xs ! i) \<and> xs ! i = xs ! j \<longrightarrow> i = j)"
proof (induction xs)
  case (Cons x xs)
  have "x \<in> set xs \<longleftrightarrow> (\<exists>j < length xs. xs ! j = x)" by (auto simp: in_set_conv_nth)
  with Cons show ?case by (auto simp: All_less_Suc2)
qed simp

lemma nth_update_if: "j < length xs \<Longrightarrow> xs[i := v] ! j = (if i = j then v else xs ! j)"
  by simp

lemma slots_valid_iff:
  "is_ok (validate_pattern_slots s) \<longleftrightarrow>
     (\<forall>i p. i < length (pattern_slots s) \<and> pattern_slots s ! i = Some p \<longrightarrow>
        is_valid_uuid p \<and> contains (patterns s) p) \<and>
     (\<forall>i j p. i < length (pattern_slots s) \<and> j < length (pattern_slots s) \<and>
        pattern_slots s ! i = Some p \<and> pattern_slots s ! j = Some p \<longrightarrow> i = j)"
proof -
  let ?ss = "pattern_slots s"
  have "(\<forall>p. Some p \<in> set ?ss \<longrightarrow> Q p) \<longleftrightarrow> (\<forall>i p. i < length ?ss \<and> ?ss ! i = Some p \<longrightarrow> Q p)" for Q
    by (metis in_set_conv_nth)
  moreover have "(\<forall>i < length ?ss. \<forall>j < length ?ss. ?ss ! i \<noteq> None \<and> ?ss ! i = ?ss ! j \<longrightarrow> i = j) \<longleftrightarrow>
      (\<forall>i j p. i < length ?ss \<and> j < length ?ss \<and> ?ss ! i = Some p \<and> ?ss ! j = Some p \<longrightarrow> i = j)"
    by (metis not_None_eq)
  ultimately show ?thesis unfolding validate_pattern_slots_ok distinct_filter_index by simp
qed

lemma good_set_slots:
  assumes "good_project s" "length ss = 16" "is_ok (validate_pattern_slots (s\<lparr>pattern_slots := ss\<rparr>))"
  shows "good_project (s\<lparr>pattern_slots := ss\<rparr>)"
  using assms by (simp add: good_project_def valid_content_def valid_settings_def array_extents_def)

lemma good_slots:
  "good_project s \<Longrightarrow> is_ok (validate_pattern_slots s)"
  "good_project s \<Longrightarrow> length (pattern_slots s) = 16"
  by (simp_all add: good_project_def valid_content_def array_extents_def)

lemma good_place_pattern:
  assumes "good_project s" "is_valid_uuid p" "contains (patterns s) p" "Some p \<notin> set (pattern_slots s)"
  shows "good_project (s\<lparr>pattern_slots := (pattern_slots s)[i := Some p]\<rparr>)"
proof (rule good_set_slots)
  have "\<forall>j < length (pattern_slots s). pattern_slots s ! j \<noteq> Some p"
    using assms(4) by (auto simp: in_set_conv_nth)
  then show "is_ok (validate_pattern_slots (s\<lparr>pattern_slots := (pattern_slots s)[i := Some p]\<rparr>))"
    using good_slots(1) [OF assms(1)] assms(2,3)
    by (auto simp: slots_valid_iff nth_update_if simp del: contains_iff split: if_splits)
qed (use assms good_slots(2) in auto)

lemma good_clear_slot:
  assumes "good_project s"
  shows "good_project (s\<lparr>pattern_slots := (pattern_slots s)[i := None]\<rparr>)"
proof (rule good_set_slots)
  show "is_ok (validate_pattern_slots (s\<lparr>pattern_slots := (pattern_slots s)[i := None]\<rparr>))"
    using good_slots(1) [OF assms]
    by (auto simp: slots_valid_iff nth_update_if simp del: contains_iff split: if_splits)
qed (use assms good_slots(2) in auto)

lemma good_move_slot:
  assumes "good_project s" "i < 16" "pattern_slots s ! i = Some p"
  shows "good_project (s\<lparr>pattern_slots := (pattern_slots s)[i := None, j := Some p]\<rparr>)"
proof -
  let ?t = "s\<lparr>pattern_slots := (pattern_slots s)[i := None]\<rparr>"
  have "Some p \<notin> set (pattern_slots ?t)"
    using good_slots [OF assms(1)] assms(2,3)
    by (auto simp: slots_valid_iff in_set_conv_nth nth_update_if split: if_splits)
  moreover have "is_valid_uuid p \<and> contains (patterns s) p"
    using good_slots [OF assms(1)] assms(2,3) by (auto simp: slots_valid_iff)
  ultimately show ?thesis
    using good_place_pattern [OF good_clear_slot [OF assms(1), of i], of p j] by simp
qed

section \<open>Pattern edits\<close>

lemma validate_pattern_mono:
  assumes "is_ok (validate_pattern p)" "pattern_key q = pattern_key p" "pattern_bars q = pattern_bars p"
    and "list_all (valid_pattern_event (pattern_length_ticks (pattern_bars p))) (pattern_events q)"
  shows "is_ok (validate_pattern q)"
  using assms by (simp add: validate_pattern_ok)

lemma good_put_pattern_events:
  assumes "good_project s" "is_valid_uuid k" "pattern_key p = k" "valid_bars (pattern_bars p)"
    and "list_all (valid_pattern_event (pattern_length_ticks (pattern_bars p))) es"
  shows "good_project (put_pattern_events k p es s)"
  unfolding put_pattern_events_def using assms
  by (intro good_put_pattern) (simp_all add: valid_pattern_entry_def)

lemma resize_event_valid:
  fixes limit limit' :: u32
  assumes "valid_pattern_event limit e" "\<not> limit' \<le> onset_tick e"
  shows "valid_pattern_event limit'
    (e\<lparr>duration_tick := min (duration_tick e) (limit' - onset_tick e)\<rparr>)"
proof -
  have "limit' - onset_tick e \<noteq> 0" using assms(2) by auto
  then have "min (duration_tick e) (limit' - onset_tick e) \<noteq> 0"
    using assms(1) by (auto simp: valid_pattern_event_def min_def)
  then show ?thesis using assms by (auto simp: valid_pattern_event_def not_less)
qed

lemma resize_events_valid:
  "list_all (valid_pattern_event limit) es \<Longrightarrow>
     list_all (valid_pattern_event limit') (resize_events limit' es)"
  by (auto simp: resize_events_def list_all_iff intro: resize_event_valid)

lemma pattern_length_double: "valid_bars b \<Longrightarrow> b < 8 \<Longrightarrow>
    pattern_length_ticks (b * 2) = 2 * pattern_length_ticks b \<and> valid_bars (b * 2)"
  by (auto simp: valid_bars_def pattern_length_ticks_def)

lemma valid_pattern_event_nat:
  "valid_pattern_event limit e \<longleftrightarrow>
     is_valid_slot (event_slot e) \<and> valid_velocity (velocity e) \<and> 0 < unat (duration_tick e) \<and>
     unat (onset_tick e) + unat (duration_tick e) \<le> unat limit"
proof (cases "onset_tick e < limit")
  case True
  then have "unat (limit - onset_tick e) = unat limit - unat (onset_tick e)"
    by (simp add: unat_sub_if_size word_less_nat_alt)
  with True show ?thesis
    by (auto simp: valid_pattern_event_def word_less_nat_alt word_le_nat_alt unat_gt_0)
next
  case False
  then have "unat limit \<le> unat (onset_tick e)" by (simp add: word_le_nat_alt not_less)
  then have "\<not> (0 < unat (duration_tick e) \<and> unat (onset_tick e) + unat (duration_tick e) \<le> unat limit)"
    and "\<not> valid_pattern_event limit e"
    by (linarith, simp add: valid_pattern_event_def word_le_nat_alt)
  then show ?thesis by blast
qed

lemma double_events_valid:
  assumes "valid_bars b" "b < 8" "valid_pattern_event (pattern_length_ticks b) e"
  shows "valid_pattern_event (pattern_length_ticks (b * 2)) e"
    and "valid_pattern_event (pattern_length_ticks (b * 2)) (shift_event (pattern_length_ticks b) e)"
proof -
  let ?L = "pattern_length_ticks b"
  have L: "unat ?L \<le> 15360" using assms(1,2) by (auto simp: valid_bars_def unat_pattern_length)
  have L2: "unat (pattern_length_ticks (b * 2)) = 2 * unat ?L"
    using pattern_length_double [OF assms(1,2)] L by (simp add: unat_word_ariths)
  have e: "unat (onset_tick e) + unat (duration_tick e) \<le> unat ?L"
    using assms(3) by (simp add: valid_pattern_event_nat)
  then have "unat (onset_tick e + ?L) = unat (onset_tick e) + unat ?L"
    using L by (simp add: unat_word_ariths)
  with assms(3) e L2
  show "valid_pattern_event (pattern_length_ticks (b * 2)) e"
    and "valid_pattern_event (pattern_length_ticks (b * 2)) (shift_event ?L e)"
    by (simp_all add: valid_pattern_event_nat shift_event_def)
qed

section \<open>The handlers\<close>

abbreviation keeps_good :: "applied_command result \<Rightarrow> bool" where
  "keeps_good r \<equiv> ensures (\<lambda>a. good_project (app_state a)) r"

lemma check_new_asset_ok:
  "check_new_asset s a = Inr u \<Longrightarrow> valid_asset_entry (asset_key a) a \<and> \<not> contains (assets s) (asset_key a)"
  by (cases "asset_lineage_of a")
    (auto simp: check_new_asset_def check_lineage_def valid_artifact_entry split: if_splits)

lemma good_bind_pad:
  assumes "good_project s" "is_valid_slot sl" "contains (assets s) k"
  shows "good_project (bind_pad sl k s)"
  unfolding bind_pad_def
proof (rule good_set_pad [OF assms(1,2)])
  show "valid_pad (assets s) (unat (bank sl)) (unat (pad sl))
      ((pad_at s sl)\<lparr>slot_asset := Some k, slot_playback := default_playback\<rparr>)"
    using good_pad_at [OF assms(1,2)] assms(3)
    by (cases "slot_colour (pad_at s sl)")
      (auto simp: valid_pad_def default_playback_valid simp del: contains_iff)
qed

lemma good_install_one:
  assumes "good_project s" "is_valid_slot (assign_slot x)"
    "valid_asset_entry (asset_key (assign_asset x)) (assign_asset x)"
  shows "good_project (install_one x s)"
  unfolding install_one_def using assms
  by (intro good_bind_pad good_put_asset) (simp_all add: put_asset_def del: contains_iff)

lemma good_install_all:
  assumes "good_project s"
    "list_all (\<lambda>x. is_valid_slot (assign_slot x) \<and>
       valid_asset_entry (asset_key (assign_asset x)) (assign_asset x)) xs"
  shows "good_project (install_all xs s)"
  using assms unfolding install_all_def
  by (induction xs arbitrary: s) (auto intro: good_install_one)

lemma pattern_slot_handlers_good:
  assumes "good_project s"
  shows "keeps_good (apply_assign_pattern_slot s m i p)"
    and "keeps_good (apply_clear_pattern_slot s m i)"
    and "keeps_good (apply_move_pattern_slot s m i j)"
proof -
  show "keeps_good (apply_assign_pattern_slot s m i p)"
    using assms good_place_pattern [of s p "unat i"]
    by (auto simp: apply_assign_pattern_slot_def simp del: contains_iff)
  show "keeps_good (apply_clear_pattern_slot s m i)"
    using assms good_clear_slot [of s "unat i"]
    by (auto simp: apply_clear_pattern_slot_def split: option.split)
  have "unat i < 16" if "\<not> kPatternSlotCount \<le> i" for i :: u8
    using that by (simp add: word_less_nat_alt not_le)
  then show "keeps_good (apply_move_pattern_slot s m i j)"
    using assms good_move_slot [of s "unat i" _ "unat j"]
    by (auto simp: apply_move_pattern_slot_def split: option.split)
qed

lemma asset_handlers_good:
  assumes "good_project s"
  shows "keeps_good (apply_import_asset s m a)"
    and "keeps_good (apply_import_assign_sample s m a sl)"
proof -
  show "keeps_good (apply_import_asset s m a)"
    using assms check_new_asset_ok [of s a] good_put_asset [of s a]
    by (auto simp: apply_import_asset_def simp del: contains_iff)
  show "keeps_good (apply_import_assign_sample s m a sl)"
    using assms check_new_asset_ok [of s a] good_install_one [of s "\<lparr>assign_slot = sl, assign_asset = a\<rparr>"]
    by (auto simp: apply_import_assign_sample_def install_one_def simp del: contains_iff)
qed

lemma pad_handlers_good:
  assumes "good_project s"
  shows "keeps_good (apply_assign_pad s m sl ao)"
    and "keeps_good (apply_set_pad_colour s m sl c)"
    and "keeps_good (apply_update_pad_playback s m sl pb)"
    and "keeps_good (apply_reset_pad_playback s m sl)"
proof -
  let ?ok = "valid_pad (assets s) (unat (bank sl)) (unat (pad sl))"
  have old: "?ok (pad_at s sl)" if "is_valid_slot sl" using good_pad_at [OF assms that] .
  have new: "good_project (set_pad sl pd s)" if "is_valid_slot sl" "?ok pd" for pd
    using good_set_pad [OF assms that] .
  have "?ok (assigned_pad (pad_at s sl) ao)"
    if "is_valid_slot sl" "opt_all (contains (assets s)) ao"
    using old [OF that(1)] that(2)
    by (cases ao; cases "slot_colour (pad_at s sl)")
      (auto simp: valid_pad_def assigned_pad_def Let_def default_playback_valid simp del: contains_iff)
  then show "keeps_good (apply_assign_pad s m sl ao)"
    using new by (auto simp: apply_assign_pad_def simp del: contains_iff)
  have "?ok ((pad_at s sl)\<lparr>slot_colour := c\<rparr>)"
    if "is_valid_slot sl" "opt_all (\<lambda>c. c < kPadColourCount) c" "slot_asset (pad_at s sl) \<noteq> None"
    using old [OF that(1)] that(2,3)
    by (cases c) (auto simp: valid_pad_def simp del: contains_iff)
  then show "keeps_good (apply_set_pad_colour s m sl c)"
    using new by (auto simp: apply_set_pad_colour_def)
  have "?ok ((pad_at s sl)\<lparr>slot_playback := pb\<rparr>)" if "is_valid_slot sl" "is_valid_playback pb" for pb
    using old [OF that(1)] that(2) by (auto simp: valid_pad_def simp del: contains_iff)
  then show "keeps_good (apply_update_pad_playback s m sl pb)"
    and "keeps_good (apply_reset_pad_playback s m sl)"
    using new by (auto simp: apply_update_pad_playback_def apply_reset_pad_playback_def
        default_playback_valid)
qed

lemma good_pattern_parts:
  assumes "good_project s" "lookup (patterns s) k = Some p"
  shows "pattern_key p = k" "is_valid_uuid k" "valid_bars (pattern_bars p)"
    "list_all (valid_pattern_event (pattern_length_ticks (pattern_bars p))) (pattern_events p)"
  using good_pattern [OF assms] by (auto simp: valid_pattern_entry_def)

lemma valid_pattern_events_of:
  "validate_pattern \<lparr>pattern_key = k, pattern_bars = b, pattern_events = es\<rparr> = Inr u \<Longrightarrow>
     list_all (valid_pattern_event (pattern_length_ticks b)) es"
  using validate_pattern_ok [of "\<lparr>pattern_key = k, pattern_bars = b, pattern_events = es\<rparr>"] by simp

lemma list_all_filter_subset: "list_all P xs \<Longrightarrow> list_all P (filter Q xs)"
  by (simp add: list_all_iff)

lemma pattern_content_handlers_good:
  assumes "good_project s"
  shows "keeps_good (apply_create_pattern s m p)"
    and "keeps_good (apply_merge_pattern_events s m k es)"
    and "keeps_good (apply_edit_pattern_events s m k ks es)"
proof -
  note parts = good_pattern_parts [OF assms]
  have "good_project (s\<lparr>patterns := emplace (pattern_key p)
      (p\<lparr>pattern_events := merge_pattern_events [] (pattern_events p)\<rparr>) (patterns s)\<rparr>)"
    if "validate_pattern p = Inr u" "\<not> contains (patterns s) (pattern_key p)" for u
    using that validate_pattern_ok [of p] assms
    by (simp add: emplace_def del: contains_iff)
      (auto intro!: good_put_pattern merge_list_all simp: valid_pattern_entry_def)
  then show "keeps_good (apply_create_pattern s m p)"
    by (auto simp: apply_create_pattern_def Let_def simp del: contains_iff)
  have put: "good_project (put_pattern_events k q (merge_pattern_events xs es) s)"
    if "lookup (patterns s) k = Some q" "list_all (valid_pattern_event (pattern_length_ticks (pattern_bars q))) xs"
      "validate_pattern \<lparr>pattern_key = k, pattern_bars = pattern_bars q, pattern_events = es\<rparr> = Inr u"
    for q xs u
    using parts [OF that(1)] that valid_pattern_events_of [OF that(3)]
    by (intro good_put_pattern_events [OF assms] merge_list_all) auto
  show "keeps_good (apply_merge_pattern_events s m k es)"
    using put parts by (auto simp: apply_merge_pattern_events_def split: option.split)
  show "keeps_good (apply_edit_pattern_events s m k ks es)"
    using put list_all_filter_subset [OF parts(4)]
    by (auto simp: apply_edit_pattern_events_def Let_def split: option.split)
qed

lemma find_from_bound: "find_from P i xs = Some j \<Longrightarrow> j < i + length xs"
  using find_from_Some by fast

lemma pattern_shape_handlers_good:
  assumes "good_project s"
  shows "keeps_good (apply_resize_pattern s m k b)"
    and "keeps_good (apply_double_up_pattern s m k)"
    and "keeps_good (apply_copy_pattern s m k k')"
proof -
  note parts = good_pattern_parts [OF assms]
  have "good_project (put_pattern_events k (q\<lparr>pattern_bars := b\<rparr>)
      (resize_events (pattern_length_ticks b) (pattern_events q)) s)"
    if "lookup (patterns s) k = Some q" "valid_bars b" for q
    using parts [OF that(1)] that(2) resize_events_valid [OF parts(4) [OF that(1)]]
    by (intro good_put_pattern_events [OF assms]) auto
  then show "keeps_good (apply_resize_pattern s m k b)"
    by (auto simp: apply_resize_pattern_def split: option.split)
  have "good_project (put_pattern_events k (q\<lparr>pattern_bars := pattern_bars q * 2\<rparr>)
      (merge_pattern_events (pattern_events q)
         (map (shift_event (pattern_length_ticks (pattern_bars q))) (pattern_events q))) s)"
    if "lookup (patterns s) k = Some q" "\<not> 8 \<le> pattern_bars q" for q
  proof -
    have b: "valid_bars (pattern_bars q)" "pattern_bars q < 8" using parts [OF that(1)] that(2) by auto
    show ?thesis
      using parts [OF that(1)] pattern_length_double [OF b] double_events_valid [OF b]
      by (intro good_put_pattern_events [OF assms] merge_list_all) (auto simp: list_all_iff)
  qed
  then show "keeps_good (apply_double_up_pattern s m k)"
    by (auto simp: apply_double_up_pattern_def Let_def split: option.split)
  have copied: "good_project (s\<lparr>patterns := emplace k' (q\<lparr>pattern_key := k'\<rparr>) (patterns s)\<rparr>)"
    if "lookup (patterns s) k = Some q" "is_valid_uuid k'" "\<not> contains (patterns s) k'" for q
    using that parts [OF that(1)]
    by (simp add: emplace_def del: contains_iff)
      (auto intro!: good_put_pattern [OF assms] simp: valid_pattern_entry_def)
  have "good_project (s\<lparr>patterns := emplace k' (q\<lparr>pattern_key := k'\<rparr>) (patterns s),
      pattern_slots := (case sl of None \<Rightarrow> pattern_slots s | Some i \<Rightarrow> (pattern_slots s)[i := Some k'])\<rparr>)"
    if "lookup (patterns s) k = Some q" "is_valid_uuid k'" "\<not> contains (patterns s) k'" for q sl
  proof (cases sl)
    case None
    with copied [OF that] show ?thesis by simp
  next
    case (Some i)
    have "Some k' \<notin> set (pattern_slots s)"
      using that(3) good_slots(1) [OF assms] by (auto simp: validate_pattern_slots_ok)
    then show ?thesis
      using good_place_pattern [OF copied [OF that] that(2), of i] Some by (simp del: contains_iff)
  qed
  then show "keeps_good (apply_copy_pattern s m k k')"
    by (auto simp: apply_copy_pattern_def Let_def simp del: contains_iff split: option.split)
qed

lemma settings_handler_good:
  assumes "good_project s"
  shows "keeps_good (apply_update_sequence_settings s m b q w)"
  using assms
  by (cases b; cases w)
    (auto simp: apply_update_sequence_settings_def good_project_def valid_content_def
      valid_settings_def validate_pattern_slots_def array_extents_def)

text \<open>What the two assignment loops establish of every assignment.\<close>

definition assignment_ok :: "project_state \<Rightarrow> pad_assignment \<Rightarrow> bool" where
  "assignment_ok s x =
     (is_valid_slot (assign_slot x) \<and>
      valid_asset_entry (asset_key (assign_asset x)) (assign_asset x) \<and>
      \<not> contains (assets s) (asset_key (assign_asset x)))"

lemma check_install_ok:
  "check_install s bk pads ids ident xs = Inr u \<Longrightarrow>
     list_all (assignment_ok s) xs \<and>
     distinct (map (asset_key \<circ> assign_asset) xs) \<and>
     set (map (asset_key \<circ> assign_asset) xs) \<inter> set ids = {} \<and>
     distinct (map (pad \<circ> assign_slot) xs) \<and>
     set (map (pad \<circ> assign_slot) xs) \<inter> set pads = {} \<and>
     list_all (\<lambda>x. bank (assign_slot x) = bk) xs"
proof (induction s bk pads ids ident xs rule: check_install.induct)
  case (2 s bk pads ids ident x xs)
  from 2(2) obtain l src where
    "asset_lineage_of (assign_asset x) = Some l" "installed_source (assign_asset x) = Some src"
    by (auto simp: Let_def split: if_splits option.splits)
  with 2 show ?case
    by (auto simp: Let_def assignment_ok_def valid_artifact_entry simp del: contains_iff
        split: if_splits)
qed simp

lemma check_adoption_ok:
  "check_adoption s source art targets ids ev xs = Inr u \<Longrightarrow>
     list_all (assignment_ok s) xs \<and>
     distinct (map (asset_key \<circ> assign_asset) xs) \<and>
     set (map (asset_key \<circ> assign_asset) xs) \<inter> set ids = {} \<and>
     distinct (map ((\<lambda>sl. (bank sl, pad sl)) \<circ> assign_slot) xs) \<and>
     set (map ((\<lambda>sl. (bank sl, pad sl)) \<circ> assign_slot) xs) \<inter> set targets = {}"
proof (induction s source art targets ids ev xs rule: check_adoption.induct)
  case (2 s source art targets ids ev x xs)
  from 2(2) obtain l src e where
    "asset_lineage_of (assign_asset x) = Some l" "adoption_evidence l = Some (src, e)"
    by (auto simp: Let_def split: if_splits option.splits)
  with 2 show ?case
    by (auto simp: Let_def assignment_ok_def valid_artifact_entry simp del: contains_iff
        split: if_splits)
qed simp

lemma install_handlers_good:
  assumes "good_project s"
  shows "keeps_good (apply_install_soundset s m xs)"
    and "keeps_good (apply_adopt_candidates s m i a r xs)"
proof -
  have all: "good_project (install_all xs s)" if "list_all (assignment_ok s) xs"
    using good_install_all [OF assms, of xs] that by (simp add: assignment_ok_def list_all_iff)
  show "keeps_good (apply_install_soundset s m xs)"
    using all check_install_ok [of s _ "[]" "[]" None xs]
    by (cases xs) (auto simp: apply_install_soundset_def simp del: check_install.simps)
  show "keeps_good (apply_adopt_candidates s m i a r xs)"
    using all check_adoption_ok [of s a r "[]" "[]" None xs]
    by (auto simp: apply_adopt_candidates_def simp del: check_adoption.simps)
qed

lemmas handlers_good = pattern_slot_handlers_good asset_handlers_good pad_handlers_good
  pattern_content_handlers_good pattern_shape_handlers_good settings_handler_good
  install_handlers_good

lemma apply_new_command_good: "good_project s \<Longrightarrow> keeps_good (apply_new_command s m c)"
  by (cases c) (simp_all add: handlers_good)

lemma apply_checked_good: "good_project s \<Longrightarrow> keeps_good (apply_checked s m c rs)"
  by (auto simp: apply_checked_def apply_new_command_good split: option.split)

lemma apply_command_good: "good_project s \<Longrightarrow> keeps_good (apply_command s m c rs)"
  by (cases c) (auto simp: apply_command_def apply_adopt_request_def apply_checked_good)

end
