(* ===== verification/Command_Effects.thy ===== *)
theory Command_Effects
  imports Command_Invariants
begin

text \<open>
  What a command does: the commit protocol (revision, receipt, contract, event), which parts of
  the Project a command may touch, and the functional behaviour of the handlers.
\<close>

section \<open>Commit protocol\<close>

definition committed :: "project_state \<Rightarrow> command_meta \<Rightarrow> applied_command \<Rightarrow> bool" where
  "committed s meta a =
     (\<not> app_replayed a \<and> state_id (app_state a) = state_id s \<and>
      revision (app_state a) = revision s + 1 \<and>
      contract s \<le> contract (app_state a) \<and> PC_v3 \<le> contract (app_state a) \<and>
      distinct (map fst (app_event a)) \<and>
      map_of (app_event a) ''command_id'' = Some (ArgString (meta_command_id meta)) \<and>
      map_of (app_event a) ''revision'' = Some (ArgUnsigned (revision s + 1)))"

lemma write_fields [simp]:
  "contract (put_asset a s) = contract s" "contract (bind_pad sl k s) = contract s"
  "contract (put_pattern_events k p es s) = contract s"
  "state_id (put_asset a s) = state_id s" "state_id (bind_pad sl k s) = state_id s"
  "state_id (put_pattern_events k p es s) = state_id s"
  "revision (put_asset a s) = revision s" "revision (bind_pad sl k s) = revision s"
  "revision (put_pattern_events k p es s) = revision s"
  "bpm (put_asset a s) = bpm s" "bpm (bind_pad sl k s) = bpm s"
  "quantize_enabled (put_asset a s) = quantize_enabled s"
  "quantize_enabled (bind_pad sl k s) = quantize_enabled s"
  "swing_percent (put_asset a s) = swing_percent s" "swing_percent (bind_pad sl k s) = swing_percent s"
  "banks (put_asset a s) = banks s" "banks (put_pattern_events k p es s) = banks s"
  "assets (bind_pad sl k s) = assets s" "assets (put_pattern_events k p es s) = assets s"
  "patterns (put_asset a s) = patterns s" "patterns (bind_pad sl k s) = patterns s"
  "performances (put_asset a s) = performances s" "performances (bind_pad sl k s) = performances s"
  "performances (put_pattern_events k p es s) = performances s"
  "pattern_slots (put_asset a s) = pattern_slots s" "pattern_slots (bind_pad sl k s) = pattern_slots s"
  "pattern_slots (put_pattern_events k p es s) = pattern_slots s"
  "bpm (put_pattern_events k p es s) = bpm s"
  "quantize_enabled (put_pattern_events k p es s) = quantize_enabled s"
  "swing_percent (put_pattern_events k p es s) = swing_percent s"
  by (simp_all add: put_asset_def bind_pad_def put_pattern_events_def)

lemma install_all_fields [simp]:
  "contract (install_all xs s) = contract s" "state_id (install_all xs s) = state_id s"
  "revision (install_all xs s) = revision s" "bpm (install_all xs s) = bpm s"
  "quantize_enabled (install_all xs s) = quantize_enabled s"
  "swing_percent (install_all xs s) = swing_percent s" "patterns (install_all xs s) = patterns s"
  "performances (install_all xs s) = performances s"
  "pattern_slots (install_all xs s) = pattern_slots s"
  unfolding install_all_def by (induction xs arbitrary: s) (simp_all add: install_one_def)

lemma contract_max [simp]: "PC_v3 \<le> max c PC_v3" "PC_v3 \<le> max c PC_v4" "PC_v3 \<le> max c PC_v5"
  by (cases c; simp add: max_def less_eq_project_contract_def)+

lemma contract_from_v4: "\<not> c < PC_v4 \<Longrightarrow> PC_v3 \<le> c"
  by (cases c) (simp_all add: less_eq_project_contract_def less_project_contract_def)

lemmas commit_simps = committed_def command_event_def

lemma slot_handlers_commit:
  "ensures (committed s m) (apply_assign_pattern_slot s m i p)"
  "ensures (committed s m) (apply_clear_pattern_slot s m i)"
  "ensures (committed s m) (apply_move_pattern_slot s m i j)"
  by (auto simp: apply_assign_pattern_slot_def apply_clear_pattern_slot_def
      apply_move_pattern_slot_def commit_simps simp del: contains_iff split: option.split)

lemma pad_handlers_commit:
  "ensures (committed s m) (apply_import_asset s m a)"
  "ensures (committed s m) (apply_import_assign_sample s m a sl)"
  "ensures (committed s m) (apply_assign_pad s m sl ao)"
  "ensures (committed s m) (apply_set_pad_colour s m sl c)"
  "ensures (committed s m) (apply_update_pad_playback s m sl pb)"
  "ensures (committed s m) (apply_reset_pad_playback s m sl)"
  "ensures (committed s m) (apply_update_sequence_settings s m b q w)"
  by (auto simp: apply_import_asset_def apply_import_assign_sample_def apply_assign_pad_def
      apply_set_pad_colour_def apply_update_pad_playback_def apply_reset_pad_playback_def
      apply_update_sequence_settings_def commit_simps simp del: contains_iff)

lemma pattern_handlers_commit:
  "ensures (committed s m) (apply_create_pattern s m p)"
  "ensures (committed s m) (apply_merge_pattern_events s m k es)"
  "ensures (committed s m) (apply_edit_pattern_events s m k ks es)"
  "ensures (committed s m) (apply_resize_pattern s m k bars)"
  "ensures (committed s m) (apply_double_up_pattern s m k)"
  "ensures (committed s m) (apply_copy_pattern s m k k')"
  by (auto simp: apply_create_pattern_def apply_merge_pattern_events_def
      apply_edit_pattern_events_def apply_resize_pattern_def apply_double_up_pattern_def
      apply_copy_pattern_def Let_def commit_simps simp del: contains_iff split: option.split)

lemma install_handlers_commit:
  "ensures (committed s m) (apply_install_soundset s m xs)"
  "ensures (committed s m) (apply_adopt_candidates s m i a r xs)"
  by (auto simp: apply_install_soundset_def apply_adopt_candidates_def commit_simps
      contract_from_v4
      simp del: contains_iff check_install.simps check_adoption.simps split: list.split)

lemma apply_new_command_commit: "ensures (committed s m) (apply_new_command s m c)"
  by (cases c) (simp_all add: slot_handlers_commit pad_handlers_commit pattern_handlers_commit
      install_handlers_commit)

lemma apply_command_cases:
  assumes "apply_command s m c rs = Inr a"
  obtains
    (replay) receipt where "lookup rs (meta_command_id m) = Some receipt"
      "a = \<lparr>app_state = s, app_event = receipt_event receipt, app_replayed = True\<rparr>"
      "is_valid_uuid (meta_command_id m)"
  | (commit) "lookup rs (meta_command_id m) = None" "expected_revision m = revision s"
      "apply_new_command s m c = Inr a" "committed s m a" "is_valid_uuid (meta_command_id m)"
proof -
  have "apply_checked s m c rs = Inr a"
    using assms by (cases c) (auto simp: apply_command_def apply_adopt_request_def split: if_splits)
  then show ?thesis
    using replay commit apply_new_command_commit [of s m c, THEN ensuresD]
    by (auto simp: apply_checked_def split: if_splits option.splits)
qed

text \<open>
  Property C1. Every command keeps a valid Project valid: whatever the command, its metadata
  and the receipts, a success leaves bpm and swing in range, every Asset, Pad, Pattern and
  Performance valid under its key, every Pad bound to an existing Asset, colours only on bound
  Pads, and the Pattern slots distinct and pointing at existing Patterns.
\<close>

theorem command_keeps_project_valid:
  assumes "valid_content s" "array_extents s" "apply_command s meta c receipts = Inr a"
  shows "valid_content (app_state a) \<and> array_extents (app_state a)"
  using apply_command_good [of s meta c receipts, THEN ensuresD, OF _ assms(3)] assms(1,2)
  by (simp add: good_project_def)

text \<open>A fresh Project and an import onto its first Pad, for the concrete instances below.\<close>

definition demo_id :: string where
  "demo_id = ''0198b8e2-0000-4000-8000-000000000001''"

definition demo_project :: project_state where
  "demo_project = projr (create_project demo_id 120)"

definition demo_asset :: asset where
  "demo_asset =
     \<lparr>asset_key = ''0198b8e2-0000-4000-8000-0000000000a1'',
      asset_artifact = \<lparr>art_sha256 = replicate 64 (CHR ''a''), art_media_type = ''audio/wav'',
        art_byte_length = 1044\<rparr>,
      asset_lineage_of = None, asset_category_of = Some drums\<rparr>"

definition demo_meta :: "u64 \<Rightarrow> command_meta" where
  "demo_meta r = \<lparr>meta_command_id = ''0198b8e2-0000-4000-8000-0000000000c1'', expected_revision = r\<rparr>"

definition demo_applied :: applied_command where
  "demo_applied = projr (apply_command demo_project (demo_meta 0)
     (ImportAssignSample demo_asset \<lparr>bank = 0, pad = 3\<rparr>) map_empty)"

lemma demo_created: "create_project demo_id 120 = Inr demo_project"
  by code_simp

lemma demo_good: "valid_content demo_project" "array_extents demo_project"
  using create_project_valid [OF demo_created] by simp_all

lemma demo_import: "apply_command demo_project (demo_meta 0)
    (ImportAssignSample demo_asset \<lparr>bank = 0, pad = 3\<rparr>) map_empty = Inr demo_applied"
  by code_simp

theorem command_keeps_project_valid_witness:
  "valid_content (app_state demo_applied) \<and> array_extents (app_state demo_applied)"
  by (rule command_keeps_project_valid [OF demo_good demo_import])

text \<open>
  Property C2. The commit protocol: a success either replays the receipt of its command id,
  returning the Project unchanged and the recorded event, or commits exactly once at the
  expected revision: the revision advances by one, the Project keeps its identity, the contract
  never goes down, and the event names the command and the new revision.
\<close>

theorem commit_protocol:
  assumes "apply_command s meta c receipts = Inr a"
  shows "(\<exists>receipt. lookup receipts (meta_command_id meta) = Some receipt \<and>
       a = \<lparr>app_state = s, app_event = receipt_event receipt, app_replayed = True\<rparr>) \<or>
     (lookup receipts (meta_command_id meta) = None \<and> expected_revision meta = revision s \<and>
      committed s meta a)"
  using assms by (rule apply_command_cases) blast+

theorem commit_protocol_witness:
  "apply_command demo_project (demo_meta 0)
      (ImportAssignSample demo_asset \<lparr>bank = 0, pad = 3\<rparr>) map_empty = Inr demo_applied \<and>
   committed demo_project (demo_meta 0) demo_applied"
  using commit_protocol [OF demo_import] demo_import by simp

text \<open>
  Exactly-once delivery: once a command other than an adoption has committed and
  its receipt is stored, sending it again changes nothing and returns the same event, whatever
  happened to the Project in between.
\<close>

lemma command_exactly_once:
  assumes "apply_command s meta c receipts = Inr a"
    and "\<forall>pid source art xs. c \<noteq> AdoptCandidates pid source art xs"
  shows "apply_command t meta c (insert_or_assign (meta_command_id meta)
      \<lparr>committed_revision = revision (app_state a), receipt_event = app_event a\<rparr> receipts)
    = Inr \<lparr>app_state = t, app_event = app_event a, app_replayed = True\<rparr>"
proof -
  have "is_valid_uuid (meta_command_id meta)" using assms(1) by (rule apply_command_cases) auto
  then show ?thesis using assms(2) by (cases c) (simp_all add: apply_command_def apply_checked_def)
qed

lemma command_exactly_once_witness:
  "apply_command (app_state demo_applied) (demo_meta 0)
      (ImportAssignSample demo_asset \<lparr>bank = 0, pad = 3\<rparr>)
      (insert_or_assign (meta_command_id (demo_meta 0))
        \<lparr>committed_revision = revision (app_state demo_applied),
         receipt_event = app_event demo_applied\<rparr> map_empty)
    = Inr \<lparr>app_state = app_state demo_applied, app_event = app_event demo_applied,
           app_replayed = True\<rparr>"
  by (rule command_exactly_once [OF demo_import]) simp

end
