(* ===== verification/Delta.thy ===== *)
theory Delta
  imports Cells Pattern_Commands
begin

text \<open>
  Authoring deltas (\<open>authoring_delta.hpp\<close>, \<open>authoring_delta.cpp\<close>): the difference of two Project
  states, its reversal and composition, and its guarded application. Undo and redo are built on
  these.
\<close>

section \<open>Deltas\<close>

record authoring_delta =
  delta_project_id :: project_id
  delta_bpm :: "u16 authoring_change option"
  delta_quantize_enabled :: "bool authoring_change option"
  delta_swing_percent :: "u8 authoring_change option"
  delta_pads :: "pad_slot authoring_change list"
  delta_assets :: "(asset_id, asset option authoring_change) std_map"
  delta_patterns :: "(pattern_id, pattern option authoring_change) std_map"
  delta_performances :: "(performance_id, performance option authoring_change) std_map"
  delta_pattern_slots :: "(u8, pattern_id option authoring_change) std_map"

definition conflict :: error where
  "conflict =
     (mk_error revision_conflict ''Authoring history no longer matches the current Project content'')
       \<lparr>err_details := [(''reason'', ArgString ''authoring_history_conflict''),
          (''remedy'', ArgString ''reopen the Project to start a new authoring session'')]\<rparr>"

definition invalid_change :: error where
  "invalid_change =
     mk_error invalid_argument ''Authoring change must preserve valid Project content and identity''"

definition delta_empty :: "authoring_delta \<Rightarrow> bool" where
  "delta_empty d =
     (delta_bpm d = None \<and> delta_quantize_enabled d = None \<and> delta_swing_percent d = None \<and>
      delta_pads d = [] \<and> delta_assets d = map_empty \<and> delta_patterns d = map_empty \<and>
      delta_performances d = map_empty \<and> delta_pattern_slots d = map_empty)"

section \<open>Difference\<close>

definition map_difference ::
  "('k::linorder, 'v) std_map \<Rightarrow> ('k, 'v) std_map \<Rightarrow> ('k, 'v option authoring_change) std_map" where
  "map_difference b a =
     (let removed_or_changed =
            foldl (\<lambda>r (k, v). let next_value = lookup a k in
                     if next_value \<noteq> Some v then
                       emplace k \<lparr>before = Some v, after = next_value\<rparr> r
                     else r) map_empty (entries b)
      in foldl (\<lambda>r (k, v). if \<not> contains b k then emplace k \<lparr>before = None, after = Some v\<rparr> r else r)
           removed_or_changed (entries a))"

definition pads_difference ::
  "pad_slot list list \<Rightarrow> pad_slot list list \<Rightarrow> pad_slot authoring_change list" where
  "pads_difference bs as =
     concat (map (\<lambda>b. map (\<lambda>p. \<lparr>before = bs ! b ! p, after = as ! b ! p\<rparr>)
                        (filter (\<lambda>p. bs ! b ! p \<noteq> as ! b ! p) [0..<length (bs ! b)]))
               [0..<length bs])"

definition slots_difference ::
  "pattern_id option list \<Rightarrow> pattern_id option list
     \<Rightarrow> (u8, pattern_id option authoring_change) std_map" where
  "slots_difference bs as =
     foldl (\<lambda>r i. if bs ! i \<noteq> as ! i then emplace (of_nat i) \<lparr>before = bs ! i, after = as ! i\<rparr> r else r)
       map_empty [0..<length bs]"

definition authoring_difference :: "project_state \<Rightarrow> project_state \<Rightarrow> authoring_delta result" where
  "authoring_difference b a =
     (if state_id b \<noteq> state_id a then failure conflict
      else success
        \<lparr>delta_project_id = state_id b, delta_bpm = difference (bpm b) (bpm a),
         delta_quantize_enabled = difference (quantize_enabled b) (quantize_enabled a),
         delta_swing_percent = difference (swing_percent b) (swing_percent a),
         delta_pads = pads_difference (banks b) (banks a),
         delta_assets = map_difference (assets b) (assets a),
         delta_patterns = map_difference (patterns b) (patterns a),
         delta_performances = map_difference (performances b) (performances a),
         delta_pattern_slots = slots_difference (pattern_slots b) (pattern_slots a)\<rparr>)"

section \<open>Reversal and composition\<close>

definition reverse_authoring_delta :: "authoring_delta \<Rightarrow> authoring_delta" where
  "reverse_authoring_delta d =
     d\<lparr>delta_bpm := map_option swap_change (delta_bpm d),
       delta_quantize_enabled := map_option swap_change (delta_quantize_enabled d),
       delta_swing_percent := map_option swap_change (delta_swing_percent d),
       delta_pads := map swap_change (delta_pads d),
       delta_assets := map_values swap_change (delta_assets d),
       delta_patterns := map_values swap_change (delta_patterns d),
       delta_performances := map_values swap_change (delta_performances d),
       delta_pattern_slots := map_values swap_change (delta_pattern_slots d)\<rparr>"

text \<open>The composition helpers return the updated first argument, or \<open>None\<close> for \<open>false\<close>.\<close>

fun compose_value ::
  "'v authoring_change option \<Rightarrow> 'v authoring_change option \<Rightarrow> 'v authoring_change option option" where
  "compose_value first None = Some first"
| "compose_value None (Some second) = Some (Some second)"
| "compose_value (Some first) (Some second) =
     (if after first \<noteq> before second then None
      else let joined = first\<lparr>after := after second\<rparr>
           in Some (if before joined = after joined then None else Some joined))"

fun compose_entries ::
  "('k::linorder, 'v authoring_change) std_map \<Rightarrow> ('k \<times> 'v authoring_change) list
     \<Rightarrow> ('k, 'v authoring_change) std_map option" where
  "compose_entries first [] = Some first"
| "compose_entries first ((k, c) # cs) =
     (case lookup first k of
        None \<Rightarrow> compose_entries (emplace k c first) cs
      | Some found \<Rightarrow>
          (if after found \<noteq> before c then None
           else let joined = found\<lparr>after := after c\<rparr>
                in compose_entries (if before joined = after joined then erase k first
                                    else insert_or_assign k joined first) cs))"

definition compose_map ::
  "('k::linorder, 'v authoring_change) std_map \<Rightarrow> ('k, 'v authoring_change) std_map
     \<Rightarrow> ('k, 'v authoring_change) std_map option" where
  "compose_map first second = compose_entries first (entries second)"

text \<open>The first change of the list whose Pad is the given one, and the list without it.\<close>

definition find_pad :: "pad_slot_id \<Rightarrow> pad_slot authoring_change list \<Rightarrow> nat option" where
  "find_pad sl cs = find_from (\<lambda>c. slot_id (before c) = sl) 0 cs"

fun compose_pads ::
  "pad_slot authoring_change list \<Rightarrow> pad_slot authoring_change list
     \<Rightarrow> pad_slot authoring_change list option" where
  "compose_pads cs [] = Some cs"
| "compose_pads cs (d # ds) =
     (case find_pad (slot_id (before d)) cs of
        None \<Rightarrow> compose_pads (cs @ [d]) ds
      | Some i \<Rightarrow>
          (if after (cs ! i) \<noteq> before d then None
           else let joined = (cs ! i)\<lparr>after := after d\<rparr>
                in compose_pads (if before joined = after joined then take i cs @ drop (Suc i) cs
                                 else cs[i := joined]) ds))"

text \<open>
  \<open>std::ranges::sort\<close> by \<open>bank * 16 + pad\<close>. It is not stable, but the order of changes of one
  Pad is never in question: a delta that applies has one change per Pad.
\<close>

definition pad_position :: "pad_slot_id \<Rightarrow> nat" where
  "pad_position sl = unat (bank sl) * 16 + unat (pad sl)"

definition compose_authoring_deltas ::
  "authoring_delta \<Rightarrow> authoring_delta \<Rightarrow> authoring_delta result" where
  "compose_authoring_deltas d e =
     (if delta_project_id d \<noteq> delta_project_id e then failure conflict
      else case (compose_value (delta_bpm d) (delta_bpm e),
                 compose_value (delta_quantize_enabled d) (delta_quantize_enabled e),
                 compose_value (delta_swing_percent d) (delta_swing_percent e),
                 compose_map (delta_assets d) (delta_assets e),
                 compose_map (delta_patterns d) (delta_patterns e),
                 compose_map (delta_performances d) (delta_performances e),
                 compose_map (delta_pattern_slots d) (delta_pattern_slots e)) of
          (Some tempo, Some quantize, Some swing, Some as, Some ps, Some fs, Some ss) \<Rightarrow>
            (case compose_pads (delta_pads d) (delta_pads e) of
               None \<Rightarrow> failure conflict
             | Some pads \<Rightarrow> success
                 (d\<lparr>delta_bpm := tempo, delta_quantize_enabled := quantize,
                    delta_swing_percent := swing, delta_assets := as, delta_patterns := ps,
                    delta_performances := fs, delta_pattern_slots := ss,
                    delta_pads := sort_key (\<lambda>c. pad_position (slot_id (before c))) pads\<rparr>))
        | _ \<Rightarrow> failure conflict)"

section \<open>Application\<close>

definition change_value :: "'v \<Rightarrow> 'v authoring_change option \<Rightarrow> 'v option" where
  "change_value v ch =
     (case ch of
        None \<Rightarrow> Some v
      | Some c \<Rightarrow> if v \<noteq> before c \<or> before c = after c then None else Some (after c))"

fun change_entries ::
  "('k::linorder \<times> 'v option authoring_change) list \<Rightarrow> ('k, 'v) std_map \<Rightarrow> ('k, 'v) std_map option" where
  "change_entries [] m = Some m"
| "change_entries ((k, c) # cs) m =
     (if lookup m k \<noteq> before c \<or> before c = after c then None
      else change_entries cs
        (case after c of Some v \<Rightarrow> insert_or_assign k v m | None \<Rightarrow> erase k m))"

definition change_map ::
  "('k::linorder, 'v) std_map \<Rightarrow> ('k, 'v option authoring_change) std_map \<Rightarrow> ('k, 'v) std_map option" where
  "change_map m changes = change_entries (entries changes) m"

fun change_pads ::
  "nat list \<Rightarrow> pad_slot authoring_change list \<Rightarrow> project_state \<Rightarrow> project_state result" where
  "change_pads seen [] s = success s"
| "change_pads seen (c # cs) s =
     (let sl = slot_id (before c) in
      if \<not> is_valid_slot sl \<or> sl \<noteq> slot_id (after c) \<or> pad_position sl \<in> set seen \<or>
         before c = after c then failure invalid_change
      else if pad_at s sl \<noteq> before c then failure conflict
      else change_pads (pad_position sl # seen) cs (set_pad sl (after c) s))"

fun change_slots ::
  "(u8 \<times> pattern_id option authoring_change) list \<Rightarrow> pattern_id option list
     \<Rightarrow> pattern_id option list result" where
  "change_slots [] ss = success ss"
| "change_slots ((i, c) # cs) ss =
     (if kPatternSlotCount \<le> i \<or> before c = after c then failure invalid_change
      else if ss ! unat i \<noteq> before c then failure conflict
      else change_slots cs (ss[unat i := after c]))"

definition change_content :: "authoring_delta \<Rightarrow> project_state \<Rightarrow> project_state result" where
  "change_content d s =
     (case (change_value (bpm s) (delta_bpm d),
            change_value (quantize_enabled s) (delta_quantize_enabled d),
            change_value (swing_percent s) (delta_swing_percent d),
            change_map (assets s) (delta_assets d), change_map (patterns s) (delta_patterns d),
            change_map (performances s) (delta_performances d)) of
        (Some tempo, Some quantize, Some swing, Some as, Some ps, Some fs) \<Rightarrow>
          and_then (change_pads [] (delta_pads d)
              (s\<lparr>bpm := tempo, quantize_enabled := quantize, swing_percent := swing, assets := as,
                 patterns := ps, performances := fs\<rparr>)) (\<lambda>t.
            and_then (change_slots (entries (delta_pattern_slots d)) (pattern_slots t)) (\<lambda>ss.
              success (t\<lparr>pattern_slots := ss\<rparr>)))
      | _ \<Rightarrow> failure conflict)"

definition apply_authoring_delta ::
  "project_state \<Rightarrow> command_meta \<Rightarrow> authoring_delta \<Rightarrow> receipts \<Rightarrow> applied_command result" where
  "apply_authoring_delta s meta d receipts =
     (if \<not> is_valid_uuid (meta_command_id meta) \<or> delta_empty d then failure invalid_change
      else case lookup receipts (meta_command_id meta) of
          Some receipt \<Rightarrow>
            success \<lparr>app_state = s, app_event = receipt_event receipt, app_replayed = True\<rparr>
        | None \<Rightarrow>
            (if state_id s \<noteq> delta_project_id d \<or> revision s \<noteq> expected_revision meta then
               failure conflict
             else if revision s = - 1 then failure invalid_change
             else and_then (change_content d s) (\<lambda>t.
               if \<not> valid_content t then failure invalid_change
               else let t' = t\<lparr>revision := revision t + 1\<rparr>
                 in success \<lparr>app_state = t',
                      app_event = [(''type'', ArgString ''project.history_applied''),
                        (''command_id'', ArgString (meta_command_id meta)),
                        (''revision'', ArgUnsigned (revision t'))],
                      app_replayed = False\<rparr>)))"

end
