(* ===== verification/Delta_Laws.thy ===== *)
theory Delta_Laws
  imports Delta
begin

text \<open>
  The laws of authoring deltas. A delta that applies from one content to another is the
  difference of the two, so undo, redo and grouping follow from laws of differences.
\<close>

section \<open>The three stores of a Project\<close>

definition bank_pad :: "pad_slot list list \<Rightarrow> pad_slot_id \<Rightarrow> pad_slot" where
  "bank_pad bs sl = bs ! unat (bank sl) ! unat (pad sl)"

definition put_bank_pad :: "pad_slot_id \<Rightarrow> pad_slot \<Rightarrow> pad_slot list list \<Rightarrow> pad_slot list list" where
  "put_bank_pad sl p bs = bs[unat (bank sl) := (bs ! unat (bank sl))[unat (pad sl) := p]]"

definition bank_extents :: "pad_slot list list \<Rightarrow> bool" where
  "bank_extents bs = (length bs = 4 \<and> list_all (\<lambda>b. length b = 16) bs)"

definition slot_value :: "pattern_id option list \<Rightarrow> u8 \<Rightarrow> pattern_id option" where
  "slot_value ss i = ss ! unat i"

definition put_slot :: "u8 \<Rightarrow> pattern_id option \<Rightarrow> pattern_id option list \<Rightarrow> pattern_id option list" where
  "put_slot i v ss = ss[unat i := v]"

lemma array_extents_iff: "array_extents s \<longleftrightarrow> bank_extents (banks s) \<and> length (pattern_slots s) = 16"
  by (auto simp: array_extents_def bank_extents_def)

lemma pad_at_bank_pad: "pad_at s sl = bank_pad (banks s) sl"
  by (simp add: pad_at_def bank_pad_def)

lemma set_pad_put: "set_pad sl p s = s\<lparr>banks := put_bank_pad sl p (banks s)\<rparr>"
  by (simp add: set_pad_def put_bank_pad_def)

text \<open>A Project state around given banks, to carry over the facts on Pads of a Project.\<close>

definition with_banks :: "pad_slot list list \<Rightarrow> project_state" where
  "with_banks bs =
     \<lparr>contract = PC_v5, state_id = [], revision = 0, bpm = 120, quantize_enabled = True,
      swing_percent = 50, banks = bs, assets = map_empty, patterns = map_empty,
      performances = map_empty, pattern_slots = replicate 16 None\<rparr>"

lemma with_banks_simps [simp]: "banks (with_banks bs) = bs" "array_extents (with_banks bs) = bank_extents bs"
  "set_pad sl p (with_banks bs) = with_banks (put_bank_pad sl p bs)"
  "pad_at (with_banks bs) sl = bank_pad bs sl"
  by (simp_all add: with_banks_def array_extents_iff set_pad_put pad_at_bank_pad)

interpretation pads: cells bank_pad put_bank_pad bank_extents is_valid_slot
proof
  fix bs k l v
  assume "bank_extents bs" "is_valid_slot k" "is_valid_slot l"
  then show "bank_pad (put_bank_pad k v bs) l = (if l = k then v else bank_pad bs l)"
    using pad_at_set_pad [of "with_banks bs" k l v] by simp
next
  fix bs k v
  assume "bank_extents bs"
  then show "bank_extents (put_bank_pad k v bs)"
    using array_extents_set_pad [of "with_banks bs" k v] by simp
next
  fix bs cs
  assume "bank_extents bs" "bank_extents cs" "\<And>k. is_valid_slot k \<Longrightarrow> bank_pad bs k = bank_pad cs k"
  then show "bs = cs" using banks_eqI [of "with_banks bs" "with_banks cs"] by simp
qed

interpretation slots: cells slot_value put_slot "\<lambda>ss. length ss = 16" "\<lambda>i. i < kPatternSlotCount"
proof
  fix ss :: "pattern_id option list" and k l :: u8 and v
  assume "length ss = 16" "k < kPatternSlotCount" "l < kPatternSlotCount"
  then show "slot_value (put_slot k v ss) l = (if l = k then v else slot_value ss l)"
    by (simp add: slot_value_def put_slot_def word_less_nat_alt nth_list_update word_unat_eq_iff)
next
  fix ss ts :: "pattern_id option list"
  assume len: "length ss = 16" "length ts = 16"
    and eq: "\<And>k. k < kPatternSlotCount \<Longrightarrow> slot_value ss k = slot_value ts k"
  show "ss = ts"
  proof (rule nth_equalityI)
    fix i
    assume "i < length ss"
    then have "unat (of_nat i :: u8) = i" using len by (simp add: unat_of_nat)
    then show "ss ! i = ts ! i"
      using eq [of "of_nat i"] len \<open>i < length ss\<close> by (simp add: slot_value_def word_less_nat_alt)
  qed (use len in simp)
qed (simp add: put_slot_def)

section \<open>The application helpers as runs of changes\<close>

lemma change_value_iff: "change_value v ch = Some w \<longleftrightarrow> ch = difference v w"
  by (cases ch) (auto simp: change_value_def eq_commute [of _ "difference v w"])

lemma change_entries_run: "change_entries cs m = run_changes lookup std.assign cs m"
  by (induction cs m rule: change_entries.induct) (auto simp: std.assign_def)

lemma std_keys_ok [simp]: "std.cell.keys_ok (entries m)"
  by (simp add: std.cell.keys_ok_def)

lemma change_map_iff:
  "change_map m ch = Some n \<longleftrightarrow> (\<forall>k. lookup ch k = difference (lookup m k) (lookup n k))"
  by (simp add: change_map_def change_entries_run std.cell.run_changes_iff)

definition pad_changes ::
  "pad_slot authoring_change list \<Rightarrow> (pad_slot_id \<times> pad_slot authoring_change) list" where
  "pad_changes cs = map (\<lambda>c. (slot_id (before c), c)) cs"

definition pads_wf :: "pad_slot authoring_change list \<Rightarrow> bool" where
  "pads_wf cs = (list_all (\<lambda>c. is_valid_slot (slot_id (before c)) \<and> slot_id (after c) = slot_id (before c)) cs \<and>
     distinct (map (\<lambda>c. slot_id (before c)) cs))"

lemma pad_position_inj: "inj_on pad_position {sl. is_valid_slot sl}"
proof (rule inj_onI, unfold mem_Collect_eq)
  fix x y
  assume "is_valid_slot x" "is_valid_slot y" "pad_position x = pad_position y"
  moreover have "pad_position sl div 16 = unat (bank sl)" "pad_position sl mod 16 = unat (pad sl)"
    if "is_valid_slot sl" for sl
    using that by (simp_all add: is_valid_slot_nat pad_position_def)
  ultimately show "x = y" by (metis slot_id_nat_eq)
qed

lemma pads_keys_ok: "pads_wf cs \<Longrightarrow> pads.keys_ok (pad_changes cs)"
  by (auto simp: pads.keys_ok_def pad_changes_def pads_wf_def list_all_iff comp_def)

lemma change_pads_iff:
  "change_pads seen cs s = Inr t \<longleftrightarrow>
     pads_wf cs \<and> (\<forall>c \<in> set cs. pad_position (slot_id (before c)) \<notin> set seen) \<and>
     run_changes bank_pad put_bank_pad (pad_changes cs) (banks s) = Some (banks t) \<and>
     t = s\<lparr>banks := banks t\<rparr>"
proof (induction seen cs s rule: change_pads.induct)
  case (1 seen s)
  have "s = t \<longleftrightarrow> banks s = banks t \<and> t = s\<lparr>banks := banks t\<rparr>"
    by (metis project_state.surjective project_state.update_convs(7))
  then show ?case by (auto simp: pads_wf_def pad_changes_def)
next
  case (2 seen c cs s)
  let ?sl = "slot_id (before c)"
  have pos: "pad_position (slot_id (before d)) = pad_position ?sl \<longleftrightarrow> slot_id (before d) = ?sl"
    if "is_valid_slot (slot_id (before d))" "is_valid_slot ?sl" for d
    using pad_position_inj that by (auto simp: inj_on_def)
  show ?case
  proof (cases "is_valid_slot ?sl \<and> ?sl = slot_id (after c) \<and> pad_position ?sl \<notin> set seen \<and>
      before c \<noteq> after c \<and> pad_at s ?sl = before c")
    case True
    have ih: "change_pads (pad_position ?sl # seen) cs (set_pad ?sl (after c) s) = Inr t \<longleftrightarrow>
       pads_wf cs \<and> (\<forall>d \<in> set cs. pad_position (slot_id (before d)) \<notin> set (pad_position ?sl # seen)) \<and>
       run_changes bank_pad put_bank_pad (pad_changes cs) (banks (set_pad ?sl (after c) s)) = Some (banks t) \<and>
       t = (set_pad ?sl (after c) s)\<lparr>banks := banks t\<rparr>"
      using 2 [OF refl] True by auto
    have "pads_wf cs \<and> (\<forall>d \<in> set cs. pad_position (slot_id (before d)) \<notin> set (pad_position ?sl # seen)) \<longleftrightarrow>
        pads_wf (c # cs) \<and> (\<forall>d \<in> set cs. pad_position (slot_id (before d)) \<notin> set seen)"
      using True pos by (auto simp: pads_wf_def list_all_iff image_iff)
    with ih True show ?thesis
      by (auto simp: Let_def pad_changes_def pad_at_bank_pad set_pad_put)
  next
    case False
    then have "change_pads seen (c # cs) s \<noteq> Inr t" by (auto simp: Let_def)
    moreover have "\<not> (pads_wf (c # cs) \<and>
        (\<forall>d \<in> set (c # cs). pad_position (slot_id (before d)) \<notin> set seen) \<and>
        run_changes bank_pad put_bank_pad (pad_changes (c # cs)) (banks s) = Some (banks t))"
      using False by (auto simp: pads_wf_def pad_changes_def pad_at_bank_pad split: if_splits)
    ultimately show ?thesis by blast
  qed
qed

lemma change_slots_iff:
  "change_slots cs ss = Inr ts \<longleftrightarrow>
     (\<forall>i \<in> fst ` set cs. i < kPatternSlotCount) \<and> run_changes slot_value put_slot cs ss = Some ts"
  by (induction cs ss rule: change_slots.induct)
    (auto simp: slot_value_def put_slot_def not_le [symmetric] split: if_splits)

section \<open>Deltas between contents\<close>

text \<open>
  The authoring content of a Project: everything but contract and revision.
\<close>

definition same_content :: "project_state \<Rightarrow> project_state \<Rightarrow> bool" where
  "same_content s t = (t = s\<lparr>contract := contract t, revision := revision t\<rparr>)"

definition delta_between :: "authoring_delta \<Rightarrow> project_state \<Rightarrow> project_state \<Rightarrow> bool" where
  "delta_between d s t =
     (delta_project_id d = state_id s \<and> state_id t = state_id s \<and>
      delta_bpm d = difference (bpm s) (bpm t) \<and>
      delta_quantize_enabled d = difference (quantize_enabled s) (quantize_enabled t) \<and>
      delta_swing_percent d = difference (swing_percent s) (swing_percent t) \<and>
      (\<forall>k. lookup (delta_assets d) k = difference (lookup (assets s) k) (lookup (assets t) k)) \<and>
      (\<forall>k. lookup (delta_patterns d) k = difference (lookup (patterns s) k) (lookup (patterns t) k)) \<and>
      (\<forall>k. lookup (delta_performances d) k =
         difference (lookup (performances s) k) (lookup (performances t) k)) \<and>
      pads_wf (delta_pads d) \<and>
      (\<forall>sl. is_valid_slot sl \<longrightarrow>
         map_of (pad_changes (delta_pads d)) sl = difference (pad_at s sl) (pad_at t sl)) \<and>
      (\<forall>i. lookup (delta_pattern_slots d) i =
         (if i < kPatternSlotCount then difference (slot_value (pattern_slots s) i) (slot_value (pattern_slots t) i)
          else None)))"

lemma slots_change_iff:
  assumes "length ss = 16" "length ts = 16"
  shows "change_slots (entries m) ss = Inr ts \<longleftrightarrow>
    (\<forall>i. lookup m i = (if i < kPatternSlotCount then difference (slot_value ss i) (slot_value ts i) else None))"
proof -
  have keys: "(\<forall>i \<in> fst ` set (entries m). i < kPatternSlotCount) \<longleftrightarrow>
      (\<forall>i. \<not> i < kPatternSlotCount \<longrightarrow> lookup m i = None)"
    by (metis contains_iff contains_key_set not_None_eq)
  have "run_changes slot_value put_slot (entries m) ss = Some ts \<longleftrightarrow>
      (\<forall>i. i < kPatternSlotCount \<longrightarrow> lookup m i = difference (slot_value ss i) (slot_value ts i))"
    if "\<forall>i \<in> fst ` set (entries m). i < kPatternSlotCount"
    using slots.run_changes_iff [of "entries m" ss ts] that assms by (simp add: slots.keys_ok_def)
  then show ?thesis unfolding change_slots_iff using keys by (auto split: if_splits)
qed

lemma pads_change_iff:
  assumes "bank_extents (banks s)" "bank_extents (banks t)" "t = s\<lparr>banks := banks t\<rparr>"
  shows "change_pads [] cs s = Inr t \<longleftrightarrow>
    pads_wf cs \<and> (\<forall>sl. is_valid_slot sl \<longrightarrow> map_of (pad_changes cs) sl = difference (pad_at s sl) (pad_at t sl))"
  using assms pads.run_changes_iff [OF pads_keys_ok assms(1,2), of cs]
  unfolding change_pads_iff pad_at_bank_pad by auto

text \<open>The state with the scalar and keyed parts of \<open>t\<close> over the arrays of \<open>s\<close>.\<close>

definition keyed_part :: "project_state \<Rightarrow> project_state \<Rightarrow> project_state" where
  "keyed_part s t = s\<lparr>bpm := bpm t, quantize_enabled := quantize_enabled t,
     swing_percent := swing_percent t, assets := assets t, patterns := patterns t,
     performances := performances t\<rparr>"

lemma change_content_parts:
  "change_content d s = Inr t \<longleftrightarrow>
     change_value (bpm s) (delta_bpm d) = Some (bpm t) \<and>
     change_value (quantize_enabled s) (delta_quantize_enabled d) = Some (quantize_enabled t) \<and>
     change_value (swing_percent s) (delta_swing_percent d) = Some (swing_percent t) \<and>
     change_map (assets s) (delta_assets d) = Some (assets t) \<and>
     change_map (patterns s) (delta_patterns d) = Some (patterns t) \<and>
     change_map (performances s) (delta_performances d) = Some (performances t) \<and>
     change_pads [] (delta_pads d) (keyed_part s t) = Inr ((keyed_part s t)\<lparr>banks := banks t\<rparr>) \<and>
     change_slots (entries (delta_pattern_slots d)) (pattern_slots s) = Inr (pattern_slots t) \<and>
     t = (keyed_part s t)\<lparr>banks := banks t, pattern_slots := pattern_slots t\<rparr>"
    (is "?L \<longleftrightarrow> ?R")
proof
  assume ?L
  then obtain tempo q w as ps fs u ss where parts:
    "change_value (bpm s) (delta_bpm d) = Some tempo"
    "change_value (quantize_enabled s) (delta_quantize_enabled d) = Some q"
    "change_value (swing_percent s) (delta_swing_percent d) = Some w"
    "change_map (assets s) (delta_assets d) = Some as"
    "change_map (patterns s) (delta_patterns d) = Some ps"
    "change_map (performances s) (delta_performances d) = Some fs"
    and u: "change_pads [] (delta_pads d) (s\<lparr>bpm := tempo, quantize_enabled := q, swing_percent := w,
       assets := as, patterns := ps, performances := fs\<rparr>) = Inr u"
    and ss: "change_slots (entries (delta_pattern_slots d)) (pattern_slots u) = Inr ss"
    and t: "t = u\<lparr>pattern_slots := ss\<rparr>"
    by (auto simp: change_content_def split: option.splits)
  let ?s = "s\<lparr>bpm := tempo, quantize_enabled := q, swing_percent := w,
       assets := as, patterns := ps, performances := fs\<rparr>"
  have u': "u = ?s\<lparr>banks := banks u\<rparr>" using u change_pads_iff by blast
  have fields: "bpm u = tempo" "quantize_enabled u = q" "swing_percent u = w" "assets u = as"
    "patterns u = ps" "performances u = fs" "pattern_slots u = pattern_slots s"
    by (subst u', simp)+
  have "keyed_part s t = ?s" using t fields by (simp add: keyed_part_def)
  moreover have "t = ?s\<lparr>banks := banks t, pattern_slots := pattern_slots t\<rparr>"
    using t u' by (metis project_state.select_convs(7,11) project_state.surjective project_state.update_convs(7,11))
  ultimately show ?R using parts u u' ss t fields by simp
next
  assume ?R
  then show ?L by (auto simp: change_content_def keyed_part_def)
qed

lemma array_extents_parts:
  assumes "array_extents s"
  shows "bank_extents (banks s)" "length (pattern_slots s) = 16"
  using assms by (simp_all add: array_extents_iff)

lemma keyed_part_arrays [simp]:
  "banks (keyed_part s t) = banks s" "pad_at (keyed_part s t) sl = pad_at s sl"
  by (simp_all add: keyed_part_def pad_at_def)

lemma pad_at_banks_update: "pad_at (u\<lparr>banks := banks t\<rparr>) sl = pad_at t sl"
  by (simp add: pad_at_def)

lemma change_content_iff:
  assumes "array_extents s" "array_extents t" "delta_project_id d = state_id s"
  shows "change_content d s = Inr t \<longleftrightarrow>
    delta_between d s t \<and> contract t = contract s \<and> revision t = revision s"
proof -
  note ext = array_extents_parts [OF assms(1)] array_extents_parts [OF assms(2)]
  have pads: "change_pads [] (delta_pads d) (keyed_part s t) = Inr ((keyed_part s t)\<lparr>banks := banks t\<rparr>) \<longleftrightarrow>
      pads_wf (delta_pads d) \<and> (\<forall>sl. is_valid_slot sl \<longrightarrow>
        map_of (pad_changes (delta_pads d)) sl = difference (pad_at s sl) (pad_at t sl))"
    using pads_change_iff [of "keyed_part s t" "(keyed_part s t)\<lparr>banks := banks t\<rparr>" "delta_pads d"] ext
    by (simp add: pad_at_banks_update)
  have whole: "t = (keyed_part s t)\<lparr>banks := banks t, pattern_slots := pattern_slots t\<rparr> \<longleftrightarrow>
      state_id t = state_id s \<and> contract t = contract s \<and> revision t = revision s"
    (is "t = ?w \<longleftrightarrow> _")
  proof
    assume "t = ?w"
    from arg_cong [OF this, of state_id] arg_cong [OF this, of contract] arg_cong [OF this, of revision]
    show "state_id t = state_id s \<and> contract t = contract s \<and> revision t = revision s"
      by (simp add: keyed_part_def)
  qed (simp add: keyed_part_def project_state.equality)
  show ?thesis
    unfolding change_content_parts pads whole slots_change_iff [OF ext(2,4)] change_map_iff
      change_value_iff delta_between_def
    using assms(3) by auto
qed

section \<open>Reversal\<close>

lemma map_of_swap_pads:
  assumes "pads_wf cs"
  shows "map_of (pad_changes (map swap_change cs)) sl = map_option swap_change (map_of (pad_changes cs) sl)"
  using assms by (induction cs) (auto simp: pad_changes_def pads_wf_def)

lemma pads_wf_swap: "pads_wf cs \<Longrightarrow> pads_wf (map swap_change cs)"
proof -
  assume wf: "pads_wf cs"
  then have eq: "map (\<lambda>c. slot_id (after c)) cs = map (\<lambda>c. slot_id (before c)) cs"
    by (simp add: pads_wf_def list_all_iff)
  have "distinct (map (\<lambda>c. slot_id (after c)) cs)" unfolding eq using wf by (simp add: pads_wf_def)
  with wf show ?thesis by (auto simp: pads_wf_def list_all_iff comp_def)
qed

lemma reverse_between:
  assumes "delta_between d s t"
  shows "delta_between (reverse_authoring_delta d) t s"
  using assms
  by (auto simp: difference_swap [symmetric] delta_between_def reverse_authoring_delta_def pads_wf_swap map_of_swap_pads)

section \<open>Difference\<close>

lemma foldl_emplace_some:
  "lookup (foldl (\<lambda>r (k, v). if P k v then emplace k (f k v) r else r) m xs) k =
     (case lookup m k of Some c \<Rightarrow> Some c
      | None \<Rightarrow> map_of (map (\<lambda>(k, v). (k, f k v)) (filter (\<lambda>(k, v). P k v) xs)) k)"
  by (induction xs arbitrary: m) (auto simp: lookup_emplace split: option.splits if_splits)

lemma map_of_filter_entries:
  "map_of (map (\<lambda>(k, v). (k, f k v)) (filter (\<lambda>(k, v). P k v) (entries m))) k =
     (case lookup m k of None \<Rightarrow> None | Some v \<Rightarrow> if P k v then Some (f k v) else None)"
proof -
  have "map_of (map (\<lambda>(k, v). (k, f k v)) (filter (\<lambda>(k, v). P k v) xs)) k =
     (case map_of xs k of None \<Rightarrow> None | Some v \<Rightarrow> if P k v then Some (f k v) else None)"
    if "distinct (map fst xs)" for xs
    using that by (induction xs) (auto simp: map_of_eq_None_iff image_iff split: option.splits dest!: map_of_SomeD)
  from this [of "entries m"] show ?thesis by simp
qed

lemma lookup_map_difference:
  "lookup (map_difference b a) k = difference (lookup b k) (lookup a k)"
  by (cases "lookup b k"; cases "lookup a k")
    (simp_all add: map_difference_def Let_def foldl_emplace_some map_of_filter_entries difference_def)

lemma lookup_slots_difference:
  assumes "length bs = 16"
  shows "lookup (slots_difference bs as) i =
    (if i < kPatternSlotCount then difference (slot_value bs i) (slot_value as i) else None)"
proof -
  let ?step = "\<lambda>r i. if bs ! i \<noteq> as ! i
    then emplace (of_nat i) \<lparr>before = bs ! i, after = as ! i\<rparr> r else r"
  have "lookup (foldl ?step map_empty [0..<n]) i =
      (if unat i < n then difference (bs ! unat i) (as ! unat i) else None)" if "n \<le> 16" for n
    using that
  proof (induction n)
    case (Suc n)
    have "unat (of_nat n :: u8) = n" using Suc.prems by (simp add: unat_of_nat)
    then have "i = of_nat n \<longleftrightarrow> unat i = n" by (metis word_unat_eq_iff)
    with Suc show ?case by (auto simp: lookup_emplace difference_def less_Suc_eq)
  qed simp
  from this [of 16] show ?thesis
    by (simp add: slots_difference_def assms slot_value_def word_less_nat_alt)
qed

text \<open>Pads of a valid Project carry the id of their position.\<close>

lemma good_pad_id:
  assumes "good_project s" "is_valid_slot sl"
  shows "slot_id (pad_at s sl) = sl"
  using good_pad_at [OF assms] slot_id_nat_eq by (auto simp: valid_pad_def)

text \<open>The slots in the order of the two nested loops.\<close>

definition all_slots :: "pad_slot_id list" where
  "all_slots = concat (map (\<lambda>b. map (\<lambda>p. \<lparr>bank = of_nat b, pad = of_nat p\<rparr>) [0..<16]) [0..<4])"

lemma all_slots_facts:
  "set all_slots = {sl. is_valid_slot sl}" "map pad_position all_slots = [0..<64]"
proof -
  show pos: "map pad_position all_slots = [0..<64]"
    by code_simp
  have "list_all is_valid_slot all_slots" by code_simp
  moreover have "sl \<in> set all_slots" if "is_valid_slot sl" for sl
  proof -
    have "sl = \<lparr>bank = of_nat (unat (bank sl)), pad = of_nat (unat (pad sl))\<rparr>" by simp
    with that show ?thesis by (force simp: all_slots_def is_valid_slot_nat)
  qed
  ultimately show "set all_slots = {sl. is_valid_slot sl}" by (auto simp: list_all_iff)
qed

lemma map_filter_cong:
  "(\<And>x. x \<in> set xs \<Longrightarrow> f x = g x \<and> P x = Q x) \<Longrightarrow> map f (filter P xs) = map g (filter Q xs)"
  by (induction xs) auto

lemma pads_difference_slots:
  assumes "bank_extents bs"
  shows "pads_difference bs as =
    map (\<lambda>sl. \<lparr>before = bank_pad bs sl, after = bank_pad as sl\<rparr>)
      (filter (\<lambda>sl. bank_pad bs sl \<noteq> bank_pad as sl) all_slots)"
proof -
  have len: "length bs = 4" "\<And>b. b < 4 \<Longrightarrow> length (bs ! b) = 16"
    using assms by (auto simp: bank_extents_def list_all_length)
  have row: "map (\<lambda>p. \<lparr>before = bs ! b ! p, after = as ! b ! p\<rparr>)
        (filter (\<lambda>p. bs ! b ! p \<noteq> as ! b ! p) [0..<16]) =
      map (\<lambda>sl. \<lparr>before = bank_pad bs sl, after = bank_pad as sl\<rparr>)
        (filter (\<lambda>sl. bank_pad bs sl \<noteq> bank_pad as sl)
           (map (\<lambda>p. \<lparr>bank = of_nat b, pad = of_nat p\<rparr>) [0..<16]))" if "b < 4" for b
  proof -
    have "bank_pad xs \<lparr>bank = of_nat b, pad = of_nat p\<rparr> = xs ! b ! p" if "p < 16" for p xs
      using that \<open>b < 4\<close> by (simp add: bank_pad_def unat_of_nat)
    then show ?thesis unfolding filter_map map_map by (intro map_filter_cong) (auto simp: comp_def)
  qed
  show ?thesis
    unfolding pads_difference_def all_slots_def filter_concat map_concat len(1) map_map comp_def
    using row len(2) by (intro arg_cong [of _ _ concat] map_cong refl) auto
qed

lemma map_of_self: "map_of (map (\<lambda>x. (x, f x)) xs) k = (if k \<in> set xs then Some (f k) else None)"
  by (induction xs) auto

lemma difference_pads:
  assumes "good_project s" "good_project t"
  shows "pads_wf (pads_difference (banks s) (banks t))"
    and "is_valid_slot sl \<Longrightarrow>
      map_of (pad_changes (pads_difference (banks s) (banks t))) sl = difference (pad_at s sl) (pad_at t sl)"
    and "sorted (map (\<lambda>c. pad_position (slot_id (before c))) (pads_difference (banks s) (banks t)))"
proof -
  have ext: "bank_extents (banks s)" using assms(1) by (simp add: good_project_def array_extents_iff)
  let ?xs = "filter (\<lambda>sl. bank_pad (banks s) sl \<noteq> bank_pad (banks t) sl) all_slots"
  let ?f = "\<lambda>sl. \<lparr>before = bank_pad (banks s) sl, after = bank_pad (banks t) sl\<rparr>"
  note diff = pads_difference_slots [OF ext, of "banks t"]
  have ids: "slot_id (bank_pad (banks s) sl) = sl" "slot_id (bank_pad (banks t) sl) = sl"
    if "sl \<in> set all_slots" for sl
    using good_pad_id [OF assms(1)] good_pad_id [OF assms(2)] that
    by (simp_all add: all_slots_facts pad_at_bank_pad)
  have keys: "map (\<lambda>c. slot_id (before c)) (pads_difference (banks s) (banks t)) = ?xs"
    unfolding diff map_map by (rule map_idI) (simp add: ids)
  have sorted_slots: "sorted (map pad_position all_slots)" "distinct all_slots"
    using all_slots_facts(2) by (simp, metis distinct_map distinct_upt)
  show "pads_wf (pads_difference (banks s) (banks t))"
    unfolding pads_wf_def keys using sorted_slots(2)
    by (auto simp: diff list_all_iff ids) (simp add: all_slots_facts)
  have "pad_changes (pads_difference (banks s) (banks t)) = map (\<lambda>sl. (sl, ?f sl)) ?xs"
    unfolding diff pad_changes_def by (simp add: ids)
  then show "map_of (pad_changes (pads_difference (banks s) (banks t))) sl = difference (pad_at s sl) (pad_at t sl)"
    if "is_valid_slot sl"
    using that by (simp only: map_of_self) (auto simp: all_slots_facts pad_at_bank_pad difference_def)
  have "map (\<lambda>c. pad_position (slot_id (before c))) (pads_difference (banks s) (banks t)) = map pad_position ?xs"
    unfolding keys [symmetric] by simp
  then show "sorted (map (\<lambda>c. pad_position (slot_id (before c))) (pads_difference (banks s) (banks t)))"
    using sorted_slots(1) by (simp add: sorted_filter)
qed

lemma difference_between:
  assumes "good_project s" "good_project t" "authoring_difference s t = Inr d"
  shows "delta_between d s t"
proof -
  have "length (pattern_slots s) = 16" using good_slots(2) [OF assms(1)] .
  with difference_pads [OF assms(1,2)] assms(3) show ?thesis
    by (auto simp: authoring_difference_def delta_between_def lookup_map_difference
        lookup_slots_difference split: if_splits)
qed

section \<open>The canonical delta\<close>

definition pads_ordered :: "authoring_delta \<Rightarrow> bool" where
  "pads_ordered d = sorted (map (\<lambda>c. pad_position (slot_id (before c))) (delta_pads d))"

lemma pads_lookup:
  assumes "pads_wf cs"
  shows "map_of (pad_changes cs) sl = Some c \<longleftrightarrow> c \<in> set cs \<and> slot_id (before c) = sl"
proof -
  have "distinct (map fst (pad_changes cs))"
    using assms by (simp add: pads_wf_def pad_changes_def comp_def)
  then show ?thesis by (auto simp: pad_changes_def)
qed

lemma pads_unique:
  assumes "pads_wf cs" "pads_wf ds" "sorted (map (\<lambda>c. pad_position (slot_id (before c))) cs)"
    "sorted (map (\<lambda>c. pad_position (slot_id (before c))) ds)"
    "\<And>sl. is_valid_slot sl \<Longrightarrow> map_of (pad_changes cs) sl = map_of (pad_changes ds) sl"
  shows "cs = ds"
proof (rule sorted_key_unique [of "\<lambda>c. pad_position (slot_id (before c))"])
  have valid: "is_valid_slot (slot_id (before c))" if "c \<in> set es" "pads_wf es" for c es
    using that by (auto simp: pads_wf_def list_all_iff)
  show "set cs = set ds"
    using assms(5) pads_lookup [OF assms(1)] pads_lookup [OF assms(2)] valid assms(1,2)
    by (metis subsetI subset_antisym)
  show "inj_on (\<lambda>c. pad_position (slot_id (before c))) (set cs)"
  proof (rule inj_onI)
    fix x y
    assume xy: "x \<in> set cs" "y \<in> set cs" "pad_position (slot_id (before x)) = pad_position (slot_id (before y))"
    then have "slot_id (before x) = slot_id (before y)"
      using pad_position_inj valid assms(1) by (auto simp: inj_on_def)
    with xy pads_lookup [OF assms(1)] show "x = y" by (metis option.inject)
  qed
qed (use assms in \<open>auto simp: pads_wf_def distinct_map\<close>)

lemma between_unique:
  assumes "delta_between d s t" "delta_between e s t" "pads_ordered d" "pads_ordered e"
  shows "d = e"
proof -
  have "delta_pads d = delta_pads e"
    using assms by (intro pads_unique) (auto simp: delta_between_def pads_ordered_def)
  with assms show ?thesis
    by (intro authoring_delta.equality) (auto simp: delta_between_def intro!: std_map_eqI)
qed

section \<open>Composition\<close>

lemma after_update: "c\<lparr>after := v\<rparr> = \<lparr>before = before c, after = v\<rparr>" for c :: "'v authoring_change"
  by simp

lemma compose_value_join: "compose_value x y = join_changes x y"
  by (cases x; cases y) (auto simp: join_changes_def difference_def Let_def)

lemma compose_entries_join:
  assumes "distinct (map fst cs)" "\<And>k. join_changes (lookup m k) (map_of cs k) = Some (J k)"
  shows "\<exists>r. compose_entries m cs = Some r \<and> (\<forall>k. lookup r k = J k)"
  using assms
proof (induction cs arbitrary: m)
  case Nil
  then show ?case by simp
next
  case (Cons kc cs)
  obtain k c where kc: "kc = (k, c)" by fastforce
  have none: "map_of cs k = None" using Cons.prems(1) kc by (simp add: map_of_eq_None_iff)
  have jk: "join_changes (lookup m k) (Some c) = Some (J k)" using Cons.prems(2) [of k] kc by simp
  define m' where "m' = (case J k of None \<Rightarrow> erase k m | Some j \<Rightarrow> insert_or_assign k j m)"
  have m': "lookup m' l = (if l = k then J k else lookup m l)" for l
    by (simp add: m'_def split: option.split)
  have "join_changes (lookup m' l) (map_of cs l) = Some (J l)" for l
    using Cons.prems(2) [of l] kc none m' by (cases "l = k") auto
  then obtain r where r: "compose_entries m' cs = Some r" "\<forall>k. lookup r k = J k"
    using Cons.IH [of m'] Cons.prems(1) by auto
  have "compose_entries m (kc # cs) = compose_entries m' cs"
  proof (cases "lookup m k")
    case None
    with jk have "J k = Some c" by (simp add: join_changes_def)
    then have "emplace k c m = m'" using None by (simp add: m'_def emplace_def contains_def)
    with None kc show ?thesis by simp
  next
    case (Some f)
    with jk have "after f = before c" "J k = difference (before f) (after c)"
      by (auto simp: join_changes_def split: if_splits)
    with Some kc show ?thesis by (simp add: m'_def difference_def Let_def after_update)
  qed
  with r show ?case by auto
qed

lemma compose_map_join:
  assumes "\<And>k. join_changes (lookup m k) (lookup n k) = Some (J k)"
  shows "\<exists>r. compose_map m n = Some r \<and> (\<forall>k. lookup r k = J k)"
  unfolding compose_map_def using assms by (intro compose_entries_join) simp_all

lemma find_pad_None:
  "find_pad sl cs = None \<longleftrightarrow> map_of (pad_changes cs) sl = None"
  by (auto simp: find_pad_def find_from_None pad_changes_def map_of_eq_None_iff image_image)

lemma find_pad_Some:
  "find_pad sl cs = Some i \<Longrightarrow> i < length cs \<and> slot_id (before (cs ! i)) = sl"
  using find_from_Some [of "\<lambda>c. slot_id (before c) = sl" 0 cs i] by (simp add: find_pad_def)

lemma set_remove_nth:
  assumes "distinct xs" "i < length xs"
  shows "set (take i xs @ drop (Suc i) xs) = set xs - {xs ! i}" "distinct (take i xs @ drop (Suc i) xs)"
proof -
  have xs: "xs = take i xs @ xs ! i # drop (Suc i) xs" using assms(2) by (rule id_take_nth_drop)
  with assms(1) have d: "distinct (take i xs @ xs ! i # drop (Suc i) xs)" by simp
  then show "distinct (take i xs @ drop (Suc i) xs)" by simp
  show "set (take i xs @ drop (Suc i) xs) = set xs - {xs ! i}"
    by (subst (3) xs) (use d in auto)
qed

text \<open>Replacing or dropping the change of one Pad, as an update of the keyed view.\<close>

lemma pads_replace:
  assumes "pads_wf cs" "i < length cs" "slot_id (before j) = slot_id (before (cs ! i))"
    "slot_id (after j) = slot_id (before j)"
  shows "pads_wf (cs[i := j])"
    and "map_of (pad_changes (cs[i := j])) = (map_of (pad_changes cs))(slot_id (before (cs ! i)) \<mapsto> j)"
proof -
  have keys: "map (\<lambda>c. slot_id (before c)) (cs[i := j]) = map (\<lambda>c. slot_id (before c)) cs"
    using map_fst_update_eq [OF assms(2), of "\<lambda>c. slot_id (before c)" j] assms(3) by simp
  show wf: "pads_wf (cs[i := j])"
    unfolding pads_wf_def keys using assms
    by (auto simp: pads_wf_def list_all_length nth_list_update)
  have d: "distinct cs" using assms(1) by (auto simp: pads_wf_def distinct_map)
  show "map_of (pad_changes (cs[i := j])) = (map_of (pad_changes cs))(slot_id (before (cs ! i)) \<mapsto> j)"
  proof
    fix sl
    have inj: "c = cs ! i" if "c \<in> set cs" "slot_id (before c) = slot_id (before (cs ! i))" for c
      using that assms(1,2) pads_lookup [OF assms(1), of "slot_id (before (cs ! i))"] by (metis nth_mem option.inject)
    have "map_of (pad_changes (cs[i := j])) sl = Some c \<longleftrightarrow>
        ((map_of (pad_changes cs))(slot_id (before (cs ! i)) \<mapsto> j)) sl = Some c" for c
      unfolding pads_lookup [OF wf] set_update_distinct [OF d assms(2)]
      using pads_lookup [OF assms(1), of sl c] inj assms(3) by auto
    then show "map_of (pad_changes (cs[i := j])) sl = ((map_of (pad_changes cs))(slot_id (before (cs ! i)) \<mapsto> j)) sl"
      by (metis not_None_eq)
  qed
qed

lemma pads_drop:
  assumes "pads_wf cs" "i < length cs"
  shows "pads_wf (take i cs @ drop (Suc i) cs)"
    and "map_of (pad_changes (take i cs @ drop (Suc i) cs)) = (map_of (pad_changes cs))(slot_id (before (cs ! i)) := None)"
proof -
  let ?r = "take i cs @ drop (Suc i) cs" and ?id = "\<lambda>c. slot_id (before c)"
  have d: "distinct cs" using assms(1) by (auto simp: pads_wf_def distinct_map)
  note r = set_remove_nth [OF d assms(2)]
  have "map ?id ?r = take i (map ?id cs) @ drop (Suc i) (map ?id cs)" by (simp add: take_map drop_map)
  then have "distinct (map ?id ?r)"
    using set_remove_nth(2) [of "map ?id cs" i] assms by (simp add: pads_wf_def)
  then show wf: "pads_wf ?r" using assms(1) r(1) by (auto simp: pads_wf_def list_all_iff)
  show "map_of (pad_changes ?r) = (map_of (pad_changes cs))(?id (cs ! i) := None)"
  proof
    fix sl
    have "map_of (pad_changes ?r) sl = Some c \<longleftrightarrow> ((map_of (pad_changes cs))(?id (cs ! i) := None)) sl = Some c" for c
      unfolding pads_lookup [OF wf] r(1)
      using pads_lookup [OF assms(1), of sl c] pads_lookup [OF assms(1), of "?id (cs ! i)" "cs ! i"] assms(2)
        pads_lookup [OF assms(1), of "?id (cs ! i)" c] by auto
    then show "map_of (pad_changes ?r) sl = ((map_of (pad_changes cs))(?id (cs ! i) := None)) sl"
      by (metis not_None_eq)
  qed
qed

lemma pads_wf_snoc:
  assumes "pads_wf cs" "is_valid_slot (slot_id (before d))" "slot_id (after d) = slot_id (before d)"
    "map_of (pad_changes cs) (slot_id (before d)) = None"
  shows "pads_wf (cs @ [d])"
    and "map_of (pad_changes (cs @ [d])) = (map_of (pad_changes cs))(slot_id (before d) \<mapsto> d)"
proof -
  have "slot_id (before d) \<notin> (\<lambda>c. slot_id (before c)) ` set cs"
    using assms(4) by (simp add: pad_changes_def map_of_eq_None_iff image_image)
  with assms show "pads_wf (cs @ [d])" by (simp add: pads_wf_def)
  show "map_of (pad_changes (cs @ [d])) = (map_of (pad_changes cs))(slot_id (before d) \<mapsto> d)"
    using assms(4) by (auto simp: pad_changes_def map_add_def split: option.splits)
qed

lemma compose_pads_join:
  assumes "pads_wf cs" "pads_wf ds"
    "\<And>sl. is_valid_slot sl \<Longrightarrow>
       join_changes (map_of (pad_changes cs) sl) (map_of (pad_changes ds) sl) = Some (J sl)"
  shows "\<exists>r. compose_pads cs ds = Some r \<and> pads_wf r \<and>
    (\<forall>sl. is_valid_slot sl \<longrightarrow> map_of (pad_changes r) sl = J sl)"
  using assms
proof (induction ds arbitrary: cs)
  case Nil
  then show ?case by (simp add: pad_changes_def)
next
  case (Cons d ds)
  let ?sl = "slot_id (before d)"
  have d: "is_valid_slot ?sl" "slot_id (after d) = ?sl" "pads_wf ds" "map_of (pad_changes ds) ?sl = None"
    using Cons.prems(2) by (auto simp: pads_wf_def pad_changes_def map_of_eq_None_iff image_image)
  have rest: "map_of (pad_changes (d # ds)) sl = (if sl = ?sl then Some d else map_of (pad_changes ds) sl)" for sl
    by (simp add: pad_changes_def)
  have jd: "join_changes (map_of (pad_changes cs) ?sl) (Some d) = Some (J ?sl)"
    using Cons.prems(3) [OF d(1)] rest by simp
  have step: "\<exists>cs'. compose_pads cs (d # ds) = compose_pads cs' ds \<and> pads_wf cs' \<and>
      map_of (pad_changes cs') = (map_of (pad_changes cs))(?sl := J ?sl)"
  proof (cases "find_pad ?sl cs")
    case None
    then have none: "map_of (pad_changes cs) ?sl = None" by (simp add: find_pad_None)
    with jd have "J ?sl = Some d" by (simp add: join_changes_def)
    then show ?thesis
      using None pads_wf_snoc [OF Cons.prems(1) d(1,2) none] by (intro exI [of _ "cs @ [d]"]) simp
  next
    case (Some i)
    note i = find_pad_Some [OF Some]
    have hit: "map_of (pad_changes cs) ?sl = Some (cs ! i)"
      using pads_lookup [OF Cons.prems(1)] i by (metis nth_mem)
    with jd have eq: "after (cs ! i) = before d" "J ?sl = difference (before (cs ! i)) (after d)"
      by (auto simp: join_changes_def split: if_splits)
    let ?j = "(cs ! i)\<lparr>after := after d\<rparr>"
    show ?thesis
    proof (cases "before (cs ! i) = after d")
      case True
      then show ?thesis
        using Some eq i pads_drop [OF Cons.prems(1), of i]
        by (intro exI [of _ "take i cs @ drop (Suc i) cs"]) simp
    next
      case False
      then show ?thesis
        using Some eq i d(2) pads_replace [OF Cons.prems(1), of i ?j]
        by (intro exI [of _ "cs[i := ?j]"]) (simp add: difference_def after_update)
    qed
  qed
  then obtain cs' where cs': "compose_pads cs (d # ds) = compose_pads cs' ds" "pads_wf cs'"
    "map_of (pad_changes cs') = (map_of (pad_changes cs))(?sl := J ?sl)"
    by blast
  have "join_changes (map_of (pad_changes cs') sl) (map_of (pad_changes ds) sl) = Some (J sl)"
    if "is_valid_slot sl" for sl
    using Cons.prems(3) [OF that] rest d(4) cs'(3) by (cases "sl = ?sl") auto
  from Cons.IH [OF cs'(2) d(3) this] cs'(1) show ?case by simp
qed

lemma pads_wf_sort: "pads_wf cs \<Longrightarrow> pads_wf (sort_key f cs)"
  by (auto simp: pads_wf_def list_all_iff distinct_map)

lemma map_of_sort_pads:
  assumes "pads_wf cs"
  shows "map_of (pad_changes (sort_key f cs)) sl = map_of (pad_changes cs) sl"
proof -
  have "map_of (pad_changes (sort_key f cs)) sl = Some c \<longleftrightarrow> map_of (pad_changes cs) sl = Some c" for c
    unfolding pads_lookup [OF assms] pads_lookup [OF pads_wf_sort [OF assms]] by simp
  then show ?thesis by (metis not_None_eq)
qed

lemma compose_map_difference:
  assumes "\<forall>k. lookup m k = difference (f k) (g k)" "\<forall>k. lookup n k = difference (g k) (h k)"
  shows "\<exists>r. compose_map m n = Some r \<and> (\<forall>k. lookup r k = difference (f k) (h k))"
  using compose_map_join [of m n "\<lambda>k. difference (f k) (h k)"] assms by auto

lemma compose_between:
  assumes "delta_between d s t" "delta_between e t u"
  shows "\<exists>f. compose_authoring_deltas d e = Inr f \<and> delta_between f s u \<and> pads_ordered f"
proof -
  note d = assms(1) [unfolded delta_between_def] and e = assms(2) [unfolded delta_between_def]
  obtain as where as: "compose_map (delta_assets d) (delta_assets e) = Some as"
    "\<forall>k. lookup as k = difference (lookup (assets s) k) (lookup (assets u) k)"
    using compose_map_difference [of "delta_assets d" "lookup (assets s)" "lookup (assets t)" "delta_assets e"
        "lookup (assets u)"] d e by blast
  obtain ps where ps: "compose_map (delta_patterns d) (delta_patterns e) = Some ps"
    "\<forall>k. lookup ps k = difference (lookup (patterns s) k) (lookup (patterns u) k)"
    using compose_map_difference [of "delta_patterns d" "lookup (patterns s)" "lookup (patterns t)" "delta_patterns e"
        "lookup (patterns u)"] d e by blast
  obtain fs where fs: "compose_map (delta_performances d) (delta_performances e) = Some fs"
    "\<forall>k. lookup fs k = difference (lookup (performances s) k) (lookup (performances u) k)"
    using compose_map_difference [of "delta_performances d" "lookup (performances s)" "lookup (performances t)" "delta_performances e"
        "lookup (performances u)"] d e by blast
  let ?slot = "\<lambda>i. if i < kPatternSlotCount
    then difference (slot_value (pattern_slots s) i) (slot_value (pattern_slots u) i) else None"
  have "\<And>i. join_changes (lookup (delta_pattern_slots d) i) (lookup (delta_pattern_slots e) i) = Some (?slot i)"
    using d e by simp
  from compose_map_join [OF this] obtain ss where
    ss: "compose_map (delta_pattern_slots d) (delta_pattern_slots e) = Some ss" "\<forall>i. lookup ss i = ?slot i"
    by blast
  have "\<exists>r. compose_pads (delta_pads d) (delta_pads e) = Some r \<and> pads_wf r \<and>
      (\<forall>sl. is_valid_slot sl \<longrightarrow> map_of (pad_changes r) sl = difference (pad_at s sl) (pad_at u sl))"
    using d e by (intro compose_pads_join) auto
  then obtain r where r: "compose_pads (delta_pads d) (delta_pads e) = Some r" "pads_wf r"
    "\<forall>sl. is_valid_slot sl \<longrightarrow> map_of (pad_changes r) sl = difference (pad_at s sl) (pad_at u sl)"
    by blast
  show ?thesis
    using assms as ps fs ss r
    by (auto simp: compose_authoring_deltas_def delta_between_def compose_value_join pads_ordered_def
        pads_wf_sort map_of_sort_pads)
qed

end
