(* ===== verification/Undo_Redo.thy ===== *)
theory Undo_Redo
  imports Delta_Laws
begin

text \<open>
  What undo, redo and grouping rest on: applying the difference of two contents, or its
  reverse, moves exactly between them; composing differences is the difference.
\<close>

lemma delta_between_meta [simp]:
  "delta_between d (s\<lparr>contract := c, revision := r\<rparr>) t = delta_between d s t"
  "delta_between d s (t\<lparr>contract := c, revision := r\<rparr>) = delta_between d s t"
  by (simp_all add: delta_between_def pad_at_def)

lemma same_content_refl [simp]: "same_content s s"
  by (simp add: same_content_def)

lemma same_content_meta [simp]: "same_content s (s\<lparr>contract := c, revision := r\<rparr>)"
  by (simp add: same_content_def)

lemma same_content_iff:
  "same_content s t \<longleftrightarrow>
     state_id t = state_id s \<and> bpm t = bpm s \<and> quantize_enabled t = quantize_enabled s \<and>
     swing_percent t = swing_percent s \<and> banks t = banks s \<and> assets t = assets s \<and>
     patterns t = patterns s \<and> performances t = performances s \<and> pattern_slots t = pattern_slots s"
    (is "_ \<longleftrightarrow> ?R")
proof
  assume "same_content s t"
  then have "t = s\<lparr>contract := contract t, revision := revision t\<rparr>" by (simp add: same_content_def)
  from this [THEN arg_cong, of state_id] this [THEN arg_cong, of bpm]
    this [THEN arg_cong, of quantize_enabled] this [THEN arg_cong, of swing_percent]
    this [THEN arg_cong, of banks] this [THEN arg_cong, of assets] this [THEN arg_cong, of patterns]
    this [THEN arg_cong, of performances] this [THEN arg_cong, of pattern_slots]
  show ?R by simp
next
  assume ?R
  then show "same_content s t" by (simp add: same_content_def project_state.equality)
qed

lemma same_content_sym: "same_content s t \<longleftrightarrow> same_content t s"
  by (auto simp: same_content_iff)

lemma same_content_trans: "same_content s t \<Longrightarrow> same_content t u \<Longrightarrow> same_content s u"
  by (simp add: same_content_iff)

lemma good_same_content:
  assumes "same_content s t"
  shows "good_project t = good_project s"
proof -
  have "t = s\<lparr>contract := contract t, revision := revision t\<rparr>"
    using assms by (simp add: same_content_def)
  then show ?thesis by (metis good_project_meta)
qed

lemma between_same_content:
  assumes "same_content s s'" "same_content t t'"
  shows "delta_between d s' t' = delta_between d s t"
  using assms by (simp add: same_content_iff delta_between_def pad_at_def)

text \<open>A delta between two contents is empty exactly when the contents agree.\<close>

lemma pad_changes_Nil_iff: "pads_wf cs \<Longrightarrow> cs = [] \<longleftrightarrow> (\<forall>sl. is_valid_slot sl \<longrightarrow> map_of (pad_changes cs) sl = None)"
  by (cases cs) (auto simp: pad_changes_def pads_wf_def)

lemma std_map_empty_iff: "m = map_empty \<longleftrightarrow> (\<forall>k. lookup m k = None)"
  by (simp add: std_map_eq_iff)

lemma delta_empty_iff:
  assumes "delta_between d s t" "array_extents s" "array_extents t"
  shows "delta_empty d \<longleftrightarrow> same_content s t"
proof -
  note ext = array_extents_parts [OF assms(2)] array_extents_parts [OF assms(3)]
  note d = assms(1) [unfolded delta_between_def]
  have "delta_pads d = [] \<longleftrightarrow> banks t = banks s"
    using pad_changes_Nil_iff [of "delta_pads d"] d pads.cells_ext [OF ext(1,3)]
    by (auto simp: pad_at_bank_pad)
  moreover have "delta_pattern_slots d = map_empty \<longleftrightarrow> pattern_slots t = pattern_slots s"
    using d slots.cells_ext [OF ext(2,4)] by (auto simp: std_map_empty_iff split: if_splits)
  moreover have "delta_assets d = map_empty \<longleftrightarrow> assets t = assets s"
    "delta_patterns d = map_empty \<longleftrightarrow> patterns t = patterns s"
    "delta_performances d = map_empty \<longleftrightarrow> performances t = performances s"
    using d by (auto simp: std_map_empty_iff std_map_eq_iff)
  ultimately show ?thesis using d by (auto simp: delta_empty_def same_content_iff)
qed

section \<open>Application\<close>

definition history_event :: "command_meta \<Rightarrow> u64 \<Rightarrow> json_writes" where
  "history_event meta r =
     [(''type'', ArgString ''project.history_applied''),
      (''command_id'', ArgString (meta_command_id meta)), (''revision'', ArgUnsigned r)]"

text \<open>The conditions under which a delta may be sent as a new command.\<close>

definition delta_ready :: "project_state \<Rightarrow> command_meta \<Rightarrow> receipts \<Rightarrow> bool" where
  "delta_ready s meta receipts =
     (is_valid_uuid (meta_command_id meta) \<and> lookup receipts (meta_command_id meta) = None \<and>
      revision s = expected_revision meta \<and> revision s \<noteq> - 1)"

lemma apply_delta_between:
  assumes "good_project s" "good_project t" "delta_between d s t" "\<not> same_content s t"
    "delta_ready s meta receipts"
  shows "apply_authoring_delta s meta d receipts =
    Inr \<lparr>app_state = t\<lparr>contract := contract s, revision := revision s + 1\<rparr>,
         app_event = history_event meta (revision s + 1), app_replayed = False\<rparr>"
proof -
  let ?t = "t\<lparr>contract := contract s, revision := revision s\<rparr>"
  have ext: "array_extents s" "array_extents t" "array_extents ?t"
    using assms(1,2) by (auto simp: good_project_def array_extents_def)
  have id: "delta_project_id d = state_id s" using assms(3) by (simp add: delta_between_def)
  have "change_content d s = Inr ?t"
    using change_content_iff [OF ext(1,3) id] assms(3) by simp
  moreover have "valid_content ?t"
    using good_same_content [OF same_content_meta] assms(2) by (auto simp: good_project_def)
  moreover have "\<not> delta_empty d" using delta_empty_iff [OF assms(3) ext(1,2)] assms(4) by simp
  ultimately show ?thesis
    using assms(5) id
    by (auto simp: apply_authoring_delta_def delta_ready_def history_event_def and_then_def Let_def)
qed

lemma change_pads_extents:
  "change_pads seen cs s = Inr t \<Longrightarrow> array_extents s \<Longrightarrow> array_extents t"
  by (induction seen cs s rule: change_pads.induct)
    (auto simp: Let_def array_extents_set_pad split: if_splits)

lemma change_slots_length: "change_slots cs ss = Inr ts \<Longrightarrow> length ts = length ss"
  by (induction cs ss rule: change_slots.induct) (auto split: if_splits)

lemma change_content_extents:
  assumes "change_content d s = Inr t" "array_extents s"
  shows "array_extents t"
proof -
  from assms(1) have pads: "change_pads [] (delta_pads d) (keyed_part s t) = Inr ((keyed_part s t)\<lparr>banks := banks t\<rparr>)"
    and slots: "change_slots (entries (delta_pattern_slots d)) (pattern_slots s) = Inr (pattern_slots t)"
    unfolding change_content_parts by blast+
  have "array_extents (keyed_part s t)"
    using assms(2) by (simp add: keyed_part_def array_extents_def)
  from change_pads_extents [OF pads this] change_slots_length [OF slots] assms(2)
  show ?thesis by (simp add: array_extents_def)
qed

lemma apply_delta_cases:
  assumes "apply_authoring_delta s meta d receipts = Inr a" "array_extents s"
  obtains
    (replay) receipt where "lookup receipts (meta_command_id meta) = Some receipt"
      "a = \<lparr>app_state = s, app_event = receipt_event receipt, app_replayed = True\<rparr>"
  | (commit) "delta_ready s meta receipts" "delta_between d s (app_state a)"
      "valid_content (app_state a)" "array_extents (app_state a)"
      "contract (app_state a) = contract s" "revision (app_state a) = revision s + 1"
      "app_event a = history_event meta (revision s + 1)" "\<not> app_replayed a" "\<not> delta_empty d"
proof (cases "lookup receipts (meta_command_id meta)")
  case (Some receipt)
  with assms replay show ?thesis by (auto simp: apply_authoring_delta_def split: if_splits)
next
  case None
  with assms(1) obtain t where ready: "delta_ready s meta receipts" "\<not> delta_empty d"
    and id: "delta_project_id d = state_id s"
    and t: "change_content d s = Inr t" "valid_content t"
    and a: "a = \<lparr>app_state = t\<lparr>revision := revision t + 1\<rparr>,
      app_event = history_event meta (revision t + 1), app_replayed = False\<rparr>"
    by (auto simp: apply_authoring_delta_def delta_ready_def history_event_def Let_def split: if_splits)
  have ext: "array_extents t" using change_content_extents [OF t(1) assms(2)] .
  have facts: "delta_between d s t" "contract t = contract s" "revision t = revision s"
    using change_content_iff [OF assms(2) ext id] t(1) by auto
  have st: "app_state a = t\<lparr>contract := contract t, revision := revision t + 1\<rparr>" using a by simp
  have "good_project (app_state a)" unfolding st good_project_meta
    using t(2) ext by (simp add: good_project_def)
  moreover have "delta_between d s (app_state a)" unfolding st delta_between_meta by (rule facts(1))
  ultimately show ?thesis using ready facts a by (intro commit) (auto simp: good_project_def)
qed

section \<open>The properties\<close>

text \<open>
  A delta commits only as what it says: when the application of a delta commits,
  every value it names was the current one, the new content differs from the old in exactly
  the named values and is valid, the contract stays, and the revision advances by one without
  wrapping.
\<close>

lemma delta_commit_exact:
  assumes "array_extents s" "apply_authoring_delta s meta d receipts = Inr a" "\<not> app_replayed a"
  shows "delta_between d s (app_state a) \<and> valid_content (app_state a) \<and>
    array_extents (app_state a) \<and> \<not> same_content s (app_state a) \<and>
    contract (app_state a) = contract s \<and> unat (revision (app_state a)) = unat (revision s) + 1"
  using assms(2,1)
proof (cases rule: apply_delta_cases)
  case (replay receipt)
  with assms(3) show ?thesis by simp
next
  case commit
  have "unat (revision s + 1) = unat (revision s) + 1"
    using commit(1) unat_succ_not_max [of "revision s"] unfolding delta_ready_def by blast
  with commit delta_empty_iff [OF commit(2) assms(1) commit(4)] show ?thesis by simp
qed

lemma swap_values_involution: "map_values swap_change (map_values swap_change m) = m"
  by (rule std_map_eqI) (simp add: option.map_comp comp_def option.map_ident)

lemma reverse_involution: "reverse_authoring_delta (reverse_authoring_delta d) = d"
  by (simp add: reverse_authoring_delta_def option.map_comp comp_def option.map_ident
      swap_values_involution)

lemma reverse_ordered: "delta_between d s t \<Longrightarrow> pads_ordered d \<Longrightarrow> pads_ordered (reverse_authoring_delta d)"
proof -
  assume d: "delta_between d s t" "pads_ordered d"
  then have eq: "map (\<lambda>c. pad_position (slot_id (after c))) (delta_pads d) =
      map (\<lambda>c. pad_position (slot_id (before c))) (delta_pads d)"
    by (auto simp: delta_between_def pads_wf_def list_all_iff)
  have "pads_ordered (reverse_authoring_delta d) =
      sorted (map (\<lambda>c. pad_position (slot_id (after c))) (delta_pads d))"
    by (simp add: pads_ordered_def reverse_authoring_delta_def comp_def)
  with d(2) show ?thesis unfolding eq pads_ordered_def by blast
qed

lemma difference_ordered:
  assumes "good_project s" "good_project t" "authoring_difference s t = Inr d"
  shows "pads_ordered d"
  using difference_pads(3) [OF assms(1,2)] assms(3)
  by (auto simp: pads_ordered_def authoring_difference_def split: if_splits)

lemma difference_exists:
  assumes "state_id s = state_id t"
  obtains d where "authoring_difference s t = Inr d"
  using assms by (simp add: authoring_difference_def)

lemma compose_total:
  assumes good: "good_project s" "good_project t" "good_project u"
    and "authoring_difference s t = Inr d" "authoring_difference t u = Inr e"
  shows "compose_authoring_deltas d e = authoring_difference s u"
proof -
  note between = difference_between [OF good(1,2) assms(4)] difference_between [OF good(2,3) assms(5)]
  obtain f where f: "compose_authoring_deltas d e = Inr f" "delta_between f s u" "pads_ordered f"
    using compose_between [OF between] by blast
  have "state_id s = state_id u" using f(2) by (simp add: delta_between_def)
  then obtain g where g: "authoring_difference s u = Inr g" by (rule difference_exists)
  have "f = g"
    by (rule between_unique [OF f(2) difference_between [OF good(1,3) g] f(3)
          difference_ordered [OF good(1,3) g]])
  with f(1) g show ?thesis by simp
qed

lemma reverse_difference:
  assumes good: "good_project s" "good_project t" and "authoring_difference s t = Inr d"
  shows "authoring_difference t s = Inr (reverse_authoring_delta d)"
proof -
  have "state_id t = state_id s" using assms(3) by (auto simp: authoring_difference_def split: if_splits)
  then obtain e where e: "authoring_difference t s = Inr e" by (rule difference_exists)
  note d = difference_between [OF good assms(3)] difference_ordered [OF good assms(3)]
  note e' = difference_between [OF good(2,1) e] difference_ordered [OF good(2,1) e]
  have "e = reverse_authoring_delta d"
    by (rule between_unique [OF e'(1) reverse_between [OF d(1)] e'(2) reverse_ordered [OF d]])
  with e show ?thesis by simp
qed

text \<open>
  Reversing is going back: the reverse of the difference of two valid Projects is
  the difference the other way round, and reversing twice changes nothing.
\<close>

lemma reverse_is_opposite_difference:
  assumes "valid_content s" "array_extents s" "valid_content t" "array_extents t"
    and "authoring_difference s t = Inr d"
  shows "authoring_difference t s = Inr (reverse_authoring_delta d) \<and>
    reverse_authoring_delta (reverse_authoring_delta d) = d"
  using reverse_difference [OF _ _ assms(5)] reverse_involution assms(1-4)
  by (simp add: good_project_def)

text \<open>
  Property C22. Grouping edits is adding them up: composing the differences of two successive
  edits between valid Projects gives exactly the difference of the first and the last content,
  the same delta down to the order of its Pad changes.
\<close>

theorem compose_is_total_difference:
  assumes "valid_content s" "array_extents s" "valid_content t" "array_extents t"
    "valid_content u" "array_extents u"
    and "authoring_difference s t = Inr d" "authoring_difference t u = Inr e"
  shows "compose_authoring_deltas d e = authoring_difference s u"
  using compose_total [OF _ _ _ assms(7,8)] assms(1-6) by (simp add: good_project_def)

text \<open>
  Property C21. Undo and redo: from any state with the content reached by an edit, sending the
  reverse of the edit's difference restores the content before it, and sending the difference
  then restores the content after it; both commit, whatever the contract, and each advances the
  revision.
\<close>

theorem undo_then_redo:
  assumes "valid_content s" "array_extents s" "valid_content t" "array_extents t"
    and "authoring_difference s t = Inr d" "\<not> same_content s t" "same_content t t'"
    and "delta_ready t' m1 receipts" "delta_ready (s\<lparr>revision := revision t' + 1\<rparr>) m2 receipts"
  shows "\<exists>a b. apply_authoring_delta t' m1 (reverse_authoring_delta d) receipts = Inr a \<and>
    same_content s (app_state a) \<and> revision (app_state a) = revision t' + 1 \<and>
    apply_authoring_delta (app_state a) m2 d receipts = Inr b \<and>
    same_content t (app_state b) \<and> revision (app_state b) = revision t' + 2"
proof -
  have good: "good_project s" "good_project t" using assms(1-4) by (simp_all add: good_project_def)
  have good': "good_project t'" using good_same_content [OF assms(7)] good(2) by simp
  have d: "delta_between d s t" using difference_between [OF good assms(5)] .
  have r: "delta_between (reverse_authoring_delta d) t' s"
    using reverse_between [OF d] between_same_content [OF assms(7) same_content_refl] by simp
  have ne: "\<not> same_content t' s" using assms(6,7) same_content_trans same_content_sym by blast
  let ?u = "s\<lparr>contract := contract t', revision := revision t' + 1\<rparr>"
  note undo = apply_delta_between [OF good' good(1) r ne assms(8)]
  have "delta_ready ?u m2 receipts = delta_ready (s\<lparr>revision := revision t' + 1\<rparr>) m2 receipts"
    by (simp add: delta_ready_def)
  with assms(9) have u: "good_project ?u" "delta_between d ?u t" "\<not> same_content ?u t" "delta_ready ?u m2 receipts"
    using good d assms(6) same_content_meta same_content_trans by (simp, simp, blast, blast)
  note redo = apply_delta_between [OF u(1) good(2) u(2-4)]
  show ?thesis using undo redo by simp
qed

section \<open>Instances\<close>

text \<open>Importing a sample onto a Pad, and importing then recolouring it.\<close>

definition demo_t :: project_state where
  "demo_t = app_state demo_applied"

definition demo_u :: project_state where
  "demo_u = app_state (projr (apply_command demo_t
     \<lparr>meta_command_id = ''0198b8e2-0000-4000-8000-0000000000c2'', expected_revision = 1\<rparr>
     (SetPadColour \<lparr>bank = 0, pad = 3\<rparr> (Some 2)) map_empty))"

definition demo_delta :: authoring_delta where
  "demo_delta = projr (authoring_difference demo_project demo_t)"

definition demo_delta2 :: authoring_delta where
  "demo_delta2 = projr (authoring_difference demo_t demo_u)"

definition undo_meta :: "u64 \<Rightarrow> command_meta" where
  "undo_meta r = \<lparr>meta_command_id = ''0198b8e2-0000-4000-8000-0000000000d1'', expected_revision = r\<rparr>"

lemma demo_states:
  "valid_content demo_t" "array_extents demo_t" "valid_content demo_u" "array_extents demo_u"
  "authoring_difference demo_project demo_t = Inr demo_delta"
  "authoring_difference demo_t demo_u = Inr demo_delta2"
  "\<not> same_content demo_project demo_t"
  "delta_ready demo_t (undo_meta 1) map_empty"
  "delta_ready (demo_project\<lparr>revision := revision demo_t + 1\<rparr>) (undo_meta 2) map_empty"
  by code_simp+

lemma reverse_is_opposite_difference_witness:
  "authoring_difference demo_t demo_project = Inr (reverse_authoring_delta demo_delta) \<and>
   reverse_authoring_delta (reverse_authoring_delta demo_delta) = demo_delta"
  by (rule reverse_is_opposite_difference [OF demo_good demo_states(1,2,5)])

theorem compose_is_total_difference_witness:
  "compose_authoring_deltas demo_delta demo_delta2 = authoring_difference demo_project demo_u"
  by (rule compose_is_total_difference [OF demo_good demo_states(1-6)])

theorem undo_then_redo_witness:
  "\<exists>a b. apply_authoring_delta demo_t (undo_meta 1) (reverse_authoring_delta demo_delta) map_empty = Inr a \<and>
    same_content demo_project (app_state a) \<and> revision (app_state a) = revision demo_t + 1 \<and>
    apply_authoring_delta (app_state a) (undo_meta 2) demo_delta map_empty = Inr b \<and>
    same_content demo_t (app_state b) \<and> revision (app_state b) = revision demo_t + 2"
  by (rule undo_then_redo [OF demo_good demo_states(1,2,5,7) same_content_refl demo_states(8,9)])

definition demo_redone :: applied_command where
  "demo_redone = projr (apply_authoring_delta demo_project (undo_meta 0) demo_delta map_empty)"

lemma delta_commit_exact_witness:
  "delta_between demo_delta demo_project (app_state demo_redone) \<and>
   unat (revision (app_state demo_redone)) = unat (revision demo_project) + 1"
proof -
  have "apply_authoring_delta demo_project (undo_meta 0) demo_delta map_empty = Inr demo_redone"
    "\<not> app_replayed demo_redone"
    by code_simp+
  from delta_commit_exact [OF demo_good(2) this] show ?thesis by blast
qed

end
