(* ===== verification/History.thy ===== *)
theory History
  imports Undo_Redo
begin

text \<open>
  The authoring history of a session (\<open>authoring_history.hpp\<close>, \<open>authoring_history.cpp\<close>): bounded
  undo and redo stacks, grouping of multi-commit actions, and the publication of a new history
  around a Project write whose outcome may be unknown.

  The class shares its \<open>State\<close> objects through \<open>std::shared_ptr\<close> and mutates them in place, so the
  model keeps an explicit store of objects and passes references. Every operation runs under one
  recursive mutex, held by the caller through the write; the operations are sequential here.
\<close>

section \<open>Paths\<close>

text \<open>
  \<open>std::filesystem::path::lexically_normal\<close> on POSIX paths: separators collapse, dot components
  go, a dot-dot cancels the name before it, and a trailing separator stays where one is implied.
\<close>

fun split_path :: "string \<Rightarrow> string list" where
  "split_path [] = [[]]"
| "split_path (c # cs) =
     (if c = CHR ''/'' then [] # split_path cs
      else case split_path cs of [] \<Rightarrow> [[c]] | n # ns \<Rightarrow> (c # n) # ns)"

fun normal_names :: "bool \<Rightarrow> string list \<Rightarrow> string list \<Rightarrow> string list" where
  "normal_names rooted stack [] = rev stack"
| "normal_names rooted stack (n # ns) =
     (if n = [] \<or> n = ''.'' then normal_names rooted stack ns
      else if n = ''..'' then
        (case stack of
           [] \<Rightarrow> normal_names rooted (if rooted then [] else [n]) ns
         | prev # rest \<Rightarrow> normal_names rooted (if prev = ''..'' then n # stack else rest) ns)
      else normal_names rooted (n # stack) ns)"

fun join_names :: "string list \<Rightarrow> string" where
  "join_names [] = []"
| "join_names [n] = n"
| "join_names (n # ns) = n @ ''/'' @ join_names ns"

definition lexically_normal :: "string \<Rightarrow> string" where
  "lexically_normal p =
     (if p = [] then []
      else let rooted = (hd p = CHR ''/'');
               names = split_path p;
               kept = normal_names rooted [] names;
               directory = (last names \<in> {[], ''.'', ''..''} \<and> kept \<noteq> [] \<and> last kept \<noteq> ''..'')
           in if rooted then CHR ''/'' # join_names kept @ (if directory then ''/'' else [])
              else if kept = [] then ''.''
              else join_names kept @ (if directory then ''/'' else []))"

section \<open>State\<close>

record history_entry =
  entry_delta :: authoring_delta
  entry_label :: string
  entry_group :: string

record history_state =
  hist_bundle :: string
  hist_session_id :: string
  hist_project_id :: project_id
  hist_revision :: u64
  hist_fingerprint :: string
  hist_undo :: "history_entry list"
  hist_redo :: "history_entry list"
  displaced_redo :: "history_entry list"
  displaced_oldest :: "history_entry option"
  hist_disabled_reason :: string

record history_status =
  status_session_id :: string
  status_revision :: u64
  undo_count :: nat
  redo_count :: nat
  undo_label :: string
  redo_label :: string
  disabled_reason :: string

text \<open>The objects allocated so far and the three shared pointers of the class.\<close>

record authoring_history =
  objects :: "history_state list"
  current :: "nat option"
  pending_before :: "nat option"
  pending_after :: "nat option"

text \<open>A \<open>Publication\<close>: \<open>None\<close> without owner, else the references to the states before and after.\<close>

type_synonym publication = "(nat \<times> nat) option"

definition new_history :: authoring_history where
  "new_history = \<lparr>objects = [], current = None, pending_before = None, pending_after = None\<rparr>"

abbreviation "kMaximumActions \<equiv> 100 :: nat"

definition object_at :: "authoring_history \<Rightarrow> nat \<Rightarrow> history_state" where
  "object_at h r = objects h ! r"

definition update_object :: "nat \<Rightarrow> (history_state \<Rightarrow> history_state) \<Rightarrow> authoring_history \<Rightarrow> authoring_history" where
  "update_object r f h = h\<lparr>objects := (objects h)[r := f (objects h ! r)]\<rparr>"

definition clear_pending :: "authoring_history \<Rightarrow> authoring_history" where
  "clear_pending h = h\<lparr>pending_before := None, pending_after := None\<rparr>"

section \<open>Operations\<close>

definition matches :: "history_state \<Rightarrow> project_state \<Rightarrow> string \<Rightarrow> bool" where
  "matches st s fingerprint =
     (hist_project_id st = state_id s \<and> hist_revision st = revision s \<and>
      hist_fingerprint st = fingerprint)"

definition unavailable :: "string \<Rightarrow> error" where
  "unavailable reason =
     (mk_error invalid_argument ''Undo or Redo is unavailable in this authoring session'')
       \<lparr>err_details := [(''reason'', ArgString reason),
          (''remedy'', ArgString ''inspect authoring history before retrying'')]\<rparr>"

text \<open>The current state when a session is open on the bundle.\<close>

definition open_on :: "authoring_history \<Rightarrow> string \<Rightarrow> nat option" where
  "open_on h bundle =
     (case current h of
        None \<Rightarrow> None
      | Some r \<Rightarrow> if hist_bundle (object_at h r) \<noteq> lexically_normal bundle then None else Some r)"

definition start :: "string \<Rightarrow> string \<Rightarrow> project_state \<Rightarrow> string \<Rightarrow> authoring_history \<Rightarrow> authoring_history" where
  "start bundle session s fingerprint h =
     \<lparr>objects = objects h @
        [\<lparr>hist_bundle = lexically_normal bundle, hist_session_id = session,
          hist_project_id = state_id s, hist_revision = revision s,
          hist_fingerprint = fingerprint, hist_undo = [], hist_redo = [], displaced_redo = [],
          displaced_oldest = None, hist_disabled_reason = []\<rparr>],
      current = Some (length (objects h)), pending_before = None, pending_after = None\<rparr>"

definition close :: "authoring_history \<Rightarrow> authoring_history" where
  "close h = (clear_pending h)\<lparr>current := None\<rparr>"

definition clear_state :: "string \<Rightarrow> history_state \<Rightarrow> history_state" where
  "clear_state reason st =
     st\<lparr>hist_undo := [], hist_redo := [], displaced_redo := [], displaced_oldest := None,
        hist_disabled_reason := reason\<rparr>"

definition invalidate :: "string \<Rightarrow> string \<Rightarrow> authoring_history \<Rightarrow> authoring_history" where
  "invalidate bundle reason h =
     (case open_on h bundle of
        None \<Rightarrow> h
      | Some r \<Rightarrow> clear_pending (update_object r (clear_state reason) h))"

definition check_current :: "string \<Rightarrow> project_state \<Rightarrow> string \<Rightarrow> authoring_history \<Rightarrow> authoring_history" where
  "check_current bundle s fingerprint h =
     (case current h of
        None \<Rightarrow> h
      | Some r \<Rightarrow>
          if \<not> matches (object_at h r) s fingerprint then
            invalidate bundle ''authoring_history_invalidated'' h
          else h)"

definition reconcile :: "string \<Rightarrow> project_state \<Rightarrow> string \<Rightarrow> authoring_history \<Rightarrow> authoring_history" where
  "reconcile bundle s fingerprint h =
     (case open_on h bundle of
        None \<Rightarrow> h
      | Some _ \<Rightarrow>
          (case pending_after h of
             None \<Rightarrow> check_current bundle s fingerprint h
           | Some a \<Rightarrow>
               (if matches (object_at h a) s fingerprint then
                  check_current bundle s fingerprint (clear_pending (h\<lparr>current := Some a\<rparr>))
                else case pending_before h of
                    Some b \<Rightarrow>
                      (if matches (object_at h b) s fingerprint then
                         check_current bundle s fingerprint (clear_pending (h\<lparr>current := Some b\<rparr>))
                       else invalidate bundle ''authoring_history_invalidated'' h)
                  | None \<Rightarrow> invalidate bundle ''authoring_history_invalidated'' h)))"

definition label_of_last :: "history_entry list \<Rightarrow> string" where
  "label_of_last es = (if es = [] then [] else entry_label (last es))"

definition status :: "string \<Rightarrow> authoring_history \<Rightarrow> history_status" where
  "status bundle h =
     (case open_on h bundle of
        None \<Rightarrow> \<lparr>status_session_id = [], status_revision = 0, undo_count = 0, redo_count = 0,
                 undo_label = [], redo_label = [], disabled_reason = ''authoring_history_not_open''\<rparr>
      | Some r \<Rightarrow>
          let st = object_at h r in
          \<lparr>status_session_id = hist_session_id st, status_revision = hist_revision st,
           undo_count = length (hist_undo st), redo_count = length (hist_redo st),
           undo_label = label_of_last (hist_undo st), redo_label = label_of_last (hist_redo st),
           disabled_reason = (if pending_after h \<noteq> None then ''authoring_history_result_unknown''
                              else hist_disabled_reason st)\<rparr>)"

definition step_delta :: "bool \<Rightarrow> history_entry \<Rightarrow> authoring_delta" where
  "step_delta redo e = (if redo then entry_delta e else reverse_authoring_delta (entry_delta e))"

definition selected ::
  "string \<Rightarrow> string \<Rightarrow> bool \<Rightarrow> authoring_history \<Rightarrow> authoring_delta result" where
  "selected bundle session redo h =
     (let now = status bundle h in
      if disabled_reason now \<noteq> [] then failure (unavailable (disabled_reason now))
      else if status_session_id now \<noteq> session then
        failure (unavailable ''authoring_history_session_mismatch'')
      else case current h of
          None \<Rightarrow> failure (unavailable ''authoring_history_not_open'')
        | Some r \<Rightarrow>
            (let entries = (if redo then hist_redo (object_at h r) else hist_undo (object_at h r))
             in if entries = [] then failure (unavailable ''authoring_history_empty'')
                else success (step_delta redo (last entries))))"

definition ungroup :: "history_entry \<Rightarrow> history_entry" where
  "ungroup e = e\<lparr>entry_group := []\<rparr>"

definition ungroup_last :: "history_entry list \<Rightarrow> history_entry list" where
  "ungroup_last es = (if es = [] then [] else butlast es @ [ungroup (last es)])"

text \<open>The history after an undo or redo step.\<close>

definition move_entry :: "bool \<Rightarrow> authoring_delta \<Rightarrow> history_state \<Rightarrow> history_state result" where
  "move_entry redo delta st =
     (let from = (if redo then hist_redo st else hist_undo st);
          to = (if redo then hist_undo st else hist_redo st)
      in if from = [] then failure (unavailable ''authoring_history_empty'')
         else if delta \<noteq> step_delta redo (last from) then
           failure (unavailable ''authoring_history_conflict'')
         else let from' = butlast from; to' = to @ [ungroup (last from)] in
           success (st\<lparr>hist_undo := (if redo then to' else from'),
             hist_redo := (if redo then from' else to'),
             displaced_redo := [], displaced_oldest := None\<rparr>))"

text \<open>The history after an edit: joined to the open group, or pushed as a new entry.\<close>

definition join_group :: "authoring_delta \<Rightarrow> history_state \<Rightarrow> history_state result" where
  "join_group delta st =
     (case compose_authoring_deltas (entry_delta (last (hist_undo st))) delta of
        Inl e \<Rightarrow> failure e
      | Inr combined \<Rightarrow>
          success
            (if delta_empty combined then
               st\<lparr>hist_undo := (case displaced_oldest st of
                      None \<Rightarrow> butlast (hist_undo st)
                    | Some oldest \<Rightarrow> oldest # butlast (hist_undo st)),
                  hist_redo := displaced_redo st, displaced_redo := [], displaced_oldest := None\<rparr>
             else st\<lparr>hist_undo := butlast (hist_undo st) @
                      [(last (hist_undo st))\<lparr>entry_delta := combined\<rparr>]\<rparr>))"

definition push_entry :: "authoring_delta \<Rightarrow> string \<Rightarrow> string \<Rightarrow> history_state \<Rightarrow> history_state" where
  "push_entry delta label action st =
     (let undo = ungroup_last (hist_undo st) @
            [\<lparr>entry_delta = delta, entry_label = label, entry_group = action\<rparr>];
          over = kMaximumActions < length undo
      in st\<lparr>displaced_redo := (if action \<noteq> [] then hist_redo st else []), hist_redo := [],
            displaced_oldest := (if over \<and> action \<noteq> [] then Some (hd undo) else None),
            hist_undo := (if over then tl undo else undo)\<rparr>)"

definition record_edit ::
  "authoring_delta \<Rightarrow> string \<Rightarrow> string \<Rightarrow> history_state \<Rightarrow> history_state result" where
  "record_edit delta label action st =
     (if delta_empty delta then success st
      else if action \<noteq> [] \<and> hist_undo st \<noteq> [] \<and> entry_group (last (hist_undo st)) = action then
        join_group delta st
      else success (push_entry delta label action st))"

definition prepare ::
  "string \<Rightarrow> project_state \<Rightarrow> project_state \<Rightarrow> string \<Rightarrow> string \<Rightarrow> string \<Rightarrow> string \<Rightarrow> bool option
     \<Rightarrow> authoring_history \<Rightarrow> authoring_history \<times> publication result" where
  "prepare bundle s t s_fingerprint t_fingerprint label action redo h =
     (let h1 = reconcile bundle s s_fingerprint h in
      case open_on h1 bundle of
        None \<Rightarrow> (h1, if redo \<noteq> None then failure (unavailable ''authoring_history_invalidated'')
                    else success None)
      | Some r \<Rightarrow>
          (if hist_disabled_reason (object_at h1 r) \<noteq> [] then
             (h1, if redo \<noteq> None then failure (unavailable ''authoring_history_invalidated'')
                  else success None)
           else case authoring_difference s t of
               Inl e \<Rightarrow> (h1, failure e)
             | Inr delta \<Rightarrow>
                 (let base = (object_at h1 r)\<lparr>hist_revision := revision t,
                        hist_fingerprint := t_fingerprint\<rparr>
                  in case (case redo of Some up \<Rightarrow> move_entry up delta base
                           | None \<Rightarrow> record_edit delta label action base) of
                       Inl e \<Rightarrow> (h1, failure e)
                     | Inr next_state \<Rightarrow>
                         (h1\<lparr>objects := objects h1 @ [next_state]\<rparr>,
                          success (Some (r, length (objects h1)))))))"

definition publication_begin :: "publication \<Rightarrow> authoring_history \<Rightarrow> authoring_history" where
  "publication_begin p h =
     (case p of None \<Rightarrow> h | Some (b, a) \<Rightarrow> h\<lparr>pending_before := Some b, pending_after := Some a\<rparr>)"

definition publication_confirm :: "publication \<Rightarrow> authoring_history \<Rightarrow> authoring_history" where
  "publication_confirm p h =
     (case p of None \<Rightarrow> h | Some (b, a) \<Rightarrow> clear_pending (h\<lparr>current := Some a\<rparr>))"

definition seal_group :: "string \<Rightarrow> authoring_history \<Rightarrow> authoring_history" where
  "seal_group bundle h =
     (case open_on h bundle of
        None \<Rightarrow> h
      | Some r \<Rightarrow>
          if pending_after h \<noteq> None then h
          else update_object r (\<lambda>st. st\<lparr>hist_undo := ungroup_last (hist_undo st), displaced_redo := [],
                 displaced_oldest := None\<rparr>) h)"

section \<open>Retained artifacts\<close>

definition retained_by_change :: "('v \<Rightarrow> string list) \<Rightarrow> 'v option authoring_change \<Rightarrow> string list" where
  "retained_by_change refs c =
     (case before c of None \<Rightarrow> [] | Some v \<Rightarrow> refs v) @ (case after c of None \<Rightarrow> [] | Some v \<Rightarrow> refs v)"

definition retain :: "history_entry list \<Rightarrow> string list" where
  "retain es = concat (map (\<lambda>e.
     concat (map (\<lambda>(_, c). retained_by_change (\<lambda>a. [art_sha256 (asset_artifact a)]) c)
       (entries (delta_assets (entry_delta e)))) @
     concat (map (\<lambda>(_, c). retained_by_change
         (\<lambda>p. case recording_artifact p of None \<Rightarrow> [] | Some a \<Rightarrow> [art_sha256 a]) c)
       (entries (delta_performances (entry_delta e))))) es)"

definition retained_by_state :: "history_state \<Rightarrow> string list" where
  "retained_by_state st =
     retain (hist_undo st) @ retain (hist_redo st) @ retain (displaced_redo st) @
     (case displaced_oldest st of None \<Rightarrow> [] | Some e \<Rightarrow> retain [e])"

definition retained_artifacts :: "string \<Rightarrow> authoring_history \<Rightarrow> string set" where
  "retained_artifacts bundle h =
     set (concat (map (\<lambda>r. if hist_bundle (object_at h r) \<noteq> lexically_normal bundle then []
                            else retained_by_state (object_at h r))
       (List.map_filter id [current h, pending_before h, pending_after h])))"

end
