(* ===== verification/History_Laws.thy ===== *)
theory History_Laws
  imports History
begin

text \<open>
  The history as a chain of contents. Every undo entry is the difference of two valid contents,
  each ending where the next begins and the last ending at the current content; the redo stack
  is such a chain away from it. The chains are what every operation maintains.
\<close>

section \<open>Chains\<close>

definition links :: "history_entry \<Rightarrow> project_state \<Rightarrow> project_state \<Rightarrow> bool" where
  "links e s t =
     (good_project s \<and> good_project t \<and> \<not> same_content s t \<and>
      authoring_difference s t = Inr (entry_delta e))"

inductive undo_chain :: "history_entry list \<Rightarrow> project_state \<Rightarrow> bool" where
  undo_start: "good_project t \<Longrightarrow> undo_chain [] t"
| undo_push: "undo_chain es s \<Longrightarrow> links e s t \<Longrightarrow> undo_chain (es @ [e]) t"

inductive redo_chain :: "history_entry list \<Rightarrow> project_state \<Rightarrow> bool" where
  redo_end: "good_project s \<Longrightarrow> redo_chain [] s"
| redo_push: "redo_chain es t \<Longrightarrow> links e s t \<Longrightarrow> redo_chain (es @ [e]) s"

inductive_cases undo_chain_snocE: "undo_chain (es @ [e]) t"
inductive_cases redo_chain_snocE: "redo_chain (es @ [e]) s"
inductive_simps undo_chain_Nil [simp]: "undo_chain [] t"
inductive_simps redo_chain_Nil [simp]: "redo_chain [] s"

lemma undo_chain_last:
  assumes "undo_chain es t" "es \<noteq> []"
  obtains s where "undo_chain (butlast es) s" "links (last es) s t"
proof -
  from assms have "undo_chain (butlast es @ [last es]) t" by simp
  then show thesis by (rule undo_chain_snocE) (auto intro: that)
qed

lemma redo_chain_last:
  assumes "redo_chain es s" "es \<noteq> []"
  obtains t where "redo_chain (butlast es) t" "links (last es) s t"
proof -
  from assms have "redo_chain (butlast es @ [last es]) s" by simp
  then show thesis by (rule redo_chain_snocE) (auto intro: that)
qed

lemma undo_chain_good: "undo_chain es t \<Longrightarrow> good_project t"
  by (cases rule: undo_chain.cases) (auto simp: links_def)

lemma redo_chain_good: "redo_chain es t \<Longrightarrow> good_project t"
  by (cases rule: redo_chain.cases) (auto simp: links_def)

lemma undo_chain_tl: "undo_chain es t \<Longrightarrow> undo_chain (tl es) t"
proof (induction rule: undo_chain.induct)
  case (undo_push es s e t)
  have "undo_chain (tl es @ [e]) t" using undo_push.IH undo_push.hyps(2) by (rule undo_chain.intros)
  with undo_push.hyps(2) show ?case by (cases "es = []") (auto simp: links_def tl_append2)
qed (simp add: undo_start)

lemma difference_same_content:
  assumes "same_content s s'" "same_content t t'"
  shows "authoring_difference s' t' = authoring_difference s t"
  using assms by (simp add: same_content_iff authoring_difference_def)

lemma links_same_content:
  assumes "same_content s s'" "same_content t t'"
  shows "links e s' t' = links e s t"
proof -
  have "same_content s' t' = same_content s t"
    using assms same_content_sym same_content_trans by blast
  then show ?thesis
    using good_same_content [OF assms(1)] good_same_content [OF assms(2)]
      difference_same_content [OF assms] by (simp add: links_def)
qed

lemma undo_chain_same_content:
  assumes "undo_chain es t" "same_content t t'"
  shows "undo_chain es t'"
  using assms
proof (cases rule: undo_chain.cases)
  case undo_start
  then show ?thesis using assms(2) good_same_content by auto
next
  case (undo_push fs s e)
  then show ?thesis
    using links_same_content [OF same_content_refl assms(2)] by (auto intro: undo_chain.intros)
qed

lemma redo_chain_same_content:
  assumes "redo_chain es s" "same_content s s'"
  shows "redo_chain es s'"
  using assms
proof (cases rule: redo_chain.cases)
  case redo_end
  then show ?thesis using assms(2) good_same_content by auto
next
  case (redo_push fs t e)
  then show ?thesis
    using links_same_content [OF assms(2) same_content_refl] by (auto intro: redo_chain.intros)
qed

lemma links_ungroup [simp]: "links (ungroup e) s t = links e s t"
  by (simp add: links_def ungroup_def)

lemma same_meta_same_content:
  assumes "s\<lparr>contract := c, revision := r\<rparr> = t\<lparr>contract := c, revision := r\<rparr>"
  shows "same_content s t"
proof -
  have "same_content s (t\<lparr>contract := c, revision := r\<rparr>)" by (simp flip: assms)
  moreover have "same_content (t\<lparr>contract := c, revision := r\<rparr>) t"
    by (subst same_content_sym) simp
  ultimately show ?thesis by (rule same_content_trans)
qed

lemma delta_determines:
  assumes "array_extents s" "array_extents t" "array_extents t'"
    and "delta_between d s t" "delta_between d s t'"
  shows "same_content t t'"
proof -
  let ?meta = "\<lambda>u. u\<lparr>contract := contract s, revision := revision s\<rparr>"
  have id: "delta_project_id d = state_id s" using assms(4) by (simp add: delta_between_def)
  have ext: "array_extents (?meta t)" "array_extents (?meta t')"
    using assms(2,3) by (simp_all add: array_extents_def)
  have "change_content d s = Inr (?meta t)" "change_content d s = Inr (?meta t')"
    using change_content_iff [OF assms(1) ext(1) id] change_content_iff [OF assms(1) ext(2) id]
      assms(4,5) by simp_all
  then have "?meta t = ?meta t'" by simp
  then show ?thesis by (rule same_meta_same_content)
qed

lemma links_determines:
  assumes "links e s t" "links e s' t" shows "same_content s s'"
proof (rule delta_determines)
  show "delta_between (reverse_authoring_delta (entry_delta e)) t s"
    "delta_between (reverse_authoring_delta (entry_delta e)) t s'"
    using assms difference_between reverse_between by (auto simp: links_def)
qed (use assms in \<open>auto simp: links_def good_project_def\<close>)

lemma undo_chain_ungroup_last: "undo_chain (ungroup_last es) t = undo_chain es t"
proof (cases "es = []")
  case False
  then have es: "es = butlast es @ [last es]" by simp
  have "undo_chain (butlast es @ [ungroup (last es)]) t = undo_chain (butlast es @ [last es]) t"
    by (auto elim!: undo_chain_snocE intro: undo_push)
  with es False show ?thesis by (simp add: ungroup_last_def)
qed (simp add: ungroup_last_def)

lemma ungroup_last_length [simp]: "length (ungroup_last es) = length es"
  by (cases es rule: rev_cases) (simp_all add: ungroup_last_def)

lemma ungroup_last_Nil [simp]: "ungroup_last es = [] \<longleftrightarrow> es = []"
  by (simp add: ungroup_last_def)

section \<open>Well-formed history states\<close>

text \<open>
  The entries a cancelled group gives back: the undo stack below the open entry, with the entry
  evicted for it, and the redo branch it displaced.
\<close>

definition restored_undo :: "history_state \<Rightarrow> history_entry list" where
  "restored_undo st =
     (case displaced_oldest st of None \<Rightarrow> butlast (hist_undo st) | Some e \<Rightarrow> e # butlast (hist_undo st))"

definition group_open :: "history_state \<Rightarrow> bool" where
  "group_open st = (hist_undo st \<noteq> [] \<and> entry_group (last (hist_undo st)) \<noteq> [])"

definition ungrouped :: "history_entry list \<Rightarrow> bool" where
  "ungrouped es = list_all (\<lambda>e. entry_group e = []) es"

definition history_ok :: "history_state \<Rightarrow> project_state \<Rightarrow> bool" where
  "history_ok st s =
     (hist_project_id st = state_id s \<and>
      undo_chain (hist_undo st) s \<and> redo_chain (hist_redo st) s \<and>
      length (hist_undo st) + length (hist_redo st) \<le> kMaximumActions \<and>
      ungrouped (butlast (hist_undo st)) \<and> ungrouped (hist_redo st) \<and>
      (group_open st \<longrightarrow> hist_redo st = [] \<and>
         (\<exists>p. links (last (hist_undo st)) p s \<and> undo_chain (restored_undo st) p \<and>
              redo_chain (displaced_redo st) p) \<and>
         length (restored_undo st) + length (displaced_redo st) \<le> kMaximumActions \<and>
         ungrouped (restored_undo st) \<and> ungrouped (displaced_redo st)))"

lemma history_ok_meta [simp]:
  "history_ok (st\<lparr>hist_revision := r, hist_fingerprint := f\<rparr>) s = history_ok st s"
proof -
  have "restored_undo (st\<lparr>hist_revision := r, hist_fingerprint := f\<rparr>) = restored_undo st"
    by (simp add: restored_undo_def split: option.split)
  then show ?thesis by (simp add: history_ok_def group_open_def)
qed

lemma history_ok_same_content:
  assumes "history_ok st s" "same_content s s'"
  shows "history_ok st s'"
proof -
  have "links e p s' = links e p s" for e p
    using links_same_content [OF same_content_refl assms(2)] .
  moreover have "state_id s' = state_id s" using assms(2) by (simp add: same_content_iff)
  ultimately show ?thesis
    using assms undo_chain_same_content [OF _ assms(2)] redo_chain_same_content [OF _ assms(2)]
    by (simp add: history_ok_def)
qed

lemma ungrouped_simps [simp]:
  "ungrouped []" "ungrouped (e # es) \<longleftrightarrow> entry_group e = [] \<and> ungrouped es"
  "ungrouped (es @ fs) \<longleftrightarrow> ungrouped es \<and> ungrouped fs"
  by (auto simp: ungrouped_def)

lemma ungrouped_tl: "ungrouped es \<Longrightarrow> ungrouped (tl es)"
  by (cases es) auto

lemma ungrouped_butlast: "ungrouped es \<Longrightarrow> ungrouped (butlast es)"
  by (auto simp: ungrouped_def list_all_iff dest: in_set_butlastD)

lemma ungrouped_last: "ungrouped es \<Longrightarrow> es \<noteq> [] \<Longrightarrow> entry_group (last es) = []"
  by (simp add: ungrouped_def list_all_iff)

lemma ungrouped_ungroup_last: "ungrouped (butlast es) \<Longrightarrow> ungrouped (ungroup_last es)"
  by (simp add: ungroup_last_def ungroup_def)

section \<open>Edits\<close>

lemma push_entry_ok:
  assumes "history_ok st s" "links \<lparr>entry_delta = d, entry_label = l, entry_group = g\<rparr> s t"
  shows "history_ok (push_entry d l g st) t"
proof -
  let ?e = "\<lparr>entry_delta = d, entry_label = l, entry_group = g\<rparr>"
  let ?u = "ungroup_last (hist_undo st)" and ?st = "push_entry d l g st"
  from assms(1) have st: "undo_chain ?u s" "redo_chain (hist_redo st) s"
    "length ?u + length (hist_redo st) \<le> kMaximumActions" "ungrouped ?u" "ungrouped (hist_redo st)"
    by (auto simp: history_ok_def undo_chain_ungroup_last ungrouped_ungroup_last)
  have chain: "undo_chain (?u @ [?e]) t" using st(1) assms(2) by (rule undo_push)
  have id: "hist_project_id st = state_id t"
    using assms by (auto simp: history_ok_def links_def authoring_difference_def split: if_splits)
  have good: "good_project t" using assms(2) by (simp add: links_def)
  show ?thesis
  proof (cases "kMaximumActions < length (?u @ [?e])")
    case True
    then have "kMaximumActions \<le> length ?u" by simp
    then have "length ?u = kMaximumActions" "length (hist_redo st) = 0" using st(3) by linarith+
    then have len: "length ?u = kMaximumActions" "hist_redo st = []" "?u \<noteq> []"
      by auto
    have undo: "hist_undo ?st = tl ?u @ [?e]" "hist_redo ?st = []"
      using True len(3) by (simp_all add: push_entry_def Let_def tl_append2)
    have rest: "restored_undo ?st = ?u" "displaced_redo ?st = []" if "g \<noteq> []"
      using True len that by (simp_all add: push_entry_def Let_def restored_undo_def tl_append2)
    show ?thesis
      using undo rest chain len st good id assms(2) undo_chain_tl [OF chain]
      by (auto simp: history_ok_def group_open_def push_entry_def Let_def tl_append2 ungrouped_tl)
  next
    case False
    then have undo: "hist_undo ?st = ?u @ [?e]" "hist_redo ?st = []" "displaced_oldest ?st = None"
      by (simp_all add: push_entry_def Let_def)
    have "displaced_redo ?st = hist_redo st" if "g \<noteq> []"
      using that by (simp add: push_entry_def Let_def)
    then show ?thesis
      using undo chain st good id assms(2) False
      by (auto simp: history_ok_def group_open_def restored_undo_def push_entry_def Let_def)
  qed
qed

lemma difference_empty_iff:
  assumes "good_project s" "good_project t" "authoring_difference s t = Inr d"
  shows "delta_empty d \<longleftrightarrow> same_content s t"
  using delta_empty_iff [OF difference_between [OF assms]] assms(1,2) by (simp add: good_project_def)

lemma join_group_ok:
  assumes "history_ok st s" "group_open st" "good_project t" "authoring_difference s t = Inr d"
  shows "\<exists>st'. join_group d st = Inr st' \<and> history_ok st' t"
proof -
  let ?e = "last (hist_undo st)"
  let ?restored = "st\<lparr>hist_undo := restored_undo st, hist_redo := displaced_redo st,
    displaced_redo := [], displaced_oldest := None\<rparr>"
  from assms(1,2) obtain p where p: "links ?e p s" "undo_chain (restored_undo st) p"
    "redo_chain (displaced_redo st) p"
    and lens: "length (restored_undo st) + length (displaced_redo st) \<le> kMaximumActions"
    and ung: "ungrouped (restored_undo st)" "ungrouped (displaced_redo st)"
    by (auto simp: history_ok_def)
  have good: "good_project p" "good_project s" "authoring_difference p s = Inr (entry_delta ?e)"
    using p(1) by (auto simp: links_def)
  have comp: "compose_authoring_deltas (entry_delta ?e) d = authoring_difference p t"
    by (rule compose_total [OF good(1,2) assms(3) good(3) assms(4)])
  have ids: "state_id p = state_id t" "state_id s = state_id t"
    using good(3) assms(4) by (auto simp: authoring_difference_def split: if_splits)
  then obtain f where f: "authoring_difference p t = Inr f" using difference_exists by blast
  have nonempty: "hist_undo st \<noteq> []" using assms(2) by (simp add: group_open_def)
  show ?thesis
  proof (cases "same_content p t")
    case True
    then have "delta_empty f" using difference_empty_iff [OF good(1) assms(3) f] by simp
    then have "join_group d st = Inr ?restored"
      using comp f by (simp add: join_group_def restored_undo_def)
    moreover have "history_ok ?restored p"
      using p(2,3) lens ung ids assms(1) ungrouped_last [OF ung(1)]
      by (auto simp: history_ok_def group_open_def ungrouped_butlast)
    ultimately show ?thesis using history_ok_same_content [OF _ True] by blast
  next
    case False
    let ?e' = "?e\<lparr>entry_delta := f\<rparr>"
    let ?st = "st\<lparr>hist_undo := butlast (hist_undo st) @ [?e']\<rparr>"
    have "\<not> delta_empty f" using difference_empty_iff [OF good(1) assms(3) f] False by simp
    then have "join_group d st = Inr ?st" using comp f by (simp add: join_group_def)
    moreover have link: "links ?e' p t" using False good assms(3) f by (simp add: links_def)
    moreover have "restored_undo ?st = restored_undo st" by (simp add: restored_undo_def cong: option.case_cong)
    moreover have "undo_chain (butlast (hist_undo st) @ [?e']) t"
    proof -
      obtain q where q: "undo_chain (butlast (hist_undo st)) q" "links ?e q s"
        using assms(1) nonempty undo_chain_last by (auto simp: history_ok_def)
      then have "same_content q p" using links_determines p(1) by blast
      then show ?thesis using q(1) undo_chain_same_content link undo_push by blast
    qed
    ultimately show ?thesis
      using assms(1-3) ids p lens ung nonempty by (auto simp: history_ok_def group_open_def)
  qed
qed

lemma record_edit_ok:
  assumes "history_ok st s" "good_project t" "authoring_difference s t = Inr d"
  shows "\<exists>st'. record_edit d l g st = Inr st' \<and> history_ok st' t"
proof -
  have good: "good_project s" using assms(1) undo_chain_good by (auto simp: history_ok_def)
  note empty = difference_empty_iff [OF good assms(2,3)]
  consider "same_content s t" | "\<not> same_content s t" "g \<noteq> []" "hist_undo st \<noteq> []"
      "entry_group (last (hist_undo st)) = g"
    | "\<not> same_content s t" "\<not> (g \<noteq> [] \<and> hist_undo st \<noteq> [] \<and> entry_group (last (hist_undo st)) = g)"
    by blast
  then show ?thesis
  proof cases
    case 1
    then show ?thesis using empty history_ok_same_content [OF assms(1)] by (simp add: record_edit_def)
  next
    case 2
    then have "group_open st" by (simp add: group_open_def)
    with join_group_ok [OF assms(1) _ assms(2,3)] 2 empty show ?thesis by (simp add: record_edit_def)
  next
    case 3
    then have "links \<lparr>entry_delta = d, entry_label = l, entry_group = g\<rparr> s t"
      using good assms by (simp add: links_def)
    from push_entry_ok [OF assms(1) this] 3 empty show ?thesis by (auto simp: record_edit_def)
  qed
qed

section \<open>Undo and redo\<close>

text \<open>The stack a step takes from, and the stack it pushes to.\<close>

definition stack :: "bool \<Rightarrow> history_state \<Rightarrow> history_entry list" where
  "stack redo st = (if redo then hist_redo st else hist_undo st)"

text \<open>The content a step leads to: the other end of the top entry.\<close>

definition leads_to :: "bool \<Rightarrow> history_entry \<Rightarrow> project_state \<Rightarrow> project_state \<Rightarrow> bool" where
  "leads_to redo e s t = (if redo then links e s t else links e t s)"

lemma leads_to_difference: "leads_to redo e s t \<Longrightarrow> authoring_difference s t = Inr (step_delta redo e)"
  using reverse_difference by (auto simp: leads_to_def links_def step_delta_def)

lemma leads_to_good: "leads_to redo e s t \<Longrightarrow> good_project s \<and> good_project t \<and> \<not> same_content s t"
  using same_content_sym by (auto simp: leads_to_def links_def split: if_splits)

lemma stack_leads_to:
  assumes "history_ok st s" "stack redo st \<noteq> []"
  obtains t where "leads_to redo (last (stack redo st)) s t"
proof (cases redo)
  case True
  then show ?thesis
    using assms redo_chain_last that by (auto simp: history_ok_def stack_def leads_to_def)
next
  case False
  then show ?thesis
    using assms undo_chain_last that by (auto simp: history_ok_def stack_def leads_to_def)
qed

lemma leads_to_unique:
  assumes "leads_to redo e s t" "good_project t'" "delta_between (step_delta redo e) s t'"
  shows "same_content t t'"
proof (rule delta_determines)
  show "delta_between (step_delta redo e) s t"
    using leads_to_difference [OF assms(1)] leads_to_good [OF assms(1)] difference_between by blast
qed (use assms leads_to_good [OF assms(1)] in \<open>auto simp: good_project_def\<close>)

lemma step_leaves:
  assumes "history_ok st s" "stack redo st \<noteq> []" "leads_to redo (last (stack redo st)) s t"
  shows "if redo then redo_chain (butlast (hist_redo st)) t \<and> ungrouped (hist_undo st)
         else undo_chain (butlast (hist_undo st)) t"
proof (cases redo)
  case True
  then have t: "links (last (hist_redo st)) s t" and ne: "hist_redo st \<noteq> []"
    using assms by (simp_all add: leads_to_def stack_def)
  obtain u where u: "redo_chain (butlast (hist_redo st)) u" "links (last (hist_redo st)) s u"
    using assms(1) ne redo_chain_last by (auto simp: history_ok_def)
  have "same_content u t"
    using leads_to_unique [of True "last (hist_redo st)" s u t] u(2) t difference_between
    by (auto simp: leads_to_def step_delta_def links_def)
  moreover have "ungrouped (hist_undo st)"
    using assms(1) ne by (cases "hist_undo st" rule: rev_cases) (auto simp: history_ok_def group_open_def)
  ultimately show ?thesis using u(1) redo_chain_same_content True by simp
next
  case False
  then have t: "links (last (hist_undo st)) t s" and ne: "hist_undo st \<noteq> []"
    using assms by (simp_all add: leads_to_def stack_def)
  obtain u where u: "undo_chain (butlast (hist_undo st)) u" "links (last (hist_undo st)) u s"
    using assms(1) ne undo_chain_last by (auto simp: history_ok_def)
  then have "same_content u t" using links_determines t by blast
  then show ?thesis using u(1) undo_chain_same_content False by simp
qed

lemma move_entry_ok:
  assumes "history_ok st s" "stack redo st \<noteq> []" "leads_to redo (last (stack redo st)) s t"
  shows "\<exists>st'. move_entry redo (step_delta redo (last (stack redo st))) st = Inr st' \<and> history_ok st' t \<and>
    stack redo st' = butlast (stack redo st) \<and>
    stack (\<not> redo) st' = stack (\<not> redo) st @ [ungroup (last (stack redo st))]"
proof (cases redo)
  case True
  let ?st = "st\<lparr>hist_undo := hist_undo st @ [ungroup (last (hist_redo st))],
    hist_redo := butlast (hist_redo st), displaced_redo := [], displaced_oldest := None\<rparr>"
  have ne: "hist_redo st \<noteq> []" and t: "links (last (hist_redo st)) s t"
    using assms(2,3) True by (simp_all add: stack_def leads_to_def)
  have "undo_chain (hist_undo st @ [ungroup (last (hist_redo st))]) t"
    using assms(1) t by (auto simp: history_ok_def intro: undo_push)
  moreover have "state_id t = state_id s"
    using t by (auto simp: links_def authoring_difference_def split: if_splits)
  moreover have "length (hist_undo st) + (length (hist_redo st) - Suc 0) \<le> 99"
    using assms(1) ne unfolding history_ok_def by (cases "hist_redo st") auto
  ultimately have "history_ok ?st t"
    using assms(1) step_leaves [OF assms] True ne ungrouped_butlast
    by (auto simp: history_ok_def group_open_def ungroup_def)
  then show ?thesis using True ne by (simp add: move_entry_def stack_def Let_def)
next
  case False
  let ?st = "st\<lparr>hist_undo := butlast (hist_undo st),
    hist_redo := hist_redo st @ [ungroup (last (hist_undo st))], displaced_redo := [], displaced_oldest := None\<rparr>"
  have ne: "hist_undo st \<noteq> []" and t: "links (last (hist_undo st)) t s"
    using assms(2,3) False by (simp_all add: stack_def leads_to_def)
  have "redo_chain (hist_redo st @ [ungroup (last (hist_undo st))]) t"
    using assms(1) t by (auto simp: history_ok_def intro: redo_push)
  moreover have "state_id t = state_id s"
    using t by (auto simp: links_def authoring_difference_def split: if_splits)
  moreover have "ungrouped (butlast (hist_undo st))" using assms(1) by (simp add: history_ok_def)
  moreover have "length (hist_undo st) - Suc 0 + length (hist_redo st) \<le> 99"
    using assms(1) ne unfolding history_ok_def by (cases "hist_undo st") auto
  ultimately have "history_ok ?st t"
    using assms(1) step_leaves [OF assms] False ne ungrouped_butlast ungrouped_last
    by (auto simp: history_ok_def group_open_def ungroup_def)
  then show ?thesis using False ne by (simp add: move_entry_def stack_def Let_def)
qed

end
