(* ===== verification/Sessions.thy ===== *)
theory Sessions
  imports History_Laws
begin

text \<open>
  Authoring sessions: the history beside the Project it follows, through edits, undo, redo,
  sealed groups and writes whose result was not seen.
\<close>

section \<open>A history that follows its Project\<close>

definition tracks :: "string \<Rightarrow> string \<Rightarrow> authoring_history \<Rightarrow> project_state \<Rightarrow> string \<Rightarrow> bool" where
  "tracks bundle sid h s fp =
     (case current h of
        None \<Rightarrow> False
      | Some r \<Rightarrow> r < length (objects h) \<and> pending_before h = None \<and> pending_after h = None \<and>
          (let st = object_at h r in
           hist_bundle st = lexically_normal bundle \<and> hist_session_id st = sid \<and>
           hist_disabled_reason st = [] \<and> matches st s fp \<and> history_ok st s))"

text \<open>The state the history is at.\<close>

definition now :: "authoring_history \<Rightarrow> history_state" where
  "now h = object_at h (the (current h))"

lemma tracksE:
  assumes "tracks bundle sid h s fp"
  obtains r where "current h = Some r" "r < length (objects h)" "pending_before h = None"
    "pending_after h = None" "now h = object_at h r" "open_on h bundle = Some r"
    "hist_bundle (now h) = lexically_normal bundle" "hist_session_id (now h) = sid"
    "hist_disabled_reason (now h) = []" "matches (now h) s fp" "history_ok (now h) s"
  using assms by (auto simp: tracks_def now_def open_on_def Let_def split: option.splits)

lemma tracks_reconcile: "tracks bundle sid h s fp \<Longrightarrow> reconcile bundle s fp h = h"
  by (erule tracksE) (simp add: reconcile_def check_current_def)

lemma tracks_status:
  "tracks bundle sid h s fp \<Longrightarrow> status bundle h =
     \<lparr>status_session_id = sid, status_revision = revision s, undo_count = length (hist_undo (now h)),
      redo_count = length (hist_redo (now h)), undo_label = label_of_last (hist_undo (now h)),
      redo_label = label_of_last (hist_redo (now h)), disabled_reason = []\<rparr>"
  by (erule tracksE) (auto simp: status_def Let_def matches_def)

lemma tracks_selected:
  assumes "tracks bundle sid h s fp"
  shows "selected bundle sid redo h =
    (if stack redo (now h) = [] then Inl (unavailable ''authoring_history_empty'')
     else Inr (step_delta redo (last (stack redo (now h)))))"
  using assms tracks_status [OF assms]
  by (elim tracksE) (auto simp: selected_def stack_def Let_def)

lemma tracks_good: "tracks bundle sid h s fp \<Longrightarrow> good_project s"
  by (erule tracksE) (auto simp: history_ok_def undo_chain_good)

lemma tracks_start: "good_project s \<Longrightarrow> tracks bundle sid (start bundle sid s fp h) s fp"
  by (simp add: tracks_def start_def object_at_def matches_def history_ok_def group_open_def)

section \<open>Publications\<close>

text \<open>A prepared publication: the state it starts from and the new state it appended.\<close>

definition published :: "authoring_history \<Rightarrow> history_state \<Rightarrow> authoring_history" where
  "published h st = h\<lparr>objects := objects h @ [st]\<rparr>"

lemma published_inject [simp]: "published h st = published h st' \<longleftrightarrow> st = st'"
  by (auto simp: published_def dest: arg_cong [of _ _ objects])

definition next_ok :: "history_state \<Rightarrow> history_state \<Rightarrow> project_state \<Rightarrow> string \<Rightarrow> bool" where
  "next_ok st st' t fp =
     (hist_bundle st' = hist_bundle st \<and> hist_session_id st' = hist_session_id st \<and>
      hist_disabled_reason st' = hist_disabled_reason st \<and> matches st' t fp \<and> history_ok st' t)"

lemma tracks_confirmed:
  assumes "tracks bundle sid h s fp" "next_ok (now h) st' t fp'" "current h = Some r"
  shows "tracks bundle sid (publication_confirm (Some (r, length (objects h)))
    (publication_begin (Some (r, length (objects h))) (published h st'))) t fp'"
  using assms
  by (elim tracksE) (simp add: tracks_def publication_confirm_def publication_begin_def published_def
      clear_pending_def object_at_def next_ok_def)

lemma record_edit_keeps:
  "record_edit d l g st = Inr st' \<Longrightarrow> hist_bundle st' = hist_bundle st \<and>
     hist_session_id st' = hist_session_id st \<and> hist_disabled_reason st' = hist_disabled_reason st \<and>
     hist_project_id st' = hist_project_id st \<and> hist_revision st' = hist_revision st \<and>
     hist_fingerprint st' = hist_fingerprint st"
  by (auto simp: record_edit_def join_group_def push_entry_def Let_def split: if_splits sum.splits)

lemma move_entry_keeps:
  "move_entry redo d st = Inr st' \<Longrightarrow> hist_bundle st' = hist_bundle st \<and>
     hist_session_id st' = hist_session_id st \<and> hist_disabled_reason st' = hist_disabled_reason st \<and>
     hist_project_id st' = hist_project_id st \<and> hist_revision st' = hist_revision st \<and>
     hist_fingerprint st' = hist_fingerprint st"
  by (auto simp: move_entry_def Let_def split: if_splits)

text \<open>The publication of an edit: it is always prepared, whatever its label and group.\<close>

lemma prepare_edit:
  assumes "tracks bundle sid h s fp" "good_project t" "state_id t = state_id s"
  shows "\<exists>r st'. current h = Some r \<and> next_ok (now h) st' t fp' \<and>
    prepare bundle s t fp fp' label action None h =
      (published h st', Inr (Some (r, length (objects h))))"
proof -
  from assms(1) obtain r where r: "current h = Some r" "now h = object_at h r" "open_on h bundle = Some r"
    "hist_disabled_reason (now h) = []" "matches (now h) s fp" "history_ok (now h) s"
    by (rule tracksE)
  obtain d where d: "authoring_difference s t = Inr d" using difference_exists assms(3) by metis
  let ?base = "(now h)\<lparr>hist_revision := revision t, hist_fingerprint := fp'\<rparr>"
  obtain st' where st': "record_edit d label action ?base = Inr st'" "history_ok st' t"
    using record_edit_ok [of ?base s t d label action] r assms(2) d by auto
  have "next_ok (now h) st' t fp'"
    using record_edit_keeps [OF st'(1)] st'(2) assms(3) r(5) by (simp add: next_ok_def matches_def)
  then show ?thesis
    using r d st'(1) tracks_reconcile [OF assms(1)]
    by (auto simp: prepare_def Let_def published_def)
qed

text \<open>The publication of an undo or redo step to the content it leads to.\<close>

lemma prepare_step:
  assumes "tracks bundle sid h s fp" "stack redo (now h) \<noteq> []"
    and "leads_to redo (last (stack redo (now h))) s t"
  shows "\<exists>r st'. current h = Some r \<and> next_ok (now h) st' t fp' \<and>
    stack redo st' = butlast (stack redo (now h)) \<and>
    stack (\<not> redo) st' = stack (\<not> redo) (now h) @ [ungroup (last (stack redo (now h)))] \<and>
    prepare bundle s t fp fp' label action (Some redo) h =
      (published h st', Inr (Some (r, length (objects h))))"
proof -
  from assms(1) obtain r where r: "current h = Some r" "now h = object_at h r" "open_on h bundle = Some r"
    "hist_disabled_reason (now h) = []" "matches (now h) s fp" "history_ok (now h) s"
    by (rule tracksE)
  note d = leads_to_difference [OF assms(3)]
  let ?base = "(now h)\<lparr>hist_revision := revision t, hist_fingerprint := fp'\<rparr>"
  have base: "stack b ?base = stack b (now h)" for b by (simp add: stack_def)
  obtain st' where st': "move_entry redo (step_delta redo (last (stack redo (now h)))) ?base = Inr st'"
    "history_ok st' t" "stack redo st' = butlast (stack redo (now h))"
    "stack (\<not> redo) st' = stack (\<not> redo) (now h) @ [ungroup (last (stack redo (now h)))]"
    using move_entry_ok [of ?base s redo t] r assms(2,3) unfolding base by auto
  have "state_id t = state_id s" using d by (auto simp: authoring_difference_def split: if_splits)
  then have "next_ok (now h) st' t fp'"
    using move_entry_keeps [OF st'(1)] st'(2) r(5) by (simp add: next_ok_def matches_def)
  then show ?thesis
    using r d st' tracks_reconcile [OF assms(1)]
    by (auto simp: prepare_def Let_def published_def)
qed

section \<open>Sessions\<close>

text \<open>
  An attempt to commit: an edit to any valid content of the same Project, or an undo or redo
  step sent as a delta, with the publication prepared for it.
\<close>

inductive attempt ::
  "string \<Rightarrow> string \<Rightarrow> authoring_history \<Rightarrow> project_state \<Rightarrow> string \<Rightarrow>
     project_state \<Rightarrow> string \<Rightarrow> authoring_history \<Rightarrow> publication \<Rightarrow> bool"
  for path sid h s fp where
  attempt_edit: "attempt path sid h s fp t fp' h' p"
    if "valid_content t" "array_extents t" "state_id t = state_id s"
      "prepare path s t fp fp' label action None h = (h', Inr p)"
| attempt_step: "attempt path sid h s fp (app_state a) fp' h' p"
    if "selected path sid redo h = Inr d" "apply_authoring_delta s meta d receipts = Inr a"
      "\<not> app_replayed a"
      "prepare path s (app_state a) fp fp' label action (Some redo) h = (h', Inr p)"

text \<open>
  A session: opened on a Project, then any sequence of attempts that are confirmed, attempts
  whose write happened but whose confirmation did not, attempts whose write did not happen, and
  sealed groups. After an unconfirmed attempt the next operation reconciles the history with the
  Project found on disk.
\<close>

inductive session :: "string \<Rightarrow> string \<Rightarrow> authoring_history \<Rightarrow> project_state \<Rightarrow> string \<Rightarrow> bool"
  for path sid where
  opened: "session path sid (start path sid s fp h) s fp"
    if "valid_content s" "array_extents s"
| confirmed: "session path sid (publication_confirm p (publication_begin p h')) t fp'"
    if "session path sid h s fp" "attempt path sid h s fp t fp' h' p"
| written: "session path sid (reconcile path t fp' (publication_begin p h')) t fp'"
    if "session path sid h s fp" "attempt path sid h s fp t fp' h' p"
| unwritten: "session path sid (reconcile path s fp (publication_begin p h')) s fp"
    if "session path sid h s fp" "attempt path sid h s fp t fp' h' p"
      "revision t \<noteq> revision s \<or> fp' \<noteq> fp"
| sealed: "session path sid (seal_group path h) s fp"
    if "session path sid h s fp"

lemma delta_commit_facts:
  assumes "apply_authoring_delta s meta d receipts = Inr a" "\<not> app_replayed a" "array_extents s"
  shows "delta_between d s (app_state a) \<and> good_project (app_state a)"
  using assms(1,3)
proof (cases rule: apply_delta_cases)
  case (replay receipt)
  with assms(2) show ?thesis by simp
next
  case commit
  then show ?thesis by (simp add: good_project_def)
qed

lemma attempt_prepared:
  assumes "tracks bundle sid h s fp" "attempt bundle sid h s fp t fp' h' p"
  obtains r st' where "current h = Some r" "next_ok (now h) st' t fp'"
    "h' = published h st'" "p = Some (r, length (objects h))"
  using assms(2)
proof (cases rule: attempt.cases)
  case (attempt_edit label action)
  then show ?thesis
    using prepare_edit [OF assms(1), of t fp' label action] that by (auto simp: good_project_def)
next
  case (attempt_step redo d meta receipts a label action)
  let ?e = "last (stack redo (now h))"
  have ne: "stack redo (now h) \<noteq> []" and d: "d = step_delta redo ?e"
    using attempt_step(2) tracks_selected [OF assms(1)] by (auto split: if_splits)
  have good: "good_project s" using tracks_good [OF assms(1)] .
  have ext: "array_extents s" using good by (simp add: good_project_def)
  have "delta_between d s (app_state a)" "good_project (app_state a)"
    using delta_commit_facts [OF attempt_step(3,4) ext] by simp_all
  moreover obtain u where u: "leads_to redo ?e s u"
    using assms(1) ne stack_leads_to by (metis tracksE)
  ultimately have "same_content u (app_state a)" using leads_to_unique d by blast
  then have "leads_to redo ?e s (app_state a)"
    using u links_same_content [OF same_content_refl] links_same_content [OF _ same_content_refl]
    by (simp add: leads_to_def split: if_splits)
  from prepare_step [OF assms(1) ne this, of fp' label action] attempt_step(1,5) that
  show ?thesis by auto
qed

lemma tracks_written:
  assumes "tracks bundle sid h s fp" "next_ok (now h) st' t fp'" "current h = Some r"
  shows "tracks bundle sid (reconcile bundle t fp'
    (publication_begin (Some (r, length (objects h))) (published h st'))) t fp'"
  using assms
  by (elim tracksE) (simp add: tracks_def reconcile_def check_current_def publication_begin_def
      published_def open_on_def clear_pending_def object_at_def next_ok_def nth_append)

lemma tracks_unwritten:
  assumes "tracks bundle sid h s fp" "next_ok (now h) st' t fp'" "current h = Some r"
    and "revision t \<noteq> revision s \<or> fp' \<noteq> fp"
  shows "tracks bundle sid (reconcile bundle s fp
    (publication_begin (Some (r, length (objects h))) (published h st'))) s fp"
proof -
  have "\<not> matches st' s fp" using assms(2,4) by (auto simp: next_ok_def matches_def)
  with assms(1-3) show ?thesis
    by (elim tracksE) (simp add: tracks_def reconcile_def check_current_def publication_begin_def
        published_def open_on_def clear_pending_def object_at_def next_ok_def nth_append)
qed

lemma history_ok_sealed:
  assumes "history_ok st s"
  shows "history_ok (st\<lparr>hist_undo := ungroup_last (hist_undo st), displaced_redo := [],
    displaced_oldest := None\<rparr>) s"
proof -
  have "ungrouped (ungroup_last (hist_undo st))"
    using assms by (auto simp: history_ok_def intro: ungrouped_ungroup_last)
  from this ungrouped_last [OF this] ungrouped_butlast [OF this] assms show ?thesis
    by (auto simp: history_ok_def group_open_def undo_chain_ungroup_last)
qed

lemma tracks_sealed: "tracks bundle sid h s fp \<Longrightarrow> tracks bundle sid (seal_group bundle h) s fp"
  by (erule tracksE) (simp add: tracks_def seal_group_def update_object_def object_at_def
      matches_def history_ok_sealed)

lemma session_tracks: "session bundle sid h s fp \<Longrightarrow> tracks bundle sid h s fp"
proof (induction rule: session.induct)
  case (opened s fp h)
  then show ?case by (simp add: tracks_start good_project_def)
next
  case (confirmed h s fp t fp' h' p)
  then show ?case using attempt_prepared tracks_confirmed by metis
next
  case (written h s fp t fp' h' p)
  then show ?case using attempt_prepared tracks_written by metis
next
  case (unwritten h s fp t fp' h' p)
  then show ?case using attempt_prepared tracks_unwritten by metis
next
  case (sealed h s fp)
  then show ?case by (simp add: tracks_sealed)
qed

section \<open>What a session can do\<close>

definition step_count :: "bool \<Rightarrow> history_status \<Rightarrow> nat" where
  "step_count redo st = (if redo then redo_count st else undo_count st)"

lemma step_count_stack:
  "tracks bundle sid h s fp \<Longrightarrow> step_count redo (status bundle h) = length (stack redo (now h))"
  by (simp add: tracks_status step_count_def stack_def)

abbreviation commit_publication :: "publication \<Rightarrow> authoring_history \<Rightarrow> authoring_history" where
  "commit_publication p h \<equiv> publication_confirm p (publication_begin p h)"

lemma now_confirmed [simp]:
  "now (commit_publication (Some (r, length (objects h))) (published h st)) = st"
  by (simp add: now_def publication_confirm_def publication_begin_def published_def clear_pending_def
      object_at_def)

text \<open>
  Property C17. The history follows the Project: in every session, however its edits, steps, lost
  writes and sealed groups are interleaved, the status is that of the open session at the
  Project's revision, nothing is disabled, the Project is valid, and undo and redo together hold
  at most 100 actions.
\<close>

theorem session_status:
  assumes "session bundle sid h s fp"
  shows "status_session_id (status bundle h) = sid \<and> status_revision (status bundle h) = revision s \<and>
    disabled_reason (status bundle h) = [] \<and> valid_content s \<and> array_extents s \<and>
    undo_count (status bundle h) + redo_count (status bundle h) \<le> kMaximumActions"
proof -
  note t = session_tracks [OF assms]
  have "length (hist_undo (now h)) + length (hist_redo (now h)) \<le> kMaximumActions"
    using t by (auto simp: history_ok_def elim: tracksE)
  then show ?thesis using tracks_status [OF t] tracks_good [OF t] by (simp add: good_project_def)
qed

lemma step_commits:
  assumes "tracks bundle sid h s fp" "stack redo (now h) \<noteq> []" "delta_ready s meta receipts"
  obtains t where "leads_to redo (last (stack redo (now h))) s t"
    "apply_authoring_delta s meta (step_delta redo (last (stack redo (now h)))) receipts =
       Inr \<lparr>app_state = t, app_event = history_event meta (revision s + 1), app_replayed = False\<rparr>"
proof -
  let ?e = "last (stack redo (now h))"
  obtain u where u: "leads_to redo ?e s u"
    using assms(1,2) stack_leads_to by (metis tracksE)
  let ?t = "u\<lparr>contract := contract s, revision := revision s + 1\<rparr>"
  note good = leads_to_good [OF u]
  have "delta_between (step_delta redo ?e) s u"
    using good leads_to_difference [OF u] difference_between by blast
  then have "apply_authoring_delta s meta (step_delta redo ?e) receipts =
      Inr \<lparr>app_state = ?t, app_event = history_event meta (revision s + 1), app_replayed = False\<rparr>"
    using apply_delta_between [OF _ _ _ _ assms(3)] good by blast
  moreover have "leads_to redo ?e s ?t"
    using u links_same_content [OF same_content_refl same_content_meta]
      links_same_content [OF same_content_meta same_content_refl]
    by (cases redo) (simp_all add: leads_to_def)
  ultimately show thesis using that by blast
qed

text \<open>
  Property C16. Undo and redo always work: in any session with an action to undo (or redo), the
  selected delta exists, sending it under a fresh command commits, its publication is prepared
  and confirmed into a session at the new content, one action moves to the other stack, and the
  step selected for the way back is exactly the difference back to the content before.
\<close>

theorem undo_redo_available:
  assumes "session bundle sid h s fp" "0 < step_count redo (status bundle h)"
    and "delta_ready s meta receipts"
  shows "\<exists>d a h' p. selected bundle sid redo h = Inr d \<and>
    apply_authoring_delta s meta d receipts = Inr a \<and> \<not> app_replayed a \<and>
    prepare bundle s (app_state a) fp fp' label action (Some redo) h = (h', Inr p) \<and>
    session bundle sid (commit_publication p h') (app_state a) fp' \<and>
    step_count redo (status bundle (commit_publication p h')) = step_count redo (status bundle h) - 1 \<and>
    step_count (\<not> redo) (status bundle (commit_publication p h')) = step_count (\<not> redo) (status bundle h) + 1 \<and>
    selected bundle sid (\<not> redo) (commit_publication p h') = authoring_difference (app_state a) s"
proof -
  note t = session_tracks [OF assms(1)]
  let ?e = "last (stack redo (now h))"
  have ne: "stack redo (now h) \<noteq> []" using assms(2) step_count_stack [OF t] by auto
  then have sel: "selected bundle sid redo h = Inr (step_delta redo ?e)"
    using tracks_selected [OF t] by simp
  from step_commits [OF t ne assms(3)] obtain u where u: "leads_to redo ?e s u"
    and app: "apply_authoring_delta s meta (step_delta redo ?e) receipts =
      Inr \<lparr>app_state = u, app_event = history_event meta (revision s + 1), app_replayed = False\<rparr>"
    (is "_ = Inr ?a") by blast
  from prepare_step [OF t ne u, of fp' label action] obtain r st' where st': "current h = Some r"
    "next_ok (now h) st' u fp'" "stack redo st' = butlast (stack redo (now h))"
    "stack (\<not> redo) st' = stack (\<not> redo) (now h) @ [ungroup ?e]"
    "prepare bundle s u fp fp' label action (Some redo) h =
       (published h st', Inr (Some (r, length (objects h))))" by blast
  let ?p = "Some (r, length (objects h))"
  let ?h = "commit_publication ?p (published h st')"
  have sess: "session bundle sid ?h u fp'"
    using confirmed [OF assms(1) attempt_step [OF sel app]] st'(5) by simp
  note t' = session_tracks [OF sess]
  have "selected bundle sid (\<not> redo) ?h = authoring_difference u s"
  proof -
    have "leads_to (\<not> redo) (ungroup ?e) u s" using u by (auto simp: leads_to_def)
    then show ?thesis using tracks_selected [OF t'] st'(4) by (simp add: leads_to_difference)
  qed
  then show ?thesis
    using sel app st' sess step_count_stack [OF t] step_count_stack [OF t']
    by (intro exI [of _ "step_delta redo ?e"] exI [of _ ?a] exI [of _ "published h st'"] exI [of _ ?p])
      simp
qed

lemma push_entry_top:
  "entry_delta (last (hist_undo (push_entry d l g st))) = d" "hist_undo (push_entry d l g st) \<noteq> []"
  by (auto simp: push_entry_def Let_def tl_append split: list.split)


text \<open>
  A cancelled gesture leaves no trace: when an edit opens a group and a later edit of
  the same group returns to the content at its start, the entry disappears, the undo stack is the
  one before the gesture, an action evicted by the limit of 100 included, and the redo stack it
  had displaced is back.
\<close>

lemma cancelled_group_restores:
  assumes "history_ok st s" "valid_content t" "array_extents t"
    and "authoring_difference s t = Inr d" "\<not> same_content s t"
    and "authoring_difference t s' = Inr e" "same_content s s'"
    and "action \<noteq> []" "hist_undo st \<noteq> [] \<longrightarrow> entry_group (last (hist_undo st)) \<noteq> action"
  shows "\<exists>mid restored. record_edit d label action st = Inr mid \<and> record_edit e label' action mid = Inr restored \<and>
    hist_undo restored = ungroup_last (hist_undo st) \<and> hist_redo restored = hist_redo st \<and>
    history_ok restored s'"
proof -
  let ?u = "ungroup_last (hist_undo st)"
  let ?mid = "push_entry d label action st"
  have good: "good_project s" "good_project t" "good_project s'"
    using assms(1-3,7) undo_chain_good good_same_content by (auto simp: history_ok_def good_project_def)
  have len: "length ?u + length (hist_redo st) \<le> kMaximumActions" using assms(1) by (simp add: history_ok_def)
  have mid: "record_edit d label action st = Inr ?mid"
    using assms(5,8,9) difference_empty_iff [OF good(1,2) assms(4)] by (auto simp: record_edit_def)
  have links: "links \<lparr>entry_delta = d, entry_label = label, entry_group = action\<rparr> s t"
    using good assms(4,5) by (simp add: links_def)
  note ok = push_entry_ok [OF assms(1) links]
  have mid_undo: "restored_undo ?mid = ?u" "displaced_redo ?mid = hist_redo st"
    "hist_undo ?mid \<noteq> []" "entry_group (last (hist_undo ?mid)) = action"
    using assms(8) len by (auto simp: push_entry_def restored_undo_def Let_def tl_append split: list.split)
  obtain f where f: "compose_authoring_deltas d e = Inr f" "delta_empty f"
  proof -
    have "state_id s = state_id s'" using assms(7) by (simp add: same_content_iff)
    then obtain f where f: "authoring_difference s s' = Inr f" using difference_exists by blast
    then show thesis
      using that compose_total [OF good assms(4,6)] difference_empty_iff [OF good(1,3) f] assms(7) by simp
  qed
  let ?restored = "?mid\<lparr>hist_undo := restored_undo ?mid, hist_redo := displaced_redo ?mid,
    displaced_redo := [], displaced_oldest := None\<rparr>"
  have "\<not> same_content t s'"
    using assms(5,7) same_content_sym same_content_trans by blast
  then have joined: "record_edit e label' action ?mid = Inr ?restored"
    using mid_undo assms(8) f push_entry_top(1) difference_empty_iff [OF good(2,3) assms(6)]
    by (simp add: record_edit_def join_group_def restored_undo_def)
  then have "history_ok ?restored s'" using record_edit_ok [OF ok good(3) assms(6), of label' action] by simp
  with mid joined mid_undo show ?thesis by auto
qed

section \<open>Recovery and refusals\<close>

lemma now_reconciled:
  assumes "tracks bundle sid h s fp" "next_ok (now h) st' t fp'" "current h = Some r"
  shows "now (reconcile bundle t fp' (publication_begin (Some (r, length (objects h))) (published h st'))) = st'"
    and "revision t \<noteq> revision s \<or> fp' \<noteq> fp \<Longrightarrow>
      now (reconcile bundle s fp (publication_begin (Some (r, length (objects h))) (published h st'))) = now h"
proof -
  show "now (reconcile bundle t fp' (publication_begin (Some (r, length (objects h))) (published h st'))) = st'"
    using assms
    by (elim tracksE) (simp add: now_def reconcile_def check_current_def publication_begin_def
        published_def open_on_def clear_pending_def object_at_def next_ok_def nth_append)
  assume "revision t \<noteq> revision s \<or> fp' \<noteq> fp"
  then have "\<not> matches st' s fp" using assms(2) by (auto simp: next_ok_def matches_def)
  with assms
  show "now (reconcile bundle s fp (publication_begin (Some (r, length (objects h))) (published h st'))) = now h"
    by (elim tracksE) (simp add: now_def reconcile_def check_current_def publication_begin_def
        published_def open_on_def clear_pending_def object_at_def next_ok_def nth_append)
qed

lemma reconcile_foreign:
  assumes "tracks bundle sid h s fp" "next_ok (now h) st' t fp'" "current h = Some r"
    and "(revision u, f) \<noteq> (revision s, fp)" "(revision u, f) \<noteq> (revision t, fp')"
  shows "status bundle (reconcile bundle u f
      (publication_begin (Some (r, length (objects h))) (published h st'))) =
    \<lparr>status_session_id = sid, status_revision = revision s, undo_count = 0, redo_count = 0,
     undo_label = [], redo_label = [], disabled_reason = ''authoring_history_invalidated''\<rparr>"
proof -
  have "\<not> matches st' u f" "\<not> matches (now h) u f" "hist_revision (now h) = revision s"
    using assms by (auto simp: next_ok_def matches_def elim!: tracksE)
  with assms(1-3) show ?thesis
    by (elim tracksE) (simp add: status_def reconcile_def publication_begin_def published_def
        open_on_def clear_pending_def object_at_def nth_append invalidate_def update_object_def
        clear_state_def label_of_last_def Let_def)
qed

text \<open>
  Property C18. A write whose result was not seen is settled by the Project found afterwards: if it
  is the new content, the history is the one a confirmation would have left; if it is the old
  content, the history is the one before the attempt; if it is anything else, both stacks are
  emptied and the history is disabled.
\<close>

theorem unseen_write_settled:
  assumes "session bundle sid h s fp" "attempt bundle sid h s fp t fp' h' p"
    and "(revision t, fp') \<noteq> (revision s, fp)"
    and "(revision u, f) \<noteq> (revision s, fp)" "(revision u, f) \<noteq> (revision t, fp')"
  shows "now (reconcile bundle t fp' (publication_begin p h')) = now (commit_publication p h') \<and>
    now (reconcile bundle s fp (publication_begin p h')) = now h \<and>
    undo_count (status bundle (reconcile bundle u f (publication_begin p h'))) = 0 \<and>
    redo_count (status bundle (reconcile bundle u f (publication_begin p h'))) = 0 \<and>
    disabled_reason (status bundle (reconcile bundle u f (publication_begin p h'))) =
      ''authoring_history_invalidated''"
proof -
  note tr = session_tracks [OF assms(1)]
  from attempt_prepared [OF tr assms(2)] obtain r st' where a: "current h = Some r"
    "next_ok (now h) st' t fp'" "h' = published h st'" "p = Some (r, length (objects h))" .
  show ?thesis
    using now_reconciled [OF tr a(2,1)] reconcile_foreign [OF tr a(2,1) assms(4,5)] assms(3)
    unfolding a(3,4) by simp
qed

text \<open>
  Property C20. The refusals of undo and redo: in a session the only refusal is an empty stack;
  another session id is refused as a mismatch, a write whose result is unknown refuses every
  step, and so does a closed history.
\<close>

theorem step_refusals:
  assumes "session bundle sid h s fp"
  shows "(selected bundle sid redo h = Inl e \<longleftrightarrow>
      step_count redo (status bundle h) = 0 \<and> e = unavailable ''authoring_history_empty'') \<and>
    (other \<noteq> sid \<longrightarrow>
      selected bundle other redo h = Inl (unavailable ''authoring_history_session_mismatch'')) \<and>
    (attempt bundle sid h s fp t fp' h' p \<longrightarrow> selected bundle sid redo (publication_begin p h') =
      Inl (unavailable ''authoring_history_result_unknown'')) \<and>
    selected bundle sid redo (close h) = Inl (unavailable ''authoring_history_not_open'')"
proof (intro conjI impI)
  note tr = session_tracks [OF assms]
  show "selected bundle sid redo h = Inl e \<longleftrightarrow>
      step_count redo (status bundle h) = 0 \<and> e = unavailable ''authoring_history_empty''"
    using tracks_selected [OF tr] step_count_stack [OF tr] by auto
  show "selected bundle other redo h = Inl (unavailable ''authoring_history_session_mismatch'')"
    if "other \<noteq> sid" using that tracks_status [OF tr] by (simp add: selected_def)
  show "selected bundle sid redo (close h) = Inl (unavailable ''authoring_history_not_open'')"
    by (simp add: selected_def status_def open_on_def close_def)
  show "selected bundle sid redo (publication_begin p h') =
      Inl (unavailable ''authoring_history_result_unknown'')" if a: "attempt bundle sid h s fp t fp' h' p"
  proof -
    from attempt_prepared [OF tr a] obtain r st' where "h' = published h st'"
      "p = Some (r, length (objects h))" .
    with tr show ?thesis
      by (elim tracksE) (simp add: selected_def status_def open_on_def publication_begin_def
          published_def object_at_def nth_append Let_def)
  qed
qed

section \<open>Retained artifacts\<close>

text \<open>The contents the steps of a stack lead to, in order.\<close>

inductive steps_to :: "bool \<Rightarrow> history_entry list \<Rightarrow> project_state \<Rightarrow> project_state \<Rightarrow> bool" for redo where
  no_steps: "steps_to redo [] s s"
| one_step: "steps_to redo (es @ [e]) s u" if "leads_to redo e s t" "steps_to redo es t u"

lemma retain_append [simp]: "set (retain (es @ fs)) = set (retain es) \<union> set (retain fs)"
  by (simp add: retain_def)


text \<open>The artifacts the content of a Project needs.\<close>

definition content_artifacts :: "project_state \<Rightarrow> string set" where
  "content_artifacts s =
     {art_sha256 (asset_artifact v) | k v. lookup (assets s) k = Some v} \<union>
     {art_sha256 a | k v a. lookup (performances s) k = Some v \<and> recording_artifact v = Some a}"

lemma change_retained:
  assumes "lookup m k = Some c" "before c = Some v \<or> after c = Some v" "x \<in> set (refs v)"
  shows "x \<in> set (concat (map (\<lambda>(_, c). retained_by_change refs c) (entries m)))"
proof -
  have "(k, c) \<in> set (entries m)" using assms(1) by (simp add: entries_lookup)
  then have "retained_by_change refs c \<in> set (map (\<lambda>(_, c). retained_by_change refs c) (entries m))"
    unfolding set_map by (rule rev_image_eqI) simp
  moreover have "x \<in> set (retained_by_change refs c)" using assms(2,3) by (auto simp: retained_by_change_def)
  ultimately show ?thesis unfolding set_concat by blast
qed

lemma link_artifacts:
  assumes "links e s t" "{x, y} = {s, t}"
  shows "content_artifacts x \<subseteq> content_artifacts y \<union> set (retain [e])"
proof -
  let ?d = "entry_delta e"
  have d: "delta_between ?d s t" using assms(1) difference_between by (auto simp: links_def)
  have asset: "lookup (assets y) k = Some v \<or> (\<exists>c. lookup (delta_assets ?d) k = Some c \<and>
      (before c = Some v \<or> after c = Some v))" if "lookup (assets x) k = Some v" for k v
    using d that assms(2) by (auto simp: delta_between_def difference_def doubleton_eq_iff)
  have perf: "lookup (performances y) k = Some v \<or> (\<exists>c. lookup (delta_performances ?d) k = Some c \<and>
      (before c = Some v \<or> after c = Some v))" if "lookup (performances x) k = Some v" for k v
    using d that assms(2) by (auto simp: delta_between_def difference_def doubleton_eq_iff)
  have "art_sha256 (asset_artifact v) \<in> content_artifacts y \<union> set (retain [e])"
    if "lookup (assets x) k = Some v" for k v
    using asset [OF that] change_retained [of "delta_assets ?d" k _ v _ "\<lambda>a. [art_sha256 (asset_artifact a)]"]
    by (auto simp: content_artifacts_def retain_def)
  moreover have "art_sha256 a \<in> content_artifacts y \<union> set (retain [e])"
    if "lookup (performances x) k = Some v" "recording_artifact v = Some a" for k v a
    using perf [OF that(1)] that(2) change_retained [of "delta_performances ?d" k _ v _
        "\<lambda>p. case recording_artifact p of None \<Rightarrow> [] | Some a \<Rightarrow> [art_sha256 a]"]
    by (auto simp: content_artifacts_def retain_def)
  ultimately show ?thesis unfolding content_artifacts_def [of x] by blast
qed

lemma steps_artifacts:
  "steps_to redo es s u \<Longrightarrow> content_artifacts u \<subseteq> content_artifacts s \<union> set (retain es)"
proof (induction rule: steps_to.induct)
  case (one_step e s t es u)
  have "content_artifacts t \<subseteq> content_artifacts s \<union> set (retain [e])"
    using one_step.hyps(1) link_artifacts [of e s t t s] link_artifacts [of e t s t s]
    by (simp add: leads_to_def insert_commute split: if_splits)
  with one_step.IH show ?case by auto
qed simp

text \<open>
  Nothing undo or redo may need is collected: any content reached by taking the
  actions of the undo stack (or of the redo stack) one after the other needs only artifacts the
  Project refers to now or the history reports as retained.
\<close>

lemma retained_artifacts_suffice:
  assumes "session bundle sid h s fp" "stack redo (now h) = rest @ es" "steps_to redo es s u"
  shows "content_artifacts u \<subseteq> content_artifacts s \<union> retained_artifacts bundle h"
proof -
  note tr = session_tracks [OF assms(1)]
  have "set (retain es) \<subseteq> set (retained_by_state (now h))"
    using arg_cong [OF assms(2), of "\<lambda>es. set (retain es)"]
    by (auto simp: retained_by_state_def stack_def split: if_splits)
  also have "\<dots> \<subseteq> retained_artifacts bundle h"
    using tr by (elim tracksE) (simp add: retained_artifacts_def map_filter_def)
  finally show ?thesis using steps_artifacts [OF assms(3)] by blast
qed

section \<open>Instances\<close>

text \<open>A session in which a sample was imported onto a Pad.\<close>

abbreviation "demo_bundle \<equiv> ''projects/./demo.lmdj''"
abbreviation "demo_sid \<equiv> ''session-1''"

definition demo_open :: authoring_history where
  "demo_open = start demo_bundle demo_sid demo_project ''f0'' new_history"

definition demo_prepared :: "authoring_history \<times> publication result" where
  "demo_prepared = prepare demo_bundle demo_project demo_t ''f0'' ''f1'' ''Import sample'' [] None demo_open"

definition demo_edited :: authoring_history where
  "demo_edited = commit_publication (projr (snd demo_prepared)) (fst demo_prepared)"

lemma demo_attempt:
  "attempt demo_bundle demo_sid demo_open demo_project ''f0'' demo_t ''f1''
     (fst demo_prepared) (projr (snd demo_prepared))"
proof (rule attempt_edit [OF demo_states(1,2)])
  show "state_id demo_t = state_id demo_project" by code_simp
  show "prepare demo_bundle demo_project demo_t ''f0'' ''f1'' ''Import sample'' [] None demo_open =
      (fst demo_prepared, Inr (projr (snd demo_prepared)))" by code_simp
qed

lemma demo_sessions:
  "session demo_bundle demo_sid demo_open demo_project ''f0''"
  "session demo_bundle demo_sid demo_edited demo_t ''f1''"
proof -
  show "session demo_bundle demo_sid demo_open demo_project ''f0''"
    unfolding demo_open_def by (rule opened [OF demo_good])
  from confirmed [OF this demo_attempt]
  show "session demo_bundle demo_sid demo_edited demo_t ''f1''" unfolding demo_edited_def .
qed

theorem session_status_witness:
  "status_revision (status demo_bundle demo_edited) = revision demo_t \<and>
   undo_count (status demo_bundle demo_edited) + redo_count (status demo_bundle demo_edited) \<le> kMaximumActions"
  using session_status [OF demo_sessions(2)] by simp

theorem undo_redo_available_witness:
  "\<exists>d a h' p. selected demo_bundle demo_sid False demo_edited = Inr d \<and>
    apply_authoring_delta demo_t (undo_meta 1) d map_empty = Inr a \<and> \<not> app_replayed a \<and>
    prepare demo_bundle demo_t (app_state a) ''f1'' ''f2'' [] [] (Some False) demo_edited = (h', Inr p) \<and>
    session demo_bundle demo_sid (commit_publication p h') (app_state a) ''f2'' \<and>
    step_count False (status demo_bundle (commit_publication p h')) =
      step_count False (status demo_bundle demo_edited) - 1 \<and>
    step_count (\<not> False) (status demo_bundle (commit_publication p h')) =
      step_count (\<not> False) (status demo_bundle demo_edited) + 1 \<and>
    selected demo_bundle demo_sid (\<not> False) (commit_publication p h') = authoring_difference (app_state a) demo_t"
proof (rule undo_redo_available [OF demo_sessions(2) _ demo_states(8)])
  show "0 < step_count False (status demo_bundle demo_edited)" by code_simp
qed


lemma demo_history_ok: "history_ok (now demo_open) demo_project"
  using session_tracks [OF demo_sessions(1)] by (elim tracksE)

lemma cancelled_group_restores_witness:
  "\<exists>mid restored. record_edit demo_delta ''Drag'' ''g1'' (now demo_open) = Inr mid \<and>
    record_edit (reverse_authoring_delta demo_delta) ''Drag'' ''g1'' mid = Inr restored \<and>
    hist_undo restored = ungroup_last (hist_undo (now demo_open)) \<and>
    hist_redo restored = hist_redo (now demo_open) \<and> history_ok restored demo_project"
proof (rule cancelled_group_restores [OF demo_history_ok demo_states(1,2,5,7) _ same_content_refl])
  show "authoring_difference demo_t demo_project = Inr (reverse_authoring_delta demo_delta)"
    "hist_undo (now demo_open) \<noteq> [] \<longrightarrow> entry_group (last (hist_undo (now demo_open))) \<noteq> ''g1''"
    by code_simp+
qed simp

theorem unseen_write_settled_witness:
  "now (reconcile demo_bundle demo_t ''f1'' (publication_begin (projr (snd demo_prepared)) (fst demo_prepared))) =
     now demo_edited \<and>
   now (reconcile demo_bundle demo_project ''f0'' (publication_begin (projr (snd demo_prepared)) (fst demo_prepared))) =
     now demo_open"
proof -
  have "(revision demo_t, ''f1'') \<noteq> (revision demo_project, ''f0'')"
    "(revision demo_u, ''f2'') \<noteq> (revision demo_project, ''f0'')"
    "(revision demo_u, ''f2'') \<noteq> (revision demo_t, ''f1'')" by simp_all
  from unseen_write_settled [OF demo_sessions(1) demo_attempt this] show ?thesis
    by (simp add: demo_edited_def)
qed

theorem step_refusals_witness:
  "selected demo_bundle demo_sid True demo_open = Inl (unavailable ''authoring_history_empty'') \<and>
   selected demo_bundle ''session-2'' True demo_open = Inl (unavailable ''authoring_history_session_mismatch'') \<and>
   selected demo_bundle demo_sid True (publication_begin (projr (snd demo_prepared)) (fst demo_prepared)) =
     Inl (unavailable ''authoring_history_result_unknown'') \<and>
   selected demo_bundle demo_sid True (close demo_open) = Inl (unavailable ''authoring_history_not_open'')"
proof -
  have "step_count True (status demo_bundle demo_open) = 0" by code_simp
  with step_refusals [OF demo_sessions(1), of True "unavailable ''authoring_history_empty''" "''session-2''"
      demo_t "''f1''" "fst demo_prepared" "projr (snd demo_prepared)"] demo_attempt
  show ?thesis by simp
qed

lemma retained_artifacts_suffice_witness:
  "content_artifacts demo_project \<subseteq> content_artifacts demo_t \<union> retained_artifacts demo_bundle demo_edited"
proof (rule retained_artifacts_suffice [OF demo_sessions(2), where redo = False and rest = "[]"])
  let ?e = "last (stack False (now demo_edited))"
  show "stack False (now demo_edited) = [] @ ([] @ [?e])" by code_simp
  have "authoring_difference demo_project demo_t = Inr (entry_delta ?e)" by code_simp
  then have "leads_to False ?e demo_t demo_project"
    using demo_good demo_states(1,2,7) by (simp add: leads_to_def links_def good_project_def)
  then show "steps_to False ([] @ [?e]) demo_t demo_project" by (rule one_step) (rule no_steps)
qed

end
