(* ===== verification/Decimal.thy ===== *)
theory Decimal
  imports Foundation
begin

text \<open>
  Decimal text of 64-bit integers as \<open>std::to_string\<close> prints and \<open>std::from_chars\<close> reads it,
  and \<open>parse_input_sequence\<close> of \<open>project.cpp\<close>, which accepts exactly the printed text.
\<close>

section \<open>Printing and reading\<close>

definition digit_char :: "nat \<Rightarrow> char" where
  "digit_char d = char_of (48 + d)"

definition digit_value :: "char \<Rightarrow> nat" where
  "digit_value c = of_char c - 48"

fun decimal :: "nat \<Rightarrow> string" where
  "decimal n = (if n < 10 then [digit_char n] else decimal (n div 10) @ [digit_char (n mod 10)])"

declare decimal.simps [simp del]

text \<open>\<open>std::to_string\<close> on an unsigned 64-bit integer.\<close>

definition to_string :: "u64 \<Rightarrow> string" where
  "to_string v = decimal (unat v)"

definition decimal_value :: "string \<Rightarrow> nat" where
  "decimal_value s = foldl (\<lambda>n c. 10 * n + digit_value c) 0 s"

text \<open>
  \<open>std::from_chars\<close> into an unsigned 64-bit integer: the longest run of digits is read;
  \<open>None\<close> stands for an error code (no digit, or out of range), else the value and the rest.
\<close>

definition from_chars :: "string \<Rightarrow> (u64 \<times> string) option" where
  "from_chars text =
     (let digits = takeWhile is_digit text
      in if digits = [] \<or> 2 ^ 64 \<le> decimal_value digits then None
         else Some (of_nat (decimal_value digits), dropWhile is_digit text))"

text \<open>The text of \<open>parse_input_sequence\<close>.\<close>

definition parse_sequence_text :: "string \<Rightarrow> u64 option" where
  "parse_sequence_text text =
     (if text = [] \<or> 20 < length text \<or> hd text = CHR ''0'' \<or> \<not> list_all is_digit text then None
      else if length text = 20 \<and> ''18446744073709551615'' < text then None
      else case from_chars text of
          None \<Rightarrow> None
        | Some (value, rest) \<Rightarrow> if rest \<noteq> [] then None else Some value)"

section \<open>Digits\<close>

lemma is_digit_value: "is_digit c \<longleftrightarrow> 48 \<le> (of_char c :: nat) \<and> (of_char c :: nat) \<le> 57"
  by (simp add: is_digit_def less_eq_char_def)

lemma digit_char_facts:
  assumes "d < 10"
  shows "is_digit (digit_char d)" "digit_value (digit_char d) = d" "digit_char d = CHR ''0'' \<longleftrightarrow> d = 0"
proof -
  have code: "(of_char (digit_char d) :: nat) = 48 + d" using assms by (simp add: digit_char_def)
  then show "is_digit (digit_char d)" "digit_value (digit_char d) = d"
    using assms by (simp_all add: is_digit_value digit_value_def)
  have "digit_char d = CHR ''0'' \<longleftrightarrow> (of_char (digit_char d) :: nat) = of_char (CHR ''0'')"
    by (simp only: of_char_eq_iff)
  then show "digit_char d = CHR ''0'' \<longleftrightarrow> d = 0" by (simp add: code)
qed

lemma digit_value_less: "is_digit c \<Longrightarrow> digit_value c < 10"
  unfolding is_digit_value digit_value_def by linarith

lemma digit_char_value [simp]: "is_digit c \<Longrightarrow> digit_char (digit_value c) = c"
  by (simp add: is_digit_value digit_value_def digit_char_def)

lemma digit_value_less_eq:
  "is_digit c \<Longrightarrow> is_digit d \<Longrightarrow> digit_value c < digit_value d \<longleftrightarrow> c < d"
  by (auto simp: is_digit_value digit_value_def less_char_def)

lemma digit_value_inj: "is_digit c \<Longrightarrow> is_digit d \<Longrightarrow> digit_value c = digit_value d \<longleftrightarrow> c = d"
  by (metis digit_char_value)

section \<open>Values\<close>

lemma decimal_value_simps [simp]:
  "decimal_value [] = 0"
  "decimal_value [c] = digit_value c"
  "decimal_value (s @ [c]) = 10 * decimal_value s + digit_value c"
  by (simp_all add: decimal_value_def)

lemma decimal_value_Cons:
  "decimal_value (c # s) = digit_value c * 10 ^ length s + decimal_value s"
  by (induction s rule: rev_induct) (simp_all add: decimal_value_def)

lemma decimal_value_bound: "list_all is_digit s \<Longrightarrow> decimal_value s < 10 ^ length s"
proof (induction s rule: rev_induct)
  case (snoc c s)
  then show ?case using digit_value_less [of c] by simp
qed simp

lemma decimal_value_lower:
  "list_all is_digit s \<Longrightarrow> s \<noteq> [] \<Longrightarrow> hd s \<noteq> CHR ''0'' \<Longrightarrow> 10 ^ (length s - 1) \<le> decimal_value s"
proof (cases s)
  case (Cons c r)
  assume "list_all is_digit s" "hd s \<noteq> CHR ''0''"
  then have "is_digit c" "c \<noteq> CHR ''0''" using Cons by simp_all
  then have "1 \<le> digit_value c"
    using digit_char_facts(3) [of "digit_value c"] digit_value_less [of c] by (simp add: Suc_le_eq)
  then have "1 * 10 ^ length r \<le> digit_value c * 10 ^ length r" by (rule mult_right_mono) simp
  then show ?thesis using Cons by (simp add: decimal_value_Cons trans_le_add1)
qed simp

lemma decimal_value_mono:
  assumes "length s = length t" "list_all is_digit s" "list_all is_digit t"
  shows "s < t \<longleftrightarrow> decimal_value s < decimal_value t"
  using assms
proof (induction s t rule: list_induct2)
  case (Cons c s d t)
  then have IH: "s < t \<longleftrightarrow> decimal_value s < decimal_value t" and dig: "is_digit c" "is_digit d" by simp_all
  have s: "decimal_value s < 10 ^ length s" and t: "decimal_value t < 10 ^ length s"
    using decimal_value_bound [of s] decimal_value_bound [of t] Cons by simp_all
  consider "c = d" | "digit_value c < digit_value d" | "digit_value d < digit_value c"
    using digit_value_inj dig by (meson linorder_neqE_nat)
  then show ?case
  proof cases
    case 1
    then show ?thesis using IH by (simp add: decimal_value_Cons Cons.hyps)
  next
    case 2
    then have "(digit_value c + 1) * 10 ^ length s \<le> digit_value d * 10 ^ length s"
      by (intro mult_right_mono) simp_all
    then have "decimal_value (c # s) < decimal_value (d # t)"
      using s by (simp add: decimal_value_Cons Cons.hyps)
    then show ?thesis using 2 digit_value_less_eq [OF dig] by simp
  next
    case 3
    then have "(digit_value d + 1) * 10 ^ length s \<le> digit_value c * 10 ^ length s"
      by (intro mult_right_mono) simp_all
    then have "\<not> decimal_value (c # s) < decimal_value (d # t)"
      using t by (simp add: decimal_value_Cons Cons.hyps)
    moreover have "d < c" using 3 digit_value_less_eq [OF dig(2,1)] by simp
    ultimately show ?thesis by auto
  qed
qed simp

section \<open>The printed text\<close>

lemma decimal_props: "list_all is_digit (decimal n) \<and> decimal n \<noteq> [] \<and> decimal_value (decimal n) = n \<and>
    (hd (decimal n) = CHR ''0'' \<longrightarrow> n = 0)"
proof (induction n rule: less_induct)
  case (less n)
  show ?case
  proof (cases "n < 10")
    case True
    then show ?thesis
      using digit_char_facts [OF True] by (simp add: decimal.simps [of n] decimal_value_def)
  next
    case False
    then have "n div 10 < n" by simp
    from less [OF this] False digit_char_facts [of "n mod 10"] show ?thesis
      by (auto simp: decimal.simps [of n])
  qed
qed

lemma decimal_of_value:
  "list_all is_digit s \<Longrightarrow> s \<noteq> [] \<Longrightarrow> hd s \<noteq> CHR ''0'' \<Longrightarrow> decimal (decimal_value s) = s"
proof (induction s rule: rev_induct)
  case (snoc c s)
  then have c: "is_digit c" and v: "digit_value c < 10" using digit_value_less by auto
  show ?case
  proof (cases "s = []")
    case True
    then show ?thesis using c v by (simp add: decimal.simps)
  next
    case False
    with snoc have IH: "decimal (decimal_value s) = s" by simp
    have "10 ^ (length s - 1) \<le> decimal_value s" using decimal_value_lower snoc.prems False by simp
    then have "0 < decimal_value s" by (rule less_le_trans [rotated]) simp
    then show ?thesis
      using IH c v by (subst decimal.simps) simp
  qed
qed simp

lemma decimal_range_text:
  assumes "list_all is_digit s" "s \<noteq> []" "hd s \<noteq> CHR ''0''" "decimal_value s < 2 ^ 64"
  shows "length s \<le> 20" "length s = 20 \<Longrightarrow> \<not> ''18446744073709551615'' < s"
proof -
  have "10 ^ (length s - 1) < (10::nat) ^ 20"
    using le_less_trans [OF decimal_value_lower [OF assms(1-3)] assms(4)] by simp
  then have "length s - 1 < 20" by (simp only: power_strict_increasing_iff)
  then show "length s \<le> 20" by simp
  assume len: "length s = 20"
  have "decimal_value ''18446744073709551615'' = 18446744073709551615"
    by (simp add: decimal_value_def digit_value_def)
  then have "decimal_value s \<le> decimal_value ''18446744073709551615''" using assms(4) by simp
  moreover have "''18446744073709551615'' < s \<longleftrightarrow> decimal_value ''18446744073709551615'' < decimal_value s"
  proof (rule decimal_value_mono)
    show "list_all is_digit ''18446744073709551615''" by code_simp
  qed (simp_all add: len assms(1))
  ultimately show "\<not> ''18446744073709551615'' < s" by simp
qed

lemma from_chars_digits:
  assumes "list_all is_digit s" "s \<noteq> []"
  shows "from_chars s = (if 2 ^ 64 \<le> decimal_value s then None else Some (of_nat (decimal_value s), []))"
proof -
  have "takeWhile is_digit s = s" "dropWhile is_digit s = []"
    using assms(1) by (simp_all add: takeWhile_eq_all_conv dropWhile_eq_Nil_conv list_all_iff)
  then show ?thesis using assms(2) by (simp only: from_chars_def Let_def) simp
qed

lemma parse_sequence_text_iff: "parse_sequence_text text = Some v \<longleftrightarrow> v \<noteq> 0 \<and> text = to_string v"
proof
  assume p: "parse_sequence_text text = Some v"
  then have t: "list_all is_digit text" "text \<noteq> []" "hd text \<noteq> CHR ''0''"
    by (auto simp: parse_sequence_text_def split: if_splits)
  with p have r: "decimal_value text < 2 ^ 64" and v: "v = of_nat (decimal_value text)"
    using from_chars_digits [OF t(1,2)] by (auto simp: parse_sequence_text_def split: if_splits)
  have u: "unat v = decimal_value text" unfolding v using r by (simp add: unsigned_of_nat take_bit_nat_eq_self_iff)
  moreover have "0 < decimal_value text"
    by (rule less_le_trans [OF _ decimal_value_lower [OF t]]) simp
  ultimately show "v \<noteq> 0 \<and> text = to_string v"
    using decimal_of_value [OF t] by (auto simp: to_string_def)
next
  assume v: "v \<noteq> 0 \<and> text = to_string v"
  then have d: "list_all is_digit text" "text \<noteq> []" "hd text \<noteq> CHR ''0''" "decimal_value text = unat v"
    using decimal_props [of "unat v"] by (auto simp: to_string_def unat_eq_0)
  have r: "decimal_value text < 2 ^ 64" using d(4) unsigned_less [of v, where 'a = nat] by simp
  show "parse_sequence_text text = Some v"
    using d r decimal_range_text [OF d(1-3) r] from_chars_digits [OF d(1,2)]
    by (simp add: parse_sequence_text_def)
qed

text \<open>
  A durable input sequence has exactly one text: \<open>parse_input_sequence\<close> reads a text
  as \<open>v\<close> exactly when \<open>v\<close> is not 0 and the text is the one \<open>std::to_string\<close> prints for it.
\<close>

lemma sequence_text_canonical: "parse_sequence_text text = Some v \<longleftrightarrow> v \<noteq> 0 \<and> text = to_string v"
  by (rule parse_sequence_text_iff)

lemma parse_printed_sequence [simp]: "v \<noteq> 0 \<Longrightarrow> parse_sequence_text (to_string v) = Some v"
  by (simp add: parse_sequence_text_iff)

end
