(* ===== verification/Json_Library.thy ===== *)
theory Json_Library
  imports Decimal "HOL-Library.Monad_Syntax"
begin

text \<open>
  The JSON values the codecs read and write belong to a library outside the repository. Its
  values are a type parameter, and the operations the codecs call are the fields of a record the
  codecs take as an argument. \<open>json_laws\<close> states what the round trips rely on: what the
  accessors return on a value just built. The readers of this theory are those of
  \<open>project.cpp\<close>.
\<close>

section \<open>The library as a parameter\<close>

text \<open>Accessors that may throw return \<open>None\<close> when they do.\<close>

record 'j json_lib =
  is_object :: "'j \<Rightarrow> bool"
  is_array :: "'j \<Rightarrow> bool"
  is_string :: "'j \<Rightarrow> bool"
  is_boolean :: "'j \<Rightarrow> bool"
  is_null :: "'j \<Rightarrow> bool"
  is_number_unsigned :: "'j \<Rightarrow> bool"
  is_number_integer :: "'j \<Rightarrow> bool"
  json_size :: "'j \<Rightarrow> nat"
  has_key :: "'j \<Rightarrow> string \<Rightarrow> bool"
  at_key :: "'j \<Rightarrow> string \<Rightarrow> 'j option"
  get_string :: "'j \<Rightarrow> string option"
  get_boolean :: "'j \<Rightarrow> bool option"
  get_unsigned :: "'j \<Rightarrow> u64 option"
  get_signed :: "'j \<Rightarrow> u64 option"
  elements :: "'j \<Rightarrow> 'j list"
  make_object :: "(string \<times> 'j) list \<Rightarrow> 'j"
  make_array :: "'j list \<Rightarrow> 'j"
  make_string :: "string \<Rightarrow> 'j"
  make_unsigned :: "u64 \<Rightarrow> 'j"
  make_boolean :: "bool \<Rightarrow> 'j"
  make_null :: "'j"
  set_key :: "'j \<Rightarrow> string \<Rightarrow> 'j \<Rightarrow> 'j"
  erase_key :: "'j \<Rightarrow> string \<Rightarrow> 'j"

text \<open>
  The documented behaviour used below: an object built from distinct keys has those members; a
  value built from a string, number, boolean, array or null reads back; assigning and erasing a
  member of an object do as their names say.
\<close>

definition object_laws :: "'j json_lib \<Rightarrow> bool" where
  "object_laws J =
     (\<forall>ms. distinct (map fst ms) \<longrightarrow>
        is_object J (make_object J ms) \<and> \<not> is_null J (make_object J ms) \<and>
        json_size J (make_object J ms) = length ms \<and>
        (\<forall>k. has_key J (make_object J ms) k = (k \<in> set (map fst ms)) \<and>
             at_key J (make_object J ms) k = map_of ms k) \<and>
        (\<forall>k v. k \<notin> set (map fst ms) \<longrightarrow>
           set_key J (make_object J ms) k v = make_object J (ms @ [(k, v)]) \<and>
           erase_key J (make_object J ms) k = make_object J ms))"

definition scalar_laws :: "'j json_lib \<Rightarrow> bool" where
  "scalar_laws J =
     ((\<forall>s. is_string J (make_string J s) \<and> get_string J (make_string J s) = Some s) \<and>
      (\<forall>n. is_number_unsigned J (make_unsigned J n) \<and> get_unsigned J (make_unsigned J n) = Some n) \<and>
      (\<forall>b. is_boolean J (make_boolean J b) \<and> get_boolean J (make_boolean J b) = Some b) \<and>
      (\<forall>xs. is_array J (make_array J xs) \<and> elements J (make_array J xs) = xs) \<and>
      is_null J (make_null J))"

definition update_laws :: "'j json_lib \<Rightarrow> bool" where
  "update_laws J =
     (\<forall>j k v. is_object J j \<longrightarrow> is_object J (set_key J j k v) \<and>
        (\<forall>k'. has_key J (set_key J j k v) k' = (k' = k \<or> has_key J j k') \<and>
           at_key J (set_key J j k v) k' = (if k' = k then Some v else at_key J j k')))"

definition json_laws :: "'j json_lib \<Rightarrow> bool" where
  "json_laws J = (object_laws J \<and> scalar_laws J \<and> update_laws J)"

lemma json_object [simp]:
  assumes "json_laws J" "distinct (map fst ms)"
  shows "is_object J (make_object J ms)" "\<not> is_null J (make_object J ms)"
    "json_size J (make_object J ms) = length ms"
    "has_key J (make_object J ms) k = (k \<in> set (map fst ms))"
    "at_key J (make_object J ms) k = map_of ms k"
    "k \<notin> set (map fst ms) \<Longrightarrow> set_key J (make_object J ms) k v = make_object J (ms @ [(k, v)])"
    "k \<notin> set (map fst ms) \<Longrightarrow> erase_key J (make_object J ms) k = make_object J ms"
  using assms unfolding json_laws_def object_laws_def by blast+

lemma json_scalar [simp]:
  assumes "json_laws J"
  shows "is_string J (make_string J s)" "get_string J (make_string J s) = Some s"
    "is_number_unsigned J (make_unsigned J n)" "get_unsigned J (make_unsigned J n) = Some n"
    "is_boolean J (make_boolean J b)" "get_boolean J (make_boolean J b) = Some b"
    "is_array J (make_array J xs)" "elements J (make_array J xs) = xs" "is_null J (make_null J)"
  using assms unfolding json_laws_def scalar_laws_def by blast+

lemma json_update [simp]:
  assumes "json_laws J" "is_object J j"
  shows "is_object J (set_key J j k v)"
    "has_key J (set_key J j k v) k' = (k' = k \<or> has_key J j k')"
    "at_key J (set_key J j k v) k' = (if k' = k then Some v else at_key J j k')"
  using assms unfolding json_laws_def update_laws_def by blast+

section \<open>A model of the library\<close>

text \<open>JSON documents as a data type: the instance the concrete examples run on.\<close>

datatype document =
    Object "(string \<times> document) list"
  | Array "document list"
  | Text string
  | Number u64
  | Negative u64
  | Truth bool
  | Null

fun members :: "document \<Rightarrow> (string \<times> document) list option" where
  "members (Object ms) = Some ms"
| "members _ = None"

fun items :: "document \<Rightarrow> document list option" where
  "items (Array xs) = Some xs"
| "items _ = None"

fun put_member :: "string \<Rightarrow> 'v \<Rightarrow> (string \<times> 'v) list \<Rightarrow> (string \<times> 'v) list" where
  "put_member k v [] = [(k, v)]"
| "put_member k v ((k', v') # ms) = (if k' = k then (k, v) # ms else (k', v') # put_member k v ms)"

definition documents :: "document json_lib" where
  "documents =
     \<lparr>is_object = \<lambda>j. members j \<noteq> None, is_array = \<lambda>j. items j \<noteq> None,
      is_string = \<lambda>j. (case j of Text _ \<Rightarrow> True | _ \<Rightarrow> False),
      is_boolean = \<lambda>j. (case j of Truth _ \<Rightarrow> True | _ \<Rightarrow> False),
      is_null = \<lambda>j. (case j of Null \<Rightarrow> True | _ \<Rightarrow> False),
      is_number_unsigned = \<lambda>j. (case j of Number _ \<Rightarrow> True | _ \<Rightarrow> False),
      is_number_integer = \<lambda>j. (case j of Number _ \<Rightarrow> True | Negative _ \<Rightarrow> True | _ \<Rightarrow> False),
      json_size = \<lambda>j. (case j of Object ms \<Rightarrow> length ms | Array xs \<Rightarrow> length xs | Null \<Rightarrow> 0 | _ \<Rightarrow> 1),
      has_key = \<lambda>j k. (case members j of None \<Rightarrow> False | Some ms \<Rightarrow> k \<in> set (map fst ms)),
      at_key = \<lambda>j k. (case members j of None \<Rightarrow> None | Some ms \<Rightarrow> map_of ms k),
      get_string = \<lambda>j. (case j of Text s \<Rightarrow> Some s | _ \<Rightarrow> None),
      get_boolean = \<lambda>j. (case j of Truth b \<Rightarrow> Some b | _ \<Rightarrow> None),
      get_unsigned = \<lambda>j. (case j of Number n \<Rightarrow> Some n | _ \<Rightarrow> None),
      get_signed = \<lambda>j. (case j of Number n \<Rightarrow> Some n | Negative n \<Rightarrow> Some n | _ \<Rightarrow> None),
      elements = \<lambda>j. (case items j of None \<Rightarrow> [] | Some xs \<Rightarrow> xs),
      make_object = Object, make_array = Array, make_string = Text, make_unsigned = Number,
      make_boolean = Truth, make_null = Null,
      set_key = \<lambda>j k v. (case members j of None \<Rightarrow> j
        | Some ms \<Rightarrow> Object (put_member k v ms)),
      erase_key = \<lambda>j k. (case members j of None \<Rightarrow> j | Some ms \<Rightarrow> Object (filter (\<lambda>(k', _). k' \<noteq> k) ms))\<rparr>"

lemma put_member_keys [simp]: "set (map fst (put_member k v ms)) = insert k (set (map fst ms))"
proof (induction ms)
  case (Cons m ms)
  then show ?case by (cases m) (simp add: insert_commute)
qed simp

lemma put_member_simps [simp]:
  "map_of (put_member k v ms) k' = (if k' = k then Some v else map_of ms k')"
  "k \<notin> set (map fst ms) \<Longrightarrow> put_member k v ms = ms @ [(k, v)]"
  by (induction k v ms rule: put_member.induct) auto

lemma documents_laws: "json_laws documents"
proof -
  have "object_laws documents" "scalar_laws documents"
    by (auto simp: object_laws_def scalar_laws_def documents_def filter_id_conv image_iff)
  moreover have "update_laws documents"
    by (auto simp: update_laws_def documents_def simp del: set_map)
  ultimately show ?thesis by (simp add: json_laws_def)
qed

section \<open>Readers\<close>

text \<open>A reader that may throw: \<open>None\<close> is the exception, caught into an error by \<open>caught\<close>.\<close>

definition caught :: "error \<Rightarrow> 'a result option \<Rightarrow> 'a result" where
  "caught e r = (case r of None \<Rightarrow> failure e | Some x \<Rightarrow> x)"

definition exact_object_keys :: "'j json_lib \<Rightarrow> 'j \<Rightarrow> string list \<Rightarrow> bool" where
  "exact_object_keys J input keys =
     (is_object J input \<and> json_size J input = length keys \<and> list_all (has_key J input) keys)"

text \<open>\<open>unsigned_value\<close>: an exception inside gives no value.\<close>

definition unsigned_value :: "'j json_lib \<Rightarrow> 'j \<Rightarrow> u64 option" where
  "unsigned_value J input =
     (if is_number_unsigned J input then get_unsigned J input
      else if is_number_integer J input then
        (case get_signed J input of None \<Rightarrow> None | Some v \<Rightarrow> if 0 \<le> sint v then Some v else None)
      else None)"

definition bounded_unsigned :: "'j json_lib \<Rightarrow> 'j \<Rightarrow> u64 \<Rightarrow> u64 option" where
  "bounded_unsigned J input maximum =
     (case unsigned_value J input of None \<Rightarrow> None
      | Some v \<Rightarrow> if maximum < v then None else Some v)"

definition parse_input_sequence :: "'j json_lib \<Rightarrow> 'j \<Rightarrow> u64 option" where
  "parse_input_sequence J input =
     (if \<not> is_string J input then None
      else Option.bind (get_string J input) parse_sequence_text)"

lemma unsigned_value_make [simp]: "json_laws J \<Longrightarrow> unsigned_value J (make_unsigned J n) = Some n"
  by (simp add: unsigned_value_def)

lemma bounded_unsigned_make [simp]:
  "json_laws J \<Longrightarrow> n \<le> m \<Longrightarrow> bounded_unsigned J (make_unsigned J n) m = Some n"
  by (simp add: bounded_unsigned_def)

lemma bounded_unsigned_bound: "bounded_unsigned J input m = Some v \<Longrightarrow> v \<le> m"
  by (auto simp: bounded_unsigned_def split: option.splits if_splits)

lemma exact_object_keys_make [simp]:
  assumes "json_laws J" "distinct (map fst ms)"
  shows "exact_object_keys J (make_object J ms) keys \<longleftrightarrow>
    length ms = length keys \<and> list_all (\<lambda>k. k \<in> set (map fst ms)) keys"
  using assms by (auto simp: exact_object_keys_def list_all_iff)

text \<open>A reader that may throw or fail, followed by another.\<close>

definition then_read :: "'a result option \<Rightarrow> ('a \<Rightarrow> 'b result option) \<Rightarrow> 'b result option" where
  "then_read r f = (case r of None \<Rightarrow> None | Some (Inl e) \<Rightarrow> Some (Inl e) | Some (Inr v) \<Rightarrow> f v)"

lemma then_read_simps [simp]:
  "then_read None f = None"
  "then_read (Some (Inl e)) f = Some (Inl e)"
  "then_read (Some (Inr v)) f = f v"
  by (simp_all add: then_read_def)

lemma then_read_success: "then_read r f = Some (Inr v) \<longleftrightarrow> (\<exists>x. r = Some (Inr x) \<and> f x = Some (Inr v))"
  by (auto simp: then_read_def split: option.splits sum.splits)

definition string_at :: "'j json_lib \<Rightarrow> 'j \<Rightarrow> string \<Rightarrow> string option" where
  "string_at J j k = do { v \<leftarrow> at_key J j k; get_string J v }"

fun strings_at :: "'j json_lib \<Rightarrow> 'j \<Rightarrow> string list \<Rightarrow> bool option" where
  "strings_at J j [] = Some True"
| "strings_at J j (k # ks) =
     do { v \<leftarrow> at_key J j k; if is_string J v then strings_at J j ks else Some False }"

end
