(* ===== verification/Slot_Masks.thy ===== *)
theory Slot_Masks
  imports Json_Library Project_Data
begin

text \<open>
  Slot masks: a 64-bit set of Pad slots in the domain, an ascending array of slot numbers in JSON
  (\<open>project.cpp\<close>, \<open>slot_mask_from_json\<close> and \<open>slot_mask_json\<close>).
\<close>

unbundle bit_operations_syntax

section \<open>Reading and writing\<close>

text \<open>The loop over the array, with its locals \<open>mask\<close>, \<open>previous\<close> and \<open>first\<close>.\<close>

fun read_slots :: "'j json_lib \<Rightarrow> u64 \<Rightarrow> u64 \<Rightarrow> bool \<Rightarrow> 'j list \<Rightarrow> u64 option" where
  "read_slots J msk previous first [] = Some msk"
| "read_slots J msk previous first (encoded # rest) =
     (case bounded_unsigned J encoded (ucast kPerformancePadSlotMax) of
        None \<Rightarrow> None
      | Some slot \<Rightarrow>
          if \<not> first \<and> slot \<le> previous then None
          else read_slots J (msk OR push_bit (unat slot) 1) slot False rest)"

definition slot_mask_from_json :: "'j json_lib \<Rightarrow> 'j \<Rightarrow> u64 option" where
  "slot_mask_from_json J input =
     (if \<not> is_array J input then None else read_slots J 0 0 True (elements J input))"

abbreviation "kPerformancePadSlotCount \<equiv> 64 :: nat"

text \<open>The slots of a mask, as the writer's loop finds them.\<close>

definition mask_slots :: "u64 \<Rightarrow> nat list" where
  "mask_slots msk = filter (\<lambda>slot. msk AND push_bit slot 1 \<noteq> 0) [0..<kPerformancePadSlotCount]"

definition slot_mask_json :: "'j json_lib \<Rightarrow> u64 \<Rightarrow> 'j" where
  "slot_mask_json J msk = make_array J (map (\<lambda>slot. make_unsigned J (of_nat slot)) (mask_slots msk))"

section \<open>Bits\<close>

lemma and_push_one: "msk AND push_bit n 1 \<noteq> 0 \<longleftrightarrow> bit msk n" for msk :: "'a::len word"
proof -
  have "bit (msk AND push_bit n 1) k \<longleftrightarrow> k = n \<and> bit msk n" for k
    by (cases "n < LENGTH('a)") (auto simp: bit_simps dest: bit_imp_le_length)
  then show ?thesis by (metis bit_eq_iff bit_0_eq bot_apply bot_bool_def)
qed

lemma mask_slots_bits: "mask_slots msk = filter (bit msk) [0..<64]"
  by (simp only: mask_slots_def and_push_one)

lemma set_mask_slots: "set (mask_slots msk) = {i. bit msk i}"
proof -
  have "bit msk i \<Longrightarrow> i < 64" for i using bit_imp_le_length [of msk i] by simp
  then show ?thesis by (auto simp: mask_slots_bits)
qed

lemma mask_slots_sorted: "sorted (mask_slots msk) \<and> distinct (mask_slots msk)"
  by (simp add: mask_slots_bits sorted_wrt_filter)

lemma mask_slots_unique:
  assumes "sorted_wrt (<) ss" "set ss = {i. bit msk i}"
  shows "ss = mask_slots msk"
  using sorted_distinct_set_unique [of ss "mask_slots msk"] assms mask_slots_sorted [of msk]
    set_mask_slots [of msk] by (simp add: strict_sorted_iff)

lemma bit_or_slots:
  "list_all (\<lambda>s. s < 64) ss \<Longrightarrow>
     bit (foldl (\<lambda>m s. m OR 2 ^ s) (msk :: u64) ss) i \<longleftrightarrow> bit msk i \<or> i \<in> set ss"
  by (induction ss arbitrary: msk) (auto simp: bit_simps)

section \<open>What the reader accepts\<close>

lemma map_Some_Cons:
  assumes "f e = Some v"
  shows "(\<exists>vs. map f (e # es) = map Some vs \<and> P vs) \<longleftrightarrow> (\<exists>vs. map f es = map Some vs \<and> P (v # vs))"
  using assms by (auto simp: Cons_eq_map_conv)

lemma sorted_wrt_step: "sorted_wrt (<) (p # s # ss) \<longleftrightarrow> p < s \<and> sorted_wrt (<) (s # ss)"
  for p :: "'a::order"
  by auto

lemma read_slots_iff:
  "read_slots J msk previous first es = Some m \<longleftrightarrow>
     (\<exists>ss. map (\<lambda>e. bounded_unsigned J e 63) es = map Some ss \<and>
        sorted_wrt (<) (if first then ss else previous # ss) \<and>
        m = foldl (\<lambda>m s. m OR push_bit s 1) msk (map unat ss))"
proof (induction J msk previous first es rule: read_slots.induct)
  case (2 J msk previous first encoded rest)
  show ?case
  proof (cases "bounded_unsigned J encoded 63")
    case None
    then show ?thesis by (auto simp: Cons_eq_map_conv)
  next
    case (Some slot)
    have bound: "ucast kPerformancePadSlotMax = (63 :: u64)" by simp
    note ext = map_Some_Cons [where f = "\<lambda>e. bounded_unsigned J e 63", OF Some]
    show ?thesis
    proof (cases "\<not> first \<and> slot \<le> previous")
      case True
      then show ?thesis unfolding ext using Some by (auto simp: not_less)
    next
      case False
      then have sorted: "sorted_wrt (<) (if first then slot # ss else previous # slot # ss) \<longleftrightarrow>
          sorted_wrt (<) (slot # ss)" for ss
        unfolding sorted_wrt_step by auto
      have "read_slots J msk previous first (encoded # rest) =
          read_slots J (msk OR push_bit (unat slot) 1) slot False rest"
        using False Some by (simp only: read_slots.simps bound option.case if_False)
      then show ?thesis
        unfolding ext sorted using "2" [unfolded bound, OF Some False] by simp
    qed
  qed
qed auto

lemma unat_slot: "s < 64 \<Longrightarrow> unat (of_nat s :: u64) = s"
  by (simp add: unsigned_of_nat take_bit_nat_eq_self_iff)

lemma slots_as_nat: "sorted_wrt (<) (map unat ss) \<longleftrightarrow> sorted_wrt (<) ss" for ss :: "u64 list"
proof -
  have "(\<lambda>x y :: u64. unat x < unat y) = (<)" by (simp add: fun_eq_iff word_less_nat_alt)
  then show ?thesis by (simp add: sorted_wrt_map)
qed

lemma slot_mask_iff:
  "slot_mask_from_json J input = Some m \<longleftrightarrow>
     is_array J input \<and>
     map (\<lambda>e. bounded_unsigned J e 63) (elements J input) = map (\<lambda>s. Some (of_nat s)) (mask_slots m)"
proof -
  have "read_slots J 0 0 True es = Some m \<longleftrightarrow>
      map (\<lambda>e. bounded_unsigned J e 63) es = map (\<lambda>s. Some (of_nat s)) (mask_slots m)" for es
  proof
    assume "read_slots J 0 0 True es = Some m"
    then obtain ss where ss: "map (\<lambda>e. bounded_unsigned J e 63) es = map Some ss" "sorted_wrt (<) ss"
      and m: "m = foldl (\<lambda>m s. m OR push_bit s 1) 0 (map unat ss)"
      by (auto simp: read_slots_iff)
    have "unat s < 64" if "s \<in> set ss" for s
    proof -
      from that have "Some s \<in> set (map (\<lambda>e. bounded_unsigned J e 63) es)" by (simp add: ss(1))
      then obtain e where "bounded_unsigned J e 63 = Some s" unfolding set_map by (metis imageE)
      then have "s \<le> 63" by (rule bounded_unsigned_bound)
      then show ?thesis by (simp add: word_le_nat_alt)
    qed
    then have "list_all (\<lambda>s. s < 64) (map unat ss)" by (simp add: list_all_iff)
    then have "set (map unat ss) = {i. bit m i}" by (auto simp: m bit_or_slots)
    then have "map unat ss = mask_slots m" using mask_slots_unique slots_as_nat ss(2) by blast
    then have "map (of_nat :: nat \<Rightarrow> u64) (map unat ss) = map of_nat (mask_slots m)" by simp
    then have "ss = map of_nat (mask_slots m)" by (simp add: comp_def)
    then show "map (\<lambda>e. bounded_unsigned J e 63) es = map (\<lambda>s. Some (of_nat s)) (mask_slots m)"
      using ss(1) by (simp add: comp_def)
  next
    let ?ss = "map of_nat (mask_slots m) :: u64 list"
    assume es: "map (\<lambda>e. bounded_unsigned J e 63) es = map (\<lambda>s. Some (of_nat s)) (mask_slots m)"
    have unat: "map unat ?ss = mask_slots m"
    proof -
      have "unat (of_nat s :: u64) = s" if "s \<in> set (mask_slots m)" for s
        using that by (intro unat_slot) (simp add: mask_slots_bits)
      then show ?thesis by (simp add: comp_def map_idI)
    qed
    have "sorted_wrt (<) (map unat ?ss)" unfolding unat using mask_slots_sorted strict_sorted_iff by blast
    then have "sorted_wrt (<) ?ss" unfolding slots_as_nat .
    moreover have "m = foldl (\<lambda>m s. m OR push_bit s 1) 0 (mask_slots m)"
    proof (rule bit_eqI)
      fix i
      have "list_all (\<lambda>s. s < 64) (mask_slots m)" by (auto simp: list_all_iff mask_slots_bits)
      then show "bit m i = bit (foldl (\<lambda>m s. m OR push_bit s 1) (0 :: u64) (mask_slots m)) i"
        by (simp add: bit_or_slots set_mask_slots)
    qed
    ultimately show "read_slots J 0 0 True es = Some m"
      unfolding read_slots_iff using es unat by (intro exI [of _ ?ss]) simp
  qed
  then show ?thesis by (simp add: slot_mask_from_json_def)
qed



text \<open>
  A mask has exactly one array: a JSON value is read as the mask \<open>m\<close> exactly when it
  is an array whose elements are, one by one and in ascending order, the slot numbers of \<open>m\<close>.
\<close>

lemma slot_mask_exact:
  "slot_mask_from_json J input = Some m \<longleftrightarrow>
     is_array J input \<and>
     map (\<lambda>e. bounded_unsigned J e 63) (elements J input) = map (\<lambda>s. Some (of_nat s)) (mask_slots m)"
  by (rule slot_mask_iff)

lemma slot_mask_written [simp]:
  assumes "json_laws J"
  shows "slot_mask_from_json J (slot_mask_json J m) = Some m"
proof -
  have "bounded_unsigned J (make_unsigned J (of_nat s)) 63 = Some (of_nat s)" if "s \<in> set (mask_slots m)" for s
  proof -
    have "s < 64" using that by (simp add: mask_slots_bits)
    then have "unat (of_nat s :: u64) = s" by (rule unat_slot)
    then have "(of_nat s :: u64) \<le> 63" using \<open>s < 64\<close> by (simp only: word_le_nat_alt) simp
    then show ?thesis using assms by simp
  qed
  then show ?thesis using assms by (simp add: slot_mask_iff slot_mask_json_def)
qed

end
