(* ===== verification/Performance_Codec.thy ===== *)
theory Performance_Codec
  imports Slot_Masks Performance_Rules
begin

text \<open>
  Reading and writing Performance events as JSON (\<open>project.cpp\<close>, \<open>performance_event_from_json\<close>
  and \<open>performance_event_json\<close>).
\<close>

section \<open>Names of filter types and phases\<close>

definition filter_type_from_string :: "string \<Rightarrow> performance_filter_type option" where
  "filter_type_from_string v =
     (if v = ''lp'' then Some FT_lp else if v = ''hp'' then Some FT_hp
      else if v = ''bp'' then Some FT_bp else None)"

fun filter_type_string :: "performance_filter_type \<Rightarrow> string" where
  "filter_type_string FT_lp = ''lp''"
| "filter_type_string FT_hp = ''hp''"
| "filter_type_string FT_bp = ''bp''"
| "filter_type_string (FT_unlisted _) = ''lp''"

definition filter_phase_from_string :: "string \<Rightarrow> performance_filter_phase option" where
  "filter_phase_from_string v =
     (if v = ''engage'' then Some FP_engage else if v = ''move'' then Some FP_move
      else if v = ''release'' then Some FP_release else None)"

fun filter_phase_string :: "performance_filter_phase \<Rightarrow> string" where
  "filter_phase_string FP_engage = ''engage''"
| "filter_phase_string FP_move = ''move''"
| "filter_phase_string FP_release = ''release''"
| "filter_phase_string (FP_unlisted _) = ''engage''"

section \<open>Reading an event\<close>

text \<open>
  Inside the try block a value that is out of range and an exception have the same effect: the
  common error after the block. Both are \<open>None\<close> here.
\<close>

definition unsigned_at :: "'j json_lib \<Rightarrow> 'j \<Rightarrow> string \<Rightarrow> u64 option" where
  "unsigned_at J j k = do { v \<leftarrow> at_key J j k; unsigned_value J v }"

definition bounded_at :: "'j json_lib \<Rightarrow> 'j \<Rightarrow> string \<Rightarrow> u64 \<Rightarrow> u64 option" where
  "bounded_at J j k m = do { v \<leftarrow> at_key J j k; bounded_unsigned J v m }"

definition sequence_at :: "'j json_lib \<Rightarrow> 'j \<Rightarrow> u64 option" where
  "sequence_at J j = do { v \<leftarrow> at_key J j ''input_sequence''; parse_input_sequence J v }"

definition mask_at :: "'j json_lib \<Rightarrow> 'j \<Rightarrow> string \<Rightarrow> u64 option" where
  "mask_at J j k = do { v \<leftarrow> at_key J j k; slot_mask_from_json J v }"

text \<open>A name at a key: only a string value is looked up.\<close>

definition name_at :: "'j json_lib \<Rightarrow> (string \<Rightarrow> 'a option) \<Rightarrow> 'j \<Rightarrow> string \<Rightarrow> 'a option" where
  "name_at J f j k =
     do { v \<leftarrow> at_key J j k; if is_string J v then do { s \<leftarrow> get_string J v; f s } else None }"

definition optional_sequence :: "'j json_lib \<Rightarrow> 'j \<Rightarrow> u64 option option" where
  "optional_sequence J input =
     (if \<not> has_key J input ''input_sequence'' then Some None
      else map_option Some (sequence_at J input))"

definition keys_with_sequence :: "'j json_lib \<Rightarrow> 'j \<Rightarrow> string list \<Rightarrow> bool" where
  "keys_with_sequence J input ks =
     (exact_object_keys J input ks \<or> exact_object_keys J input (ks @ [''input_sequence'']))"

definition event_of :: "performance_payload \<Rightarrow> u64 option \<Rightarrow> performance_event" where
  "event_of p s = \<lparr>payload = p, input_sequence = s\<rparr>"

definition read_pad_hit :: "'j json_lib \<Rightarrow> 'j \<Rightarrow> performance_event option" where
  "read_pad_hit J input =
     do { slot \<leftarrow> bounded_at J input ''slot'' (ucast kPerformancePadSlotMax);
          onset \<leftarrow> unsigned_at J input ''onset_tick'';
          duration \<leftarrow> unsigned_at J input ''duration_tick'';
          vel \<leftarrow> bounded_at J input ''velocity'' 127;
          sequence \<leftarrow> optional_sequence J input;
          if 0 < duration \<and> 0 < vel then
            Some (event_of (PadHit (ucast slot) onset duration (ucast vel)) sequence)
          else None }"

definition read_pattern_launch :: "'j json_lib \<Rightarrow> 'j \<Rightarrow> performance_event option" where
  "read_pattern_launch J input =
     do { slot \<leftarrow> bounded_at J input ''pattern_slot'' (ucast kPatternSlotMax);
          tick \<leftarrow> unsigned_at J input ''effective_tick'';
          sequence \<leftarrow> optional_sequence J input;
          Some (event_of (PatternLaunch (ucast slot) tick) sequence) }"

definition read_fx_value :: "'j json_lib \<Rightarrow> string \<Rightarrow> 'j \<Rightarrow> performance_event option" where
  "read_fx_value J kind input =
     do { fx \<leftarrow> bounded_at J input ''fx'' (ucast kFxCount - 1);
          val \<leftarrow> bounded_at J input ''value'' (ucast kFxValueMax);
          tick \<leftarrow> unsigned_at J input ''tick'';
          sequence \<leftarrow> optional_sequence J input;
          Some (event_of
            (if kind = ''fx_engage'' then FxEngage (ucast fx) (ucast val) tick
             else FxMove (ucast fx) (ucast val) tick) sequence) }"

definition read_fx_release :: "'j json_lib \<Rightarrow> 'j \<Rightarrow> performance_event option" where
  "read_fx_release J input =
     do { fx \<leftarrow> bounded_at J input ''fx'' (ucast kFxCount - 1);
          tick \<leftarrow> unsigned_at J input ''tick'';
          sequence \<leftarrow> optional_sequence J input;
          Some (event_of (FxRelease (ucast fx) tick) sequence) }"

definition read_hold :: "'j json_lib \<Rightarrow> string \<Rightarrow> 'j \<Rightarrow> performance_event option" where
  "read_hold J kind input =
     do { tick \<leftarrow> unsigned_at J input ''tick'';
          sequence \<leftarrow> optional_sequence J input;
          Some (event_of (if kind = ''hold_on'' then HoldOn tick else HoldOff tick) sequence) }"

definition read_filter_change :: "'j json_lib \<Rightarrow> 'j \<Rightarrow> performance_event option" where
  "read_filter_change J input =
     do { tick \<leftarrow> unsigned_at J input ''tick'';
          sequence \<leftarrow> sequence_at J input;
          cutoff \<leftarrow> bounded_at J input ''cutoff_hz'' (ucast kFilterCutoffHzMax);
          resonance \<leftarrow> bounded_at J input ''resonance_milli'' (ucast kFilterResonanceMilliMax);
          type \<leftarrow> name_at J filter_type_from_string input ''type'';
          phase \<leftarrow> name_at J filter_phase_from_string input ''phase'';
          if ucast kFilterCutoffHzMin \<le> cutoff then
            Some (event_of (FilterChange phase type (ucast cutoff) (ucast resonance) tick) (Some sequence))
          else None }"

definition read_pad_gates :: "'j json_lib \<Rightarrow> 'j \<Rightarrow> performance_event option" where
  "read_pad_gates J input =
     do { tick \<leftarrow> unsigned_at J input ''tick'';
          sequence \<leftarrow> sequence_at J input;
          muted_set \<leftarrow> mask_at J input ''muted_slots'';
          solo_set \<leftarrow> mask_at J input ''solo_slots'';
          Some (event_of (PadGatesSet muted_set solo_set tick) (Some sequence)) }"

text \<open>The chain of branches on the kind and the exact key set.\<close>

definition read_event_kind :: "'j json_lib \<Rightarrow> string \<Rightarrow> 'j \<Rightarrow> performance_event option" where
  "read_event_kind J kind input =
     (if kind = ''pad_hit'' \<and>
         keys_with_sequence J input [''kind'', ''slot'', ''onset_tick'', ''duration_tick'', ''velocity'']
      then read_pad_hit J input
      else if kind = ''pattern_launch'' \<and>
         keys_with_sequence J input [''kind'', ''pattern_slot'', ''effective_tick'']
      then read_pattern_launch J input
      else if (kind = ''fx_engage'' \<or> kind = ''fx_move'') \<and>
         keys_with_sequence J input [''kind'', ''fx'', ''value'', ''tick'']
      then read_fx_value J kind input
      else if kind = ''fx_release'' \<and> keys_with_sequence J input [''kind'', ''fx'', ''tick'']
      then read_fx_release J input
      else if (kind = ''hold_on'' \<or> kind = ''hold_off'') \<and> keys_with_sequence J input [''kind'', ''tick'']
      then read_hold J kind input
      else if kind = ''filter_change'' \<and>
         exact_object_keys J input
           [''kind'', ''tick'', ''input_sequence'', ''phase'', ''type'', ''cutoff_hz'', ''resonance_milli'']
      then read_filter_change J input
      else if kind = ''pad_gates_set'' \<and>
         exact_object_keys J input
           [''kind'', ''tick'', ''input_sequence'', ''muted_slots'', ''solo_slots'']
      then read_pad_gates J input
      else None)"

definition invalid_performance_event :: "string \<Rightarrow> 'a result" where
  "invalid_performance_event msg = failure (mk_error invalid_argument msg)"

definition performance_event_from_json :: "'j json_lib \<Rightarrow> 'j \<Rightarrow> performance_event result" where
  "performance_event_from_json J input =
     caught (mk_error invalid_argument ''performance event shape or value is invalid'')
       (if \<not> is_object J input \<or> \<not> has_key J input ''kind'' then
          Some (invalid_performance_event ''performance event must declare a supported kind'')
        else do {
          declared \<leftarrow> at_key J input ''kind'';
          if \<not> is_string J declared then
            Some (invalid_performance_event ''performance event must declare a supported kind'')
          else do {
            kind \<leftarrow> get_string J declared;
            map_option success (read_event_kind J kind input) } })"

section \<open>Writing an event\<close>

fun payload_members :: "'j json_lib \<Rightarrow> performance_payload \<Rightarrow> (string \<times> 'j) list" where
  "payload_members J (PadHit slot onset duration vel) =
     [(''duration_tick'', make_unsigned J duration), (''kind'', make_string J ''pad_hit''),
      (''onset_tick'', make_unsigned J onset), (''slot'', make_unsigned J (ucast slot)),
      (''velocity'', make_unsigned J (ucast vel))]"
| "payload_members J (PatternLaunch slot tick) =
     [(''effective_tick'', make_unsigned J tick), (''kind'', make_string J ''pattern_launch''),
      (''pattern_slot'', make_unsigned J (ucast slot))]"
| "payload_members J (FxEngage fx val tick) =
     [(''fx'', make_unsigned J (ucast fx)), (''kind'', make_string J ''fx_engage''),
      (''tick'', make_unsigned J tick), (''value'', make_unsigned J (ucast val))]"
| "payload_members J (FxMove fx val tick) =
     [(''fx'', make_unsigned J (ucast fx)), (''kind'', make_string J ''fx_move''),
      (''tick'', make_unsigned J tick), (''value'', make_unsigned J (ucast val))]"
| "payload_members J (FxRelease fx tick) =
     [(''fx'', make_unsigned J (ucast fx)), (''kind'', make_string J ''fx_release''),
      (''tick'', make_unsigned J tick)]"
| "payload_members J (HoldOn tick) =
     [(''kind'', make_string J ''hold_on''), (''tick'', make_unsigned J tick)]"
| "payload_members J (HoldOff tick) =
     [(''kind'', make_string J ''hold_off''), (''tick'', make_unsigned J tick)]"
| "payload_members J (FilterChange phase type cutoff resonance tick) =
     [(''cutoff_hz'', make_unsigned J (ucast cutoff)), (''kind'', make_string J ''filter_change''),
      (''phase'', make_string J (filter_phase_string phase)),
      (''resonance_milli'', make_unsigned J (ucast resonance)), (''tick'', make_unsigned J tick),
      (''type'', make_string J (filter_type_string type))]"
| "payload_members J (PadGatesSet muted_set solo_set tick) =
     [(''kind'', make_string J ''pad_gates_set''), (''muted_slots'', slot_mask_json J muted_set),
      (''solo_slots'', slot_mask_json J solo_set), (''tick'', make_unsigned J tick)]"

definition performance_event_json :: "'j json_lib \<Rightarrow> performance_event \<Rightarrow> 'j" where
  "performance_event_json J e =
     (let encoded = make_object J (payload_members J (payload e))
      in case input_sequence e of
           Some s \<Rightarrow> set_key J encoded ''input_sequence'' (make_string J (to_string s))
         | None \<Rightarrow> erase_key J encoded ''input_sequence'')"

section \<open>Round trip\<close>

text \<open>The events the JSON form can hold: those in range whose sequence is present where required.\<close>

fun needs_sequence :: "performance_payload \<Rightarrow> bool" where
  "needs_sequence (FilterChange _ _ _ _ _) = True"
| "needs_sequence (PadGatesSet _ _ _) = True"
| "needs_sequence _ = False"

definition encodable_event :: "performance_event \<Rightarrow> bool" where
  "encodable_event e =
     (payload_in_range True (payload e) \<and>
      (needs_sequence (payload e) \<longrightarrow> input_sequence e \<noteq> None) \<and> input_sequence e \<noteq> Some 0)"

definition event_members :: "'j json_lib \<Rightarrow> performance_event \<Rightarrow> (string \<times> 'j) list" where
  "event_members J e = payload_members J (payload e) @
     (case input_sequence e of None \<Rightarrow> [] | Some s \<Rightarrow> [(''input_sequence'', make_string J (to_string s))])"

lemma payload_keys: "distinct (map fst (payload_members J p)) \<and>
    ''input_sequence'' \<notin> set (map fst (payload_members J p))"
  by (cases p) simp_all

lemma event_keys: "distinct (map fst (event_members J e))"
  using payload_keys [of J "payload e"] by (simp add: event_members_def split: option.split)

lemma event_json_members:
  "json_laws J \<Longrightarrow> performance_event_json J e = make_object J (event_members J e)"
  using payload_keys [of J "payload e"]
  by (simp add: performance_event_json_def event_members_def Let_def split: option.split)

fun kind_text :: "performance_payload \<Rightarrow> string" where
  "kind_text (PadHit _ _ _ _) = ''pad_hit''"
| "kind_text (PatternLaunch _ _) = ''pattern_launch''"
| "kind_text (FxEngage _ _ _) = ''fx_engage''"
| "kind_text (FxMove _ _ _) = ''fx_move''"
| "kind_text (FxRelease _ _) = ''fx_release''"
| "kind_text (HoldOn _) = ''hold_on''"
| "kind_text (HoldOff _) = ''hold_off''"
| "kind_text (FilterChange _ _ _ _ _) = ''filter_change''"
| "kind_text (PadGatesSet _ _ _) = ''pad_gates_set''"

lemma kind_member: "map_of (event_members J e) ''kind'' = Some (make_string J (kind_text (payload e)))"
  by (cases "payload e") (simp_all add: event_members_def)

lemma keys_with_sequence_members:
  assumes "json_laws J" "length (payload_members J (payload e)) = length ks"
    "list_all (\<lambda>k. k \<in> set (map fst (payload_members J (payload e)))) ks"
  shows "keys_with_sequence J (make_object J (event_members J e)) ks"
  using assms event_keys [of J e]
  by (cases "input_sequence e")
    (auto simp: keys_with_sequence_def event_members_def list_all_iff simp del: set_map)

lemma exact_keys_members:
  assumes "json_laws J" "input_sequence e = Some v"
    "Suc (length (payload_members J (payload e))) = length ks"
    "list_all (\<lambda>k. k = ''input_sequence'' \<or> k \<in> set (map fst (payload_members J (payload e)))) ks"
  shows "exact_object_keys J (make_object J (event_members J e)) ks"
  using assms event_keys [of J e]
  by (auto simp: event_members_def list_all_iff simp del: set_map)

lemma payload_member:
  assumes "json_laws J" "k \<noteq> ''input_sequence''"
  shows "at_key J (make_object J (event_members J e)) k = map_of (payload_members J (payload e)) k"
  using assms event_keys [of J e]
  by (simp add: event_members_def map_add_def split: option.split)

lemma sequence_member:
  assumes "json_laws J" "input_sequence e = Some v" "v \<noteq> 0"
  shows "sequence_at J (make_object J (event_members J e)) = Some v"
proof -
  have "map_of (payload_members J (payload e)) ''input_sequence'' = None"
    using payload_keys [of J "payload e"] by (simp add: map_of_eq_None_iff)
  then show ?thesis
    using assms event_keys [of J e]
    by (simp add: sequence_at_def event_members_def parse_input_sequence_def map_add_def)
qed

lemma optional_sequence_member:
  assumes "json_laws J" "input_sequence e \<noteq> Some 0"
  shows "optional_sequence J (make_object J (event_members J e)) = Some (input_sequence e)"
proof (cases "input_sequence e")
  case None
  then show ?thesis
    using assms event_keys [of J e] payload_keys [of J "payload e"]
    by (simp add: optional_sequence_def event_members_def)
next
  case (Some v)
  then show ?thesis
    using assms event_keys [of J e] sequence_member [OF assms(1) Some]
    by (simp add: optional_sequence_def) (simp add: event_members_def)
qed

lemma narrow_wide [simp]:
  "ucast (ucast (x :: u8) :: u64) = x"
  "ucast (ucast (y :: u16) :: u64) = y"
  by (rule bit_word_eqI; simp add: bit_simps)+

lemma filter_names [simp]:
  "t \<in> {FT_lp, FT_hp, FT_bp} \<Longrightarrow> filter_type_from_string (filter_type_string t) = Some t"
  "p \<in> {FP_engage, FP_move, FP_release} \<Longrightarrow> filter_phase_from_string (filter_phase_string p) = Some p"
  by (auto simp: filter_type_from_string_def filter_phase_from_string_def)

lemma read_members:
  assumes "json_laws J" "k \<noteq> ''input_sequence''" "map_of (payload_members J (payload e)) k = Some v"
  shows "unsigned_at J (make_object J (event_members J e)) k = unsigned_value J v"
    "bounded_at J (make_object J (event_members J e)) k m = bounded_unsigned J v m"
    "mask_at J (make_object J (event_members J e)) k = slot_mask_from_json J v"
    "name_at J f (make_object J (event_members J e)) k =
       (if is_string J v then do { s \<leftarrow> get_string J v; f s } else None)"
  using payload_member [OF assms(1,2), of e] assms(3)
  by (simp_all add: unsigned_at_def bounded_at_def mask_at_def name_at_def)

lemma event_eq: "event_of (payload e) (input_sequence e) = e"
  by (simp add: event_of_def)

lemma narrow_bounds:
  "(x :: u8) \<le> 127 \<Longrightarrow> (ucast x :: u64) \<le> 127"
  "(x :: u8) \<le> 63 \<Longrightarrow> (ucast x :: u64) \<le> 63"
  "(x :: u8) \<le> 15 \<Longrightarrow> (ucast x :: u64) \<le> 15"
  "(x :: u8) < 8 \<Longrightarrow> (ucast x :: u64) \<le> 7"
  "1 \<le> (x :: u8) \<Longrightarrow> 0 < (ucast x :: u64)"
  "(y :: u16) \<le> 1000 \<Longrightarrow> (ucast y :: u64) \<le> 1000"
  "(y :: u16) \<le> 20000 \<Longrightarrow> (ucast y :: u64) \<le> 20000"
  "20 \<le> (y :: u16) \<Longrightarrow> 20 \<le> (ucast y :: u64)"
  "1 \<le> (t :: u64) \<Longrightarrow> 0 < t"
  by (simp_all add: word_le_nat_alt word_less_nat_alt unat_ucast_up)

lemma read_written_kind:
  assumes J: "json_laws J" and e: "encodable_event e"
  shows "read_event_kind J (kind_text (payload e)) (make_object J (event_members J e)) = Some e"
proof -
  have seq: "input_sequence e \<noteq> Some 0" using e by (simp add: encodable_event_def)
  note rules = read_members [OF J, where e = e] optional_sequence_member [OF J seq]
    keys_with_sequence_members [OF J, where e = e] J event_eq [of e] narrow_bounds
  show ?thesis
  proof (cases "payload e")
    case (PadHit slot onset duration vel)
    then show ?thesis
      using e event_eq [of e]
      by (simp add: encodable_event_def read_event_kind_def read_pad_hit_def rules)
  next
    case (PatternLaunch slot tick)
    then show ?thesis
      using e event_eq [of e]
      by (simp add: encodable_event_def read_event_kind_def read_pattern_launch_def rules)
  next
    case (FxEngage fx val tick)
    then show ?thesis
      using e event_eq [of e]
      by (simp add: encodable_event_def read_event_kind_def read_fx_value_def rules)
  next
    case (FxMove fx val tick)
    then show ?thesis
      using e event_eq [of e]
      by (simp add: encodable_event_def read_event_kind_def read_fx_value_def rules)
  next
    case (FxRelease fx tick)
    then show ?thesis
      using e event_eq [of e]
      by (simp add: encodable_event_def read_event_kind_def read_fx_release_def rules)
  next
    case (HoldOn tick)
    then show ?thesis
      using event_eq [of e] by (simp add: read_event_kind_def read_hold_def rules)
  next
    case (HoldOff tick)
    then show ?thesis
      using event_eq [of e] by (simp add: read_event_kind_def read_hold_def rules)
  next
    case (FilterChange phase type cutoff resonance tick)
    then obtain v where v: "input_sequence e = Some v" "v \<noteq> 0"
      using e seq by (auto simp: encodable_event_def)
    then show ?thesis
      using FilterChange e event_eq [of e] sequence_member [OF J v]
      by (simp add: encodable_event_def read_event_kind_def read_filter_change_def rules
          exact_keys_members [OF J v(1)])
  next
    case (PadGatesSet m s tick)
    then obtain v where v: "input_sequence e = Some v" "v \<noteq> 0"
      using e seq by (auto simp: encodable_event_def)
    then show ?thesis
      using PadGatesSet event_eq [of e] sequence_member [OF J v]
      by (simp add: read_event_kind_def read_pad_gates_def rules exact_keys_members [OF J v(1)])
  qed
qed

lemma event_json_readable:
  assumes "json_laws J" "encodable_event e"
  shows "performance_event_from_json J (performance_event_json J e) = Inr e"
  using assms read_written_kind [OF assms] kind_member [of J e] event_keys [of J e]
    map_of_SomeD [OF kind_member [of J e]]
  by (auto simp: performance_event_from_json_def event_json_members caught_def rev_image_eqI)

text \<open>
  Performance events survive their JSON form: over any JSON library with the
  documented behaviour, reading back what was written for an event in range gives the same event,
  with or without an input sequence.
\<close>

lemma event_json_roundtrip:
  assumes "json_laws J" "encodable_event e"
  shows "performance_event_from_json J (performance_event_json J e) = Inr e"
  using assms by (rule event_json_readable)

section \<open>Safety of the reader\<close>

lemma bounded_at_bound: "bounded_at J j k m = Some v \<Longrightarrow> v \<le> m"
  by (auto simp: bounded_at_def bind_eq_Some_conv dest: bounded_unsigned_bound)

lemma bounded_narrow:
  "v \<le> 127 \<Longrightarrow> 0 < v \<Longrightarrow> 1 \<le> (ucast (v :: u64) :: u8) \<and> (ucast v :: u8) \<le> 127"
  "v \<le> 63 \<Longrightarrow> (ucast (v :: u64) :: u8) \<le> 63"
  "v \<le> 15 \<Longrightarrow> (ucast (v :: u64) :: u8) \<le> 15"
  "v \<le> 7 \<Longrightarrow> (ucast (v :: u64) :: u8) < 8"
  "v \<le> 1000 \<Longrightarrow> (ucast (v :: u64) :: u16) \<le> 1000"
  "v \<le> 20000 \<Longrightarrow> 20 \<le> v \<Longrightarrow> 20 \<le> (ucast (v :: u64) :: u16) \<and> (ucast v :: u16) \<le> 20000"
  by (simp_all add: word_le_nat_alt word_less_nat_alt unsigned_ucast_eq take_bit_nat_def)

lemma sequence_at_positive: "sequence_at J j = Some v \<Longrightarrow> v \<noteq> 0"
  by (auto simp: sequence_at_def parse_input_sequence_def parse_sequence_text_iff bind_eq_Some_conv
      split: if_splits)

lemma optional_sequence_positive: "optional_sequence J j = Some s \<Longrightarrow> s \<noteq> Some 0"
  by (auto simp: optional_sequence_def dest: sequence_at_positive split: if_splits)

lemma filter_name_ok:
  "filter_type_from_string n = Some t \<Longrightarrow> t \<in> {FT_lp, FT_hp, FT_bp}"
  "filter_phase_from_string n = Some p \<Longrightarrow> p \<in> {FP_engage, FP_move, FP_release}"
  by (auto simp: filter_type_from_string_def filter_phase_from_string_def split: if_splits)

lemma name_at_ok:
  "name_at J filter_type_from_string j k = Some t \<Longrightarrow> t \<in> {FT_lp, FT_hp, FT_bp}"
  "name_at J filter_phase_from_string j k = Some p \<Longrightarrow> p \<in> {FP_engage, FP_move, FP_release}"
  by (auto simp: name_at_def bind_eq_Some_conv dest: filter_name_ok split: if_splits)

lemmas reader_facts = bounded_at_bound bounded_narrow sequence_at_positive optional_sequence_positive

lemma read_event_encodable:
  assumes "read_event_kind J kind input = Some e"
  shows "encodable_event e"
proof -
  have "encodable_event e" if "read_pad_hit J input = Some e"
    using that by (auto simp: read_pad_hit_def bind_eq_Some_conv encodable_event_def event_of_def word_one_le
        dest!: reader_facts split: if_splits)
  moreover have "encodable_event e" if "read_pattern_launch J input = Some e"
    using that by (auto simp: read_pattern_launch_def bind_eq_Some_conv encodable_event_def event_of_def
        dest!: reader_facts)
  moreover have "encodable_event e" if "read_fx_value J kind input = Some e"
    using that by (auto simp: read_fx_value_def bind_eq_Some_conv encodable_event_def event_of_def
        dest!: reader_facts split: if_splits)
  moreover have "encodable_event e" if "read_fx_release J input = Some e"
    using that by (auto simp: read_fx_release_def bind_eq_Some_conv encodable_event_def event_of_def
        dest!: reader_facts)
  moreover have "encodable_event e" if "read_hold J kind input = Some e"
    using that by (auto simp: read_hold_def bind_eq_Some_conv encodable_event_def event_of_def
        dest!: reader_facts split: if_splits)
  moreover have "encodable_event e" if "read_filter_change J input = Some e"
    using that bounded_narrow(6)
    by (auto simp: read_filter_change_def bind_eq_Some_conv encodable_event_def event_of_def
        dest!: bounded_at_bound sequence_at_positive name_at_ok bounded_narrow(5) split: if_splits)
  moreover have "encodable_event e" if "read_pad_gates J input = Some e"
    using that by (auto simp: read_pad_gates_def bind_eq_Some_conv encodable_event_def event_of_def
        dest!: sequence_at_positive)
  ultimately show ?thesis
    using assms by (auto simp: read_event_kind_def split: if_splits)
qed

text \<open>
  The event reader is total and safe: whatever the JSON value and whatever its accessors
  throw, it returns either an event whose fields are all in range, with an input sequence where the
  kind requires one and never the sequence 0, or an error of the kind \<open>invalid_argument\<close>.
\<close>

lemma event_reader_safe:
  "case performance_event_from_json J input of
     Inl err \<Rightarrow> err_code err = invalid_argument
   | Inr e \<Rightarrow> encodable_event e"
  by (auto simp: performance_event_from_json_def caught_def invalid_performance_event_def mk_error_def
      bind_eq_Some_conv bind_eq_None_conv dest: read_event_encodable split: option.split sum.split if_splits)

section \<open>Instances\<close>

definition demo_gates :: performance_event where
  "demo_gates = event_of (PadGatesSet 9 (- 1) 960) (Some 12)"

lemma event_json_roundtrip_witness:
  "performance_event_from_json documents (performance_event_json documents demo_gates) = Inr demo_gates"
proof (rule event_json_roundtrip [OF documents_laws])
  show "encodable_event demo_gates" by code_simp
qed

end
