(* ===== verification/Lineage_Codec.thy ===== *)
theory Lineage_Codec
  imports Json_Library Lineage
begin

text \<open>
  Reading and writing Asset lineage as JSON (\<open>project.cpp\<close>, \<open>asset_lineage_from_json\<close> and
  \<open>asset_lineage_json\<close>).
\<close>

section \<open>Reading\<close>

definition kind_declared :: "'j json_lib \<Rightarrow> 'j \<Rightarrow> bool option" where
  "kind_declared J j =
     (if \<not> is_object J j \<or> \<not> has_key J j ''kind'' then Some False
      else do { k \<leftarrow> at_key J j ''kind''; Some (is_string J k) })"

definition is_text :: "'j json_lib \<Rightarrow> 'j \<Rightarrow> string \<Rightarrow> bool" where
  "is_text J j s = (is_string J j \<and> get_string J j = Some s)"

abbreviation "bad_source \<equiv> Some (invalid_asset_lineage ''asset Lineage source shape or value is invalid'')"
abbreviation "bad_integer \<equiv> Some (invalid_asset_lineage ''asset Lineage integer value is invalid'')"
abbreviation "bad_derivation \<equiv> Some (invalid_asset_lineage ''asset Lineage derivation shape or value is invalid'')"

definition read_artifact_source :: "'j json_lib \<Rightarrow> 'j \<Rightarrow> asset_lineage_source result option" where
  "read_artifact_source J source =
     (if \<not> exact_object_keys J source [''kind'', ''artifact_sha256'', ''project_revision''] then bad_source
      else do {
        strings \<leftarrow> strings_at J source [''artifact_sha256''];
        if \<not> strings then bad_source
        else do {
          revision \<leftarrow> at_key J source ''project_revision'';
          case unsigned_value J revision of
            None \<Rightarrow> bad_integer
          | Some project_revision \<Rightarrow> do {
              sha \<leftarrow> string_at J source ''artifact_sha256'';
              Some (Inr (ArtifactSource
                \<lparr>source_artifact_sha256 = sha, source_project_revision = project_revision\<rparr>)) } } })"

definition read_soundset_source :: "'j json_lib \<Rightarrow> 'j \<Rightarrow> asset_lineage_source result option" where
  "read_soundset_source J source =
     (if \<not> exact_object_keys J source
         [''kind'', ''set_id'', ''set_version'', ''manifest_sha256'', ''slot_index'', ''artifact_sha256'']
      then bad_source
      else do {
        strings \<leftarrow> strings_at J source [''set_id'', ''set_version'', ''manifest_sha256'', ''artifact_sha256''];
        if \<not> strings then bad_source
        else do {
          index \<leftarrow> at_key J source ''slot_index'';
          case bounded_unsigned J index (ucast kSoundSetSlotCount - 1) of
            None \<Rightarrow> bad_integer
          | Some slot_index \<Rightarrow> do {
              set \<leftarrow> string_at J source ''set_id'';
              version \<leftarrow> string_at J source ''set_version'';
              manifest \<leftarrow> string_at J source ''manifest_sha256'';
              sha \<leftarrow> string_at J source ''artifact_sha256'';
              Some (Inr (SoundSetSource
                \<lparr>set_id = set, set_version = version, manifest_sha256 = manifest,
                 set_slot_index = ucast slot_index, set_artifact_sha256 = sha\<rparr>)) } } })"

definition read_source :: "'j json_lib \<Rightarrow> string \<Rightarrow> 'j \<Rightarrow> asset_lineage_source result option" where
  "read_source J kind source =
     (if kind = ''asset_artifact'' then read_artifact_source J source
      else if kind = ''soundset'' then read_soundset_source J source
      else bad_source)"

definition read_resample :: "'j json_lib \<Rightarrow> 'j \<Rightarrow> asset_lineage_derivation result option" where
  "read_resample J derivation =
     (if \<not> exact_object_keys J derivation [''kind'', ''range'', ''performance_id''] then bad_derivation
      else do {
        strings \<leftarrow> strings_at J derivation [''performance_id''];
        if \<not> strings then bad_derivation
        else do {
          range \<leftarrow> at_key J derivation ''range'';
          if \<not> exact_object_keys J range [''start_frame'', ''end_frame''] then
            Some (invalid_asset_lineage ''asset Lineage range shape is invalid'')
          else do {
            start_value \<leftarrow> at_key J range ''start_frame'';
            end_value \<leftarrow> at_key J range ''end_frame'';
            case (unsigned_value J start_value, unsigned_value J end_value) of
              (Some start_frame, Some end_frame) \<Rightarrow> do {
                performance \<leftarrow> string_at J derivation ''performance_id'';
                Some (Inr (Resample
                  \<lparr>resample_range = \<lparr>range_start_frame = start_frame, range_end_frame = end_frame\<rparr>,
                   resample_performance_id = performance\<rparr>)) }
            | _ \<Rightarrow> bad_integer } } })"

text \<open>The lambda \<open>identity\<close>: a wrong shape throws.\<close>

definition read_identity :: "'j json_lib \<Rightarrow> 'j \<Rightarrow> implementation_lineage_identity option" where
  "read_identity J v =
     (if \<not> exact_object_keys J v [''id'', ''version'', ''artifact_sha256''] then None
      else do {
        i \<leftarrow> string_at J v ''id'';
        version \<leftarrow> string_at J v ''version'';
        sha \<leftarrow> string_at J v ''artifact_sha256'';
        Some \<lparr>impl_id = i, impl_version = version, impl_artifact_sha256 = sha\<rparr> })"

definition read_model_identity :: "'j json_lib \<Rightarrow> 'j \<Rightarrow> implementation_lineage_identity option option" where
  "read_model_identity J v =
     (if is_null J v then Some None else map_option Some (read_identity J v))"

definition adoption_shape :: "'j json_lib \<Rightarrow> 'j \<Rightarrow> 'j \<Rightarrow> 'j \<Rightarrow> 'j \<Rightarrow> bool option" where
  "adoption_shape J derivation capability output recipe =
     (if \<not> exact_object_keys J derivation
           [''kind'', ''capability'', ''provider'', ''model_identity'', ''parameters_sha256'',
            ''attempt_id'', ''source_asset_id'', ''output_artifact'', ''recipe''] \<or>
         \<not> exact_object_keys J capability [''id'', ''contract'', ''version''] \<or>
         \<not> exact_object_keys J output [''sha256'', ''media_type'', ''byte_length''] \<or>
         \<not> exact_object_keys J recipe [''kind'', ''start_frame'', ''end_frame'', ''frame_rate'']
      then Some False
      else do { k \<leftarrow> at_key J recipe ''kind''; Some (is_text J k ''slice_interval_v1'') })"

definition read_adoption :: "'j json_lib \<Rightarrow> 'j \<Rightarrow> asset_lineage_derivation result option" where
  "read_adoption J derivation =
     do {
       capability \<leftarrow> at_key J derivation ''capability'';
       out \<leftarrow> at_key J derivation ''output_artifact'';
       recipe \<leftarrow> at_key J derivation ''recipe'';
       shape \<leftarrow> adoption_shape J derivation capability out recipe;
       if \<not> shape then Some (invalid_asset_lineage ''capability adoption shape is invalid'')
       else do {
         start_value \<leftarrow> at_key J recipe ''start_frame'';
         end_value \<leftarrow> at_key J recipe ''end_frame'';
         rate_value \<leftarrow> at_key J recipe ''frame_rate'';
         length_value \<leftarrow> at_key J out ''byte_length'';
         case (unsigned_value J start_value, unsigned_value J end_value,
               bounded_unsigned J rate_value 48000, unsigned_value J length_value) of
           (Some start_frame, Some end_frame, Some rate, Some bytes) \<Rightarrow> do {
             model_value \<leftarrow> at_key J derivation ''model_identity'';
             model \<leftarrow> read_model_identity J model_value;
             cap \<leftarrow> string_at J capability ''id'';
             con \<leftarrow> string_at J capability ''contract'';
             version \<leftarrow> string_at J capability ''version'';
             provider_value \<leftarrow> at_key J derivation ''provider'';
             provider \<leftarrow> read_identity J provider_value;
             parameters \<leftarrow> string_at J derivation ''parameters_sha256'';
             attempt \<leftarrow> string_at J derivation ''attempt_id'';
             asset \<leftarrow> string_at J derivation ''source_asset_id'';
             sha \<leftarrow> string_at J out ''sha256'';
             media \<leftarrow> string_at J out ''media_type'';
             Some (Inr (CapabilityAdoption
               \<lparr>adopt_capability = \<lparr>cap_id = cap, cap_contract = con, cap_version = version\<rparr>,
                adopt_provider = provider, adopt_model_identity = model,
                adopt_parameters_sha256 = parameters, adopt_attempt_id = attempt,
                adopt_source_asset_id = asset,
                adopt_output_artifact =
                  \<lparr>art_sha256 = sha, art_media_type = media, art_byte_length = bytes\<rparr>,
                adopt_recipe =
                  \<lparr>slice_start_frame = start_frame, slice_end_frame = end_frame,
                   slice_frame_rate = ucast rate\<rparr>\<rparr>)) }
         | _ \<Rightarrow> Some (invalid_asset_lineage ''capability adoption integer is invalid'') } }"

definition read_derivation :: "'j json_lib \<Rightarrow> string \<Rightarrow> 'j \<Rightarrow> asset_lineage_derivation result option" where
  "read_derivation J kind derivation =
     (if kind = ''resample'' then read_resample J derivation
      else if kind = ''capability_adoption'' then read_adoption J derivation
      else if kind = ''soundset_install'' then
        (if \<not> exact_object_keys J derivation [''kind''] then bad_derivation
         else Some (Inr SoundSetInstall))
      else bad_derivation)"

text \<open>The check that both kinds are declared stops at the first part that is not.\<close>

definition kinds_declared :: "'j json_lib \<Rightarrow> 'j \<Rightarrow> 'j \<Rightarrow> bool option" where
  "kinds_declared J source derivation =
     do { s \<leftarrow> kind_declared J source; if \<not> s then Some False else kind_declared J derivation }"

text \<open>The body of the try block.\<close>

definition read_asset_lineage :: "'j json_lib \<Rightarrow> 'j \<Rightarrow> asset_lineage result option" where
  "read_asset_lineage J input =
       (if \<not> exact_object_keys J input [''source'', ''derivation''] then
          Some (invalid_asset_lineage
            ''asset Lineage must contain exact source and derivation objects'')
        else do {
          source \<leftarrow> at_key J input ''source'';
          derivation \<leftarrow> at_key J input ''derivation'';
          declared \<leftarrow> kinds_declared J source derivation;
          if \<not> declared then
            Some (invalid_asset_lineage
              ''asset Lineage must declare a supported source and derivation kind'')
          else do {
            source_kind \<leftarrow> string_at J source ''kind'';
            derivation_kind \<leftarrow> string_at J derivation ''kind'';
            then_read (read_source J source_kind source) (\<lambda>parsed_source.
              then_read (read_derivation J derivation_kind derivation) (\<lambda>parsed_derivation.
                let lineage = \<lparr>lineage_source = parsed_source, lineage_derivation = parsed_derivation\<rparr>
                in Some (case validate_asset_lineage lineage of
                     Inl e \<Rightarrow> failure e
                   | Inr _ \<Rightarrow> success lineage))) } })"

definition asset_lineage_from_json :: "'j json_lib \<Rightarrow> 'j \<Rightarrow> asset_lineage result" where
  "asset_lineage_from_json J input =
     caught (mk_error invalid_argument ''asset Lineage shape or value is invalid'')
       (read_asset_lineage J input)"

section \<open>Writing\<close>

fun lineage_source_json :: "'j json_lib \<Rightarrow> asset_lineage_source \<Rightarrow> 'j" where
  "lineage_source_json J (ArtifactSource src) =
     make_object J
       [(''kind'', make_string J ''asset_artifact''),
        (''artifact_sha256'', make_string J (source_artifact_sha256 src)),
        (''project_revision'', make_unsigned J (source_project_revision src))]"
| "lineage_source_json J (SoundSetSource src) =
     make_object J
       [(''kind'', make_string J ''soundset''), (''set_id'', make_string J (set_id src)),
        (''set_version'', make_string J (set_version src)),
        (''manifest_sha256'', make_string J (manifest_sha256 src)),
        (''slot_index'', make_unsigned J (ucast (set_slot_index src))),
        (''artifact_sha256'', make_string J (set_artifact_sha256 src))]"

definition identity_json :: "'j json_lib \<Rightarrow> implementation_lineage_identity \<Rightarrow> 'j" where
  "identity_json J v =
     make_object J
       [(''id'', make_string J (impl_id v)), (''version'', make_string J (impl_version v)),
        (''artifact_sha256'', make_string J (impl_artifact_sha256 v))]"

fun lineage_derivation_json :: "'j json_lib \<Rightarrow> asset_lineage_derivation \<Rightarrow> 'j" where
  "lineage_derivation_json J (Resample r) =
     make_object J
       [(''kind'', make_string J ''resample''),
        (''range'', make_object J
           [(''start_frame'', make_unsigned J (range_start_frame (resample_range r))),
            (''end_frame'', make_unsigned J (range_end_frame (resample_range r)))]),
        (''performance_id'', make_string J (resample_performance_id r))]"
| "lineage_derivation_json J (CapabilityAdoption a) =
     make_object J
       [(''kind'', make_string J ''capability_adoption''),
        (''capability'', make_object J
           [(''id'', make_string J (cap_id (adopt_capability a))),
            (''contract'', make_string J (cap_contract (adopt_capability a))),
            (''version'', make_string J (cap_version (adopt_capability a)))]),
        (''provider'', identity_json J (adopt_provider a)),
        (''model_identity'', case adopt_model_identity a of
             None \<Rightarrow> make_null J | Some m \<Rightarrow> identity_json J m),
        (''parameters_sha256'', make_string J (adopt_parameters_sha256 a)),
        (''attempt_id'', make_string J (adopt_attempt_id a)),
        (''source_asset_id'', make_string J (adopt_source_asset_id a)),
        (''output_artifact'', make_object J
           [(''sha256'', make_string J (art_sha256 (adopt_output_artifact a))),
            (''media_type'', make_string J (art_media_type (adopt_output_artifact a))),
            (''byte_length'', make_unsigned J (art_byte_length (adopt_output_artifact a)))]),
        (''recipe'', make_object J
           [(''kind'', make_string J ''slice_interval_v1''),
            (''start_frame'', make_unsigned J (slice_start_frame (adopt_recipe a))),
            (''end_frame'', make_unsigned J (slice_end_frame (adopt_recipe a))),
            (''frame_rate'', make_unsigned J (ucast (slice_frame_rate (adopt_recipe a))))])]"
| "lineage_derivation_json J SoundSetInstall =
     make_object J [(''kind'', make_string J ''soundset_install'')]"

definition asset_lineage_json :: "'j json_lib \<Rightarrow> asset_lineage \<Rightarrow> 'j" where
  "asset_lineage_json J l =
     make_object J
       [(''source'', lineage_source_json J (lineage_source l)),
        (''derivation'', lineage_derivation_json J (lineage_derivation l))]"

section \<open>Round trip\<close>

fun source_kind_text :: "asset_lineage_source \<Rightarrow> string" where
  "source_kind_text (ArtifactSource _) = ''asset_artifact''"
| "source_kind_text (SoundSetSource _) = ''soundset''"

fun derivation_kind_text :: "asset_lineage_derivation \<Rightarrow> string" where
  "derivation_kind_text (Resample _) = ''resample''"
| "derivation_kind_text (CapabilityAdoption _) = ''capability_adoption''"
| "derivation_kind_text SoundSetInstall = ''soundset_install''"

lemma ucast_u8_u64 [simp]: "ucast (ucast (x :: u8) :: u64) = x"
  by (rule bit_word_eqI) (simp add: bit_simps)

lemma ucast_u32_u64 [simp]: "ucast (ucast (x :: u32) :: u64) = x"
  by (rule bit_word_eqI) (simp add: bit_simps)

lemma read_source_written:
  assumes "json_laws J" "is_ok (validate_lineage_source src)"
  shows "read_source J (source_kind_text src) (lineage_source_json J src) = Some (Inr src)"
proof (cases src)
  case (ArtifactSource a)
  then show ?thesis
    using assms(1) by (simp add: read_source_def read_artifact_source_def string_at_def)
next
  case (SoundSetSource s)
  have "set_slot_index s < kSoundSetSlotCount"
    using assms(2) SoundSetSource by (auto simp: invalid_asset_lineage_def split: if_splits)
  then have "(ucast (set_slot_index s) :: u64) \<le> ucast kSoundSetSlotCount - 1"
    by (simp add: word_less_nat_alt word_le_nat_alt unat_ucast_up)
  with SoundSetSource show ?thesis
    using assms(1) by (simp add: read_source_def read_soundset_source_def string_at_def)
qed

lemma read_identity_written [simp]:
  "json_laws J \<Longrightarrow> read_identity J (identity_json J v) = Some v"
  by (simp add: read_identity_def identity_json_def string_at_def)

lemma read_model_written [simp]:
  "json_laws J \<Longrightarrow> read_model_identity J (case m of None \<Rightarrow> make_null J | Some v \<Rightarrow> identity_json J v) = Some m"
  by (cases m) (simp_all add: read_model_identity_def, simp add: identity_json_def)

lemma read_derivation_written:
  assumes "json_laws J" "is_ok (validate_lineage_derivation src d)"
  shows "read_derivation J (derivation_kind_text d) (lineage_derivation_json J d) = Some (Inr d)"
proof (cases d)
  case (Resample r)
  then show ?thesis
    using assms(1) by (simp add: read_derivation_def read_resample_def string_at_def)
next
  case (CapabilityAdoption a)
  have "slice_frame_rate (adopt_recipe a) = 44100 \<or> slice_frame_rate (adopt_recipe a) = 48000"
    using assms(2) CapabilityAdoption
    by (auto simp: adoption_rejected_def invalid_asset_lineage_def split: if_splits)
  then have "(ucast (slice_frame_rate (adopt_recipe a)) :: u64) \<le> 48000" by auto
  with CapabilityAdoption show ?thesis
    using assms(1)
    by (simp add: read_derivation_def read_adoption_def adoption_shape_def string_at_def is_text_def)
next
  case SoundSetInstall
  then show ?thesis using assms(1) by (simp add: read_derivation_def)
qed

lemma written_source_kind:
  assumes "json_laws J"
  shows "kind_declared J (lineage_source_json J src) = Some True"
    "string_at J (lineage_source_json J src) ''kind'' = Some (source_kind_text src)"
  using assms by (cases src; simp add: kind_declared_def string_at_def)+

lemma written_derivation_kind:
  assumes "json_laws J"
  shows "kind_declared J (lineage_derivation_json J d) = Some True"
    "string_at J (lineage_derivation_json J d) ''kind'' = Some (derivation_kind_text d)"
  using assms by (cases d; simp add: kind_declared_def string_at_def)+

lemma lineage_json_readable:
  assumes "json_laws J" "is_ok (validate_asset_lineage l)"
  shows "asset_lineage_from_json J (asset_lineage_json J l) = Inr l"
proof -
  have ok: "is_ok (validate_lineage_source (lineage_source l))"
    "is_ok (validate_lineage_derivation (lineage_source l) (lineage_derivation l))"
    using assms(2) by (simp_all add: validate_asset_lineage_ok)
  have "validate_asset_lineage l = Inr ()" using assms(2) by (simp add: is_ok_unit_iff)
  then have "(case validate_asset_lineage \<lparr>lineage_source = lineage_source l,
      lineage_derivation = lineage_derivation l\<rparr> of Inl e \<Rightarrow> failure e
    | Inr _ \<Rightarrow> success \<lparr>lineage_source = lineage_source l, lineage_derivation = lineage_derivation l\<rparr>) = Inr l"
    by (cases l) simp
  then show ?thesis
    using assms(1) read_source_written [OF assms(1) ok(1)] read_derivation_written [OF assms(1) ok(2)]
      written_source_kind [OF assms(1)] written_derivation_kind [OF assms(1)]
    by (simp add: asset_lineage_from_json_def read_asset_lineage_def asset_lineage_json_def kinds_declared_def caught_def Let_def)
qed

text \<open>
  Lineage survives its JSON form: over any JSON library with the documented behaviour,
  reading back what was written for a valid lineage gives the same lineage.
\<close>

lemma lineage_json_roundtrip:
  assumes "json_laws J" "is_ok (validate_asset_lineage l)"
  shows "asset_lineage_from_json J (asset_lineage_json J l) = Inr l"
  using assms by (rule lineage_json_readable)

section \<open>Safety of the reader\<close>

definition invalid_only :: "'a result option \<Rightarrow> bool" where
  "invalid_only r = (\<forall>e. r = Some (Inl e) \<longrightarrow> err_code e = invalid_argument)"

lemma invalid_only_simps [simp]:
  "invalid_only None" "invalid_only (Some (Inr v))" "invalid_only (Some (invalid_asset_lineage m))"
  by (simp_all add: invalid_only_def invalid_asset_lineage_def mk_error_def)

lemma invalid_only_bind: "(\<And>x. invalid_only (f x)) \<Longrightarrow> invalid_only (Option.bind r f)"
  by (cases r) simp_all

lemma validate_lineage_error: "invalid_only (Some (validate_asset_lineage l))"
proof -
  have "invalid_only (Some (validate_lineage_source src))" for src
    by (cases src) (simp_all add: invalid_asset_lineage_def mk_error_def invalid_only_def)
  moreover have "invalid_only (Some (validate_lineage_derivation src d))" for src d
    by (cases d) (simp_all add: invalid_asset_lineage_def mk_error_def invalid_only_def)
  ultimately show ?thesis
    by (auto simp: validate_asset_lineage_def invalid_only_def split: sum.split)
qed

lemma read_source_error: "invalid_only (read_source J k j)"
  by (simp add: read_source_def read_artifact_source_def read_soundset_source_def invalid_only_bind
      split: option.split)

lemma read_derivation_error: "invalid_only (read_derivation J k j)"
  by (simp add: read_derivation_def read_resample_def read_adoption_def invalid_only_bind
      split: option.split)

lemma then_read_error:
  "invalid_only r \<Longrightarrow> (\<And>x. invalid_only (f x)) \<Longrightarrow> invalid_only (then_read r f)"
  by (cases r) (auto simp: invalid_only_def then_read_def split: sum.split)

lemma checked_lineage_error:
  "invalid_only (Some (case validate_asset_lineage l of Inl e \<Rightarrow> failure e | Inr _ \<Rightarrow> success x))"
  using validate_lineage_error [of l] by (auto simp: invalid_only_def split: sum.split)

lemma read_lineage_error: "invalid_only (read_asset_lineage J input)"
  unfolding read_asset_lineage_def Let_def
  by (simp add: invalid_only_bind then_read_error read_source_error read_derivation_error
      checked_lineage_error)

lemma checked_lineage_success:
  "(case validate_asset_lineage l of Inl e \<Rightarrow> failure e | Inr _ \<Rightarrow> success x) = Inr y \<longleftrightarrow>
     y = x \<and> is_ok (validate_asset_lineage l)"
  by (auto split: sum.split)

lemma read_lineage_valid:
  "read_asset_lineage J input = Some (Inr l) \<Longrightarrow> is_ok (validate_asset_lineage l)"
  unfolding read_asset_lineage_def Let_def
  by (auto simp: bind_eq_Some_conv then_read_success invalid_asset_lineage_def
      checked_lineage_success split: if_splits)

text \<open>
  The lineage reader is total and safe: whatever the JSON value and whatever its
  accessors throw, it returns either a lineage that passes validation or an error of the kind
  \<open>invalid_argument\<close>.
\<close>

lemma lineage_reader_safe:
  "case asset_lineage_from_json J input of
     Inl e \<Rightarrow> err_code e = invalid_argument
   | Inr l \<Rightarrow> validate_asset_lineage l = Inr ()"
  using read_lineage_error [of J input] read_lineage_valid [of J input]
  by (auto simp: asset_lineage_from_json_def caught_def invalid_only_def mk_error_def is_ok_unit_iff
      split: option.split sum.split)

section \<open>Instances\<close>

definition demo_lineage :: asset_lineage where
  "demo_lineage =
     \<lparr>lineage_source = ArtifactSource
        \<lparr>source_artifact_sha256 = replicate 64 (CHR ''a''), source_project_revision = 7\<rparr>,
      lineage_derivation = CapabilityAdoption
        \<lparr>adopt_capability =
           \<lparr>cap_id = ''sample.slice.v1'', cap_contract = ''lmdj.capability.v2'', cap_version = ''1.0.0''\<rparr>,
         adopt_provider = \<lparr>impl_id = ''slicer'', impl_version = ''1.2.0'',
           impl_artifact_sha256 = replicate 64 (CHR ''b'')\<rparr>,
         adopt_model_identity = None, adopt_parameters_sha256 = replicate 64 (CHR ''c''),
         adopt_attempt_id = ''attempt-1'',
         adopt_source_asset_id = ''0198b8e2-0000-4000-8000-0000000000a1'',
         adopt_output_artifact = \<lparr>art_sha256 = replicate 64 (CHR ''d''),
           art_media_type = ''application/json'', art_byte_length = 512\<rparr>,
         adopt_recipe = \<lparr>slice_start_frame = 0, slice_end_frame = 44100, slice_frame_rate = 44100\<rparr>\<rparr>\<rparr>"

lemma demo_lineage_valid: "is_ok (validate_asset_lineage demo_lineage)"
  by code_simp

lemma lineage_json_roundtrip_witness:
  "asset_lineage_from_json documents (asset_lineage_json documents demo_lineage) = Inr demo_lineage"
  by (rule lineage_json_roundtrip [OF documents_laws demo_lineage_valid])

end
