(* ===== verification/Live_State_Codec.thy ===== *)
theory Live_State_Codec
  imports Performance_Codec Lineage_Codec
begin

text \<open>
  The live state a headered Performance starts from, as JSON (\<open>project.cpp\<close>,
  \<open>performance_initial_live_state_from_json\<close> and \<open>performance_initial_live_state_json\<close>).
\<close>

section \<open>Reading\<close>

definition kLiveGateFxNames :: "string list" where
  "kLiveGateFxNames = [''delay'', ''reverb'', ''stutter'', ''gate'', ''reverse'', ''crush'', ''cutter'']"

definition invalid_initial_live_state :: "string \<Rightarrow> 'a result" where
  "invalid_initial_live_state msg = failure (mk_error invalid_argument msg)"

text \<open>Reads of values whose kind was checked before: \<open>None\<close> is an exception.\<close>

definition boolean_at :: "'j json_lib \<Rightarrow> 'j \<Rightarrow> string \<Rightarrow> bool option" where
  "boolean_at J j k = do { v \<leftarrow> at_key J j k; get_boolean J v }"

fun booleans_at :: "'j json_lib \<Rightarrow> 'j \<Rightarrow> string list \<Rightarrow> bool option" where
  "booleans_at J j [] = Some True"
| "booleans_at J j (k # ks) =
     do { v \<leftarrow> at_key J j k; if is_boolean J v then booleans_at J j ks else Some False }"

abbreviation "bad_gate \<equiv> Some (invalid_initial_live_state ''live FX gate state shape is invalid'')"

definition gate_state_from_json :: "'j json_lib \<Rightarrow> 'j \<Rightarrow> performance_fx_gate_state result option" where
  "gate_state_from_json J input =
     (if \<not> exact_object_keys J input [''engaged'', ''frozen'', ''value''] then bad_gate
      else do {
        shape \<leftarrow> booleans_at J input [''engaged'', ''frozen''];
        if \<not> shape then bad_gate
        else do {
          number \<leftarrow> at_key J input ''value'';
          case bounded_unsigned J number (ucast kFxValueMax) of
            None \<Rightarrow> bad_gate
          | Some val \<Rightarrow> do {
              e \<leftarrow> boolean_at J input ''engaged'';
              f \<leftarrow> boolean_at J input ''frozen'';
              Some (Inr \<lparr>gate_engaged = e, gate_frozen = f, gate_value = ucast val\<rparr>) } } })"

abbreviation "bad_live_filter \<equiv>
  Some (invalid_initial_live_state ''performance initial live Filter shape is invalid'')"

definition read_legacy_filter :: "'j json_lib \<Rightarrow> 'j \<Rightarrow> performance_filter_live_state result option" where
  "read_legacy_filter J input =
     (if \<not> exact_object_keys J input [''mode'', ''engaged'', ''frozen'', ''value''] then bad_live_filter
      else do {
        shape \<leftarrow> booleans_at J input [''engaged'', ''frozen''];
        if \<not> shape then bad_live_filter
        else do {
          number \<leftarrow> at_key J input ''value'';
          case bounded_unsigned J number (ucast kFxValueMax) of
            None \<Rightarrow> bad_live_filter
          | Some val \<Rightarrow> do {
              e \<leftarrow> boolean_at J input ''engaged'';
              f \<leftarrow> boolean_at J input ''frozen'';
              Some (Inr (LegacyFilter
                \<lparr>legacy_engaged = e, legacy_frozen = f, legacy_value = ucast val\<rparr>)) } } })"

definition read_independent_filter :: "'j json_lib \<Rightarrow> 'j \<Rightarrow> performance_filter_live_state result option" where
  "read_independent_filter J input =
     (if \<not> exact_object_keys J input
         [''mode'', ''engaged'', ''frozen'', ''type'', ''cutoff_hz'', ''resonance_milli'']
      then bad_live_filter
      else do {
        shape \<leftarrow> booleans_at J input [''engaged'', ''frozen''];
        name \<leftarrow> if shape then do { v \<leftarrow> at_key J input ''type''; Some (is_string J v) } else Some False;
        if \<not> name then bad_live_filter
        else do {
          text_value \<leftarrow> at_key J input ''type'';
          type_name \<leftarrow> get_string J text_value;
          cutoff_value \<leftarrow> at_key J input ''cutoff_hz'';
          resonance_value \<leftarrow> at_key J input ''resonance_milli'';
          case (filter_type_from_string type_name,
                bounded_unsigned J cutoff_value (ucast kFilterCutoffHzMax),
                bounded_unsigned J resonance_value (ucast kFilterResonanceMilliMax)) of
            (Some type, Some cutoff, Some resonance) \<Rightarrow>
              (if cutoff < ucast kFilterCutoffHzMin then bad_live_filter
               else do {
                 e \<leftarrow> boolean_at J input ''engaged'';
                 f \<leftarrow> boolean_at J input ''frozen'';
                 Some (Inr (IndependentFilter
                   \<lparr>indep_engaged = e, indep_frozen = f, indep_type = type,
                    indep_cutoff_hz = ucast cutoff, indep_resonance_milli = ucast resonance\<rparr>)) })
          | _ \<Rightarrow> bad_live_filter } })"

definition read_live_filter :: "'j json_lib \<Rightarrow> 'j \<Rightarrow> performance_filter_live_state result option" where
  "read_live_filter J input =
     (if \<not> is_object J input \<or> \<not> has_key J input ''mode'' then bad_live_filter
      else do {
        declared \<leftarrow> at_key J input ''mode'';
        if \<not> is_string J declared then bad_live_filter
        else do {
          mode \<leftarrow> get_string J declared;
          if mode = ''legacy'' then read_legacy_filter J input
          else if mode = ''independent'' then read_independent_filter J input
          else bad_live_filter } })"

abbreviation "bad_other_fx \<equiv>
  Some (invalid_initial_live_state ''performance initial live state other_fx is invalid'')"

text \<open>The loop over the names of the gates.\<close>

fun read_gates :: "'j json_lib \<Rightarrow> 'j \<Rightarrow> string list \<Rightarrow> performance_fx_gate_state list result option" where
  "read_gates J other_fx [] = Some (Inr [])"
| "read_gates J other_fx (name # names) =
     (if \<not> has_key J other_fx name then bad_other_fx
      else do {
        encoded \<leftarrow> at_key J other_fx name;
        then_read (gate_state_from_json J encoded) (\<lambda>g.
          then_read (read_gates J other_fx names) (\<lambda>gs. Some (Inr (g # gs)))) })"

definition read_other_fx :: "'j json_lib \<Rightarrow> 'j \<Rightarrow> performance_fx_gate_state list result option" where
  "read_other_fx J other_fx =
     (if \<not> is_object J other_fx \<or> json_size J other_fx \<noteq> length kLiveGateFxNames then bad_other_fx
      else read_gates J other_fx kLiveGateFxNames)"

abbreviation "bad_live_state \<equiv>
  Some (invalid_initial_live_state ''performance initial live state shape is invalid'')"

definition read_initial_live_state :: "'j json_lib \<Rightarrow> 'j \<Rightarrow> performance_initial_live_state result option" where
  "read_initial_live_state J input =
     (if \<not> exact_object_keys J input [''hold'', ''filter'', ''other_fx'', ''muted_slots'', ''solo_slots'']
      then bad_live_state
      else do {
        shape \<leftarrow> booleans_at J input [''hold''];
        if \<not> shape then bad_live_state
        else do {
          hold \<leftarrow> boolean_at J input ''hold'';
          filter_value \<leftarrow> at_key J input ''filter'';
          then_read (read_live_filter J filter_value) (\<lambda>live. do {
            other_value \<leftarrow> at_key J input ''other_fx'';
            then_read (read_other_fx J other_value) (\<lambda>gates. do {
              muted_value \<leftarrow> at_key J input ''muted_slots'';
              solo_value \<leftarrow> at_key J input ''solo_slots'';
              case (slot_mask_from_json J muted_value, slot_mask_from_json J solo_value) of
                (Some muted_set, Some solo_set) \<Rightarrow>
                  Some (Inr \<lparr>live_hold = hold, live_filter = live, live_other_fx = gates,
                    live_muted_mask = muted_set, live_solo_mask = solo_set\<rparr>)
              | _ \<Rightarrow> Some (invalid_initial_live_state
                  ''performance initial live state slot masks are invalid'') }) }) } })"

definition performance_initial_live_state_from_json ::
  "'j json_lib \<Rightarrow> 'j \<Rightarrow> performance_initial_live_state result" where
  "performance_initial_live_state_from_json J input =
     caught (mk_error invalid_argument ''performance initial live state shape is invalid'')
       (read_initial_live_state J input)"

section \<open>Writing\<close>

definition gate_state_json :: "'j json_lib \<Rightarrow> performance_fx_gate_state \<Rightarrow> 'j" where
  "gate_state_json J g =
     make_object J
       [(''engaged'', make_boolean J (gate_engaged g)), (''frozen'', make_boolean J (gate_frozen g)),
        (''value'', make_unsigned J (ucast (gate_value g)))]"

fun live_filter_json :: "'j json_lib \<Rightarrow> performance_filter_live_state \<Rightarrow> 'j" where
  "live_filter_json J (LegacyFilter l) =
     make_object J
       [(''engaged'', make_boolean J (legacy_engaged l)), (''frozen'', make_boolean J (legacy_frozen l)),
        (''mode'', make_string J ''legacy''), (''value'', make_unsigned J (ucast (legacy_value l)))]"
| "live_filter_json J (IndependentFilter i) =
     make_object J
       [(''cutoff_hz'', make_unsigned J (ucast (indep_cutoff_hz i))),
        (''engaged'', make_boolean J (indep_engaged i)), (''frozen'', make_boolean J (indep_frozen i)),
        (''mode'', make_string J ''independent''),
        (''resonance_milli'', make_unsigned J (ucast (indep_resonance_milli i))),
        (''type'', make_string J (filter_type_string (indep_type i)))]"

text \<open>The object the loop fills, one assignment per gate name.\<close>

definition other_fx_json :: "'j json_lib \<Rightarrow> performance_fx_gate_state list \<Rightarrow> 'j" where
  "other_fx_json J gs =
     foldl (\<lambda>j (name, g). set_key J j name (gate_state_json J g)) (make_object J [])
       (zip kLiveGateFxNames gs)"

definition performance_initial_live_state_json ::
  "'j json_lib \<Rightarrow> performance_initial_live_state \<Rightarrow> 'j" where
  "performance_initial_live_state_json J s =
     make_object J
       [(''filter'', live_filter_json J (live_filter s)), (''hold'', make_boolean J (live_hold s)),
        (''muted_slots'', slot_mask_json J (live_muted_mask s)),
        (''other_fx'', other_fx_json J (live_other_fx s)),
        (''solo_slots'', slot_mask_json J (live_solo_mask s))]"

section \<open>Round trip\<close>

lemma foldl_set_key:
  assumes "json_laws J" "distinct (map fst ms @ map fst xs)"
  shows "foldl (\<lambda>j (k, g). set_key J j k (f g)) (make_object J ms) xs =
    make_object J (ms @ map (\<lambda>(k, g). (k, f g)) xs)"
  using assms(2)
proof (induction xs arbitrary: ms)
  case (Cons x xs)
  obtain k g where x: "x = (k, g)" by fastforce
  then show ?case using Cons.IH [of "ms @ [(k, f g)]"] Cons.prems assms(1) by simp
qed simp

lemma gate_names: "distinct kLiveGateFxNames" "length kLiveGateFxNames = 7"
  by (simp_all add: kLiveGateFxNames_def)

lemma other_fx_object:
  assumes "json_laws J" "length gs = 7"
  shows "other_fx_json J gs = make_object J (zip kLiveGateFxNames (map (gate_state_json J) gs))"
  using assms gate_names foldl_set_key [OF assms(1), of "[]" "zip kLiveGateFxNames gs" "gate_state_json J"]
  by (simp add: other_fx_json_def zip_map2 map_fst_zip_take)

lemma read_gate_written:
  assumes "json_laws J" "gate_value g \<le> kFxValueMax"
  shows "gate_state_from_json J (gate_state_json J g) = Some (Inr g)"
  using assms narrow_bounds(6) [OF assms(2)]
  by (simp add: gate_state_from_json_def gate_state_json_def boolean_at_def)

lemma read_gates_written:
  assumes "list_all2 (\<lambda>k g. has_key J j k \<and> at_key J j k = Some (gate_state_json J g)) ks gs"
    and "json_laws J" "list_all (\<lambda>g. gate_value g \<le> kFxValueMax) gs"
  shows "read_gates J j ks = Some (Inr gs)"
  using assms(1,3) by (induction rule: list_all2_induct) (simp_all add: read_gate_written [OF assms(2)])

lemma read_other_fx_written:
  assumes "json_laws J" "list_all (\<lambda>g. gate_value g \<le> kFxValueMax) gs" "length gs = 7"
  shows "read_other_fx J (other_fx_json J gs) = Some (Inr gs)"
proof -
  let ?ms = "zip kLiveGateFxNames (map (gate_state_json J) gs)"
  have keys: "map fst ?ms = kLiveGateFxNames" using assms(3) gate_names by simp
  then have d: "distinct (map fst ?ms)" using gate_names by simp
  have "has_key J (make_object J ?ms) (kLiveGateFxNames ! i) \<and>
      at_key J (make_object J ?ms) (kLiveGateFxNames ! i) = Some (gate_state_json J (gs ! i))"
    if "i < 7" for i
  proof -
    have "?ms ! i = (kLiveGateFxNames ! i, gate_state_json J (gs ! i))" "i < length ?ms"
      using that assms(3) gate_names by simp_all
    then have "(kLiveGateFxNames ! i, gate_state_json J (gs ! i)) \<in> set ?ms" by (metis nth_mem)
    then have "map_of ?ms (kLiveGateFxNames ! i) = Some (gate_state_json J (gs ! i))"
      using d by (rule map_of_is_SomeI [rotated])
    moreover have "kLiveGateFxNames ! i \<in> set (map fst ?ms)" unfolding keys using that gate_names by simp
    ultimately show ?thesis by (simp only: json_object(4,5) [OF assms(1) d])
  qed
  then have "list_all2 (\<lambda>k g. has_key J (make_object J ?ms) k \<and>
      at_key J (make_object J ?ms) k = Some (gate_state_json J g)) kLiveGateFxNames gs"
    unfolding list_all2_conv_all_nth using assms(3) gate_names by simp
  then have "read_gates J (make_object J ?ms) kLiveGateFxNames = Some (Inr gs)"
    by (rule read_gates_written [OF _ assms(1,2)])
  then show ?thesis
    using assms(1,3) d gate_names by (simp add: other_fx_object [OF assms(1,3)] read_other_fx_def)
qed

lemma read_live_filter_written:
  assumes "json_laws J" "\<not> filter_state_rejected s f"
  shows "read_live_filter J (live_filter_json J f) = Some (Inr f)"
proof (cases f)
  case (LegacyFilter l)
  then have "legacy_value l \<le> kFxValueMax" using assms(2) by (simp add: not_less)
  with LegacyFilter show ?thesis
    using assms(1) narrow_bounds(6)
    by (simp add: read_live_filter_def read_legacy_filter_def boolean_at_def)
next
  case (IndependentFilter i)
  then have "valid_filter_type (indep_type i)" "20 \<le> indep_cutoff_hz i" "indep_cutoff_hz i \<le> 20000"
    "indep_resonance_milli i \<le> 1000" using assms(2) by auto
  moreover from this(1) have "filter_type_from_string (filter_type_string (indep_type i)) = Some (indep_type i)"
    by (cases "indep_type i") (simp_all add: filter_type_from_string_def)
  moreover have "\<not> (ucast (indep_cutoff_hz i) :: u64) < 20"
    using narrow_bounds(8) [OF \<open>20 \<le> indep_cutoff_hz i\<close>] by (simp add: not_less)
  ultimately show ?thesis
    using assms(1) IndependentFilter narrow_bounds(6,7)
    by (simp add: read_live_filter_def read_independent_filter_def boolean_at_def)
qed

lemma live_state_json_readable:
  assumes "json_laws J" "validate_initial_live_state s = Inr ()" "length (live_other_fx s) = 7"
  shows "performance_initial_live_state_from_json J (performance_initial_live_state_json J s) = Inr s"
proof -
  have f: "\<not> filter_state_rejected s (live_filter s)"
    and g: "list_all (\<lambda>g. gate_value g \<le> kFxValueMax) (live_other_fx s)"
    using assms(2) by (auto simp: validate_initial_live_state_def invalid_performance_def
        list_ex_iff list_all_iff not_less split: if_splits)
  show ?thesis
    using assms(1) read_live_filter_written [OF assms(1) f] read_other_fx_written [OF assms(1) g assms(3)]
    by (simp add: performance_initial_live_state_from_json_def read_initial_live_state_def
        performance_initial_live_state_json_def boolean_at_def caught_def)
qed

text \<open>
  The live state survives its JSON form: over any JSON library with the documented
  behaviour, reading back what was written for a valid initial live state gives the same state.
\<close>

lemma live_state_json_roundtrip:
  assumes "json_laws J" "validate_initial_live_state s = Inr ()" "length (live_other_fx s) = 7"
  shows "performance_initial_live_state_from_json J (performance_initial_live_state_json J s) = Inr s"
  using assms by (rule live_state_json_readable)

section \<open>Instances\<close>

lemma live_state_json_roundtrip_witness:
  "performance_initial_live_state_from_json documents
     (performance_initial_live_state_json documents handover_seed) = Inr handover_seed"
proof (rule live_state_json_roundtrip [OF documents_laws])
  show "validate_initial_live_state handover_seed = Inr ()" "length (live_other_fx handover_seed) = 7"
    by code_simp+
qed

end
