(* ===== verification/Migration.thy ===== *)
theory Migration
  imports Json_Library Project_Data
begin

text \<open>
  The migration of a Project document from contract v3 to v4 (\<open>migration.cpp\<close>). There is no
  try block: \<open>None\<close> is an exception that leaves the function.
\<close>

definition invalid_migration :: "string \<Rightarrow> 'a result" where
  "invalid_migration msg = failure (mk_error invalid_project msg)"

text \<open>The exact shape of a v3 Asset.\<close>

definition legacy_asset :: "'j json_lib \<Rightarrow> 'j \<Rightarrow> bool" where
  "legacy_asset J asset =
     (is_object J asset \<and> json_size J asset = 2 \<and> has_key J asset ''asset_id'' \<and>
      has_key J asset ''artifact'' \<and> \<not> has_key J asset ''lineage'')"

text \<open>The copy with its new members, in the order of the assignments.\<close>

definition migrated :: "'j json_lib \<Rightarrow> 'j \<Rightarrow> 'j list \<Rightarrow> 'j" where
  "migrated J project asset_values =
     (let p1 = set_key J project ''contract'' (make_string J ''lmdj.project.v4'');
          p2 = set_key J p1 ''assets''
            (make_array J (map (\<lambda>a. set_key J a ''lineage'' (make_null J)) asset_values));
          p3 = set_key J p2 ''pattern_slots'' (make_array J (replicate (unat kPatternSlotCount) (make_null J)))
      in set_key J p3 ''performances'' (make_array J []))"

definition migrate_project_v3_to_v4 :: "'j json_lib \<Rightarrow> 'j \<Rightarrow> 'j result option" where
  "migrate_project_v3_to_v4 J project =
     (if \<not> is_object J project \<or> \<not> has_key J project ''contract'' then
        Some (invalid_migration ''v3 to v4 migration requires a v3-declared Project'')
      else do {
        declared \<leftarrow> at_key J project ''contract'';
        if \<not> is_string J declared \<or> get_string J declared \<noteq> Some ''lmdj.project.v3'' then
          Some (invalid_migration ''v3 to v4 migration requires a v3-declared Project'')
        else if has_key J project ''performances'' \<or> has_key J project ''pattern_slots'' then
          Some (invalid_migration ''a v3-declared Project must not carry v4 fields'')
        else if \<not> has_key J project ''assets'' then
          Some (invalid_migration ''v3 to v4 migration requires an Asset array'')
        else do {
          asset_array \<leftarrow> at_key J project ''assets'';
          if \<not> is_array J asset_array then
            Some (invalid_migration ''v3 to v4 migration requires an Asset array'')
          else if \<not> list_all (legacy_asset J) (elements J asset_array) then
            Some (invalid_migration ''a v3-declared Asset must use the exact legacy shape'')
          else Some (success (migrated J project (elements J asset_array))) } })"

section \<open>Properties\<close>

lemma migrate_success:
  assumes "migrate_project_v3_to_v4 J p = Some (Inr q)"
  obtains xs where "is_object J p" "at_key J p ''assets'' = Some xs" "is_array J xs"
    "list_all (legacy_asset J) (elements J xs)" "q = migrated J p (elements J xs)"
    "\<not> has_key J p ''performances''" "\<not> has_key J p ''pattern_slots''"
  using assms
  by (auto simp: migrate_project_v3_to_v4_def bind_eq_Some_conv invalid_migration_def split: if_splits)

text \<open>
  What the migration does to a document: on success it declares contract v4, gives
  every Asset a null lineage and keeps its id and artifact, adds 16 empty Pattern slots and no
  Performance, and leaves every other member as it was; a migrated document is not migrated again.
\<close>

lemma migration_effect:
  assumes "json_laws J" "migrate_project_v3_to_v4 J p = Some (Inr q)"
  shows "\<exists>xs. at_key J p ''assets'' = Some xs \<and>
    at_key J q ''contract'' = Some (make_string J ''lmdj.project.v4'') \<and>
    at_key J q ''pattern_slots'' = Some (make_array J (replicate 16 (make_null J))) \<and>
    at_key J q ''performances'' = Some (make_array J []) \<and>
    at_key J q ''assets'' =
      Some (make_array J (map (\<lambda>a. set_key J a ''lineage'' (make_null J)) (elements J xs))) \<and>
    list_all (\<lambda>a. let a' = set_key J a ''lineage'' (make_null J) in
      at_key J a' ''asset_id'' = at_key J a ''asset_id'' \<and> at_key J a' ''artifact'' = at_key J a ''artifact'' \<and>
      at_key J a' ''lineage'' = Some (make_null J)) (elements J xs) \<and>
    (\<forall>k. k \<notin> {''contract'', ''assets'', ''pattern_slots'', ''performances''} \<longrightarrow> at_key J q k = at_key J p k) \<and>
    (\<exists>e. migrate_project_v3_to_v4 J q = Some (Inl e))"
proof -
  from migrate_success [OF assms(2)] obtain xs where xs: "is_object J p" "at_key J p ''assets'' = Some xs"
    "list_all (legacy_asset J) (elements J xs)" "q = migrated J p (elements J xs)" by blast
  have q: "is_object J q" "at_key J q k = (if k = ''performances'' then Some (make_array J [])
      else if k = ''pattern_slots'' then Some (make_array J (replicate 16 (make_null J)))
      else if k = ''assets'' then
        Some (make_array J (map (\<lambda>a. set_key J a ''lineage'' (make_null J)) (elements J xs)))
      else if k = ''contract'' then Some (make_string J ''lmdj.project.v4'') else at_key J p k)"
    "has_key J q ''contract''" for k
    using xs(1) assms(1) by (simp_all add: xs(4) migrated_def Let_def)
  have "\<exists>e. migrate_project_v3_to_v4 J q = Some (Inl e)"
    using q assms(1) by (simp add: migrate_project_v3_to_v4_def invalid_migration_def)
  moreover have "list_all (\<lambda>a. let a' = set_key J a ''lineage'' (make_null J) in
      at_key J a' ''asset_id'' = at_key J a ''asset_id'' \<and> at_key J a' ''artifact'' = at_key J a ''artifact'' \<and>
      at_key J a' ''lineage'' = Some (make_null J)) (elements J xs)"
    using xs(3) assms(1) by (auto simp: list_all_iff legacy_asset_def Let_def)
  ultimately show ?thesis using xs(2) q(2) by auto
qed

section \<open>Instances\<close>

definition demo_v3 :: document where
  "demo_v3 = Object
     [(''contract'', Text ''lmdj.project.v3''), (''bpm'', Number 120),
      (''assets'', Array [Object [(''asset_id'', Text ''a''), (''artifact'', Null)]])]"

definition demo_v4 :: document where
  "demo_v4 = projr (the (migrate_project_v3_to_v4 documents demo_v3))"

lemma migration_effect_witness:
  "at_key documents demo_v4 ''contract'' = Some (Text ''lmdj.project.v4'') \<and>
   at_key documents demo_v4 ''bpm'' = Some (Number 120)"
proof -
  have m: "migrate_project_v3_to_v4 documents demo_v3 = Some (Inr demo_v4)" by code_simp
  have parts: "make_string documents ''lmdj.project.v4'' = Text ''lmdj.project.v4''"
    "at_key documents demo_v3 ''bpm'' = Some (Number 120)" by code_simp+
  show ?thesis
    using migration_effect [OF documents_laws m]
    by (elim exE conjE) (simp add: parts)
qed

end
