(* ===== verification/Utf8.thy ===== *)
theory Utf8
  imports Foundation
begin

unbundle bit_operations_syntax

text \<open>
  Correctness of the two UTF-8 decoders. The specification is the encoding itself: a byte
  string is well-formed when it is the concatenation of the encodings of Unicode scalar
  values. \<open>utf8_code_point_count\<close> counts those scalar values, and \<open>valid_utf8\<close>, which
  classifies lead bytes by range instead of by mask, accepts the same strings.
\<close>

section \<open>Specification\<close>

definition unicode_scalar :: "nat \<Rightarrow> bool" where
  "unicode_scalar c = (c < 0xd800 \<or> (0xe000 \<le> c \<and> c \<le> 0x10ffff))"

definition utf8_encode :: "nat \<Rightarrow> nat list" where
  "utf8_encode c =
     (if c < 0x80 then [c]
      else if c < 0x800 then [0xc0 + c div 64, 0x80 + c mod 64]
      else if c < 0x10000 then [0xe0 + c div 4096, 0x80 + c div 64 mod 64, 0x80 + c mod 64]
      else [0xf0 + c div 262144, 0x80 + c div 4096 mod 64, 0x80 + c div 64 mod 64, 0x80 + c mod 64])"

section \<open>Masks and bytes\<close>

lemma unat_and_low:
  fixes b :: "'a::len word"
  shows "unat (b AND mask n) = unat b mod 2 ^ n"
  by (simp add: unsigned_take_bit_eq flip: take_bit_eq_mask take_bit_eq_mod)

lemma low_masks: 
  fixes b :: u8
  shows "unat (b AND 0x3f) = unat b mod 64" "unat (b AND 0x1f) = unat b mod 32"
  "unat (b AND 0x0f) = unat b mod 16" "unat (b AND 0x07) = unat b mod 8"
  using unat_and_low [of b 6] unat_and_low [of b 5] unat_and_low [of b 4] unat_and_low [of b 3]
  by (simp_all add: mask_eq_exp_minus_1)

lemma unat_byte_less [simp]: "unat (b :: u8) < 256"
  using unsigned_less [of b, where 'a = nat] by simp

lemma unat_and_high8:
  fixes b :: u8
  assumes "k \<le> 8" "m = push_bit k (mask (8 - k))"
  shows "unat (b AND m) = unat b div 2 ^ k * 2 ^ k"
proof -
  have "b AND m = push_bit k (drop_bit k b)"
    unfolding assms(2) by (rule bit_eqI) (auto simp: bit_simps)
  moreover have "unat (push_bit k (drop_bit k b)) = (unat b div 2 ^ k * 2 ^ k) mod 256"
    by (simp only: unsigned_push_bit_eq unat_drop_bit_eq) (simp add: take_bit_eq_mod push_bit_eq_mult drop_bit_eq_div)
  moreover have "unat b div 2 ^ k * 2 ^ k < 256"
    using div_times_less_eq_dividend [of "unat b" "2 ^ k"] unat_byte_less [of b] by linarith
  ultimately show ?thesis by simp
qed

lemma high_masks:
  fixes b :: u8
  shows "unat (b AND 0xc0) = unat b div 64 * 64" "unat (b AND 0xe0) = unat b div 32 * 32"
  "unat (b AND 0xf0) = unat b div 16 * 16" "unat (b AND 0xf8) = unat b div 8 * 8"
  using unat_and_high8 [of 6 "0xc0" b] unat_and_high8 [of 5 "0xe0" b]
  unat_and_high8 [of 4 "0xf0" b] unat_and_high8 [of 3 "0xf8" b]
  by (simp_all add: mask_eq_exp_minus_1)

lemma word8_eq_iff: "(a :: u8) = b \<longleftrightarrow> unat a = unat b"
  by (simp add: word_eq_iff_unsigned)

lemma lead_masks:
  fixes b :: u8
  shows "b AND 0xc0 = 0x80 \<longleftrightarrow> 128 \<le> unat b \<and> unat b < 192"
    and "b AND 0xe0 = 0xc0 \<longleftrightarrow> 192 \<le> unat b \<and> unat b < 224"
    and "b AND 0xf0 = 0xe0 \<longleftrightarrow> 224 \<le> unat b \<and> unat b < 240"
    and "b AND 0xf8 = 0xf0 \<longleftrightarrow> 240 \<le> unat b \<and> unat b < 248"
  unfolding word8_eq_iff high_masks using unat_byte_less [of b] by auto

lemma absorb_step:
  fixes cp :: u32 and b :: u8
  assumes "unat cp < 2 ^ 20"
  shows "unat ((push_bit 6 cp) OR ucast (b AND 0x3f)) = unat cp * 64 + unat b mod 64"
proof -
  let ?x = "ucast (b AND 0x3f) :: u32"
  have x: "unat ?x = unat b mod 64"
    by (simp add: unsigned_ucast_eq low_masks take_bit_eq_mod)
  have x': "?x = take_bit 6 ?x"
  proof -
    have "unat (take_bit 6 ?x) = unat ?x"
      by (simp only: unsigned_take_bit_eq x) (simp add: take_bit_eq_mod)
    then show ?thesis by (simp only: word_unat_eq_iff)
  qed
  have "(push_bit 6 cp) OR ?x = push_bit 6 cp + ?x"
  proof (rule disjunctive_add [symmetric])
    fix n
    show "\<not> bit (push_bit 6 cp) n \<or> \<not> bit ?x n"
      by (subst x') (auto simp: bit_simps)
  qed
  moreover have "unat (push_bit 6 cp) = unat cp * 64"
    using assms by (simp only: unsigned_push_bit_eq) (simp add: take_bit_eq_mod push_bit_eq_mult)
  ultimately show ?thesis using assms x
    by (simp add: unat_word_ariths)
qed

lemma absorb_Some:
  fixes cp :: u32
  assumes "(unat cp + 1) * 64 ^ length bs \<le> 2 ^ 26"
  shows "absorb_continuation cp bs = Some r \<longleftrightarrow>
    list_all (\<lambda>b. 128 \<le> unat b \<and> unat b < 192) bs \<and>
    unat r = foldl (\<lambda>acc b. acc * 64 + unat b mod 64) (unat cp) bs"
  using assms
proof (induction bs arbitrary: cp)
  case Nil
  then show ?case by (auto simp: word_unat_eq_iff)
next
  case (Cons b bs)
  let ?cp' = "(push_bit 6 cp) OR ucast (b AND 0x3f)"
  have "(unat cp + 1) * 64 * 1 \<le> (unat cp + 1) * 64 * 64 ^ length bs"
    by (intro mult_le_mono2) simp
  also have "\<dots> = (unat cp + 1) * 64 ^ length (b # bs)" by (simp add: algebra_simps)
  also note Cons.prems
  finally have "(unat cp + 1) * 64 \<le> 2 ^ 26" by simp
  then have step: "unat ?cp' = unat cp * 64 + unat b mod 64"
    by (intro absorb_step) simp
  have "(unat ?cp' + 1) * 64 ^ length bs \<le> ((unat cp + 1) * 64) * 64 ^ length bs"
    unfolding step by (intro mult_le_mono1) simp
  also have "\<dots> = (unat cp + 1) * 64 ^ length (b # bs)" by (simp add: algebra_simps)
  also note Cons.prems
  finally have "(unat ?cp' + 1) * 64 ^ length bs \<le> 2 ^ 26" .
  from Cons.IH [OF this] show ?case by (auto simp: lead_masks step)
qed

section \<open>One sequence\<close>

text \<open>One decoded sequence: what the loop body of \<open>utf8_code_point_count\<close> accepts.\<close>

definition mask_step :: "u8 \<Rightarrow> u8 list \<Rightarrow> nat \<Rightarrow> u32 \<Rightarrow> bool" where
  "mask_step b bs n cp \<longleftrightarrow>
     (\<exists>cp0. utf8_lead_by_mask b = Some (n, cp0) \<and> n \<le> length (b # bs) \<and>
       absorb_continuation cp0 (take (n - 1) bs) = Some cp \<and>
       \<not> overlong n cp \<and> \<not> outside_unicode cp)"

lemma unat_ucast_byte [simp]: "unat (ucast (b :: u8) :: u32) = unat b"
proof -
  have "unat b mod 4294967296 = unat b" using unat_byte_less [of b] by (intro mod_less) linarith
  then show ?thesis by (simp add: unsigned_ucast_eq take_bit_eq_mod)
qed

lemma lead_mod:
  fixes b :: nat
  shows "192 \<le> b \<Longrightarrow> b < 224 \<Longrightarrow> b mod 32 = b - 192"
    "224 \<le> b \<Longrightarrow> b < 240 \<Longrightarrow> b mod 16 = b - 224"
    "240 \<le> b \<Longrightarrow> b < 248 \<Longrightarrow> b mod 8 = b - 240"
    "128 \<le> b \<Longrightarrow> b < 192 \<Longrightarrow> b mod 64 = b - 128"
  by (rule mod_nat_eqI; simp)+

lemma lead_by_mask_iff:
  "utf8_lead_by_mask b = Some (n, cp0) \<longleftrightarrow>
     (n = 1 \<and> unat b < 128 \<and> unat cp0 = unat b) \<or>
     (n = 2 \<and> 192 \<le> unat b \<and> unat b < 224 \<and> unat cp0 = unat b - 192) \<or>
     (n = 3 \<and> 224 \<le> unat b \<and> unat b < 240 \<and> unat cp0 = unat b - 224) \<or>
     (n = 4 \<and> 240 \<le> unat b \<and> unat b < 248 \<and> unat cp0 = unat b - 240)"
  by (auto simp: utf8_lead_by_mask_def lead_masks word_unat_eq_iff [where 'a = 32] low_masks lead_mod
      word_le_nat_alt eq_commute [of _ "unat cp0"])

lemma lead_by_range_iff:
  "utf8_lead_by_range b = Some (n, cp0) \<longleftrightarrow>
     (n = 2 \<and> 194 \<le> unat b \<and> unat b < 224 \<and> unat cp0 = unat b - 192) \<or>
     (n = 3 \<and> 224 \<le> unat b \<and> unat b < 240 \<and> unat cp0 = unat b - 224) \<or>
     (n = 4 \<and> 240 \<le> unat b \<and> unat b < 245 \<and> unat cp0 = unat b - 240)"
  by (auto simp: utf8_lead_by_range_def word_unat_eq_iff [where 'a = 32] low_masks lead_mod
      word_le_nat_alt eq_commute [of _ "unat cp0"])

lemma take_eq_iff:
  "n \<le> length (b # bs) \<Longrightarrow> n = 2 \<Longrightarrow> \<exists>x. take (n - 1) bs = [x]"
  "n \<le> length (b # bs) \<Longrightarrow> n = 3 \<Longrightarrow> \<exists>x y. take (n - 1) bs = [x, y]"
  "n \<le> length (b # bs) \<Longrightarrow> n = 4 \<Longrightarrow> \<exists>x y z. take (n - 1) bs = [x, y, z]"
  by (auto simp: numeral_eq_Suc Suc_le_length_iff)

lemma utf8_encode_join:
  assumes "x < 64" "y < 64" "z < 64"
  shows "c < 128 \<Longrightarrow> utf8_encode c = [c]"
    and "l < 32 \<Longrightarrow> 0x80 \<le> l * 64 + x \<Longrightarrow> utf8_encode (l * 64 + x) = [192 + l, 128 + x]"
    and "l < 16 \<Longrightarrow> 0x800 \<le> (l * 64 + x) * 64 + y \<Longrightarrow>
      utf8_encode ((l * 64 + x) * 64 + y) = [224 + l, 128 + x, 128 + y]"
    and "l < 8 \<Longrightarrow> 0x10000 \<le> ((l * 64 + x) * 64 + y) * 64 + z \<Longrightarrow>
      utf8_encode (((l * 64 + x) * 64 + y) * 64 + z) = [240 + l, 128 + x, 128 + y, 128 + z]"
proof -
  have d1: "(k * 64 + w) div 64 = k" "(k * 64 + w) mod 64 = w" if "w < 64" for k w :: nat
    using that by auto
  have d2: "n div 4096 = n div 64 div 64" "n div 262144 = n div 64 div 64 div 64" for n :: nat
    by (simp_all flip: div_mult2_eq)
  show "c < 128 \<Longrightarrow> utf8_encode c = [c]" by (simp add: utf8_encode_def)
  show "l < 32 \<Longrightarrow> 0x80 \<le> l * 64 + x \<Longrightarrow> utf8_encode (l * 64 + x) = [192 + l, 128 + x]"
    using assms by (simp add: utf8_encode_def d1)
  show "l < 16 \<Longrightarrow> 0x800 \<le> (l * 64 + x) * 64 + y \<Longrightarrow>
      utf8_encode ((l * 64 + x) * 64 + y) = [224 + l, 128 + x, 128 + y]"
    using assms by (simp only: utf8_encode_def d2 d1) simp
  show "l < 8 \<Longrightarrow> 0x10000 \<le> ((l * 64 + x) * 64 + y) * 64 + z \<Longrightarrow>
      utf8_encode (((l * 64 + x) * 64 + y) * 64 + z) = [240 + l, 128 + x, 128 + y, 128 + z]"
    using assms by (simp only: utf8_encode_def d2 d1) simp
qed

lemma cont_byte: "128 \<le> n \<Longrightarrow> n < 192 \<Longrightarrow> 128 + n mod 64 = (n :: nat)"
  by (simp add: lead_mod)

lemma mask_step_sound:
  assumes "mask_step b bs n cp"
  shows "unicode_scalar (unat cp) \<and> map unat (take n (b # bs)) = utf8_encode (unat cp) \<and> 0 < n"
proof -
  from assms obtain cp0 where lead: "utf8_lead_by_mask b = Some (n, cp0)" and len: "n \<le> length (b # bs)"
    and cont: "absorb_continuation cp0 (take (n - 1) bs) = Some cp"
    and ok: "\<not> (n = 2 \<and> unat cp < 0x80)" "\<not> (n = 3 \<and> unat cp < 0x800)" "\<not> (n = 4 \<and> unat cp < 0x10000)"
      "unat cp \<le> 0x10ffff" "\<not> (0xd800 \<le> unat cp \<and> unat cp \<le> 0xdfff)"
    by (auto simp: mask_step_def overlong_def outside_unicode_def word_less_nat_alt word_le_nat_alt)
  have tk: "0 < n \<Longrightarrow> take n (b # bs) = b # take (n - 1) bs" by (cases n) auto
  have sc: "unicode_scalar (unat cp)" using ok by (auto simp: unicode_scalar_def)
  from lead consider "n = 1" | "n = 2" | "n = 3" | "n = 4" by (auto simp: lead_by_mask_iff)
  then show ?thesis
  proof cases
    case 1
    with lead cont sc show ?thesis
      by (auto simp: lead_by_mask_iff utf8_encode_def word_unat_eq_iff)
  next
    case 2
    then obtain x where t: "take (n - 1) bs = [x]" using take_eq_iff(1) [OF len] by auto
    from lead 2 have b: "unat b = 192 + unat cp0" "unat cp0 < 32" by (auto simp: lead_by_mask_iff)
    with cont t have x: "128 \<le> unat x" "unat x < 192" "unat cp = unat cp0 * 64 + unat x mod 64"
      using absorb_Some [of cp0 "[x]" cp] by (simp_all del: absorb_continuation.simps)
    with ok(1) 2 utf8_encode_join(2) [of "unat x mod 64" 0 0 "unat cp0"] b
    have "utf8_encode (unat cp) = [unat b, unat x]" by (simp add: cont_byte)
    with sc t tk 2 show ?thesis by simp
  next
    case 3
    then obtain x y where t: "take (n - 1) bs = [x, y]" using take_eq_iff(2) [OF len] by auto
    from lead 3 have b: "unat b = 224 + unat cp0" "unat cp0 < 16" by (auto simp: lead_by_mask_iff)
    with cont t have x: "128 \<le> unat x" "unat x < 192" "128 \<le> unat y" "unat y < 192"
        "unat cp = (unat cp0 * 64 + unat x mod 64) * 64 + unat y mod 64"
      using absorb_Some [of cp0 "[x, y]" cp] by (simp_all del: absorb_continuation.simps)
    with ok(2) 3 utf8_encode_join(3) [of "unat x mod 64" "unat y mod 64" 0 "unat cp0"] b
    have "utf8_encode (unat cp) = [unat b, unat x, unat y]" by (simp add: cont_byte)
    with sc t tk 3 show ?thesis by simp
  next
    case 4
    then obtain x y z where t: "take (n - 1) bs = [x, y, z]" using take_eq_iff(3) [OF len] by auto
    from lead 4 have b: "unat b = 240 + unat cp0" "unat cp0 < 8" by (auto simp: lead_by_mask_iff)
    with cont t have x: "128 \<le> unat x" "unat x < 192" "128 \<le> unat y" "unat y < 192"
        "128 \<le> unat z" "unat z < 192"
        "unat cp = ((unat cp0 * 64 + unat x mod 64) * 64 + unat y mod 64) * 64 + unat z mod 64"
      using absorb_Some [of cp0 "[x, y, z]" cp] by (simp_all del: absorb_continuation.simps)
    with ok(3) 4 utf8_encode_join(4) [of "unat x mod 64" "unat y mod 64" "unat z mod 64" "unat cp0"] b
    have "utf8_encode (unat cp) = [unat b, unat x, unat y, unat z]" by (simp add: cont_byte)
    with sc t tk 4 show ?thesis by simp
  qed
qed

lemma unat_of_nat_small: "n < 2 ^ 32 \<Longrightarrow> unat (of_nat n :: u32) = n"
  by (simp add: unat_of_nat)

lemma mask_step_intro:
  fixes cp :: u32
  assumes "utf8_lead_by_mask b = Some (n, of_nat l)" "l < 128" "n \<le> length (b # bs)" "n \<le> 4" "2 \<le> n \<Longrightarrow> l < 32" "3 \<le> n \<Longrightarrow> l < 16" "n = 4 \<Longrightarrow> l < 8"
    "list_all (\<lambda>b. 128 \<le> unat b \<and> unat b < 192) (take (n - 1) bs)"
    "c = foldl (\<lambda>acc b. acc * 64 + unat b mod 64) l (take (n - 1) bs)"
    "unicode_scalar c" "n = 2 \<Longrightarrow> 0x80 \<le> c" "n = 3 \<Longrightarrow> 0x800 \<le> c" "n = 4 \<Longrightarrow> 0x10000 \<le> c"
  shows "mask_step b bs n (of_nat c)"
proof -
  have c: "unat (of_nat c :: u32) = c"
    using assms(10) by (intro unat_of_nat_small) (auto simp: unicode_scalar_def)
  have l: "unat (of_nat l :: u32) = l" using assms(2) by (intro unat_of_nat_small) simp
  consider "n \<le> 1" | "n = 2" | "n = 3" | "n = 4" using assms(4) by linarith
  then have "(l + 1) * 64 ^ (n - 1) \<le> 2 ^ 26"
    by cases (use assms(2,5-7) in simp_all)
  then have "absorb_continuation (of_nat l) (take (n - 1) bs) = Some (of_nat c)"
    using assms(3,8,9) c l by (subst absorb_Some) auto
  then show ?thesis
    using assms c
    by (auto simp: mask_step_def overlong_def outside_unicode_def word_less_nat_alt word_le_nat_alt
        unicode_scalar_def)
qed

lemma div64: "(c div 4096 * 64 + c div 64 mod 64) * 64 + c mod 64 = (c :: nat)"
    "((c div 262144 * 64 + c div 4096 mod 64) * 64 + c div 64 mod 64) * 64 + c mod 64 = (c :: nat)"
  by (simp_all add: div_mult2_eq [of c 64 64, simplified] div_mult2_eq [of c 64 4096, simplified]
     div_mult2_eq [of "c div 64" 64 64, simplified] )

lemma mask_step_complete:
  assumes "unicode_scalar c" "map unat (b # bs) = utf8_encode c @ rest"
  shows "mask_step b bs (length (utf8_encode c)) (of_nat c)"
proof -
  consider "c < 0x80" | "0x80 \<le> c" "c < 0x800" | "0x800 \<le> c" "c < 0x10000" | "0x10000 \<le> c" "c \<le> 0x10ffff"
    using assms(1) by (fastforce simp: unicode_scalar_def)
  then show ?thesis
  proof cases
    case 1
    then show ?thesis using assms
      by (auto simp: utf8_encode_def lead_by_mask_iff unat_of_nat_small intro!: mask_step_intro [where l = c])
  next
    case 2
    with assms(2) obtain x bs' where "bs = x # bs'" "unat b = 192 + c div 64" "unat x = 128 + c mod 64"
      by (auto simp: utf8_encode_def Cons_eq_append_conv map_eq_Cons_conv)
    moreover from 2 have "c div 64 < 32" by auto
    ultimately show ?thesis using assms(1) 2
      by (auto simp: utf8_encode_def lead_by_mask_iff unat_of_nat_small lead_mod intro!: mask_step_intro [where l = "c div 64"])
  next
    case 3
    with assms(2) obtain x y bs' where "bs = x # y # bs'" "unat b = 224 + c div 4096" "unat x = 128 + c div 64 mod 64"
        "unat y = 128 + c mod 64"
      by (auto simp: utf8_encode_def Cons_eq_append_conv map_eq_Cons_conv)
    moreover from 3 have "c div 4096 < 16" by auto
    ultimately show ?thesis using assms(1) 3 div64(1) [of c]
      by (auto simp: utf8_encode_def lead_by_mask_iff unat_of_nat_small lead_mod intro!: mask_step_intro [where l = "c div 4096"])
  next
    case 4
    with assms(2) obtain x y z bs' where "bs = x # y # z # bs'" "unat b = 240 + c div 262144" "unat x = 128 + c div 4096 mod 64"
        "unat y = 128 + c div 64 mod 64" "unat z = 128 + c mod 64"
      by (auto simp: utf8_encode_def Cons_eq_append_conv map_eq_Cons_conv)
    moreover from 4 have "c div 262144 < 8" by auto
    moreover from 4 have "length (utf8_encode c) = 4" by (simp add: utf8_encode_def)
    ultimately show ?thesis using assms(1) 4 div64(2) [of c]
      by (simp add: mask_step_intro [where l = "c div 262144"] lead_by_mask_iff unat_of_nat_small lead_mod)
  qed
qed

lemma utf8_count_step:
  "mask_step b bs n cp \<Longrightarrow> utf8_count_bytes k (b # bs) = utf8_count_bytes (Suc k) (drop (n - 1) bs)"
  by (auto simp: utf8_count_bytes.simps(2) mask_step_def)

lemma utf8_count_stuck:
  assumes "utf8_count_bytes k (b # bs) = Some r"
  obtains n cp where "mask_step b bs n cp"
proof -
  from assms obtain n cp0 where lead: "utf8_lead_by_mask b = Some (n, cp0)"
    by (cases "utf8_lead_by_mask b") (auto simp: utf8_count_bytes.simps(2))
  with assms obtain cp where "n \<le> length (b # bs)"
      "absorb_continuation cp0 (take (n - 1) bs) = Some cp"
    by (cases "length (b # bs) < n"; cases "absorb_continuation cp0 (take (n - 1) bs)")
      (auto simp: utf8_count_bytes.simps(2))
  with lead assms have "mask_step b bs n cp"
    by (simp add: mask_step_def utf8_count_bytes.simps(2) split: if_splits)
  then show ?thesis by (rule that)
qed

lemma utf8_encode_nonempty [simp]: "utf8_encode c \<noteq> []" "0 < length (utf8_encode c)"
  by (simp_all add: utf8_encode_def)

lemma mask_step_unique: "mask_step b bs n cp \<Longrightarrow> mask_step b bs n' cp' \<Longrightarrow> n = n' \<and> cp = cp'"
  by (auto simp: mask_step_def)

lemma utf8_count_bytes_iff:
  "utf8_count_bytes k bs = Some r \<longleftrightarrow>
     (\<exists>cps. list_all unicode_scalar cps \<and> r = k + length cps \<and> map unat bs = concat (map utf8_encode cps))"
proof (induction "length bs" arbitrary: bs k rule: less_induct)
  case less
  show ?case
  proof (cases bs)
    case Nil
    have "cps = []" if "[] = concat (map utf8_encode cps)" for cps
      using that by (cases cps) auto
    with Nil show ?thesis by auto
  next
    case (Cons b bs')
    have split: "map unat bs' = map unat (take (n - 1) bs') @ map unat (drop (n - 1) bs')" for n
      by (metis append_take_drop_id map_append)
    have ih: "utf8_count_bytes (Suc k) (drop n bs') = Some r \<longleftrightarrow>
        (\<exists>cps. list_all unicode_scalar cps \<and> r = Suc k + length cps \<and> map unat (drop n bs') = concat (map utf8_encode cps))" for n
      by (rule less) (simp add: Cons)
    show ?thesis
    proof
      assume "utf8_count_bytes k bs = Some r"
      moreover from this obtain n cp where st: "mask_step b bs' n cp"
        unfolding Cons by (rule utf8_count_stuck)
      ultimately have "utf8_count_bytes (Suc k) (drop (n - 1) bs') = Some r"
        by (simp add: Cons utf8_count_step)
      then obtain cps where cps: "list_all unicode_scalar cps" "r = Suc k + length cps"
          "map unat (drop (n - 1) bs') = concat (map utf8_encode cps)"
        using ih by blast
      from mask_step_sound [OF st] have "unicode_scalar (unat cp)"
          "map unat (b # take (n - 1) bs') = utf8_encode (unat cp)"
        by (cases n; simp)+
      with cps split [of n] show "\<exists>cps. list_all unicode_scalar cps \<and> r = k + length cps \<and>
          map unat bs = concat (map utf8_encode cps)"
        by (intro exI [of _ "unat cp # cps"]) (simp add: Cons)
    next
      assume "\<exists>cps. list_all unicode_scalar cps \<and> r = k + length cps \<and> map unat bs = concat (map utf8_encode cps)"
      then obtain cps where cps: "list_all unicode_scalar cps" "r = k + length cps"
        "map unat bs = concat (map utf8_encode cps)" by blast
      with Cons obtain c cs where c: "cps = c # cs" by (cases cps) auto
      let ?n = "length (utf8_encode c)"
      from cps c Cons have bytes: "map unat (b # bs') = utf8_encode c @ concat (map utf8_encode cs)" by simp
      with cps c have st: "mask_step b bs' ?n (of_nat c)" by (intro mask_step_complete) auto
      from bytes have "map unat (drop (?n - 1) bs') = concat (map utf8_encode cs)"
        by (cases "utf8_encode c") (auto simp: drop_map [symmetric])
      with ih [of "?n - 1"] cps c have "utf8_count_bytes (Suc k) (drop (?n - 1) bs') = Some r" by auto
      with st show "utf8_count_bytes k bs = Some r"
        unfolding Cons by (simp add: utf8_count_step)
    qed
  qed
qed

text \<open>The range-based validator accepts the same first sequences.\<close>

lemma range_lead_mask:
  "utf8_lead_by_range b = Some (n, cp0) \<Longrightarrow> utf8_lead_by_mask b = Some (n, cp0)"
  by (auto simp: lead_by_range_iff lead_by_mask_iff)

lemma range_lead_not_overlong:
  assumes "utf8_lead_by_range b = Some (2, cp0)" "2 \<le> length (b # bs)"
    "absorb_continuation cp0 (take 1 bs) = Some cp"
  shows "\<not> cp < 0x80"
proof -
  from assms(2) obtain x where x: "take 1 bs = [x]" by (cases bs) auto
  from assms(1) have "2 \<le> unat cp0" "unat cp0 < 32" by (auto simp: lead_by_range_iff)
  with assms(3) x show ?thesis
    using absorb_Some [of cp0 "[x]" cp]
    by (simp add: word_less_nat_alt del: absorb_continuation.simps)
qed

lemma mask_step_range:
  assumes "mask_step b bs n cp" "\<not> b \<le> 0x7f"
  obtains cp0 where "utf8_lead_by_range b = Some (n, cp0)"
    "absorb_continuation cp0 (take (n - 1) bs) = Some cp"
proof -
  from assms(1) obtain cp0 where lead: "utf8_lead_by_mask b = Some (n, cp0)"
      and absorb: "absorb_continuation cp0 (take (n - 1) bs) = Some cp"
    by (auto simp: mask_step_def)
  from mask_step_sound [OF assms(1)] have sc: "unicode_scalar (unat cp)"
      "unat b = hd (utf8_encode (unat cp))"
    by (metis list.map(2) list.sel(1) gr0_conv_Suc take_Suc_Cons)+
  have c: "unat cp \<le> 0x10ffff" using sc(1) by (auto simp: unicode_scalar_def)
  from assms(2) have "128 \<le> unat b" by (simp add: word_le_nat_alt)
  with sc(2) have big: "128 \<le> unat cp" by (auto simp: utf8_encode_def split: if_splits)
  then have "2 \<le> unat cp div 64" "unat cp div 262144 \<le> 4" using c by auto
  with sc(2) big have "194 \<le> unat b" "unat b < 245"
    by (auto simp: utf8_encode_def split: if_splits)
  with lead \<open>128 \<le> unat b\<close> have "utf8_lead_by_range b = Some (n, cp0)"
    by (auto simp: lead_by_mask_iff lead_by_range_iff)
  with absorb show ?thesis by (rule that [rotated])
qed

lemma valid_utf8_step:
  "valid_utf8_bytes (b # bs) \<longleftrightarrow> (\<exists>n cp. mask_step b bs n cp \<and> valid_utf8_bytes (drop (n - 1) bs))"
proof (cases "b \<le> 0x7f")
  case True
  have b: "unat b < 128" using True by (simp add: word_le_nat_alt)
  then have "mask_step b bs 1 (of_nat (unat b))"
    using mask_step_complete [of "unat b" b bs "map unat bs"]
    by (simp add: unicode_scalar_def utf8_encode_def)
  moreover from this have "mask_step b bs n cp \<Longrightarrow> n = 1" for n cp using mask_step_unique by blast
  ultimately show ?thesis using True by (fastforce simp: valid_utf8_bytes.simps(2))
next
  case False
  show ?thesis
  proof
    assume v: "valid_utf8_bytes (b # bs)"
    with False obtain n cp0 where lead: "utf8_lead_by_range b = Some (n, cp0)"
      by (cases "utf8_lead_by_range b") (auto simp: valid_utf8_bytes.simps(2))
    with v False obtain cp where *: "n \<le> length (b # bs)"
        "absorb_continuation cp0 (take (n - 1) bs) = Some cp"
      by (cases "length (b # bs) < n"; cases "absorb_continuation cp0 (take (n - 1) bs)")
        (auto simp: valid_utf8_bytes.simps(2))
    have "\<not> (n = 2 \<and> cp < 0x80)" using range_lead_not_overlong [of b cp0 bs cp] lead * by auto
    then have "overlong n cp = short_form_exists n cp" by (auto simp: overlong_def short_form_exists_def)
    with v False lead * have "mask_step b bs n cp \<and> valid_utf8_bytes (drop (n - 1) bs)"
      by (simp add: mask_step_def range_lead_mask valid_utf8_bytes.simps(2) split: if_splits)
    then show "\<exists>n cp. mask_step b bs n cp \<and> valid_utf8_bytes (drop (n - 1) bs)" by blast
  next
    assume "\<exists>n cp. mask_step b bs n cp \<and> valid_utf8_bytes (drop (n - 1) bs)"
    then obtain n cp where st: "mask_step b bs n cp" and v: "valid_utf8_bytes (drop (n - 1) bs)" by blast
    from st False obtain cp0 where "utf8_lead_by_range b = Some (n, cp0)"
      "absorb_continuation cp0 (take (n - 1) bs) = Some cp" by (rule mask_step_range)
    moreover have "\<not> short_form_exists n cp" using st
      by (auto simp: mask_step_def overlong_def short_form_exists_def)
    moreover have "\<not> outside_unicode cp" "\<not> length (b # bs) < n" using st
      by (auto simp: mask_step_def)
    ultimately show "valid_utf8_bytes (b # bs)" using v False
      by (simp add: valid_utf8_bytes.simps(2))
  qed
qed

lemma valid_utf8_bytes_count: "valid_utf8_bytes bs \<longleftrightarrow> utf8_count_bytes k bs \<noteq> None"
proof (induction "length bs" arbitrary: bs k rule: less_induct)
  case less
  show ?case
  proof (cases bs)
    case (Cons b bs')
    have "(\<exists>n cp. mask_step b bs' n cp \<and> valid_utf8_bytes (drop (n - 1) bs')) \<longleftrightarrow>
        utf8_count_bytes k (b # bs') \<noteq> None"
    proof (cases "\<exists>n cp. mask_step b bs' n cp")
      case True
      then obtain n cp where st: "mask_step b bs' n cp" by blast
      have "valid_utf8_bytes (drop (n - 1) bs') \<longleftrightarrow> utf8_count_bytes (Suc k) (drop (n - 1) bs') \<noteq> None"
        by (rule less) (simp add: Cons)
      moreover have "(\<exists>n cp. mask_step b bs' n cp \<and> valid_utf8_bytes (drop (n - 1) bs')) \<longleftrightarrow>
          valid_utf8_bytes (drop (n - 1) bs')"
        using st mask_step_unique [OF st] by blast
      ultimately show ?thesis by (simp only: utf8_count_step [OF st])
    next
      case False
      have "utf8_count_bytes k (b # bs') = None"
      proof (rule ccontr)
        assume "utf8_count_bytes k (b # bs') \<noteq> None"
        then obtain r where "utf8_count_bytes k (b # bs') = Some r" by blast
        then obtain n cp where "mask_step b bs' n cp" by (rule utf8_count_stuck)
        with False show False by blast
      qed
      with False show ?thesis by simp
    qed
    then show ?thesis by (simp add: Cons valid_utf8_step)
  qed simp
qed
section \<open>The decoders\<close>

lemma unat_byte_of: "unat (byte_of c) = of_char c"
proof -
  have "(of_char c :: nat) mod 256 = of_char c" by simp
  then show ?thesis
    by (simp add: byte_of_def unat_of_nat flip: of_nat_of_char [where 'a = u8])
qed

text \<open>
  Property C15. The name-length rule of a Performance counts Unicode scalar values:
  \<open>utf8_code_point_count\<close> returns \<open>n\<close> exactly on the byte strings that are the UTF-8
  encoding of some sequence of \<open>n\<close> scalar values, and nothing on every other string
  (truncated, overlong, surrogate and out-of-range forms included).
\<close>

theorem utf8_code_point_count_spec:
  "utf8_code_point_count s = Some n \<longleftrightarrow>
     (\<exists>cps. list_all unicode_scalar cps \<and> length cps = n \<and>
        map of_char s = concat (map utf8_encode cps))"
  by (auto simp: utf8_code_point_count_def utf8_count_bytes_iff comp_def unat_byte_of)

text \<open>
  The two UTF-8 validators of the code base agree: \<open>foundation::valid_utf8\<close>
  accepts a string exactly when the authoring domain's counter returns a count.
\<close>

lemma valid_utf8_agrees: "valid_utf8 s \<longleftrightarrow> utf8_code_point_count s \<noteq> None"
  by (simp only: valid_utf8_def utf8_code_point_count_def valid_utf8_bytes_count [of _ 0])

end
