(* ===== verification/Soundset.thy ===== *)
theory Soundset
  imports Json_Library Utf8 Pad_Rules
begin

text \<open>
  Sound Sets: the manifest parser and the licence check (\<open>soundset_manifest.cpp\<close>), and the map of
  a Set onto the Pads of a Bank (\<open>command_handler.cpp\<close>, \<open>map_soundset\<close> and
  \<open>resolve_soundset_write_set\<close>). The text form of JSON, reading under the depth limit and
  canonical printing, is a parameter beside the library record.
\<close>

section \<open>Data\<close>

record soundset_license =
  spdx_id :: string
  rights_holder :: string
  license_copyright :: string
  attribution :: string

record soundset_occupied_slot =
  occupied_role :: string
  occupied_name :: string
  occupied_artifact :: artifact_ref
  occupied_bpm :: "int option"
  occupied_key :: "string option"

record soundset_slot =
  set_slot :: int
  set_occupied :: "soundset_occupied_slot option"

record soundset_manifest =
  manifest_set_id :: string
  manifest_version :: string
  manifest_name :: string
  manifest_publisher :: string
  manifest_description :: "string option"
  manifest_bpm :: "int option"
  manifest_key :: "string option"
  manifest_license :: soundset_license
  manifest_demo :: "artifact_ref option"
  manifest_slots :: "soundset_slot list"
  manifest_canonical_bytes :: string

record catalog_license_summary =
  summary_spdx_id :: string
  summary_rights_holder :: string

definition kSoundSetRoles :: "string list" where
  "kSoundSetRoles =
     [''kick'', ''snare'', ''clap'', ''hat_closed'', ''hat_open'', ''perc'', ''cymbal'', ''bass'',
      ''melody'', ''chord'', ''vocal'', ''fx'', ''other'']"

definition kSoundSetSpdxAllowlist :: "string list" where
  "kSoundSetSpdxAllowlist = [''CC0-1.0'', ''CC-BY-4.0'']"

section \<open>Errors\<close>

definition soundset_fail :: "error_code \<Rightarrow> string \<Rightarrow> string \<Rightarrow> 'a result" where
  "soundset_fail code reason message =
     failure ((mk_error code message)\<lparr>err_details := [(''reason'', ArgString reason)]\<rparr>)"

definition manifest_invalid :: "string \<Rightarrow> 'a result" where
  "manifest_invalid m = soundset_fail invalid_argument ''soundset_manifest_invalid'' m"

definition slot_invalid :: "string \<Rightarrow> 'a result" where
  "slot_invalid m = soundset_fail invalid_argument ''soundset_slot_invalid'' m"

definition license_ineligible :: "string \<Rightarrow> 'a result" where
  "license_ineligible m = soundset_fail permission_denied ''soundset_license_ineligible'' m"

section \<open>Reading parts of a manifest\<close>

record 'j json_text =
  parse_bounded :: "string \<Rightarrow> 'j option"
  canonical_text :: "'j \<Rightarrow> string"
  member_names :: "'j \<Rightarrow> string list"

definition has_only_keys :: "'j json_lib \<Rightarrow> 'j json_text \<Rightarrow> 'j \<Rightarrow> string list \<Rightarrow> string list \<Rightarrow> bool" where
  "has_only_keys J T input required optional =
     (is_object J input \<and> list_all (has_key J input) required \<and>
      list_all (\<lambda>k. k \<in> set required \<or> k \<in> set optional) (member_names T input))"

text \<open>The checks of a string, at a member: \<open>None\<close> is an exception.\<close>

definition text_at :: "'j json_lib \<Rightarrow> (string \<Rightarrow> bool) \<Rightarrow> 'j \<Rightarrow> string \<Rightarrow> bool option" where
  "text_at J P j k =
     do { v \<leftarrow> at_key J j k;
          if \<not> is_string J v then Some False else do { s \<leftarrow> get_string J v; Some (P s) } }"

abbreviation "is_nonempty_string_at J \<equiv> text_at J (\<lambda>s. s \<noteq> [])"

text \<open>\<open>a && b\<close> on checks that may throw.\<close>

definition and_also :: "bool option \<Rightarrow> bool option \<Rightarrow> bool option" where
  "and_also a b = do { x \<leftarrow> a; if x then b else Some False }"

text \<open>\<open>!object.contains(key) || check\<close>, and an optional string once checked.\<close>

definition when_present :: "'j json_lib \<Rightarrow> 'j \<Rightarrow> string \<Rightarrow> bool option \<Rightarrow> bool option" where
  "when_present J j k check = (if has_key J j k then check else Some True)"

definition optional_string_at :: "'j json_lib \<Rightarrow> 'j \<Rightarrow> string \<Rightarrow> string option option" where
  "optional_string_at J j k =
     (if has_key J j k then map_option Some (string_at J j k) else Some None)"

definition integer_value :: "'j json_lib \<Rightarrow> 'j \<Rightarrow> int option option" where
  "integer_value J v =
     (if \<not> is_number_integer J v then Some None
      else if is_number_unsigned J v then
        do { raw \<leftarrow> get_unsigned J v; Some (if 2 ^ 63 - 1 < uint raw then None else Some (uint raw)) }
      else do { raw \<leftarrow> get_signed J v; Some (Some (sint raw)) })"

text \<open>\<open>optional_bpm\<close>: the outer option is the exception.\<close>

definition optional_bpm :: "'j json_lib \<Rightarrow> 'j \<Rightarrow> string \<Rightarrow> int option option" where
  "optional_bpm J object key =
     (if \<not> has_key J object key then Some None
      else do { v \<leftarrow> at_key J object key;
                bpm \<leftarrow> integer_value J v;
                Some (case bpm of None \<Rightarrow> None | Some b \<Rightarrow> if b < 40 \<or> 240 < b then None else Some b) })"

text \<open>The \<open>bpm\<close> member: absent, or present and in range.\<close>

definition bpm_member :: "'j json_lib \<Rightarrow> string \<Rightarrow> 'j \<Rightarrow> int option result option" where
  "bpm_member J message input =
     (if \<not> has_key J input ''bpm'' then Some (success None)
      else do { bpm \<leftarrow> optional_bpm J input ''bpm'';
                Some (if bpm = None then manifest_invalid message else success bpm) })"

definition known_role :: "string \<Rightarrow> bool" where
  "known_role role = (role \<in> set kSoundSetRoles)"

definition spdx_allowed :: "string \<Rightarrow> bool" where
  "spdx_allowed s = (s \<in> set kSoundSetSpdxAllowlist)"

definition parse_artifact :: "'j json_lib \<Rightarrow> 'j \<Rightarrow> artifact_ref result option" where
  "parse_artifact J input =
     (if \<not> exact_object_keys J input [''sha256'', ''media_type'', ''byte_length''] then
        Some (manifest_invalid ''artifact ref keys must be sha256, media_type, byte_length'')
      else do {
        sha_ok \<leftarrow> text_at J (regex_match kSha256) input ''sha256'';
        if \<not> sha_ok then
          Some (manifest_invalid ''artifact sha256 must be 64 lowercase hex characters'')
        else do {
          media_ok \<leftarrow> is_nonempty_string_at J input ''media_type'';
          if \<not> media_ok then
            Some (manifest_invalid ''artifact media_type must be a non-empty string'')
          else do {
            number \<leftarrow> at_key J input ''byte_length'';
            bytes \<leftarrow> if is_number_unsigned J number then map_option Some (get_unsigned J number) else Some None;
            case bytes of
              None \<Rightarrow> Some (manifest_invalid ''artifact byte_length must be a positive integer'')
            | Some n \<Rightarrow>
                (if n < 1 then
                   Some (manifest_invalid ''artifact byte_length must be a positive integer'')
                 else do {
                   sha \<leftarrow> string_at J input ''sha256'';
                   media \<leftarrow> string_at J input ''media_type'';
                   Some (success \<lparr>art_sha256 = sha, art_media_type = media, art_byte_length = n\<rparr>) }) } } })"

definition parse_license :: "'j json_lib \<Rightarrow> 'j \<Rightarrow> soundset_license result option" where
  "parse_license J input =
     (if \<not> exact_object_keys J input [''spdx_id'', ''rights_holder'', ''copyright'', ''attribution''] then
        Some (manifest_invalid
          ''license must contain exactly spdx_id, rights_holder, copyright, attribution'')
      else do {
        shape \<leftarrow> and_also (is_nonempty_string_at J input ''spdx_id'')
          (and_also (is_nonempty_string_at J input ''rights_holder'')
            (and_also (is_nonempty_string_at J input ''copyright'')
              (text_at J (\<lambda>_. True) input ''attribution'')));
        if \<not> shape then
          Some (manifest_invalid
            ''license.spdx_id, rights_holder and copyright must be non-empty strings'')
        else do {
          spdx \<leftarrow> string_at J input ''spdx_id'';
          holder \<leftarrow> string_at J input ''rights_holder'';
          copy \<leftarrow> string_at J input ''copyright'';
          attr \<leftarrow> string_at J input ''attribution'';
          Some (success \<lparr>spdx_id = spdx, rights_holder = holder, license_copyright = copy,
            attribution = attr\<rparr>) } })"

section \<open>Slots\<close>

definition parse_occupied :: "'j json_lib \<Rightarrow> 'j json_text \<Rightarrow> int \<Rightarrow> 'j \<Rightarrow> soundset_slot result option" where
  "parse_occupied J T index input =
     (if \<not> has_only_keys J T input [''slot'', ''role'', ''name'', ''artifact''] [''bpm'', ''key''] then
        Some (manifest_invalid ''occupied slot has unknown or missing keys'')
      else do {
        names \<leftarrow> and_also (is_nonempty_string_at J input ''role'') (is_nonempty_string_at J input ''name'');
        if \<not> names then
          Some (slot_invalid ''occupied slot role and name must be non-empty strings'')
        else do {
          role \<leftarrow> string_at J input ''role'';
          if \<not> known_role role then
            Some (slot_invalid ''occupied slot role is not in the v1 closed enum'')
          else do {
            key_ok \<leftarrow> when_present J input ''key'' (is_nonempty_string_at J input ''key'');
            if \<not> key_ok then
              Some (manifest_invalid ''occupied slot key must be a non-empty string when present'')
            else
              then_read (bpm_member J ''occupied slot bpm must be an integer in 40..240'' input) (\<lambda>bpm. do {
                artifact_value \<leftarrow> at_key J input ''artifact'';
                then_read (parse_artifact J artifact_value) (\<lambda>artifact. do {
                  key \<leftarrow> optional_string_at J input ''key'';
                  name \<leftarrow> string_at J input ''name'';
                  Some (success \<lparr>set_slot = index, set_occupied = Some
                    \<lparr>occupied_role = role, occupied_name = name, occupied_artifact = artifact,
                     occupied_bpm = bpm, occupied_key = key\<rparr>\<rparr>) }) }) } } })"

text \<open>The rest of \<open>parse_slot\<close> once the index is an integer.\<close>

definition parse_slot_at :: "'j json_lib \<Rightarrow> 'j json_text \<Rightarrow> 'j \<Rightarrow> int \<Rightarrow> soundset_slot result option" where
  "parse_slot_at J T input index =
     (if index < 0 \<or> uint kSoundSetSlotCount \<le> index then
        Some (slot_invalid ''slot index must be in 0..15'')
      else if exact_object_keys J input [''slot''] then
        Some (success \<lparr>set_slot = index, set_occupied = None\<rparr>)
      else parse_occupied J T index input)"

definition parse_slot :: "'j json_lib \<Rightarrow> 'j json_text \<Rightarrow> 'j \<Rightarrow> soundset_slot result option" where
  "parse_slot J T input =
     (if \<not> is_object J input \<or> \<not> has_key J input ''slot'' then
        Some (slot_invalid ''each slot object must contain an integer slot index'')
      else do {
        number \<leftarrow> at_key J input ''slot'';
        if \<not> is_number_integer J number then
          Some (slot_invalid ''each slot object must contain an integer slot index'')
        else do {
          raw_index \<leftarrow> integer_value J number;
          case raw_index of
            None \<Rightarrow> Some (slot_invalid ''slot index must be in 0..15'')
          | Some index \<Rightarrow> parse_slot_at J T input index } })"

text \<open>The loop over the slots, with its locals \<open>seen\<close> and \<open>manifest.slots\<close>.\<close>

fun parse_slots ::
  "'j json_lib \<Rightarrow> 'j json_text \<Rightarrow> bool list \<Rightarrow> soundset_slot list \<Rightarrow> 'j list
     \<Rightarrow> soundset_slot list result option" where
  "parse_slots J T seen slots [] = Some (success slots)"
| "parse_slots J T seen slots (entry # rest) =
     then_read (parse_slot J T entry) (\<lambda>slot.
       if seen ! nat (set_slot slot) then
         Some (slot_invalid ''each slot index 0..15 must appear exactly once'')
       else parse_slots J T (seen[nat (set_slot slot) := True])
              (slots[nat (set_slot slot) := slot]) rest)"

definition default_slots :: "soundset_slot list" where
  "default_slots = replicate (unat kSoundSetSlotCount) \<lparr>set_slot = 0, set_occupied = None\<rparr>"

section \<open>The manifest\<close>

text \<open>The checks of the root's own text members, in the order of the code.\<close>

definition check_root_texts :: "'j json_lib \<Rightarrow> 'j \<Rightarrow> unit result option" where
  "check_root_texts J root =
     do {
       contract_ok \<leftarrow> text_at J (\<lambda>t. t = ''lmdj.soundset.v1'') root ''contract'';
       if \<not> contract_ok then Some (manifest_invalid ''contract must be lmdj.soundset.v1'')
       else do {
         id_ok \<leftarrow> text_at J (regex_match kUuid) root ''set_id'';
         if \<not> id_ok then Some (manifest_invalid ''set_id must be a lowercase UUID'')
         else do {
           version_ok \<leftarrow> text_at J kSemver_match root ''version'';
           if \<not> version_ok then Some (manifest_invalid ''version must be a SemVer string'')
           else do {
             names \<leftarrow> and_also (is_nonempty_string_at J root ''name'')
               (is_nonempty_string_at J root ''publisher'');
             if \<not> names then Some (manifest_invalid ''name and publisher must be non-empty strings'')
             else do {
               description_ok \<leftarrow>
                 when_present J root ''description'' (is_nonempty_string_at J root ''description'');
               if \<not> description_ok then
                 Some (manifest_invalid ''description must be a non-empty string when present'')
               else do {
                 key_ok \<leftarrow> when_present J root ''key'' (is_nonempty_string_at J root ''key'');
                 if \<not> key_ok then
                   Some (manifest_invalid ''set key must be a non-empty string when present'')
                 else Some (success ()) } } } } } }"

definition demo_member :: "'j json_lib \<Rightarrow> 'j \<Rightarrow> artifact_ref option result option" where
  "demo_member J root =
     (if \<not> has_key J root ''demo'' then Some (success None)
      else do { v \<leftarrow> at_key J root ''demo'';
                then_read (parse_artifact J v) (\<lambda>a. Some (success (Some a))) })"

definition read_manifest ::
  "'j json_lib \<Rightarrow> 'j json_text \<Rightarrow> string \<Rightarrow> 'j \<Rightarrow> soundset_manifest result option" where
  "read_manifest J T canonical root =
     then_read (check_root_texts J root) (\<lambda>_.
       then_read (bpm_member J ''set bpm must be an integer in 40..240'' root) (\<lambda>bpm. do {
         license_value \<leftarrow> at_key J root ''license'';
         then_read (parse_license J license_value) (\<lambda>license.
           then_read (demo_member J root) (\<lambda>demo. do {
             slots_value \<leftarrow> at_key J root ''slots'';
             if \<not> is_array J slots_value \<or> json_size J slots_value \<noteq> unat kSoundSetSlotCount then
               Some (slot_invalid ''slots must contain exactly 16 entries'')
             else do {
               set \<leftarrow> string_at J root ''set_id'';
               version \<leftarrow> string_at J root ''version'';
               name \<leftarrow> string_at J root ''name'';
               publisher \<leftarrow> string_at J root ''publisher'';
               description \<leftarrow> optional_string_at J root ''description'';
               key \<leftarrow> optional_string_at J root ''key'';
               then_read
                 (parse_slots J T (replicate (unat kSoundSetSlotCount) False) default_slots
                   (elements J slots_value)) (\<lambda>slots.
                 Some (success
                   \<lparr>manifest_set_id = set, manifest_version = version, manifest_name = name,
                    manifest_publisher = publisher, manifest_description = description,
                    manifest_bpm = bpm, manifest_key = key, manifest_license = license,
                    manifest_demo = demo, manifest_slots = slots,
                    manifest_canonical_bytes = canonical\<rparr>)) } })) }))"

definition parse_soundset_manifest ::
  "'j json_lib \<Rightarrow> 'j json_text \<Rightarrow> string \<Rightarrow> soundset_manifest result option" where
  "parse_soundset_manifest J T bytes =
     (if \<not> valid_utf8 bytes then
        Some (manifest_invalid ''sound set object must be well-formed UTF-8'')
      else case parse_bounded T bytes of
          None \<Rightarrow> Some (manifest_invalid ''sound set object must be bounded JSON object'')
        | Some root \<Rightarrow>
            (if \<not> is_object J root then
               Some (manifest_invalid ''sound set object must be bounded JSON object'')
             else if canonical_text T root \<noteq> bytes then
               Some (manifest_invalid
                 ''sound set object must equal canonical_json bytes with no trailing newline'')
             else if \<not> has_only_keys J T root
                 [''contract'', ''set_id'', ''version'', ''name'', ''publisher'', ''license'', ''slots'']
                 [''description'', ''bpm'', ''key'', ''demo''] then
               Some (manifest_invalid ''sound set root has unknown or missing keys'')
             else read_manifest J T (canonical_text T root) root))"

definition check_soundset_eligibility ::
  "soundset_manifest \<Rightarrow> catalog_license_summary option \<Rightarrow> unit result" where
  "check_soundset_eligibility m summary =
     (let license = manifest_license m in
      if \<not> spdx_allowed (spdx_id license) then
        license_ineligible ''spdx_id is not on the v1 Sound Set allowlist''
      else if spdx_id license = ''CC-BY-4.0'' \<and> attribution license = [] then
        license_ineligible ''CC-BY-4.0 requires a non-empty attribution string''
      else if (case summary of None \<Rightarrow> False
               | Some c \<Rightarrow> summary_spdx_id c \<noteq> spdx_id license \<or>
                          summary_rights_holder c \<noteq> rights_holder license) then
        license_ineligible
          ''catalog license_summary must equal manifest spdx_id and rights_holder''
      else success ())"

section \<open>Mapping a Set onto a Bank\<close>

datatype occupied_pad_policy = Policy_keep | Policy_replace

record soundset_proposed_pad =
  proposed_slot_index :: u8
  proposed_pad :: u8
  proposed_artifact :: artifact_ref
  proposed_category :: "asset_category option"

record soundset_mapping =
  proposed :: "soundset_proposed_pad list"
  collisions :: "u8 list"
  kept :: "u8 list"

text \<open>One round of the loop over the Pads of the Bank.\<close>

definition map_pad ::
  "soundset_manifest \<Rightarrow> pad_slot list \<Rightarrow> soundset_mapping \<Rightarrow> nat \<Rightarrow> soundset_mapping" where
  "map_pad manifest pads mapping index =
     (let pad = of_nat index in
      case set_occupied (manifest_slots manifest ! index) of
        None \<Rightarrow> mapping\<lparr>kept := kept mapping @ [pad]\<rparr>
      | Some o' \<Rightarrow>
          mapping\<lparr>proposed := proposed mapping @
              [\<lparr>proposed_slot_index = pad, proposed_pad = pad, proposed_artifact = occupied_artifact o',
                proposed_category = soundset_role_category (occupied_role o')\<rparr>],
            collisions := (if slot_asset (pads ! index) \<noteq> None then collisions mapping @ [pad]
                           else collisions mapping)\<rparr>)"

definition map_soundset :: "soundset_manifest \<Rightarrow> pad_slot list \<Rightarrow> soundset_mapping" where
  "map_soundset manifest pads =
     foldl (map_pad manifest pads) \<lparr>proposed = [], collisions = [], kept = []\<rparr> [0..<length pads]"

definition resolve_soundset_write_set ::
  "soundset_mapping \<Rightarrow> occupied_pad_policy option \<Rightarrow> soundset_proposed_pad list result" where
  "resolve_soundset_write_set mapping policy =
     (if collisions mapping \<noteq> [] \<and> policy = None then
        failure ((mk_error invalid_argument ''installing this Sound Set needs an occupied Pad policy'')
          \<lparr>err_details := [(''collisions'', ArgSlots (collisions mapping)),
            (''reason'', ArgString ''soundset_occupied_conflict'')]\<rparr>)
      else if value_or policy Policy_replace = Policy_replace then success (proposed mapping)
      else success (filter (\<lambda>p. proposed_pad p \<notin> set (collisions mapping)) (proposed mapping)))"

end
