(* ===== verification/Soundset_Laws.thy ===== *)
theory Soundset_Laws
  imports Soundset
begin

text \<open>
  What the Sound Set reader guarantees of the manifests it accepts, and what the map onto a Bank
  may write.
\<close>

section \<open>Accepted manifests\<close>

definition bpm_ok :: "int option \<Rightarrow> bool" where
  "bpm_ok b = opt_all (\<lambda>b. 40 \<le> b \<and> b \<le> 240) b"

definition set_artifact_ok :: "artifact_ref \<Rightarrow> bool" where
  "set_artifact_ok a = (valid_sha256 (art_sha256 a) \<and> art_media_type a \<noteq> [] \<and> 1 \<le> art_byte_length a)"

definition occupied_ok :: "soundset_occupied_slot \<Rightarrow> bool" where
  "occupied_ok s =
     (occupied_role s \<in> set kSoundSetRoles \<and> occupied_name s \<noteq> [] \<and>
      set_artifact_ok (occupied_artifact s) \<and> bpm_ok (occupied_bpm s) \<and>
      opt_all (\<lambda>k. k \<noteq> []) (occupied_key s))"

definition slot_at_ok :: "nat \<Rightarrow> soundset_slot \<Rightarrow> bool" where
  "slot_at_ok i s = (set_slot s = int i \<and> opt_all occupied_ok (set_occupied s))"

definition manifest_ok :: "string \<Rightarrow> soundset_manifest \<Rightarrow> bool" where
  "manifest_ok bytes m =
     (is_valid_uuid (manifest_set_id m) \<and> valid_soundset_semver (manifest_version m) \<and>
      manifest_name m \<noteq> [] \<and> manifest_publisher m \<noteq> [] \<and>
      opt_all (\<lambda>d. d \<noteq> []) (manifest_description m) \<and> opt_all (\<lambda>k. k \<noteq> []) (manifest_key m) \<and>
      bpm_ok (manifest_bpm m) \<and> opt_all set_artifact_ok (manifest_demo m) \<and>
      spdx_id (manifest_license m) \<noteq> [] \<and> rights_holder (manifest_license m) \<noteq> [] \<and>
      license_copyright (manifest_license m) \<noteq> [] \<and>
      manifest_canonical_bytes m = bytes \<and> valid_utf8 bytes \<and>
      length (manifest_slots m) = 16 \<and> list_all (\<lambda>i. slot_at_ok i (manifest_slots m ! i)) [0..<16])"

lemmas read_simps = bind_eq_Some_conv then_read_success manifest_invalid_def slot_invalid_def
  soundset_fail_def

lemma text_at_checked:
  assumes "text_at J P j k = Some True" "string_at J j k = Some s"
  shows "P s"
  using assms by (auto simp: text_at_def string_at_def bind_eq_Some_conv split: if_splits)

lemma and_also_True: "and_also a b = Some True \<longleftrightarrow> a = Some True \<and> b = Some True"
  by (auto simp: and_also_def bind_eq_Some_conv split: if_splits)

lemma optional_string_checked:
  "when_present J j k (text_at J P j k) = Some True \<Longrightarrow> optional_string_at J j k = Some v \<Longrightarrow> opt_all P v"
  by (auto simp: when_present_def optional_string_at_def dest: text_at_checked split: if_splits)

lemma bpm_member_ok: "bpm_member J m j = Some (Inr b) \<Longrightarrow> bpm_ok b"
  by (auto simp: bpm_member_def optional_bpm_def bpm_ok_def read_simps split: if_splits option.splits)

lemma parse_artifact_ok:
  assumes "parse_artifact J j = Some (Inr a)"
  shows "set_artifact_ok a"
proof -
  obtain sha media where strs: "text_at J (regex_match kSha256) j ''sha256'' = Some True"
    "is_nonempty_string_at J j ''media_type'' = Some True"
    "string_at J j ''sha256'' = Some sha" "string_at J j ''media_type'' = Some media"
    and a: "art_sha256 a = sha" "art_media_type a = media" "\<not> art_byte_length a < 1"
    using assms by (auto simp: parse_artifact_def read_simps split: if_splits option.splits)
  from text_at_checked [OF strs(1,3)] text_at_checked [OF strs(2,4)] a show ?thesis
    by (simp add: set_artifact_ok_def valid_sha256_regex word_one_le)
qed

lemma parse_license_ok:
  assumes "parse_license J j = Some (Inr l)"
  shows "spdx_id l \<noteq> [] \<and> rights_holder l \<noteq> [] \<and> license_copyright l \<noteq> []"
proof -
  obtain a b c where strs: "is_nonempty_string_at J j ''spdx_id'' = Some True"
    "is_nonempty_string_at J j ''rights_holder'' = Some True"
    "is_nonempty_string_at J j ''copyright'' = Some True"
    "string_at J j ''spdx_id'' = Some a" "string_at J j ''rights_holder'' = Some b"
    "string_at J j ''copyright'' = Some c"
    and l: "spdx_id l = a" "rights_holder l = b" "license_copyright l = c"
    using assms by (auto simp: parse_license_def and_also_True read_simps split: if_splits)
  from text_at_checked [OF strs(1,4)] text_at_checked [OF strs(2,5)] text_at_checked [OF strs(3,6)] l
  show ?thesis by simp
qed

lemma demo_member_ok: "demo_member J j = Some (Inr a) \<Longrightarrow> opt_all set_artifact_ok a"
  by (auto simp: demo_member_def read_simps dest: parse_artifact_ok split: if_splits)

lemma parse_occupied_ok:
  assumes "parse_occupied J T i j = Some (Inr s)"
  shows "set_slot s = i \<and> opt_all occupied_ok (set_occupied s)"
proof -
  obtain role v artifact name key bpm where
    strs: "is_nonempty_string_at J j ''name'' = Some True" "string_at J j ''name'' = Some name"
      "when_present J j ''key'' (is_nonempty_string_at J j ''key'') = Some True"
      "optional_string_at J j ''key'' = Some key"
    and parts: "known_role role" "bpm_member J ''occupied slot bpm must be an integer in 40..240'' j = Some (Inr bpm)"
      "parse_artifact J v = Some (Inr artifact)"
    and s: "s = \<lparr>set_slot = i, set_occupied = Some
        \<lparr>occupied_role = role, occupied_name = name, occupied_artifact = artifact,
         occupied_bpm = bpm, occupied_key = key\<rparr>\<rparr>"
    using assms by (auto simp: parse_occupied_def and_also_True read_simps split: if_splits)
  from text_at_checked [OF strs(1,2)] optional_string_checked [OF strs(3,4)] parts(1)
    bpm_member_ok [OF parts(2)] parse_artifact_ok [OF parts(3)]
  show ?thesis by (simp add: s occupied_ok_def known_role_def)
qed

lemma parse_slot_ok:
  assumes "parse_slot J T j = Some (Inr s)"
  shows "0 \<le> set_slot s" "set_slot s < 16" "slot_at_ok (nat (set_slot s)) s"
proof -
  obtain i where "parse_slot_at J T j i = Some (Inr s)"
    using assms by (auto simp: parse_slot_def read_simps split: if_split_asm option.split_asm)
  then have "0 \<le> i" "i < 16"
    and s: "s = \<lparr>set_slot = i, set_occupied = None\<rparr> \<or> parse_occupied J T i j = Some (Inr s)"
    by (auto simp: parse_slot_at_def read_simps split: if_split_asm)
  then have "0 \<le> set_slot s \<and> set_slot s < 16 \<and> opt_all occupied_ok (set_occupied s)"
    using parse_occupied_ok [of J T i j s] by (elim disjE) simp_all
  then show "0 \<le> set_slot s" "set_slot s < 16" "slot_at_ok (nat (set_slot s)) s"
    by (simp_all add: slot_at_ok_def)
qed

section \<open>The slot loop\<close>

definition slots_so_far :: "bool list \<Rightarrow> soundset_slot list \<Rightarrow> bool" where
  "slots_so_far seen slots =
     (length seen = 16 \<and> length slots = 16 \<and> (\<forall>i < 16. seen ! i \<longrightarrow> slot_at_ok i (slots ! i)))"

lemma nth_list_update_if: "k < length xs \<Longrightarrow> xs[k := v] ! i = (if i = k then v else xs ! i)"
  by simp

lemma count_seen:
  assumes "i < length seen" "\<not> seen ! i"
  shows "length (filter (\<lambda>b. b) (seen[i := True])) = Suc (length (filter (\<lambda>b. b) seen))"
proof -
  have "seen = take i seen @ False # drop (Suc i) seen"
    using assms by (metis id_take_nth_drop)
  then have "filter (\<lambda>b. b) seen = filter (\<lambda>b. b) (take i seen @ False # drop (Suc i) seen)" by simp
  then show ?thesis using assms(1) by (simp add: upd_conv_take_nth_drop)
qed

lemma parse_slots_ok:
  assumes "parse_slots J T seen slots es = Some (Inr r)" "slots_so_far seen slots"
  shows "\<exists>seen'. slots_so_far seen' r \<and>
    length (filter (\<lambda>b. b) seen') = length (filter (\<lambda>b. b) seen) + length es"
  using assms
proof (induction J T seen slots es rule: parse_slots.induct)
  case (1 J T seen slots)
  then show ?case by auto
next
  case (2 J T seen slots entry rest)
  from "2.prems"(1) obtain s where s: "parse_slot J T entry = Some (Inr s)" "\<not> seen ! nat (set_slot s)"
    "parse_slots J T (seen[nat (set_slot s) := True]) (slots[nat (set_slot s) := s]) rest = Some (Inr r)"
    by (auto simp: read_simps split: if_splits)
  note ok = parse_slot_ok [OF s(1)]
  have i: "nat (set_slot s) < 16" using ok(1,2) by simp
  have "slots_so_far (seen[nat (set_slot s) := True]) (slots[nat (set_slot s) := s])"
    using "2.prems"(2) ok(3) i unfolding slots_so_far_def by (auto simp: nth_list_update_if)
  from "2.IH" [OF s(2,3) this] show ?case
    using count_seen [of "nat (set_slot s)" seen] i s(2) "2.prems"(2) by (simp add: slots_so_far_def)
qed

lemma all_seen:
  assumes "length (filter (\<lambda>b. b) seen) = length seen" "i < length seen"
  shows "seen ! i"
proof (rule ccontr)
  assume "\<not> seen ! i"
  then have "length (filter (\<lambda>b. b) (seen[i := True])) = Suc (length seen)"
    using count_seen assms by simp
  moreover have "length (filter (\<lambda>b. b) (seen[i := True])) \<le> length seen"
    using length_filter_le [of _ "seen[i := True]"] by simp
  ultimately show False by simp
qed

text \<open>Arrays of the library have as many elements as their size says.\<close>

definition array_laws :: "'j json_lib \<Rightarrow> bool" where
  "array_laws J = (\<forall>j. is_array J j \<longrightarrow> json_size J j = length (elements J j))"

lemma slots_complete:
  assumes "array_laws J" "is_array J v" "json_size J v = 16"
    and "parse_slots J T (replicate 16 False) default_slots (elements J v) = Some (Inr r)"
  shows "length r = 16 \<and> list_all (\<lambda>i. slot_at_ok i (r ! i)) [0..<16]"
proof -
  have "slots_so_far (replicate 16 False) default_slots"
    by (simp add: slots_so_far_def default_slots_def)
  from parse_slots_ok [OF assms(4) this] obtain seen where
    seen: "slots_so_far seen r" "length (filter (\<lambda>b. b) seen) = length (elements J v)" by auto
  then have "length (filter (\<lambda>b. b) seen) = length seen"
    using assms(1-3) by (simp add: array_laws_def slots_so_far_def)
  then have "seen ! i" if "i < 16" for i using all_seen that seen(1) by (simp add: slots_so_far_def)
  then show ?thesis using seen(1) by (simp add: slots_so_far_def list_all_iff)
qed

lemma check_root_ok:
  assumes "check_root_texts J root = Some (Inr u)"
  shows "text_at J (regex_match kUuid) root ''set_id'' = Some True"
    "text_at J kSemver_match root ''version'' = Some True"
    "is_nonempty_string_at J root ''name'' = Some True"
    "is_nonempty_string_at J root ''publisher'' = Some True"
    "when_present J root ''description'' (is_nonempty_string_at J root ''description'') = Some True"
    "when_present J root ''key'' (is_nonempty_string_at J root ''key'') = Some True"
  using assms by (auto simp: check_root_texts_def and_also_True read_simps split: if_splits)

lemma read_manifest_ok:
  assumes "array_laws J" "read_manifest J T bytes root = Some (Inr m)" "valid_utf8 bytes"
  shows "manifest_ok bytes m"
proof -
  obtain u lv lic demo sv slots where
    root: "check_root_texts J root = Some (Inr u)"
    and bpm: "bpm_member J ''set bpm must be an integer in 40..240'' root = Some (Inr (manifest_bpm m))"
    and lic: "parse_license J lv = Some (Inr (manifest_license m))"
    and demo: "demo_member J root = Some (Inr (manifest_demo m))"
    and strs: "string_at J root ''set_id'' = Some (manifest_set_id m)"
      "string_at J root ''version'' = Some (manifest_version m)"
      "string_at J root ''name'' = Some (manifest_name m)"
      "string_at J root ''publisher'' = Some (manifest_publisher m)"
      "optional_string_at J root ''description'' = Some (manifest_description m)"
      "optional_string_at J root ''key'' = Some (manifest_key m)"
    and slots: "is_array J sv" "json_size J sv = 16"
      "parse_slots J T (replicate 16 False) default_slots (elements J sv) = Some (Inr (manifest_slots m))"
    and bytes: "manifest_canonical_bytes m = bytes"
    using assms(2) by (auto simp: read_manifest_def read_simps split: if_split_asm)
  note checked = check_root_ok [OF root]
  show ?thesis
    using text_at_checked [OF checked(1) strs(1)] text_at_checked [OF checked(2) strs(2)]
      text_at_checked [OF checked(3) strs(3)] text_at_checked [OF checked(4) strs(4)]
      optional_string_checked [OF checked(5) strs(5)] optional_string_checked [OF checked(6) strs(6)]
      bpm_member_ok [OF bpm] parse_license_ok [OF lic] demo_member_ok [OF demo]
      slots_complete [OF assms(1) slots] bytes assms(3)
    by (simp add: manifest_ok_def is_valid_uuid_regex semver_scan_dotted semver_regex_dotted)
qed

text \<open>
  Property C23. Every accepted Sound Set is well formed: a manifest the parser returns carries the
  bytes it was read from, which are valid UTF-8, identifiers, version, texts and tempo within their
  rules, and exactly one valid slot for each index from 0 to 15 in order.
\<close>

theorem accepted_manifest_ok:
  assumes "array_laws J" "parse_soundset_manifest J T bytes = Some (Inr m)"
  shows "manifest_ok bytes m"
  using assms read_manifest_ok [of J T bytes _ m]
  by (auto simp: parse_soundset_manifest_def read_simps split: if_split_asm option.split_asm)

section \<open>The write set\<close>

definition occupied_slots :: "soundset_manifest \<Rightarrow> nat list" where
  "occupied_slots m = filter (\<lambda>i. set_occupied (manifest_slots m ! i) \<noteq> None) [0..<16]"

definition proposal :: "soundset_manifest \<Rightarrow> nat \<Rightarrow> soundset_proposed_pad" where
  "proposal m i =
     \<lparr>proposed_slot_index = of_nat i, proposed_pad = of_nat i,
      proposed_artifact = occupied_artifact (the (set_occupied (manifest_slots m ! i))),
      proposed_category = soundset_role_category (occupied_role (the (set_occupied (manifest_slots m ! i))))\<rparr>"

lemma map_soundset_upto:
  "foldl (map_pad m pads) \<lparr>proposed = [], collisions = [], kept = []\<rparr> [0..<n] =
    \<lparr>proposed = map (proposal m) (filter (\<lambda>i. set_occupied (manifest_slots m ! i) \<noteq> None) [0..<n]),
     collisions = map of_nat (filter (\<lambda>i. slot_asset (pads ! i) \<noteq> None)
        (filter (\<lambda>i. set_occupied (manifest_slots m ! i) \<noteq> None) [0..<n])),
     kept = map of_nat (filter (\<lambda>i. set_occupied (manifest_slots m ! i) = None) [0..<n])\<rparr>"
  by (induction n) (auto simp: map_pad_def proposal_def Let_def)

lemma map_soundset_parts:
  assumes "length pads = 16"
  shows "proposed (map_soundset m pads) = map (proposal m) (occupied_slots m)"
    "collisions (map_soundset m pads) =
      map of_nat (filter (\<lambda>i. slot_asset (pads ! i) \<noteq> None) (occupied_slots m))"
  using assms map_soundset_upto [of m pads 16] by (simp_all add: map_soundset_def occupied_slots_def)

lemma pad_number: "i < 16 \<Longrightarrow> unat (of_nat i :: u8) = i"
  by (simp add: unsigned_of_nat take_bit_nat_eq_self_iff)

lemma occupied_slots_less: "i \<in> set (occupied_slots m) \<Longrightarrow> i < 16"
  by (simp add: occupied_slots_def)

lemma proposal_pad: "i \<in> set (occupied_slots m) \<Longrightarrow> unat (proposed_pad (proposal m i)) = i"
  by (simp add: proposal_def pad_number occupied_slots_less)

lemma collides_iff:
  assumes "length pads = 16" "i \<in> set (occupied_slots m)"
  shows "proposed_pad (proposal m i) \<in> set (collisions (map_soundset m pads)) \<longleftrightarrow> slot_asset (pads ! i) \<noteq> None"
proof -
  have "of_nat i = (of_nat j :: u8) \<longleftrightarrow> i = j" if "j \<in> set (occupied_slots m)" for j
    using pad_number occupied_slots_less assms(2) that by (metis)
  then show ?thesis using assms by (auto simp: map_soundset_parts proposal_def)
qed

text \<open>
  Property C24. What installing a Set may write: without a policy it is refused exactly when an
  occupied Set slot meets an occupied Pad; otherwise the write set names, in slot order, exactly the
  occupied Set slots with their artifacts, each for the Pad of the same number, except that under
  the keep policy Pads that hold an Asset are left out.
\<close>

theorem write_set_exact:
  assumes "length pads = 16"
  shows "case resolve_soundset_write_set (map_soundset m pads) policy of
      Inl e \<Rightarrow> policy = None \<and> (\<exists>i \<in> set (occupied_slots m). slot_asset (pads ! i) \<noteq> None)
    | Inr ws \<Rightarrow>
        (policy = None \<longrightarrow> (\<forall>i \<in> set (occupied_slots m). slot_asset (pads ! i) = None)) \<and>
        map (\<lambda>p. unat (proposed_pad p)) ws =
          filter (\<lambda>i. policy = Some Policy_keep \<longrightarrow> slot_asset (pads ! i) = None) (occupied_slots m) \<and>
        list_all (\<lambda>p. proposed_slot_index p = proposed_pad p \<and>
          Some (proposed_artifact p) = map_option occupied_artifact
            (set_occupied (manifest_slots m ! unat (proposed_pad p)))) ws"
proof -
  let ?M = "map_soundset m pads" and ?os = "occupied_slots m"
  have pads: "map (\<lambda>p. unat (proposed_pad p)) (map (proposal m) (filter P ?os)) = filter P ?os" for P
    using proposal_pad [of _ m] by (auto intro!: map_idI)
  have ok: "list_all (\<lambda>p. proposed_slot_index p = proposed_pad p \<and>
      Some (proposed_artifact p) = map_option occupied_artifact
        (set_occupied (manifest_slots m ! unat (proposed_pad p)))) (map (proposal m) (filter P ?os))" for P
    using proposal_pad [of _ m]
    by (auto simp: list_all_iff occupied_slots_def) (auto simp: proposal_def)
  have none: "collisions ?M = [] \<longleftrightarrow> (\<forall>i \<in> set ?os. slot_asset (pads ! i) = None)"
    using map_soundset_parts(2) [OF assms] by (auto simp: filter_empty_conv)
  have keep: "filter (\<lambda>p. proposed_pad p \<notin> set (collisions ?M)) (proposed ?M) =
      map (proposal m) (filter (\<lambda>i. slot_asset (pads ! i) = None) ?os)"
    unfolding map_soundset_parts(1) [OF assms] filter_map comp_def
    using collides_iff [OF assms] by (intro arg_cong [where f = "map (proposal m)"] filter_cong) auto
  show ?thesis
  proof (cases policy)
    case None
    then show ?thesis
      using none pads [of "\<lambda>_. True"] ok [of "\<lambda>_. True"] map_soundset_parts(1) [OF assms, of m]
      by (auto simp: resolve_soundset_write_set_def)
  next
    case (Some p)
    then show ?thesis
      using pads [of "\<lambda>_. True"] ok [of "\<lambda>_. True"] map_soundset_parts(1) [OF assms, of m] keep
        pads [of "\<lambda>i. slot_asset (pads ! i) = None"] ok [of "\<lambda>i. slot_asset (pads ! i) = None"]
      by (cases p) (simp_all add: resolve_soundset_write_set_def)
  qed
qed

section \<open>Instances\<close>

definition demo_set_document :: document where
  "demo_set_document = Object
     [(''contract'', Text ''lmdj.soundset.v1''),
      (''license'', Object [(''attribution'', Text []), (''copyright'', Text ''2026''),
        (''rights_holder'', Text ''LMDJ''), (''spdx_id'', Text ''CC0-1.0'')]),
      (''name'', Text ''Basic''), (''publisher'', Text ''LMDJ''),
      (''set_id'', Text ''0198b8e2-0000-4000-8000-0000000000e1''),
      (''slots'', Array
        (Object [(''artifact'', Object [(''byte_length'', Number 44), (''media_type'', Text ''audio/wav''),
            (''sha256'', Text (replicate 64 (CHR ''e'')))]), (''name'', Text ''Kick''),
            (''role'', Text ''kick''), (''slot'', Number 0)] #
         map (\<lambda>i. Object [(''slot'', Number (of_nat i))]) [1..<16])),
      (''version'', Text ''1.0.0'')]"

text \<open>A text form that reads one document and prints its bytes.\<close>

definition demo_text :: "document json_text" where
  "demo_text =
     \<lparr>parse_bounded = \<lambda>bytes. if bytes = ''{}'' then Some demo_set_document else None,
      canonical_text = \<lambda>_. ''{}'',
      member_names = \<lambda>j. case members j of None \<Rightarrow> [] | Some ms \<Rightarrow> map fst ms\<rparr>"

definition demo_manifest :: soundset_manifest where
  "demo_manifest = projr (the (parse_soundset_manifest documents demo_text ''{}''))"

lemma documents_arrays: "array_laws documents"
  by (auto simp: array_laws_def documents_def split: document.split)

theorem accepted_manifest_ok_witness: "manifest_ok ''{}'' demo_manifest"
proof (rule accepted_manifest_ok [OF documents_arrays])
  show "parse_soundset_manifest documents demo_text ''{}'' = Some (Inr demo_manifest)" by code_simp
qed

definition demo_pads :: "pad_slot list" where
  "demo_pads = map (\<lambda>i. \<lparr>slot_id = \<lparr>bank = 0, pad = of_nat i\<rparr>,
     slot_asset = (if i = 0 then Some ''a'' else None), slot_playback = default_playback,
     slot_colour = None\<rparr>) [0..<16]"

theorem write_set_exact_witness:
  "resolve_soundset_write_set (map_soundset demo_manifest demo_pads) (Some Policy_keep) = Inr [] \<and>
   map (\<lambda>p. unat (proposed_pad p))
     (projr (resolve_soundset_write_set (map_soundset demo_manifest demo_pads) (Some Policy_replace))) = [0]"
proof -
  have len: "length demo_pads = 16" by (simp add: demo_pads_def)
  have occ: "occupied_slots demo_manifest = [0]" "slot_asset (demo_pads ! 0) = Some ''a''" by code_simp+
  from write_set_exact [OF len, where m = demo_manifest and policy = "Some Policy_keep"]
    write_set_exact [OF len, where m = demo_manifest and policy = "Some Policy_replace"] occ
  show ?thesis by (auto split: sum.splits)
qed

end
