(* ===== verification/Bytes.thy ===== *)
theory Bytes
  imports Foundation
begin

unbundle bit_operations_syntax

text \<open>
  Byte buffers: \<open>std::span<const std::byte>\<close> and \<open>std::vector<std::byte>\<close> as lists of bytes, the
  little-endian reads of \<open>wav_reader.cpp\<close>, and the little-endian appends of \<open>wav_selection.cpp\<close>.
  A \<open>std::size_t\<close> that indexes a buffer is a natural number: every sum the readers form is bounded
  by the length of the buffer.
\<close>

type_synonym bytes = "u8 list"

text \<open>\<open>std::int16_t\<close>, read with \<^const>\<open>sint\<close>.\<close>

type_synonym i16 = "16 word"

section \<open>Characters\<close>

definition byte_of_char :: "char \<Rightarrow> u8" where
  "byte_of_char c = of_nat (of_char c)"

definition bytes_of_string :: "string \<Rightarrow> bytes" where
  "bytes_of_string s = map byte_of_char s"

lemma byte_of_char_inj [simp]: "byte_of_char c = byte_of_char d \<longleftrightarrow> c = d"
proof
  assume "byte_of_char c = byte_of_char d"
  then have "unat (byte_of_char c) = unat (byte_of_char d)" by simp
  then have "of_char c = (of_char d :: nat)"
    by (simp add: byte_of_char_def unsigned_of_nat take_bit_nat_eq_self)
  then show "c = d" by simp
qed simp

lemma length_bytes_of_string [simp]: "length (bytes_of_string s) = length s"
  by (simp add: bytes_of_string_def)

section \<open>Reading\<close>

text \<open>\<open>has_fourcc\<close>: the four bytes at an offset, when the buffer has them.\<close>

definition has_fourcc :: "bytes \<Rightarrow> nat \<Rightarrow> string \<Rightarrow> bool" where
  "has_fourcc bs off expected =
     (if length bs < off \<or> length bs - off < length expected then False
      else list_all (\<lambda>i. bs ! (off + i) = byte_of_char (expected ! i)) [0..<length expected])"

definition read_u16 :: "bytes \<Rightarrow> nat \<Rightarrow> u16" where
  "read_u16 bs off = ucast (bs ! off) OR push_bit 8 (ucast (bs ! (off + 1)))"

definition read_u32 :: "bytes \<Rightarrow> nat \<Rightarrow> u32" where
  "read_u32 bs off =
     ucast (bs ! off) OR push_bit 8 (ucast (bs ! (off + 1))) OR
     push_bit 16 (ucast (bs ! (off + 2))) OR push_bit 24 (ucast (bs ! (off + 3)))"

section \<open>Writing\<close>

definition append_fourcc :: "bytes \<Rightarrow> string \<Rightarrow> bytes" where
  "append_fourcc out v = out @ bytes_of_string v"

definition append_u16 :: "bytes \<Rightarrow> u16 \<Rightarrow> bytes" where
  "append_u16 out v = out @ [ucast (v AND 0xFF), ucast (drop_bit 8 v AND 0xFF)]"

definition append_u32 :: "bytes \<Rightarrow> u32 \<Rightarrow> bytes" where
  "append_u32 out v = out @ map (\<lambda>shift. ucast (drop_bit shift v AND 0xFF)) [0, 8, 16, 24]"

section \<open>What is written is read back\<close>

lemma low_byte: "ucast (v AND 0xFF) = (ucast v :: u8)" for v :: "'a::len word"
proof -
  have "bit (ucast (v AND mask 8) :: u8) n = bit (ucast v :: u8) n" if "n < LENGTH(8)" for n
    using that by (auto simp: bit_simps dest: bit_imp_le_length)
  then have "ucast (v AND mask 8) = (ucast v :: u8)" by (rule bit_word_eqI)
  then show ?thesis by (simp add: mask_eq_exp_minus_1)
qed

lemma join_u16:
  "ucast (ucast v :: u8) OR push_bit 8 (ucast (ucast (drop_bit 8 v) :: u8)) = (v :: u16)"
  by (rule bit_word_eqI) (auto simp: bit_simps)

lemma join_u32:
  "ucast (ucast v :: u8) OR push_bit 8 (ucast (ucast (drop_bit 8 v) :: u8)) OR
    push_bit 16 (ucast (ucast (drop_bit 16 v) :: u8)) OR
    push_bit 24 (ucast (ucast (drop_bit 24 v) :: u8)) = (v :: u32)"
proof (rule bit_word_eqI)
  fix n assume "n < LENGTH(32)"
  then consider "n < 8" | "8 \<le> n" "n < 16" | "16 \<le> n" "n < 24" | "24 \<le> n" "n < 32"
    by fastforce
  then show "bit (ucast (ucast v :: u8) OR push_bit 8 (ucast (ucast (drop_bit 8 v) :: u8)) OR
    push_bit 16 (ucast (ucast (drop_bit 16 v) :: u8)) OR
    push_bit 24 (ucast (ucast (drop_bit 24 v) :: u8)) :: u32) n = bit v n"
    by cases (auto simp: bit_simps)
qed

end
