(* ===== verification/Wav_Reader.thy ===== *)
theory Wav_Reader
  imports Bytes
begin

text \<open>
  The one-shot WAV decoder (\<open>packages/project-cooker/src/wav_reader.cpp\<close>) and the PCM sample it
  produces (\<open>runtime_snapshot.hpp\<close>). The chunk loop is recursion on the offset; it ends because
  every chunk header takes eight bytes.
\<close>

record pcm_sample =
  sample_rate :: u32
  channels :: u16
  interleaved :: "i16 list"

record wav_metadata =
  meta_sample_rate :: u32
  meta_channels :: u16
  meta_source_frames :: u64

definition unsupported :: "string \<Rightarrow> 'a result" where
  "unsupported msg = failure (mk_error unsupported_audio msg)"

section \<open>The chunk loop\<close>

text \<open>The local variables the loop of \<open>decode_wav\<close> assigns.\<close>

record wav_scan =
  have_fmt :: bool
  have_data :: bool
  audio_format :: u16
  scan_channels :: u16
  scan_rate :: u32
  byte_rate :: u32
  block_align :: u16
  bits_per_sample :: u16
  audio_bytes :: bytes

definition wav_start :: wav_scan where
  "wav_start = \<lparr>have_fmt = False, have_data = False, audio_format = 0, scan_channels = 0,
     scan_rate = 0, byte_rate = 0, block_align = 0, bits_per_sample = 0, audio_bytes = []\<rparr>"

definition read_fmt :: "bytes \<Rightarrow> nat \<Rightarrow> wav_scan \<Rightarrow> wav_scan" where
  "read_fmt bs at st =
     st\<lparr>have_fmt := True, audio_format := read_u16 bs at, scan_channels := read_u16 bs (at + 2),
        scan_rate := read_u32 bs (at + 4), byte_rate := read_u32 bs (at + 8),
        block_align := read_u16 bs (at + 12), bits_per_sample := read_u16 bs (at + 14)\<rparr>"

definition read_chunk :: "bytes \<Rightarrow> nat \<Rightarrow> nat \<Rightarrow> wav_scan \<Rightarrow> wav_scan result" where
  "read_chunk bs offset chunk_size st =
     (let data_offset = offset + 8 in
      if has_fourcc bs offset ''fmt '' then
        if have_fmt st \<or> chunk_size \<noteq> 16 then unsupported ''WAV must contain one PCM fmt chunk''
        else success (read_fmt bs data_offset st)
      else if has_fourcc bs offset ''data'' then
        if have_data st then unsupported ''WAV must contain one data chunk''
        else success (st\<lparr>have_data := True,
          audio_bytes := take chunk_size (drop data_offset bs)\<rparr>)
      else success st)"

function scan_chunks :: "bytes \<Rightarrow> nat \<Rightarrow> wav_scan \<Rightarrow> (nat \<times> wav_scan) result" where
  "scan_chunks bs offset st =
     (if \<not> offset < length bs then success (offset, st)
      else if length bs - offset < 8 then unsupported ''WAV chunk header exceeds file length''
      else
        let chunk_size = unat (read_u32 bs (offset + 4)); data_offset = offset + 8 in
        if length bs - data_offset < chunk_size then unsupported ''WAV chunk exceeds file length''
        else case read_chunk bs offset chunk_size st of
            Inl e \<Rightarrow> failure e
          | Inr st' \<Rightarrow>
              let next_offset = data_offset + chunk_size in
              if odd chunk_size then
                if next_offset = length bs then
                  unsupported ''WAV odd-sized chunk is missing padding''
                else scan_chunks bs (next_offset + 1) st'
              else scan_chunks bs next_offset st')"
  by pat_completeness auto
termination
  by (relation "measure (\<lambda>(bs, offset, st). length bs - offset)") (auto simp: Let_def)

declare scan_chunks.simps [simp del]

section \<open>Decoding\<close>

text \<open>\<open>static_cast<std::uint64_t>(read_u32(...)) + 8U\<close> cannot wrap, so the sum is a natural number.\<close>

definition check_riff :: "bytes \<Rightarrow> unit result" where
  "check_riff bs =
     (if length bs < 12 \<or> \<not> has_fourcc bs 0 ''RIFF'' \<or> \<not> has_fourcc bs 8 ''WAVE'' then
        unsupported ''audio is not a RIFF/WAVE file''
      else if unat (read_u32 bs 4) + 8 \<noteq> length bs then
        unsupported ''RIFF chunk size does not match file length''
      else success ())"

definition supported_encoding :: "u16 \<Rightarrow> u16 \<Rightarrow> u32 \<Rightarrow> u32 \<Rightarrow> u16 \<Rightarrow> u16 \<Rightarrow> bool" where
  "supported_encoding fmt ch rate brate align bits =
     (\<not> (fmt \<noteq> 1 \<or> (ch \<noteq> 1 \<and> ch \<noteq> 2) \<or> (rate \<noteq> 44100 \<and> rate \<noteq> 48000) \<or> bits \<noteq> 16 \<or>
         (ucast align :: u32) \<noteq> ucast ch * 2 \<or> brate \<noteq> rate * ucast align))"

definition samples_of :: "bytes \<Rightarrow> i16 list" where
  "samples_of bs = map (\<lambda>i. read_u16 bs (2 * i)) [0..<(length bs + 1) div 2]"

definition finish_scan :: "bytes \<Rightarrow> nat \<times> wav_scan \<Rightarrow> pcm_sample result" where
  "finish_scan bs r =
     (let offset = fst r; st = snd r in
      if offset \<noteq> length bs \<or> \<not> have_fmt st \<or> \<not> have_data st then
        unsupported ''WAV must contain one fmt and one data chunk''
      else if \<not> supported_encoding (audio_format st) (scan_channels st) (scan_rate st)
          (byte_rate st) (block_align st) (bits_per_sample st) then
        unsupported ''WAV encoding must be 44.1 or 48 kHz PCM16 mono or stereo''
      else if audio_bytes st = [] \<or> length (audio_bytes st) mod unat (block_align st) \<noteq> 0 then
        unsupported ''WAV data is not aligned to complete frames''
      else
        let source_frames = length (audio_bytes st) div unat (block_align st);
            sample_count = source_frames * unat (scan_channels st)
        in if (2 ^ 64 - 1) div unat (scan_channels st) < source_frames then
          unsupported ''WAV sample count overflowed''
        else if 2 ^ 64 - 1 < sample_count \<or> (2 ^ 64 - 1) div 2 < sample_count \<or>
            sample_count * 2 \<noteq> length (audio_bytes st) then
          unsupported ''WAV sample count exceeds supported range''
        else success \<lparr>sample_rate = scan_rate st, channels = scan_channels st,
          interleaved = samples_of (audio_bytes st)\<rparr>)"

definition decode_wav :: "bytes \<Rightarrow> pcm_sample result" where
  "decode_wav bs =
     (case check_riff bs of
        Inl e \<Rightarrow> failure e
      | Inr _ \<Rightarrow>
          (case scan_chunks bs 12 wav_start of
             Inl e \<Rightarrow> failure e
           | Inr r \<Rightarrow> finish_scan bs r))"

section \<open>What the decoder returns\<close>

text \<open>PCM the runtime takes: 44.1 or 48 kHz, mono or stereo, complete frames, at least one.\<close>

definition pcm_ok :: "pcm_sample \<Rightarrow> bool" where
  "pcm_ok p \<longleftrightarrow> sample_rate p \<in> {44100, 48000} \<and> channels p \<in> {1, 2} \<and> interleaved p \<noteq> [] \<and>
     length (interleaved p) mod unat (channels p) = 0"

definition pcm_frames :: "pcm_sample \<Rightarrow> nat" where
  "pcm_frames p = length (interleaved p) div unat (channels p)"

lemma ucast_u16_u32_inj: "(ucast x :: u32) = ucast y \<longleftrightarrow> x = (y :: u16)"
proof
  assume "(ucast x :: u32) = ucast y"
  then have "unat (ucast x :: u32) = unat (ucast y :: u32)" by simp
  then show "x = y" by (simp add: unat_ucast_up word_unat_eq_iff)
qed simp

lemma supported_encoding_iff:
  "supported_encoding fmt ch rate brate align bits \<longleftrightarrow>
     fmt = 1 \<and> ch \<in> {1, 2} \<and> rate \<in> {44100, 48000} \<and> bits = 16 \<and> align = 2 * ch \<and>
     brate = rate * 2 * ucast ch"
proof -
  have "(ucast align :: u32) = ucast ch * 2 \<longleftrightarrow> align = 2 * ch" if "ch \<in> {1, 2}"
  proof -
    have "(ucast align :: u32) = ucast (2 * ch) \<longleftrightarrow> align = 2 * ch"
      by (rule ucast_u16_u32_inj)
    then show ?thesis using that by auto
  qed
  moreover have "ucast (2 * ch) = (2 * ucast ch :: u32)" if "ch \<in> {1, 2}" using that by auto
  ultimately show ?thesis unfolding supported_encoding_def by (auto simp: mult.assoc mult.commute)
qed

lemma length_samples_of: "even (length bs) \<Longrightarrow> length (samples_of bs) = length bs div 2"
  by (simp add: samples_of_def)

lemma length_checked_riff: "check_riff bs = Inr u \<Longrightarrow> length bs < 2 ^ 32 + 8"
  using unsigned_less [of "read_u32 bs 4", where 'a = nat]
  by (simp add: check_riff_def unsupported_def split: if_splits)

text \<open>The size tests after the alignment test never refuse: the data is shorter than the file.\<close>

lemma finish_scan_iff:
  assumes "length (audio_bytes (snd r)) < 2 ^ 63"
  shows "finish_scan bs r =
    (if fst r \<noteq> length bs \<or> \<not> have_fmt (snd r) \<or> \<not> have_data (snd r) then
       unsupported ''WAV must contain one fmt and one data chunk''
     else if \<not> supported_encoding (audio_format (snd r)) (scan_channels (snd r)) (scan_rate (snd r))
          (byte_rate (snd r)) (block_align (snd r)) (bits_per_sample (snd r)) then
       unsupported ''WAV encoding must be 44.1 or 48 kHz PCM16 mono or stereo''
     else if audio_bytes (snd r) = [] \<or> length (audio_bytes (snd r)) mod unat (block_align (snd r)) \<noteq> 0 then
       unsupported ''WAV data is not aligned to complete frames''
     else success \<lparr>sample_rate = scan_rate (snd r), channels = scan_channels (snd r),
       interleaved = samples_of (audio_bytes (snd r))\<rparr>)"
proof -
  let ?n = "length (audio_bytes (snd r))" and ?c = "scan_channels (snd r)"
  have "\<not> (2 ^ 64 - 1) div unat ?c < ?n div (2 * unat ?c)"
    "?n div (2 * unat ?c) * unat ?c * 2 = ?n" "?n div (2 * unat ?c) * unat ?c \<le> ?n"
    if "?c \<in> {1, 2}" "?n mod (2 * unat ?c) = 0"
    using that assms by auto
  moreover have "unat (2 * ?c) = 2 * unat ?c" if "?c \<in> {1, 2}" using that by auto
  ultimately show ?thesis using assms
    by (auto simp: finish_scan_def supported_encoding_iff Let_def)
qed

text \<open>The bytes of the file a scan has accounted for.\<close>

definition scanned :: "wav_scan \<Rightarrow> nat" where
  "scanned st = 12 + (if have_fmt st then 24 else 0) +
     (if have_data st then 8 + length (audio_bytes st) else 0)"

lemma read_chunk_scanned:
  assumes "read_chunk bs off n st = Inr st'" "n \<le> length bs - (off + 8)" "off + 8 \<le> length bs"
  shows "scanned st' \<le> scanned st + (8 + n)"
  using assms by (auto simp: read_chunk_def unsupported_def scanned_def read_fmt_def Let_def split: if_splits)

lemma scan_chunks_bound:
  assumes "scan_chunks bs off st = Inr (off', st')" "scanned st \<le> off" "off \<le> length bs"
  shows "scanned st' \<le> off' \<and> off' \<le> length bs"
  using assms
proof (induction bs off st rule: scan_chunks.induct)
  case (1 bs off st)
  let ?n = "unat (read_u32 bs (off + 4))"
  show ?case
  proof (cases "off < length bs")
    case False
    with "1.prems" show ?thesis by (simp add: scan_chunks.simps)
  next
    case True
    with "1.prems"(1) have fits: "8 \<le> length bs - off" "?n \<le> length bs - (off + 8)"
      by (auto simp: scan_chunks.simps [of bs off] unsupported_def Let_def split: if_splits)
    with "1.prems"(1) True obtain st1 where st1: "read_chunk bs off ?n st = Inr st1"
      by (auto simp: scan_chunks.simps [of bs off] Let_def split: sum.splits)
    have "off + 8 \<le> length bs" using fits(1) True by simp
    from read_chunk_scanned [OF st1 fits(2) this] have room: "scanned st1 \<le> off + 8 + ?n"
      using "1.prems"(2) by simp
    show ?thesis
    proof (cases "odd ?n")
      case True
      with "1.prems"(1) fits st1 \<open>off < length bs\<close>
      have "off + 8 + ?n \<noteq> length bs" "scan_chunks bs (off + 8 + ?n + 1) st1 = Inr (off', st')"
        by (auto simp: scan_chunks.simps [of bs off] unsupported_def Let_def split: if_splits)
      with "1.IH"(1) [OF _ _ refl refl _ st1 refl True] room fits \<open>off < length bs\<close>
      show ?thesis by simp
    next
      case False
      with "1.prems"(1) fits st1 \<open>off < length bs\<close>
      have "scan_chunks bs (off + 8 + ?n) st1 = Inr (off', st')"
        by (simp add: scan_chunks.simps [of bs off])
      with "1.IH"(2) [OF _ _ refl refl _ st1 refl False] room fits \<open>off < length bs\<close>
      show ?thesis by simp
    qed
  qed
qed

lemma decode_wav_ok:
  assumes "decode_wav bs = Inr pcm"
  shows "pcm_ok pcm" "44 + 2 * length (interleaved pcm) \<le> length bs" "length bs < 2 ^ 32 + 8"
proof -
  from assms obtain off st where riff: "check_riff bs = Inr ()"
    and scan: "scan_chunks bs 12 wav_start = Inr (off, st)" and fin: "finish_scan bs (off, st) = Inr pcm"
    by (auto simp: decode_wav_def split: sum.splits)
  from riff show len: "length bs < 2 ^ 32 + 8" by (rule length_checked_riff)
  have "12 \<le> length bs" using riff by (auto simp: check_riff_def unsupported_def split: if_splits)
  with scan_chunks_bound [OF scan] have bound: "scanned st \<le> off" "off \<le> length bs"
    by (simp_all add: scanned_def wav_start_def)
  from fin have got: "have_fmt st" "have_data st" by (auto simp: finish_scan_def unsupported_def split: if_splits)
  with bound len have audio: "44 + length (audio_bytes st) \<le> length bs" "length (audio_bytes st) < 2 ^ 63"
    by (auto simp: scanned_def)
  from fin finish_scan_iff [of "(off, st)" bs] audio(2)
  have enc: "supported_encoding (audio_format st) (scan_channels st) (scan_rate st) (byte_rate st)
        (block_align st) (bits_per_sample st)"
    and align: "audio_bytes st \<noteq> []" "length (audio_bytes st) mod unat (block_align st) = 0"
    and pcm: "pcm = \<lparr>sample_rate = scan_rate st, channels = scan_channels st,
      interleaved = samples_of (audio_bytes st)\<rparr>"
    by (auto simp: unsupported_def split: if_splits)
  from enc have ch: "scan_channels st \<in> {1, 2}" and rate: "scan_rate st \<in> {44100, 48000}"
    and "unat (block_align st) = 2 * unat (scan_channels st)"
    by (auto simp: supported_encoding_iff)
  with align(2) obtain k where k: "length (audio_bytes st) = 2 * (unat (scan_channels st) * k)"
    by (auto simp: mult.assoc mod_eq_0_iff_dvd dvd_def)
  with align(1) have "length (samples_of (audio_bytes st)) = unat (scan_channels st) * k" "k \<noteq> 0"
    by (simp add: length_samples_of) (metis align(1) k length_0_conv mult_0_right)
  then show "pcm_ok pcm" "44 + 2 * length (interleaved pcm) \<le> length bs"
    using ch rate k audio(1) by (auto simp: pcm pcm_ok_def)
qed

end
