(* ===== verification/Wav_Selection.thy ===== *)
theory Wav_Selection
  imports Wav_Reader
begin

text \<open>
  Cutting a frame range out of a WAV file (\<open>packages/project-cooker/src/wav_selection.cpp\<close>). The
  frame arithmetic is on 64-bit words, as the source has it; that the refusals keep it from
  wrapping is part of what is proved.
\<close>

definition invalid_range :: "string \<Rightarrow> 'a result" where
  "invalid_range msg = failure (mk_error invalid_argument msg)"

abbreviation u64_max :: u64 where
  "u64_max \<equiv> 0xFFFFFFFFFFFFFFFF"

text \<open>The 44 bytes before the samples.\<close>

definition write_wav_header :: "u32 \<Rightarrow> u16 \<Rightarrow> u64 \<Rightarrow> bytes" where
  "write_wav_header rate ch data_bytes =
     (let out = append_fourcc [] ''RIFF'';
          out = append_u32 out (ucast (36 + data_bytes));
          out = append_fourcc out ''WAVE'';
          out = append_fourcc out ''fmt '';
          out = append_u32 out 16;
          out = append_u16 out 1;
          out = append_u16 out ch;
          out = append_u32 out rate;
          out = append_u32 out (rate * ucast ch * 2);
          out = append_u16 out (ucast (ucast ch * 2 :: u32));
          out = append_u16 out 16;
          out = append_fourcc out ''data''
      in append_u32 out (ucast data_bytes))"

text \<open>The part of \<open>select_wav\<close> after the source is decoded.\<close>

definition select_frames :: "pcm_sample \<Rightarrow> u64 \<Rightarrow> u64 \<Rightarrow> bool \<Rightarrow> bytes result" where
  "select_frames pcm start_frame end_frame stereo_only =
     (let ch = ucast (channels pcm) :: u64;
          frame_count = of_nat (length (interleaved pcm) div unat (channels pcm)) :: u64;
          selected_frames = end_frame - start_frame;
          data_bytes = selected_frames * ch * 2;
          first_sample = start_frame * ch;
          last_sample = end_frame * ch
      in if stereo_only \<and> (sample_rate pcm \<noteq> 48000 \<or> channels pcm \<noteq> 2) then
        unsupported ''WAV selection requires PCM16 48 kHz stereo input''
      else if (sample_rate pcm \<noteq> 48000 \<and> sample_rate pcm \<noteq> 44100) \<or>
          (channels pcm \<noteq> 1 \<and> channels pcm \<noteq> 2) then
        unsupported ''WAV selection requires PCM16 44.1/48 kHz mono/stereo input''
      else if length (interleaved pcm) mod unat (channels pcm) \<noteq> 0 then
        unsupported ''WAV selection source has incomplete frames''
      else if frame_count < end_frame then
        invalid_range ''WAV selection exceeds the source frame count''
      else if u64_max div 4 < selected_frames then
        invalid_range ''WAV selection byte length overflowed''
      else if 0xFFFFFFFF < data_bytes \<or> u64_max - 44 < data_bytes \<or> 0xFFFFFFFF - 36 < data_bytes then
        invalid_range ''WAV selection exceeds RIFF size limits''
      else if u64_max div 2 < start_frame \<or> u64_max div 2 < end_frame then
        invalid_range ''WAV selection sample index overflowed''
      else if of_nat (length (interleaved pcm)) < last_sample \<or> u64_max < first_sample then
        invalid_range ''WAV selection sample range is unsupported''
      else success (foldl (\<lambda>out i. append_u16 out (interleaved pcm ! i))
        (write_wav_header (sample_rate pcm) (channels pcm) data_bytes)
        [unat first_sample..<unat last_sample]))"

definition select_wav :: "bytes \<Rightarrow> u64 \<Rightarrow> u64 \<Rightarrow> bool \<Rightarrow> bytes result" where
  "select_wav source start_frame end_frame stereo_only =
     (if \<not> start_frame < end_frame then
        invalid_range ''WAV selection must be a non-empty half-open frame range''
      else if \<not> stereo_only \<and> 16777216 < length source then
        invalid_range ''Slice source exceeds byte bound''
      else case decode_wav source of
          Inl e \<Rightarrow> failure e
        | Inr pcm \<Rightarrow> select_frames pcm start_frame end_frame stereo_only)"

definition select_pcm16_wav :: "bytes \<Rightarrow> u64 \<Rightarrow> u64 \<Rightarrow> bytes result" where
  "select_pcm16_wav source start_frame end_frame = select_wav source start_frame end_frame False"

definition select_pcm16_stereo_wav :: "bytes \<Rightarrow> u64 \<Rightarrow> u64 \<Rightarrow> bytes result" where
  "select_pcm16_stereo_wav source start_frame end_frame = select_wav source start_frame end_frame True"

section \<open>A written file is read back\<close>

definition sample_bytes :: "i16 list \<Rightarrow> bytes" where
  "sample_bytes xs = concat (map (\<lambda>x. append_u16 [] x) xs)"

lemma append_u16_bytes: "append_u16 out v = out @ [ucast v, ucast (drop_bit 8 v)]"
  by (simp add: append_u16_def low_byte)

lemma append_u32_bytes:
  "append_u32 out v =
     out @ [ucast v, ucast (drop_bit 8 v), ucast (drop_bit 16 v), ucast (drop_bit 24 v)]"
  by (simp add: append_u32_def low_byte)

lemma foldl_append_u16:
  "foldl (\<lambda>out i. append_u16 out (f i)) out is = out @ sample_bytes (map f is)"
  by (induction "is" arbitrary: out) (simp_all add: append_u16_bytes sample_bytes_def)

lemma length_sample_bytes [simp]: "length (sample_bytes xs) = 2 * length xs"
  by (induction xs) (simp_all add: sample_bytes_def append_u16_bytes)

lemma read_sample_bytes: "i < length xs \<Longrightarrow> read_u16 (sample_bytes xs) (2 * i) = xs ! i"
proof (induction xs arbitrary: i)
  case (Cons x xs)
  have "read_u16 (a # b # bs) (Suc (Suc n)) = read_u16 bs n" for a b bs n
    by (simp add: read_u16_def)
  then show ?case using Cons
    by (cases i) (simp_all add: sample_bytes_def append_u16_bytes read_u16_def join_u16)
qed simp

lemma samples_of_bytes [simp]: "samples_of (sample_bytes xs) = xs"
  by (rule nth_equalityI) (simp_all add: samples_of_def read_sample_bytes)

text \<open>The header as a list of bytes.\<close>

lemma double_u16: "ucast (ucast x * 2 :: u32) = x * 2" for x :: u16
  unfolding mult.commute [of _ 2] by (rule bit_word_eqI) (auto simp: bit_simps)

lemma write_wav_header_bytes:
  "write_wav_header rate ch n =
     bytes_of_string ''RIFF'' @
     [ucast (ucast (36 + n) :: u32), ucast (drop_bit 8 (ucast (36 + n) :: u32)),
      ucast (drop_bit 16 (ucast (36 + n) :: u32)), ucast (drop_bit 24 (ucast (36 + n) :: u32))] @
     bytes_of_string ''WAVE'' @ bytes_of_string ''fmt '' @ [16, 0, 0, 0, 1, 0] @
     [ucast ch, ucast (drop_bit 8 ch)] @
     [ucast rate, ucast (drop_bit 8 rate), ucast (drop_bit 16 rate), ucast (drop_bit 24 rate)] @
     [ucast (rate * ucast ch * 2), ucast (drop_bit 8 (rate * ucast ch * 2)),
      ucast (drop_bit 16 (rate * ucast ch * 2)), ucast (drop_bit 24 (rate * ucast ch * 2))] @
     [ucast (ch * 2), ucast (drop_bit 8 (ch * 2))] @ [16, 0] @ bytes_of_string ''data'' @
     [ucast (ucast n :: u32), ucast (drop_bit 8 (ucast n :: u32)), ucast (drop_bit 16 (ucast n :: u32)),
      ucast (drop_bit 24 (ucast n :: u32))]"
  by (simp add: write_wav_header_def append_fourcc_def append_u16_bytes append_u32_bytes Let_def
      double_u16)

lemma decode_written:
  assumes "ch \<in> {1, 2}" "rate \<in> {44100, 48000}" "xs \<noteq> []" "length xs mod unat ch = 0"
    and "unat n = 2 * length xs" "unat n + 36 < 2 ^ 32"
  shows "decode_wav (write_wav_header rate ch n @ sample_bytes xs) =
    Inr \<lparr>sample_rate = rate, channels = ch, interleaved = xs\<rparr>"
proof -
  define bs where "bs = write_wav_header rate ch n @ sample_bytes xs"
  note bytes = bs_def [unfolded write_wav_header_bytes bytes_of_string_def]
  have len: "length bs = 44 + 2 * length xs" by (simp add: bytes)
  have tags: "has_fourcc bs 0 ''RIFF''" "has_fourcc bs 8 ''WAVE''" "has_fourcc bs 12 ''fmt ''"
      "has_fourcc bs 36 ''data''" "\<not> has_fourcc bs 36 ''fmt ''"
    by (simp_all add: has_fourcc_def bytes upt_rec)
  have sizes: "read_u32 bs 4 = ucast (36 + n)" "read_u32 bs 16 = 16" "read_u32 bs 40 = ucast n"
    by (simp_all add: read_u32_def bytes join_u32)
  have fields: "read_u16 bs 20 = 1" "read_u16 bs 22 = ch" "read_u32 bs 24 = rate"
      "read_u32 bs 28 = rate * ucast ch * 2" "read_u16 bs 32 = ch * 2" "read_u16 bs 34 = 16"
    by (simp_all add: read_u16_def read_u32_def bytes join_u16 join_u32)
  have n: "unat (ucast n :: u32) = 2 * length xs" "unat (ucast (36 + n) :: u32) = 36 + 2 * length xs"
    using assms(5,6) by (simp_all add: unsigned_ucast_eq unat_plus_if' take_bit_nat_eq_self)
  have data: "take (2 * length xs) (drop 44 bs) = sample_bytes xs" by (simp add: bytes)
  let ?fmt = "read_fmt bs 20 wav_start"
  let ?scanned = "?fmt\<lparr>have_data := True, audio_bytes := sample_bytes xs\<rparr>"
  have "scan_chunks bs 12 wav_start = scan_chunks bs 36 ?fmt"
    using len tags sizes by (subst scan_chunks.simps) (simp add: read_chunk_def wav_start_def)
  also have "\<dots> = scan_chunks bs (length bs) ?scanned"
    using len tags sizes n data
    by (subst scan_chunks.simps) (simp add: read_chunk_def wav_start_def read_fmt_def)
  also have "\<dots> = Inr (length bs, ?scanned)" by (subst scan_chunks.simps) simp
  finally have scan: "scan_chunks bs 12 wav_start = Inr (length bs, ?scanned)" .
  have "check_riff bs = Inr ()" using len tags sizes n by (simp add: check_riff_def)
  moreover have "length (audio_bytes ?scanned) < 2 ^ 63" "unat (ch * 2) = 2 * unat ch" "sample_bytes xs \<noteq> []"
      "supported_encoding 1 ch rate (rate * ucast ch * 2) (ch * 2) 16"
    using assms(1,2,5,6) length_sample_bytes [of xs] assms(3)
    by (auto simp: supported_encoding_iff mult.commute mult.left_commute simp del: length_sample_bytes)
  then have "finish_scan bs (length bs, ?scanned) =
      Inr \<lparr>sample_rate = rate, channels = ch, interleaved = xs\<rparr>"
    using assms(4) fields finish_scan_iff [of "(length bs, ?scanned)" bs] by (simp add: read_fmt_def)
  ultimately show ?thesis using scan by (simp add: decode_wav_def bs_def)
qed

section \<open>What a selection is\<close>

definition pcm_slice :: "nat \<Rightarrow> nat \<Rightarrow> pcm_sample \<Rightarrow> pcm_sample" where
  "pcm_slice a b p = p\<lparr>interleaved :=
     take ((b - a) * unat (channels p)) (drop (a * unat (channels p)) (interleaved p))\<rparr>"

lemma map_nth_range: "b \<le> length xs \<Longrightarrow> map ((!) xs) [a..<b] = take (b - a) (drop a xs)"
  by (rule nth_equalityI) auto

text \<open>No refusal after the frame count is ever taken, and no product of the source wraps.\<close>

lemma unat_of_nat_u64: "n < 2 ^ 64 \<Longrightarrow> unat (of_nat n :: u64) = n"
  by (simp add: unsigned_of_nat take_bit_nat_eq_self)

lemma selection_bounds:
  fixes a b :: u64
  assumes "pcm_ok pcm" "44 + 2 * length (interleaved pcm) < 2 ^ 32 + 8"
    and "a < b" "unat b \<le> pcm_frames pcm"
  shows "unat ((b - a) * ucast (channels pcm) * 2) = 2 * ((unat b - unat a) * unat (channels pcm))"
    and "unat (a * ucast (channels pcm)) = unat a * unat (channels pcm)"
    and "unat (b * ucast (channels pcm)) = unat b * unat (channels pcm)"
    and "unat b * unat (channels pcm) \<le> length (interleaved pcm)"
    and "unat (b - a) = unat b - unat a"
proof -
  have ch: "channels pcm = 1 \<or> channels pcm = 2" using assms(1) by (auto simp: pcm_ok_def)
  have frames: "pcm_frames pcm * unat (channels pcm) = length (interleaved pcm)"
    using assms(1) by (auto simp: pcm_ok_def pcm_frames_def)
  then show fit: "unat b * unat (channels pcm) \<le> length (interleaved pcm)"
    using mult_le_mono1 [OF assms(4), of "unat (channels pcm)"] by simp
  have ab: "unat a < unat b" using assms(3) by (simp add: word_less_nat_alt)
  show sub: "unat (b - a) = unat b - unat a" using assms(3) by (simp add: unat_sub)
  from fit assms(2) ab ch have "unat b < 2 ^ 32" by auto
  then show "unat ((b - a) * ucast (channels pcm) * 2) = 2 * ((unat b - unat a) * unat (channels pcm))"
    "unat (a * ucast (channels pcm)) = unat a * unat (channels pcm)"
    "unat (b * ucast (channels pcm)) = unat b * unat (channels pcm)"
    using ch ab sub by (auto simp: unat_word_ariths)
qed

lemma select_frames_iff:
  assumes "pcm_ok pcm" and small: "44 + 2 * length (interleaved pcm) < 2 ^ 32 + 8" and "a < b"
  shows "select_frames pcm a b st =
    (if st \<and> (sample_rate pcm \<noteq> 48000 \<or> channels pcm \<noteq> 2) then
       unsupported ''WAV selection requires PCM16 48 kHz stereo input''
     else if pcm_frames pcm < unat b then
       invalid_range ''WAV selection exceeds the source frame count''
     else success (write_wav_header (sample_rate pcm) (channels pcm) ((b - a) * ucast (channels pcm) * 2) @
       sample_bytes (interleaved (pcm_slice (unat a) (unat b) pcm))))"
proof -
  let ?c = "unat (channels pcm)" and ?n = "(b - a) * ucast (channels pcm) * 2"
  have frames: "of_nat (length (interleaved pcm) div ?c) < b \<longleftrightarrow> pcm_frames pcm < unat b"
    using small le_less_trans [OF div_le_dividend [of "length (interleaved pcm)" ?c]]
    by (simp add: unat_of_nat_u64 pcm_frames_def word_less_nat_alt)
  have shape: "\<not> ((sample_rate pcm \<noteq> 48000 \<and> sample_rate pcm \<noteq> 44100) \<or> (channels pcm \<noteq> 1 \<and> channels pcm \<noteq> 2))"
    "\<not> length (interleaved pcm) mod ?c \<noteq> 0"
    using assms(1) by (auto simp: pcm_ok_def)
  show ?thesis
  proof (cases "pcm_frames pcm < unat b")
    case True
    with frames shape show ?thesis by (auto simp: select_frames_def Let_def)
  next
    case False
    then have "unat b \<le> pcm_frames pcm" by simp
    note bounds = selection_bounds [OF assms this]
    have ab: "unat a < unat b" using assms(3) by (simp add: word_less_nat_alt)
    have "unat b \<le> unat b * ?c" using shape(1) by auto
    then have b: "unat b \<le> length (interleaved pcm)" using bounds(4) by (rule le_trans)
    have "(unat b - unat a) * ?c \<le> length (interleaved pcm)" using bounds(4) by (simp add: diff_mult_distrib)
    then have n: "unat ?n + 36 < 2 ^ 32" using bounds(1) small by linarith
    have first: "unat a * ?c \<le> length (interleaved pcm)"
      using ab by (intro le_trans [OF mult_le_mono1 bounds(4)]) simp
    have "\<not> (0xFFFFFFFF < ?n \<or> u64_max - 44 < ?n \<or> 0xFFFFFFFF - 36 < ?n)"
      using n unfolding word_less_nat_alt by simp
    moreover have "\<not> u64_max div 4 < b - a" "\<not> (u64_max div 2 < a \<or> u64_max div 2 < b)"
      using b ab small bounds(5) by (auto simp: word_less_nat_alt unat_div)
    moreover have "\<not> (of_nat (length (interleaved pcm)) < b * ucast (channels pcm) \<or> u64_max < a * ucast (channels pcm))"
      using small bounds(2,3,4) first unfolding word_less_nat_alt by (simp add: unat_of_nat_u64)
    moreover have "map ((!) (interleaved pcm)) [unat a * ?c..<unat b * ?c] =
        interleaved (pcm_slice (unat a) (unat b) pcm)"
      using bounds(4) by (simp add: map_nth_range pcm_slice_def diff_mult_distrib)
    ultimately show ?thesis using False frames shape bounds(2,3)
      by (auto simp: select_frames_def Let_def foldl_append_u16)
  qed
qed

lemma decode_selected:
  assumes "pcm_ok pcm" and small: "44 + 2 * length (interleaved pcm) < 2 ^ 32 + 8" and "a < b"
    and "unat b \<le> pcm_frames pcm"
  shows "decode_wav (write_wav_header (sample_rate pcm) (channels pcm) ((b - a) * ucast (channels pcm) * 2) @
     sample_bytes (interleaved (pcm_slice (unat a) (unat b) pcm))) = Inr (pcm_slice (unat a) (unat b) pcm)"
proof -
  let ?c = "unat (channels pcm)" and ?xs = "interleaved (pcm_slice (unat a) (unat b) pcm)"
  note bounds = selection_bounds [OF assms]
  have ab: "unat a < unat b" using assms(3) by (simp add: word_less_nat_alt)
  have ch: "channels pcm \<in> {1, 2}" "sample_rate pcm \<in> {44100, 48000}" using assms(1) by (auto simp: pcm_ok_def)
  have len: "length ?xs = (unat b - unat a) * ?c"
    using bounds(4) by (simp add: pcm_slice_def diff_mult_distrib)
  then have n: "unat ((b - a) * ucast (channels pcm) * 2) = 2 * length ?xs" using bounds(1) by simp
  have "length ?xs \<le> length (interleaved pcm)" by (simp add: pcm_slice_def)
  with n small have n36: "unat ((b - a) * ucast (channels pcm) * 2) + 36 < 2 ^ 32" by linarith
  from len ab ch have "?xs \<noteq> []" "length ?xs mod ?c = 0" by auto
  from decode_written [OF ch this n n36] show ?thesis by (simp add: pcm_slice_def)
qed

text \<open>
  Property C25. A selection succeeds exactly for a non-empty frame range inside a source the decoder
  accepts (48 kHz stereo where asked for, at most 16 MiB otherwise), and the file it writes decodes
  to exactly those frames at the rate and channel count of the source. In particular neither the
  RIFF size limits nor the overflow tests ever refuse, and nothing wraps.
\<close>

theorem wav_selection_exact:
  "(is_ok (select_wav source a b stereo) \<longleftrightarrow>
     a < b \<and> (stereo \<or> length source \<le> 16777216) \<and>
     (\<exists>pcm. decode_wav source = Inr pcm \<and> unat b \<le> pcm_frames pcm \<and>
        (stereo \<longrightarrow> sample_rate pcm = 48000 \<and> channels pcm = 2))) \<and>
   (\<forall>out. select_wav source a b stereo = Inr out \<longrightarrow>
     (\<exists>pcm. decode_wav source = Inr pcm \<and> decode_wav out = Inr (pcm_slice (unat a) (unat b) pcm)))"
proof (cases "\<exists>pcm. decode_wav source = Inr pcm \<and> a < b \<and> (stereo \<or> length source \<le> 16777216)")
  case True
  then obtain pcm where pcm: "decode_wav source = Inr pcm" and ab: "a < b"
    and size: "stereo \<or> length source \<le> 16777216" by blast
  note ok = decode_wav_ok [OF pcm]
  from ok(2,3) have small: "44 + 2 * length (interleaved pcm) < 2 ^ 32 + 8" by simp
  have sel: "select_wav source a b stereo = select_frames pcm a b stereo"
    using pcm ab size by (auto simp: select_wav_def)
  note frames = select_frames_iff [OF ok(1) small ab, of stereo]
  show ?thesis
    using frames decode_selected [OF ok(1) small ab] pcm ab size
    by (auto simp: sel unsupported_def invalid_range_def not_less)
next
  case False
  then have "\<not> is_ok (select_wav source a b stereo)"
    by (auto simp: select_wav_def invalid_range_def split: sum.splits)
  with False show ?thesis by (auto simp: is_ok_def split: sum.splits)
qed

text \<open>Eight frames of 44.1 kHz mono, and the middle of them.\<close>

definition demo_wav :: bytes where
  "demo_wav = write_wav_header 44100 1 16 @ sample_bytes [1, 2, 3, 4, 5, 6, 7, - 8]"

theorem wav_selection_exact_witness:
  "\<exists>out. select_wav demo_wav 2 5 False = Inr out \<and>
     decode_wav out = Inr \<lparr>sample_rate = 44100, channels = 1, interleaved = [3, 4, 5]\<rparr>"
proof -
  have dec: "decode_wav demo_wav = Inr \<lparr>sample_rate = 44100, channels = 1,
      interleaved = [1, 2, 3, 4, 5, 6, 7, - 8]\<rparr>"
    unfolding demo_wav_def by (rule decode_written) simp_all
  note sel = wav_selection_exact [of demo_wav 2 5 False]
  have "length demo_wav = 60" by (simp add: demo_wav_def write_wav_header_bytes)
  with sel dec have "is_ok (select_wav demo_wav 2 5 False)" by (simp add: pcm_frames_def)
  then obtain out where out: "select_wav demo_wav 2 5 False = Inr out"
    by (cases "select_wav demo_wav 2 5 False") auto
  with sel dec show ?thesis by (auto simp: pcm_slice_def)
qed

end
