(* ===== verification/Wav_Inspector.thy ===== *)
theory Wav_Inspector
  imports Wav_Reader
begin

unbundle bit_operations_syntax

text \<open>
  The streaming WAV inspector (\<open>packages/project-cooker/src/wav_metadata_inspector.cpp\<close>): the file
  arrives in pieces, and only a sixteen byte header buffer is kept. Its loop is a partial function,
  so that a loop which does not end would be the value \<open>None\<close>. Byte counts are natural numbers; that
  no subtraction of the source goes below zero is part of the invariant \<open>inspecting\<close>.
\<close>

datatype stage = Riff_Stage | Chunk_Header | Format | Payload | Padding

record wav_inspector =
  byte_length :: nat
  received_bytes :: nat
  payload_remaining :: nat
  data_bytes :: nat
  header_buffer :: bytes
  header_bytes :: nat
  insp_rate :: u32
  insp_byte_rate :: u32
  insp_format :: u16
  insp_channels :: u16
  insp_block_align :: u16
  insp_bits :: u16
  insp_have_fmt :: bool
  insp_have_data :: bool
  needs_padding :: bool
  insp_stage :: stage
  insp_error :: "error option"

definition fourcc :: "bytes \<Rightarrow> nat \<Rightarrow> string \<Rightarrow> bool" where
  "fourcc bs from expected =
     list_all (\<lambda>i. bs ! (from + i) = byte_of_char (expected ! i)) [0..<length expected]"

definition insp_u16 :: "bytes \<Rightarrow> nat \<Rightarrow> u16" where
  "insp_u16 bs at = ucast (ucast (bs ! at) OR push_bit 8 (ucast (bs ! (at + 1))) :: u32)"

definition insp_u32 :: "bytes \<Rightarrow> nat \<Rightarrow> u32" where
  "insp_u32 bs at =
     foldl (\<lambda>value i. value OR push_bit (8 * i) (ucast (bs ! (at + i)))) 0 [0..<4]"

definition reject :: "string \<Rightarrow> wav_inspector \<Rightarrow> wav_inspector" where
  "reject msg s =
     (if insp_error s = None then s\<lparr>insp_error := Some (mk_error unsupported_audio msg)\<rparr> else s)"

definition new_inspector :: "nat \<Rightarrow> wav_inspector" where
  "new_inspector n =
     (let s = \<lparr>byte_length = n, received_bytes = 0, payload_remaining = 0, data_bytes = 0,
        header_buffer = replicate 16 0, header_bytes = 0, insp_rate = 0, insp_byte_rate = 0,
        insp_format = 0, insp_channels = 0, insp_block_align = 0, insp_bits = 0,
        insp_have_fmt = False, insp_have_data = False, needs_padding = False,
        insp_stage = Riff_Stage, insp_error = None\<rparr>
      in if n < 12 then reject ''audio is not a RIFF/WAVE file'' s else s)"

definition end_payload :: "wav_inspector \<Rightarrow> wav_inspector" where
  "end_payload s =
     (let s = s\<lparr>insp_stage := (if needs_padding s then Padding else Chunk_Header)\<rparr>
      in if needs_padding s \<and> received_bytes s = byte_length s then
        reject ''WAV odd-sized chunk is missing padding'' s else s)"

text \<open>What follows once a header is complete, by the stage it belongs to.\<close>

definition riff_complete :: "wav_inspector \<Rightarrow> wav_inspector" where
  "riff_complete s =
     (if \<not> fourcc (header_buffer s) 0 ''RIFF'' \<or> \<not> fourcc (header_buffer s) 8 ''WAVE'' then
        reject ''audio is not a RIFF/WAVE file'' s
      else if unat (insp_u32 (header_buffer s) 4) + 8 \<noteq> byte_length s then
        reject ''RIFF chunk size does not match file length'' s
      else s\<lparr>insp_stage := Chunk_Header\<rparr>)"

definition format_complete :: "wav_inspector \<Rightarrow> wav_inspector" where
  "format_complete s =
     (let h = header_buffer s in
      s\<lparr>insp_format := insp_u16 h 0, insp_channels := insp_u16 h 2, insp_rate := insp_u32 h 4,
        insp_byte_rate := insp_u32 h 8, insp_block_align := insp_u16 h 12,
        insp_bits := insp_u16 h 14, insp_stage := Chunk_Header\<rparr>)"

definition chunk_complete :: "wav_inspector \<Rightarrow> wav_inspector" where
  "chunk_complete s =
     (let chunk_bytes = unat (insp_u32 (header_buffer s) 4) in
      if byte_length s - received_bytes s < chunk_bytes then
        reject ''WAV chunk exceeds file length'' s
      else
        let s = s\<lparr>needs_padding := odd chunk_bytes\<rparr> in
        if fourcc (header_buffer s) 0 ''fmt '' then
          if insp_have_fmt s \<or> chunk_bytes \<noteq> 16 then
            reject ''WAV must contain one PCM fmt chunk'' s
          else s\<lparr>insp_have_fmt := True, insp_stage := Format\<rparr>
        else if fourcc (header_buffer s) 0 ''data'' \<and> insp_have_data s then
          reject ''WAV must contain one data chunk'' s
        else
          let s = (if fourcc (header_buffer s) 0 ''data'' then
                s\<lparr>insp_have_data := True, data_bytes := chunk_bytes\<rparr> else s);
              s = s\<lparr>payload_remaining := chunk_bytes, insp_stage := Payload\<rparr>
          in if chunk_bytes = 0 then end_payload s else s)"

fun header_size :: "stage \<Rightarrow> nat" where
  "header_size Riff_Stage = 12"
| "header_size Format = 16"
| "header_size _ = 8"

definition header_complete :: "wav_inspector \<Rightarrow> wav_inspector" where
  "header_complete s =
     (if insp_stage s = Riff_Stage then riff_complete s
      else if insp_stage s = Format then format_complete s
      else chunk_complete s)"

text \<open>\<open>std::copy_n\<close> into the header buffer, and the counters.\<close>

definition put_header :: "wav_inspector \<Rightarrow> bytes \<Rightarrow> wav_inspector" where
  "put_header s xs =
     s\<lparr>header_buffer := take (header_bytes s) (header_buffer s) @ xs @
         drop (header_bytes s + length xs) (header_buffer s),
       received_bytes := received_bytes s + length xs,
       header_bytes := header_bytes s + length xs\<rparr>"

text \<open>One round of the loop: the new state and the bytes after the cursor.\<close>

definition feed_step :: "wav_inspector \<Rightarrow> bytes \<Rightarrow> wav_inspector \<times> bytes" where
  "feed_step s bs =
     (if insp_stage s = Payload then
        let count = min (payload_remaining s) (length bs);
            s = s\<lparr>received_bytes := received_bytes s + count,
                  payload_remaining := payload_remaining s - count\<rparr>
        in (if payload_remaining s = 0 then end_payload s else s, drop count bs)
      else if insp_stage s = Padding then
        (s\<lparr>received_bytes := received_bytes s + 1, insp_stage := Chunk_Header\<rparr>, drop 1 bs)
      else if insp_stage s = Chunk_Header \<and> header_bytes s = 0 \<and>
          byte_length s - received_bytes s < 8 then
        (reject ''WAV chunk header exceeds file length'' s, bs)
      else
        let needed = header_size (insp_stage s);
            count = min (needed - header_bytes s) (length bs);
            s = put_header s (take count bs)
        in if header_bytes s \<noteq> needed then (s, drop count bs)
           else (header_complete (s\<lparr>header_bytes := 0\<rparr>), drop count bs))"

partial_function (option) feed_loop :: "wav_inspector \<Rightarrow> bytes \<Rightarrow> wav_inspector option" where
  "feed_loop s bs =
     (if bs = [] \<or> insp_error s \<noteq> None then Some s
      else let (s', bs') = feed_step s bs in feed_loop s' bs')"

definition feed :: "wav_inspector \<Rightarrow> bytes \<Rightarrow> (wav_inspector \<times> unit result) option" where
  "feed s bs =
     (case insp_error s of
        Some e \<Rightarrow> Some (s, failure e)
      | None \<Rightarrow>
          if byte_length s - received_bytes s < length bs then
            let s = reject ''WAV stream exceeds declared file length'' s
            in Some (s, failure (the (insp_error s)))
          else case feed_loop s bs of
              None \<Rightarrow> None
            | Some s \<Rightarrow> Some (s, case insp_error s of Some e \<Rightarrow> failure e | None \<Rightarrow> success ()))"

definition finish :: "wav_inspector \<Rightarrow> wav_inspector \<times> wav_metadata result" where
  "finish s =
     (let fail = (\<lambda>msg. (reject msg s, failure (the (insp_error (reject msg s))))) in
      case insp_error s of
        Some e \<Rightarrow> (s, failure e)
      | None \<Rightarrow>
          if received_bytes s \<noteq> byte_length s then fail ''WAV stream ended before file length''
          else if insp_stage s \<noteq> Chunk_Header \<or> header_bytes s \<noteq> 0 \<or> \<not> insp_have_fmt s \<or>
              \<not> insp_have_data s then
            fail ''WAV must contain one fmt and one data chunk''
          else if \<not> supported_encoding (insp_format s) (insp_channels s) (insp_rate s)
              (insp_byte_rate s) (insp_block_align s) (insp_bits s) then
            fail ''WAV encoding must be 44.1 or 48 kHz PCM16 mono or stereo''
          else if data_bytes s = 0 \<or> data_bytes s mod unat (insp_block_align s) \<noteq> 0 then
            fail ''WAV data is not aligned to complete frames''
          else (s, success \<lparr>meta_sample_rate = insp_rate s, meta_channels = insp_channels s,
            meta_source_frames = of_nat (data_bytes s div unat (insp_block_align s))\<rparr>))"

text \<open>The whole stream: the pieces in order, as a caller that ignores the early answers feeds them.\<close>

fun feed_all :: "wav_inspector \<Rightarrow> bytes list \<Rightarrow> wav_inspector option" where
  "feed_all s [] = Some s"
| "feed_all s (p # ps) =
     (case feed s p of None \<Rightarrow> None | Some (s', _) \<Rightarrow> feed_all s' ps)"

text \<open>\<open>inspect_wav\<close> of \<open>sample_analysis.cpp\<close>: the file in one piece.\<close>

definition inspect_wav :: "bytes \<Rightarrow> wav_metadata result option" where
  "inspect_wav bs =
     (case feed (new_inspector (length bs)) bs of
        None \<Rightarrow> None
      | Some (s, Inl e) \<Rightarrow> Some (failure e)
      | Some (s, Inr _) \<Rightarrow> Some (snd (finish s)))"

section \<open>The invariant\<close>

text \<open>
  A header buffer is never overrun, a payload is never empty while it is read, and no more bytes
  are received than declared.
\<close>

definition inspecting :: "wav_inspector \<Rightarrow> bool" where
  "inspecting s \<longleftrightarrow> length (header_buffer s) = 16 \<and> header_bytes s < header_size (insp_stage s) \<and>
     (insp_stage s = Payload \<longrightarrow> payload_remaining s \<noteq> 0)"

lemma reject_fields [simp]:
  "insp_stage (reject m s) = insp_stage s" "header_buffer (reject m s) = header_buffer s"
  "header_bytes (reject m s) = header_bytes s" "payload_remaining (reject m s) = payload_remaining s"
  "received_bytes (reject m s) = received_bytes s" "byte_length (reject m s) = byte_length s"
  "insp_error (reject m s) \<noteq> None" "\<exists>e. insp_error (reject m s) = Some e"
  by (auto simp: reject_def)

lemma end_payload_fields [simp]:
  "header_buffer (end_payload s) = header_buffer s" "header_bytes (end_payload s) = header_bytes s"
  "received_bytes (end_payload s) = received_bytes s" "byte_length (end_payload s) = byte_length s"
  "insp_stage (end_payload s) = (if needs_padding s then Padding else Chunk_Header)"
  by (simp_all add: end_payload_def Let_def)

lemma chunk_complete_fields [simp]:
  "header_buffer (chunk_complete s) = header_buffer s" "header_bytes (chunk_complete s) = header_bytes s"
  "received_bytes (chunk_complete s) = received_bytes s" "byte_length (chunk_complete s) = byte_length s"
  by (simp_all add: chunk_complete_def Let_def)

lemma riff_complete_fields [simp]:
  "header_buffer (riff_complete s) = header_buffer s" "header_bytes (riff_complete s) = header_bytes s"
  "received_bytes (riff_complete s) = received_bytes s" "byte_length (riff_complete s) = byte_length s"
  by (simp_all add: riff_complete_def)

lemma format_complete_fields [simp]:
  "header_buffer (format_complete s) = header_buffer s" "header_bytes (format_complete s) = header_bytes s"
  "received_bytes (format_complete s) = received_bytes s" "byte_length (format_complete s) = byte_length s"
  "insp_stage (format_complete s) = Chunk_Header" "insp_error (format_complete s) = insp_error s"
  by (simp_all add: format_complete_def Let_def)

lemma chunk_complete_payload:
  "insp_stage s = Chunk_Header \<Longrightarrow> insp_stage (chunk_complete s) = Payload \<Longrightarrow>
     payload_remaining (chunk_complete s) \<noteq> 0"
  by (auto simp: chunk_complete_def Let_def split: if_splits)

lemma header_size_pos [simp]: "0 < header_size st"
  by (cases st) simp_all

lemma header_size_le: "header_size st \<le> 16"
  by (cases st) simp_all

lemma riff_complete_stage [simp]:
  "insp_stage s = Riff_Stage \<Longrightarrow> insp_stage (riff_complete s) \<noteq> Payload"
  by (simp add: riff_complete_def)

lemma inspecting_step:
  assumes "inspecting s" "bs \<noteq> []" "feed_step s bs = (s', bs')"
  shows "inspecting s' \<and> byte_length s' = byte_length s \<and>
    (insp_error s' = None \<longrightarrow> length bs' < length bs \<and>
       received_bytes s' = received_bytes s + (length bs - length bs'))"
proof -
  have size: "header_bytes s < header_size (insp_stage s)" "length (header_buffer s) = 16"
    using assms(1) by (simp_all add: inspecting_def)
  let ?c = "min (header_size (insp_stage s) - header_bytes s) (length bs)"
  have c: "?c \<noteq> 0" "?c \<le> length bs" using size assms(2) by auto
  have fit: "header_bytes s + ?c \<le> 16" using size header_size_le [of "insp_stage s"] by auto
  show ?thesis
  proof (cases "insp_stage s = Payload \<or> insp_stage s = Padding")
    case True
    moreover obtain b rest where "bs = b # rest" using assms(2) by (cases bs) auto
    ultimately show ?thesis using assms size
      by (auto simp: inspecting_def feed_step_def Let_def min_def split: if_splits)
  next
    case False
    then have "insp_stage s \<in> {Riff_Stage, Chunk_Header, Format}" by (cases "insp_stage s") auto
    then show ?thesis
      using False assms size c fit chunk_complete_payload
      by (auto simp: inspecting_def feed_step_def put_header_def header_complete_def Let_def split: if_splits)
  qed
qed

section \<open>The loop ends\<close>

lemma feed_loop_Nil [simp]: "feed_loop s [] = Some s"
  by (simp add: feed_loop.simps)

lemma feed_loop_error: "insp_error s \<noteq> None \<Longrightarrow> feed_loop s bs = Some s"
  by (simp add: feed_loop.simps)

lemma feed_loop_step:
  "bs \<noteq> [] \<Longrightarrow> insp_error s = None \<Longrightarrow> feed_step s bs = (s', bs') \<Longrightarrow> feed_loop s bs = feed_loop s' bs'"
  by (subst feed_loop.simps) simp

lemma feed_loop_returns:
  assumes "inspecting s"
  shows "\<exists>s'. feed_loop s bs = Some s' \<and> inspecting s' \<and> byte_length s' = byte_length s \<and>
    (insp_error s' = None \<longrightarrow> received_bytes s' = received_bytes s + length bs)"
  using assms
proof (induction "length bs" arbitrary: s bs rule: less_induct)
  case less
  show ?case
  proof (cases "bs = [] \<or> insp_error s \<noteq> None")
    case True
    with less.prems show ?thesis by (auto simp: feed_loop_error)
  next
    case False
    obtain s1 bs1 where step: "feed_step s bs = (s1, bs1)" by fastforce
    with False less.prems have inv: "inspecting s1" "byte_length s1 = byte_length s"
      and cut: "insp_error s1 = None \<longrightarrow> length bs1 < length bs \<and>
        received_bytes s1 = received_bytes s + (length bs - length bs1)"
      using inspecting_step by blast+
    have loop: "feed_loop s bs = feed_loop s1 bs1" using False step by (simp add: feed_loop_step)
    show ?thesis
    proof (cases "insp_error s1 = None")
      case True
      with less.hyps [of bs1 s1] cut inv show ?thesis by (auto simp: loop)
    next
      case False
      with inv show ?thesis by (auto simp: loop feed_loop_error)
    qed
  qed
qed

section \<open>How the stream is cut does not matter\<close>

lemma step_payload:
  assumes "insp_stage s = Payload"
  shows "length bs < payload_remaining s \<Longrightarrow>
      feed_step s bs = (s\<lparr>received_bytes := received_bytes s + length bs,
        payload_remaining := payload_remaining s - length bs\<rparr>, [])"
    and "payload_remaining s \<le> length bs \<Longrightarrow>
      feed_step s bs = (end_payload (s\<lparr>received_bytes := received_bytes s + payload_remaining s,
        payload_remaining := 0\<rparr>), drop (payload_remaining s) bs)"
  using assms by (simp_all add: feed_step_def Let_def min_def)

text \<open>The next bytes belong to a header, and there is room for it.\<close>

definition in_header :: "wav_inspector \<Rightarrow> bool" where
  "in_header s \<longleftrightarrow> insp_stage s \<noteq> Payload \<and> insp_stage s \<noteq> Padding \<and>
     \<not> (insp_stage s = Chunk_Header \<and> header_bytes s = 0 \<and> byte_length s - received_bytes s < 8)"

lemma step_header:
  assumes "in_header s"
  shows "header_bytes s + length bs < header_size (insp_stage s) \<Longrightarrow> feed_step s bs = (put_header s bs, [])"
    and "header_bytes s < header_size (insp_stage s) \<Longrightarrow>
      header_size (insp_stage s) \<le> header_bytes s + length bs \<Longrightarrow>
      feed_step s bs = (header_complete
        (put_header s (take (header_size (insp_stage s) - header_bytes s) bs)\<lparr>header_bytes := 0\<rparr>),
        drop (header_size (insp_stage s) - header_bytes s) bs)"
  using assms by (auto simp: feed_step_def in_header_def put_header_def Let_def min_def)

text \<open>One round that wants more than the piece holds is continued by the next piece.\<close>

lemma put_header_append:
  assumes "header_bytes s + length a + length b \<le> length (header_buffer s)"
  shows "put_header (put_header s a) b = put_header s (a @ b)"
  using assms by (simp add: put_header_def ac_simps)

lemma put_header_fields [simp]:
  "insp_stage (put_header s a) = insp_stage s" "header_bytes (put_header s a) = header_bytes s + length a"
  "byte_length (put_header s a) = byte_length s" "insp_error (put_header s a) = insp_error s"
  "received_bytes (put_header s a) = received_bytes s + length a"
  "insp_have_fmt (put_header s a) = insp_have_fmt s" "insp_have_data (put_header s a) = insp_have_data s"
  "data_bytes (put_header s a) = data_bytes s" "insp_format (put_header s a) = insp_format s"
  by (simp_all add: put_header_def)

lemma feed_step_cases:
  assumes "inspecting s" "a \<noteq> []" "b \<noteq> []" "feed_step s a = (s1, a1)"
  shows "feed_step s (a @ b) = (s1, a1 @ b) \<or> (a1 = [] \<and> insp_error s1 = insp_error s \<and> feed_step s (a @ b) = feed_step s1 b)"
proof (cases "insp_stage s = Payload")
  case True
  show ?thesis
  proof (cases "payload_remaining s \<le> length a")
    case True
    with \<open>insp_stage s = Payload\<close> assms(4) show ?thesis by (simp add: step_payload(2))
  next
    case False
    with True assms(4) have s1: "a1 = []" "s1 = s\<lparr>received_bytes := received_bytes s + length a,
        payload_remaining := payload_remaining s - length a\<rparr>"
      by (simp_all add: step_payload(1))
    with True False have "feed_step s (a @ b) = feed_step s1 b"
      by (cases "length a + length b < payload_remaining s")
        (simp_all add: step_payload add.commute add.left_commute)
    with s1 show ?thesis by simp
  qed
next
  case False
  show ?thesis
  proof (cases "in_header s")
    case True
    let ?n = "header_size (insp_stage s)"
    have h: "header_bytes s < ?n" "?n \<le> length (header_buffer s)"
      using assms(1) header_size_le by (simp_all add: inspecting_def)
    show ?thesis
    proof (cases "?n \<le> header_bytes s + length a")
      case True
      with \<open>in_header s\<close> h assms(4) show ?thesis by (simp add: step_header(2))
    next
      case False
      with True assms(4) have s1: "a1 = []" "s1 = put_header s a" by (simp_all add: step_header(1))
      have in1: "in_header s1" using True assms(2) by (simp add: in_header_def s1)
      have "feed_step s (a @ b) = feed_step s1 b"
      proof (cases "?n \<le> header_bytes s + length a + length b")
        case True
        with False in1 \<open>in_header s\<close> h show ?thesis
          by (simp add: step_header(2) s1 put_header_append)
      next
        case False
        with in1 \<open>in_header s\<close> h show ?thesis by (simp add: step_header(1) s1 put_header_append)
      qed
      with s1 show ?thesis by simp
    qed
  next
    case False
    then have "insp_stage s = Padding \<or> (insp_stage s = Chunk_Header \<and> header_bytes s = 0 \<and>
        byte_length s - received_bytes s < 8)"
      using \<open>insp_stage s \<noteq> Payload\<close> by (auto simp: in_header_def)
    moreover obtain x a' where "a = x # a'" using assms(2) by (cases a) auto
    ultimately have "feed_step s (a @ b) = (s1, a1 @ b)"
      using assms(4) unfolding feed_step_def by (elim disjE) simp_all
    then show ?thesis by simp
  qed
qed

lemma feed_loop_append:
  assumes "inspecting s"
  shows "feed_loop s (a @ b) = Option.bind (feed_loop s a) (\<lambda>s'. feed_loop s' b)"
  using assms
proof (induction "length a" arbitrary: s a rule: less_induct)
  case less
  show ?case
  proof (cases "a = [] \<or> b = [] \<or> insp_error s \<noteq> None")
    case True
    with feed_loop_returns [OF less.prems, of a] show ?thesis by (auto simp: feed_loop_error)
  next
    case False
    obtain s1 a1 where step: "feed_step s a = (s1, a1)" by fastforce
    with False inspecting_step [OF less.prems _ step] have inv: "inspecting s1"
      and cut: "insp_error s1 = None \<longrightarrow> length a1 < length a" by simp_all
    have loop: "feed_loop s a = feed_loop s1 a1" using False step by (simp add: feed_loop_step)
    from feed_step_cases [OF less.prems _ _ step, of b] False
    consider "feed_step s (a @ b) = (s1, a1 @ b)" | "a1 = []" "insp_error s1 = None" "feed_step s (a @ b) = feed_step s1 b" by auto
    then show ?thesis
    proof cases
      case 1
      then have "feed_loop s (a @ b) = feed_loop s1 (a1 @ b)" using False by (simp add: feed_loop_step)
      then show ?thesis using less.hyps [of a1 s1] inv cut
        by (cases "insp_error s1 = None") (simp_all add: loop feed_loop_error)
    next
      case 2
      obtain s2 b2 where step2: "feed_step s1 b = (s2, b2)" by fastforce
      with 2 False have "feed_loop s (a @ b) = feed_loop s2 b2" "feed_loop s1 b = feed_loop s2 b2"
        by (simp_all add: feed_loop_step)
      then show ?thesis by (simp add: loop 2)
    qed
  qed
qed

lemma feed_all_error: "insp_error s = Some e \<Longrightarrow> feed_all s ps = Some s"
  by (induction ps) (simp_all add: feed_def)

lemma feed_all_loop:
  assumes "inspecting s" "received_bytes s + length (concat ps) \<le> byte_length s"
  shows "feed_all s ps = feed_loop s (concat ps)"
  using assms
proof (induction ps arbitrary: s)
  case (Cons p ps)
  show ?case
  proof (cases "insp_error s")
    case (Some e)
    then have "feed_loop s (concat (p # ps)) = Some s" by (intro feed_loop_error) simp
    with feed_all_error [OF Some, of "p # ps"] show ?thesis by (simp only:)
  next
    case None
    obtain s' where s': "feed_loop s p = Some s'" "inspecting s'" "byte_length s' = byte_length s"
      "insp_error s' = None \<longrightarrow> received_bytes s' = received_bytes s + length p"
      using feed_loop_returns [OF Cons.prems(1), of p] by auto
    have "feed_all s (p # ps) = feed_all s' ps"
    proof -
      have "\<not> byte_length s - received_bytes s < length p" using Cons.prems(2) by simp
      then show ?thesis using None s'(1) by (simp add: feed_def)
    qed
    also have "\<dots> = feed_loop s' (concat ps)"
    proof (cases "insp_error s'")
      case None
      with Cons.IH [OF s'(2)] Cons.prems(2) s' show ?thesis by simp
    next
      case (Some e)
      then have "feed_loop s' (concat ps) = Some s'" by (intro feed_loop_error) simp
      with feed_all_error [OF Some, of ps] show ?thesis by (simp only:)
    qed
    finally show ?thesis using feed_loop_append [OF Cons.prems(1)] s'(1) by simp
  qed
qed simp

section \<open>The inspector follows the decoder\<close>

lemma insp_u32_eq: "insp_u32 = read_u32"
  by (intro ext) (simp add: insp_u32_def read_u32_def upt_rec numeral_3_eq_3 ac_simps)

lemma insp_u16_eq: "insp_u16 = read_u16"
  by (intro ext, rule bit_word_eqI) (auto simp: insp_u16_def read_u16_def bit_simps)

text \<open>The inspector is before a chunk, at offset \<open>off\<close> of a file of \<open>n\<close> bytes, and knows what the decoder knows.\<close>

definition follows :: "nat \<Rightarrow> nat \<Rightarrow> wav_scan \<Rightarrow> wav_inspector \<Rightarrow> bool" where
  "follows n off st s \<longleftrightarrow>
     length (header_buffer s) = 16 \<and> byte_length s = n \<and> received_bytes s = off \<and> insp_stage s = Chunk_Header \<and>
     header_bytes s = 0 \<and> insp_error s = None \<and>
     insp_have_fmt s = have_fmt st \<and> insp_have_data s = have_data st \<and>
     insp_format s = audio_format st \<and> insp_channels s = scan_channels st \<and> insp_rate s = scan_rate st \<and>
     insp_byte_rate s = byte_rate st \<and> insp_block_align s = block_align st \<and>
     insp_bits s = bits_per_sample st \<and> data_bytes s = length (audio_bytes st)"

lemma follows_inspecting: "follows n off st s \<Longrightarrow> inspecting s"
  by (simp add: follows_def inspecting_def)

text \<open>The whole header at once.\<close>

lemma header_round:
  assumes "in_header s" "header_bytes s = 0" "insp_error s = None" "header_size (insp_stage s) \<le> length bs"
  shows "feed_loop s bs = feed_loop
     (header_complete (put_header s (take (header_size (insp_stage s)) bs)\<lparr>header_bytes := 0\<rparr>))
     (drop (header_size (insp_stage s)) bs)"
proof -
  have "bs \<noteq> []" using assms(4) header_size_pos [of "insp_stage s"] by (auto simp del: header_size_pos)
  then show ?thesis using feed_loop_step [OF _ assms(3) step_header(2) [OF assms(1)]] assms(2,4) by simp
qed

lemma window_fields:
  assumes "at + n \<le> length bs"
  shows "i + 1 < n \<Longrightarrow> read_u16 (take n (drop at bs) @ rest) i = read_u16 bs (at + i)"
    and "i + 3 < n \<Longrightarrow> read_u32 (take n (drop at bs) @ rest) i = read_u32 bs (at + i)"
    and "i + length t \<le> n \<Longrightarrow> fourcc (take n (drop at bs) @ rest) i t = has_fourcc bs (at + i) t"
  using assms by (auto simp: fourcc_def has_fourcc_def read_u16_def read_u32_def nth_append list_all_iff ac_simps)

lemma after_payload:
  assumes "insp_error s = None" "received_bytes s \<le> length bs" "byte_length s = length bs"
  shows "feed_loop (end_payload s) (drop (received_bytes s) bs) =
    (if \<not> needs_padding s then feed_loop (s\<lparr>insp_stage := Chunk_Header\<rparr>) (drop (received_bytes s) bs)
     else if received_bytes s = length bs then
       Some (reject ''WAV odd-sized chunk is missing padding'' (s\<lparr>insp_stage := Padding\<rparr>))
     else feed_loop (s\<lparr>insp_stage := Chunk_Header, received_bytes := received_bytes s + 1\<rparr>)
       (drop (received_bytes s + 1) bs))"
proof (cases "needs_padding s \<and> received_bytes s \<noteq> length bs")
  case True
  have "feed_step (s\<lparr>insp_stage := Padding\<rparr>) (drop (received_bytes s) bs) =
      (s\<lparr>insp_stage := Chunk_Header, received_bytes := received_bytes s + 1\<rparr>, drop (received_bytes s + 1) bs)"
    by (simp add: feed_step_def add.commute)
  with True assms show ?thesis
    by (simp add: end_payload_def feed_loop_step [where s = "s\<lparr>insp_stage := Padding\<rparr>"])
next
  case False
  with assms show ?thesis by (auto simp: end_payload_def feed_loop_error)
qed

text \<open>A payload of \<open>k\<close> bytes, read to its end.\<close>

lemma payload_round:
  assumes "insp_stage s = Payload" "insp_error s = None" "payload_remaining s = k"
    and "received_bytes s + k \<le> length bs"
  shows "feed_loop (if k = 0 then end_payload s else s) (drop (received_bytes s) bs) =
    feed_loop (end_payload (s\<lparr>received_bytes := received_bytes s + k, payload_remaining := 0\<rparr>))
      (drop (received_bytes s + k) bs)"
proof (cases "k = 0")
  case True
  with assms(3) have "s\<lparr>received_bytes := received_bytes s + k, payload_remaining := 0\<rparr> = s"
    by (cases s) simp
  with True show ?thesis by simp
next
  case False
  with assms feed_loop_step [OF _ assms(2) step_payload(2) [OF assms(1)], of "drop (received_bytes s) bs"]
  show ?thesis by (simp add: add.commute)
qed

lemma chunk_round:
  assumes "follows (length bs) off st s" "off + 8 \<le> length bs"
  shows "feed_loop s (drop off bs) = feed_loop
    (chunk_complete (put_header s (take 8 (drop off bs))\<lparr>header_bytes := 0\<rparr>)) (drop (off + 8) bs)"
  using assms header_round [of s "drop off bs"]
  by (simp add: follows_def in_header_def header_complete_def add.commute)

lemma chunk_header:
  assumes "follows (length bs) off st s" "off + 8 \<le> length bs"
  defines "h \<equiv> put_header s (take 8 (drop off bs))\<lparr>header_bytes := 0\<rparr>"
  shows "read_u32 (header_buffer h) 4 = read_u32 bs (off + 4)"
    "fourcc (header_buffer h) 0 ''fmt '' = has_fourcc bs off ''fmt ''"
    "fourcc (header_buffer h) 0 ''data'' = has_fourcc bs off ''data''"
    "byte_length h = length bs" "received_bytes h = off + 8" "insp_error h = None"
    "insp_have_fmt h = have_fmt st" "insp_have_data h = have_data st"
proof -
  have "header_buffer h = take 8 (drop off bs) @ drop 8 (header_buffer s)"
    using assms(1,2) by (simp add: h_def put_header_def follows_def)
  then show "read_u32 (header_buffer h) 4 = read_u32 bs (off + 4)"
    "fourcc (header_buffer h) 0 ''fmt '' = has_fourcc bs off ''fmt ''"
    "fourcc (header_buffer h) 0 ''data'' = has_fourcc bs off ''data''"
    using window_fields [OF assms(2)] by simp_all
  show "byte_length h = length bs" "received_bytes h = off + 8" "insp_error h = None"
    "insp_have_fmt h = have_fmt st" "insp_have_data h = have_data st"
    using assms(1,2) by (simp_all add: h_def follows_def put_header_def)
qed

definition chunk_follows :: "bytes \<Rightarrow> nat \<Rightarrow> wav_scan \<Rightarrow> wav_inspector \<Rightarrow> bytes \<Rightarrow> bool" where
  "chunk_follows bs next st s rest \<longleftrightarrow>
     (\<exists>s1. feed_loop s rest = feed_loop s1 (drop next bs) \<and> follows (length bs) next st s1)"

lemma chunk_agrees:
  fixes bs off
  defines "k \<equiv> unat (read_u32 bs (off + 4))"
  assumes "follows (length bs) off st s" "off + 8 \<le> length bs" "k \<le> length bs - (off + 8)"
  shows "case read_chunk bs off k st of
      Inl e \<Rightarrow> \<exists>s1. feed_loop s (drop off bs) = Some s1 \<and> insp_error s1 = Some e
    | Inr st1 \<Rightarrow>
        if even k then chunk_follows bs (off + 8 + k) st1 s (drop off bs)
        else if off + 8 + k = length bs then
          \<exists>s1. feed_loop s (drop off bs) = Some s1 \<and> insp_error s1 =
            Some (mk_error unsupported_audio ''WAV odd-sized chunk is missing padding'')
        else chunk_follows bs (off + 8 + k + 1) st1 s (drop off bs)"
proof -
  let ?h = "put_header s (take 8 (drop off bs))\<lparr>header_bytes := 0\<rparr>"
  note round = chunk_round [OF assms(2,3)]
  note fields = chunk_header(1-3) [OF assms(2,3)]
  note same = chunk_header(4-8) [OF assms(2,3)]
  show ?thesis
  proof (cases "has_fourcc bs off ''fmt ''")
    case True
    show ?thesis
    proof (cases "have_fmt st \<or> k \<noteq> 16")
      case bad: True
      then have "insp_error (chunk_complete ?h) =
          Some (mk_error unsupported_audio ''WAV must contain one PCM fmt chunk'')"
        using True fields same assms(4) by (auto simp: chunk_complete_def insp_u32_eq reject_def k_def)
      with True bad show ?thesis
        by (auto simp: round read_chunk_def unsupported_def feed_loop_error)
    next
      case False
      let ?f = "?h\<lparr>needs_padding := False, insp_have_fmt := True, insp_stage := Format\<rparr>"
      have f: "chunk_complete ?h = ?f"
        using True False fields same assms(4) by (simp add: chunk_complete_def insp_u32_eq flip: k_def)
      have len: "off + 8 + 16 \<le> length bs" using False assms(3,4) by simp
      let ?g = "format_complete (put_header ?f (take 16 (drop (off + 8) bs))\<lparr>header_bytes := 0\<rparr>)"
      have "feed_loop ?f (drop (off + 8) bs) = feed_loop ?g (drop (off + 24) bs)"
        using header_round [of ?f "drop (off + 8) bs"] len same
        by (simp add: in_header_def header_complete_def add.commute)
      moreover have "follows (length bs) (off + 24) (read_fmt bs (off + 8) st) ?g"
      proof -
        have "header_buffer (put_header ?f (take 16 (drop (off + 8) bs))\<lparr>header_bytes := 0\<rparr>) =
            take 16 (drop (off + 8) bs) @ drop 16 (header_buffer ?f)"
          using len by (simp add: put_header_def)
        moreover have "length (header_buffer ?f) = 16"
          using assms(2,3) by (simp add: put_header_def follows_def)
        ultimately show ?thesis using window_fields [OF len, where rest = "[]"] len same assms(2)
          by (simp add: follows_def format_complete_def insp_u16_eq insp_u32_eq read_fmt_def Let_def)
      qed
      ultimately have "chunk_follows bs (off + 24) (read_fmt bs (off + 8) st) s (drop off bs)"
        using round f unfolding chunk_follows_def by (intro exI [of _ ?g]) simp
      moreover have "off + 8 + k = off + 24" "even k" using False by simp_all
      ultimately show ?thesis using True False by (simp add: read_chunk_def add.commute)
    qed
  next
    case False
    show ?thesis
    proof (cases "has_fourcc bs off ''data'' \<and> have_data st")
      case True
      then have "insp_error (chunk_complete ?h) =
          Some (mk_error unsupported_audio ''WAV must contain one data chunk'')"
        using False fields same assms(4) by (auto simp: chunk_complete_def insp_u32_eq reject_def k_def)
      with True False show ?thesis
        by (auto simp: round read_chunk_def unsupported_def feed_loop_error)
    next
      case fresh: False
      let ?h' = "?h\<lparr>needs_padding := odd k\<rparr>"
      let ?d = "if has_fourcc bs off ''data'' then ?h'\<lparr>insp_have_data := True, data_bytes := k\<rparr> else ?h'"
      define p where "p = ?d\<lparr>payload_remaining := k, insp_stage := Payload\<rparr>"
      define q where "q = p\<lparr>received_bytes := off + 8 + k, payload_remaining := 0\<rparr>"
      let ?st = "if has_fourcc bs off ''data'' then
          st\<lparr>have_data := True, audio_bytes := take k (drop (off + 8) bs)\<rparr> else st"
      have room: "off + 8 + k \<le> length bs" using assms(3,4) by simp
      have at_p: "insp_stage p = Payload" "payload_remaining p = k" "insp_error p = None"
        "received_bytes p = off + 8" "byte_length p = length bs" "needs_padding p = odd k"
        using same by (simp_all add: p_def)
      have "chunk_complete ?h = (if k = 0 then end_payload p else p)"
        using False fresh fields same assms(4)
        by (simp add: p_def chunk_complete_def insp_u32_eq flip: k_def)
      then have "feed_loop s (drop off bs) = feed_loop (end_payload q) (drop (off + 8 + k) bs)"
        using payload_round [OF at_p(1,3,2), of bs] at_p room round by (simp add: q_def)
      moreover have "insp_error q = None" "received_bytes q = off + 8 + k" "byte_length q = length bs"
        "needs_padding q = odd k"
        using at_p by (simp_all add: q_def)
      ultimately have "feed_loop s (drop off bs) =
        (if even k then feed_loop (q\<lparr>insp_stage := Chunk_Header\<rparr>) (drop (off + 8 + k) bs)
         else if off + 8 + k = length bs then
           Some (reject ''WAV odd-sized chunk is missing padding'' (q\<lparr>insp_stage := Padding\<rparr>))
         else feed_loop (q\<lparr>insp_stage := Chunk_Header, received_bytes := off + 8 + k + 1\<rparr>)
           (drop (off + 8 + k + 1) bs))"
        using after_payload [of q bs] room by simp
      moreover have at_q: "follows (length bs) m ?st (q\<lparr>insp_stage := Chunk_Header, received_bytes := m\<rparr>)" for m
        using assms(2-4) same by (simp add: follows_def put_header_def p_def q_def)
      moreover have "q\<lparr>insp_stage := Chunk_Header, received_bytes := off + 8 + k\<rparr> = q\<lparr>insp_stage := Chunk_Header\<rparr>"
        by (simp add: q_def)
      then have "follows (length bs) (off + 8 + k) ?st (q\<lparr>insp_stage := Chunk_Header\<rparr>)"
        using at_q [of "off + 8 + k"] by simp
      moreover have "read_chunk bs off k st = Inr ?st" using False fresh by (simp add: read_chunk_def)
      moreover have "insp_error (reject m (q\<lparr>insp_stage := Padding\<rparr>)) = Some (mk_error unsupported_audio m)" for m
        using at_p by (simp add: q_def reject_def)
      ultimately show ?thesis unfolding chunk_follows_def by auto
    qed
  qed
qed

text \<open>The rest of the file, from any chunk on.\<close>

lemma scan_agrees:
  assumes "follows (length bs) off st s" "off \<le> length bs"
  shows "\<exists>s1. feed_loop s (drop off bs) = Some s1 \<and>
    (case scan_chunks bs off st of
       Inl e \<Rightarrow> insp_error s1 = Some e
     | Inr (off1, st1) \<Rightarrow> off1 = length bs \<and> follows (length bs) off1 st1 s1)"
  using assms
proof (induction bs off st arbitrary: s rule: scan_chunks.induct)
  case (1 bs off st)
  let ?k = "unat (read_u32 bs (off + 4))"
  have none: "insp_error s = None" using "1.prems"(1) by (simp add: follows_def)
  consider "off = length bs" | "off < length bs" "length bs - off < 8"
    | "off < length bs" "8 \<le> length bs - off" "length bs - (off + 8) < ?k"
    | "off < length bs" "off + 8 \<le> length bs" "?k \<le> length bs - (off + 8)"
    using "1.prems"(2) by linarith
  then show ?case
  proof cases
    case 1
    with "1.prems"(1) show ?thesis by (simp add: scan_chunks.simps [of bs "length bs"])
  next
    case 2
    then have "feed_step s (drop off bs) = (reject ''WAV chunk header exceeds file length'' s, drop off bs)"
      using "1.prems"(1) by (simp add: feed_step_def follows_def)
    then have "feed_loop s (drop off bs) = Some (reject ''WAV chunk header exceeds file length'' s)"
      using 2 none feed_loop_step [of "drop off bs" s] by (simp add: feed_loop_error)
    with 2 none show ?thesis by (simp add: scan_chunks.simps [of bs off] reject_def unsupported_def)
  next
    case 3
    then have "off + 8 \<le> length bs" by simp
    note at = chunk_round [OF "1.prems"(1) this] chunk_header [OF "1.prems"(1) this]
    let ?h = "put_header s (take 8 (drop off bs))\<lparr>header_bytes := 0\<rparr>"
    have "chunk_complete ?h = reject ''WAV chunk exceeds file length'' ?h"
      using 3 at by (simp add: chunk_complete_def insp_u32_eq)
    then have "feed_loop s (drop off bs) = Some (reject ''WAV chunk exceeds file length'' ?h)"
      using at(1) by (simp add: feed_loop_error)
    with 3 at(7) show ?thesis by (simp add: scan_chunks.simps [of bs off] reject_def unsupported_def)
  next
    case 4
    note agrees = chunk_agrees [OF "1.prems"(1) 4(2,3)]
    have "\<not> length bs - off < 8" "\<not> length bs - (off + 8) < ?k" using 4 by simp_all
    then have scan: "scan_chunks bs off st = (case read_chunk bs off ?k st of Inl e \<Rightarrow> Inl e
        | Inr st1 \<Rightarrow> if odd ?k then if off + 8 + ?k = length bs then
            unsupported ''WAV odd-sized chunk is missing padding''
          else scan_chunks bs (off + 8 + ?k + 1) st1 else scan_chunks bs (off + 8 + ?k) st1)"
      using 4(1) by (simp add: scan_chunks.simps [of bs off] Let_def cong: sum.case_cong)
    show ?thesis
    proof (cases "read_chunk bs off ?k st")
      case (Inl e)
      with agrees show ?thesis by (auto simp: scan)
    next
      case (Inr st1)
      show ?thesis
      proof (cases "odd ?k \<and> off + 8 + ?k = length bs")
        case True
        with agrees Inr show ?thesis by (auto simp: scan unsupported_def)
      next
        case False
        define m where "m = (if even ?k then off + 8 + ?k else off + 8 + ?k + 1)"
        from False agrees Inr have "chunk_follows bs m st1 s (drop off bs)"
          by (simp add: m_def split: if_splits)
        then obtain s1 where s1: "feed_loop s (drop off bs) = feed_loop s1 (drop m bs)"
            "follows (length bs) m st1 s1"
          by (auto simp: chunk_follows_def)
        have "m \<le> length bs" using False 4 by (auto simp: m_def)
        then have "\<exists>s2. feed_loop s1 (drop m bs) = Some s2 \<and>
            (case scan_chunks bs m st1 of Inl e \<Rightarrow> insp_error s2 = Some e
             | Inr (off1, st2) \<Rightarrow> off1 = length bs \<and> follows (length bs) off1 st2 s2)"
          using "1.IH" [OF _ _ refl refl _ Inr refl] s1(2) 4 False by (simp add: m_def split: if_splits)
        moreover have "scan_chunks bs off st = scan_chunks bs m st1" using Inr False by (auto simp: scan m_def)
        ultimately show ?thesis using s1(1) by simp
      qed
    qed
  qed
qed

definition wav_metadata_of :: "pcm_sample \<Rightarrow> wav_metadata" where
  "wav_metadata_of pcm = \<lparr>meta_sample_rate = sample_rate pcm, meta_channels = channels pcm,
     meta_source_frames = of_nat (pcm_frames pcm)\<rparr>"

lemma finish_error: "insp_error s = Some e \<Longrightarrow> snd (finish s) = failure e"
  by (simp add: finish_def Let_def)

lemma finish_agrees:
  assumes "follows (length bs) (length bs) st s" "have_data st \<Longrightarrow> length (audio_bytes st) < 2 ^ 63"
  shows "snd (finish s) = map_sum id wav_metadata_of (finish_scan bs (length bs, st))"
proof (cases "have_fmt st \<and> have_data st")
  case True
  then have "length (audio_bytes (snd (length bs, st))) < 2 ^ 63" using assms(2) by simp
  note scan = finish_scan_iff [OF this, of bs]
  have frames: "length (samples_of (audio_bytes st)) div unat (scan_channels st) =
      length (audio_bytes st) div unat (block_align st)"
    if "supported_encoding (audio_format st) (scan_channels st) (scan_rate st) (byte_rate st)
        (block_align st) (bits_per_sample st)"
      "length (audio_bytes st) mod unat (block_align st) = 0"
  proof -
    have align: "unat (block_align st) = 2 * unat (scan_channels st)"
      using that(1) by (auto simp: supported_encoding_iff)
    with that(2) have "even (length (audio_bytes st))"
      by (metis dvd_mult_left mod_0_imp_dvd)
    then show ?thesis by (simp add: length_samples_of align div_mult2_eq)
  qed
  show ?thesis using True assms(1) frames
    by (auto simp: scan finish_def follows_def Let_def unsupported_def reject_def wav_metadata_of_def pcm_frames_def)
next
  case False
  with assms(1) show ?thesis
    by (auto simp: finish_def follows_def finish_scan_def Let_def unsupported_def reject_def)
qed

lemma new_inspector_error:
  "length bs < 12 \<Longrightarrow> insp_error (new_inspector (length bs)) =
     Some (mk_error unsupported_audio ''audio is not a RIFF/WAVE file'')"
  by (simp add: new_inspector_def Let_def reject_def)

lemma new_inspector_inspecting: "inspecting (new_inspector n)"
  by (simp add: new_inspector_def Let_def inspecting_def)

lemma inspection_agrees:
  "\<exists>s. feed_loop (new_inspector (length bs)) bs = Some s \<and>
     snd (finish s) = map_sum id wav_metadata_of (decode_wav bs)"
proof (cases "length bs < 12")
  case True
  with new_inspector_error [OF True] show ?thesis
    by (auto simp: feed_loop_error finish_error decode_wav_def check_riff_def unsupported_def)
next
  case False
  let ?s = "new_inspector (length bs)"
  let ?r = "put_header ?s (take 12 bs)\<lparr>header_bytes := 0\<rparr>"
  have round: "feed_loop ?s bs = feed_loop (riff_complete ?r) (drop 12 bs)"
    using False header_round [of ?s bs] by (simp add: new_inspector_def Let_def in_header_def header_complete_def)
  have "12 \<le> length bs" using False by simp
  moreover have buf: "header_buffer ?r = take 12 (drop 0 bs) @ replicate 4 0"
    using False by (simp add: put_header_def new_inspector_def Let_def)
  ultimately have fields: "fourcc (header_buffer ?r) 0 ''RIFF'' = has_fourcc bs 0 ''RIFF''"
    "fourcc (header_buffer ?r) 8 ''WAVE'' = has_fourcc bs 8 ''WAVE''"
    "insp_u32 (header_buffer ?r) 4 = read_u32 bs 4"
    using window_fields [of 0 12 bs] by (simp_all add: insp_u32_eq)
  have same: "byte_length ?r = length bs" "insp_error ?r = None"
    using False by (simp_all add: put_header_def new_inspector_def Let_def)
  show ?thesis
  proof (cases "check_riff bs")
    case (Inl e)
    then have "insp_error (riff_complete ?r) = Some e"
      using False fields same
      by (auto simp: check_riff_def riff_complete_def unsupported_def reject_def split: if_splits)
    with Inl show ?thesis by (auto simp: round feed_loop_error finish_error decode_wav_def)
  next
    case (Inr u)
    then have "riff_complete ?r = ?r\<lparr>insp_stage := Chunk_Header\<rparr>"
      using fields same by (auto simp: check_riff_def riff_complete_def unsupported_def split: if_splits)
    then have "follows (length bs) 12 wav_start (riff_complete ?r)"
      using False by (simp add: follows_def wav_start_def put_header_def new_inspector_def Let_def)
    from scan_agrees [OF this] False obtain s where s: "feed_loop ?s bs = Some s"
      "case scan_chunks bs 12 wav_start of Inl e \<Rightarrow> insp_error s = Some e
       | Inr (off, st) \<Rightarrow> off = length bs \<and> follows (length bs) off st s"
      by (auto simp: round)
    show ?thesis
    proof (cases "scan_chunks bs 12 wav_start")
      case (Inl e)
      with s Inr show ?thesis by (auto simp: finish_error decode_wav_def)
    next
      case scan: (Inr r)
      obtain st where r: "r = (length bs, st)" and st: "follows (length bs) (length bs) st s"
        using s(2) scan by (cases r) simp
      have "length (audio_bytes st) < 2 ^ 63" if "have_data st"
        using scan_chunks_bound [OF scan [unfolded r]] that length_checked_riff [OF Inr] False
        by (simp add: scanned_def wav_start_def)
      from finish_agrees [OF st this] show ?thesis using s(1) Inr scan r by (simp add: decode_wav_def)
    qed
  qed
qed

lemma inspecting_error [simp]: "inspecting (s\<lparr>insp_error := e\<rparr>) = inspecting s"
  by (simp add: inspecting_def)

lemma feed_inspecting:
  assumes "inspecting s"
  shows "\<exists>s' r. feed s p = Some (s', r) \<and> inspecting s' \<and> (\<forall>e. r = Inl e \<longrightarrow> insp_error s' = Some e)"
proof -
  obtain s1 where s1: "feed_loop s p = Some s1" "inspecting s1"
    using feed_loop_returns [OF assms, of p] by auto
  then show ?thesis using assms by (auto simp: feed_def Let_def reject_def split: option.splits)
qed

lemma feed_all_inspecting: "feed_all s ps = Some s' \<Longrightarrow> inspecting s \<Longrightarrow> inspecting s'"
proof (induction ps arbitrary: s)
  case (Cons p ps)
  from feed_inspecting [OF Cons.prems(2), of p] obtain s1 r
    where "feed s p = Some (s1, r)" "inspecting s1" by blast
  with Cons show ?case by simp
qed simp

section \<open>Properties\<close>

text \<open>
  Property C4. However a file is cut into pieces, the streaming inspector gives what decoding the
  whole file gives: the same rate, channel count and number of frames, or the same error.
\<close>

theorem inspector_agrees_with_decoder:
  "\<exists>s. feed_all (new_inspector (length (concat pieces))) pieces = Some s \<and>
     snd (finish s) = map_sum id wav_metadata_of (decode_wav (concat pieces))"
proof -
  let ?s = "new_inspector (length (concat pieces))"
  have "received_bytes ?s + length (concat pieces) \<le> byte_length ?s"
    by (simp add: new_inspector_def Let_def)
  from feed_all_loop [OF new_inspector_inspecting this] inspection_agrees [of "concat pieces"]
  show ?thesis by simp
qed

text \<open>
  Property C26. The inspector's loop always ends: whatever was fed before, of a file declared with
  any length, feeding any more bytes returns; and once a piece was refused every later answer is the
  same error.
\<close>

theorem inspector_feed_returns:
  assumes "feed_all (new_inspector n) pieces = Some s"
  shows "\<exists>s' r. feed s piece = Some (s', r) \<and> (\<forall>e. r = Inl e \<longrightarrow> feed s' later = Some (s', Inl e))"
proof -
  have "inspecting s" using feed_all_inspecting [OF assms new_inspector_inspecting] .
  moreover have "feed s' later = Some (s', Inl e)" if "insp_error s' = Some e" for s' e
    using that by (simp add: feed_def)
  ultimately show ?thesis using feed_inspecting [of s piece] by blast
qed

theorem inspector_feed_returns_witness:
  "\<exists>s' r. feed (new_inspector 60) [82, 73] = Some (s', r) \<and>
     (\<forall>e. r = Inl e \<longrightarrow> feed s' [70, 70] = Some (s', Inl e))"
  by (rule inspector_feed_returns [of _ "[]"]) simp

end
