(* ===== verification/Sample_Analysis.thy ===== *)
theory Sample_Analysis
  imports Wav_Inspector
begin

text \<open>
  Waveform overviews and the conversion to the runtime sample rate
  (\<open>packages/project-cooker/src/sample_analysis.cpp\<close>). Frame numbers are natural numbers: each is
  compared with the number of frames of a buffer before it is used.
\<close>

definition validate_sample :: "pcm_sample \<Rightarrow> unit result" where
  "validate_sample p =
     (if (sample_rate p \<noteq> 44100 \<and> sample_rate p \<noteq> 48000) \<or> (channels p \<noteq> 1 \<and> channels p \<noteq> 2) \<or>
         interleaved p = [] \<or> length (interleaved p) mod unat (channels p) \<noteq> 0 then
        unsupported ''decoded PCM shape is unsupported''
      else success ())"

lemma validate_sample_ok: "validate_sample p = Inr () \<longleftrightarrow> pcm_ok p"
  by (auto simp: validate_sample_def pcm_ok_def unsupported_def)

section \<open>Waveforms\<close>

text \<open>The magnitude of \<open>-32768\<close> does not fit \<open>std::int16_t\<close> and is written out.\<close>

definition magnitude :: "i16 \<Rightarrow> u16" where
  "magnitude x =
     (if sint x = - 32768 then 32768
      else of_int (if sint x < 0 then - sint x else sint x))"

record waveform_request =
  request_start :: u64
  request_end :: u64
  bucket_count :: u32

record peak_bucket =
  bucket_start :: nat
  bucket_end :: nat
  peak_magnitude :: u16

record wave_envelope =
  envelope_metadata :: wav_metadata
  algorithm_version :: u32
  buckets :: "peak_bucket list"

definition kWaveformAlgorithmVersion :: u32 where
  "kWaveformAlgorithmVersion = 1"

text \<open>The peak of a range of frames over all channels.\<close>

definition range_peak :: "pcm_sample \<Rightarrow> nat \<Rightarrow> nat \<Rightarrow> u16" where
  "range_peak p a b =
     foldl (\<lambda>peak frame. foldl (\<lambda>peak channel. max peak
         (magnitude (interleaved p ! (frame * unat (channels p) + channel))))
       peak [0..<unat (channels p)]) 0 [a..<b]"

partial_function (option) bucket_loop ::
  "pcm_sample \<Rightarrow> nat \<Rightarrow> nat \<Rightarrow> nat \<Rightarrow> peak_bucket list \<Rightarrow> peak_bucket list option" where
  "bucket_loop p per_bucket start end_frame out =
     (if \<not> start < end_frame then Some out
      else let next = start + min per_bucket (end_frame - start) in
        bucket_loop p per_bucket next end_frame
          (out @ [\<lparr>bucket_start = start, bucket_end = next, peak_magnitude = range_peak p start next\<rparr>]))"

definition waveform_envelope :: "pcm_sample \<Rightarrow> waveform_request \<Rightarrow> wave_envelope result option" where
  "waveform_envelope p request =
     (case validate_sample p of
        Inl e \<Rightarrow> Some (failure e)
      | Inr _ \<Rightarrow>
          let source_frames = length (interleaved p) div unat (channels p);
              start = unat (request_start request); end_frame = unat (request_end request);
              count = unat (bucket_count request)
          in if count = 0 \<or> 512 < count \<or> \<not> start < end_frame \<or> source_frames < end_frame then
            Some (failure (mk_error invalid_argument ''waveform request is outside source bounds''))
          else
            let window = end_frame - start;
                per_bucket = window div count + (if window mod count = 0 then 0 else 1)
            in case bucket_loop p per_bucket start end_frame [] of
                None \<Rightarrow> None
              | Some bs \<Rightarrow> Some (success
                  \<lparr>envelope_metadata = \<lparr>meta_sample_rate = sample_rate p, meta_channels = channels p,
                      meta_source_frames = of_nat source_frames\<rparr>,
                   algorithm_version = kWaveformAlgorithmVersion, buckets = bs\<rparr>))"

section \<open>The runtime sample rate\<close>

definition kRuntimeSampleRate :: nat where
  "kRuntimeSampleRate = 48000"

text \<open>C++ division truncates; both quotients here are of numbers that are not negative.\<close>

definition symmetric_round :: "int \<Rightarrow> int \<Rightarrow> i16" where
  "symmetric_round n d =
     of_int (if 0 \<le> n then (n + d div 2) div d else - ((- n + d div 2) div d))"

text \<open>One output sample: the last frame repeats, others are interpolated.\<close>

definition prepared_sample :: "pcm_sample \<Rightarrow> nat \<Rightarrow> nat \<Rightarrow> nat \<Rightarrow> i16" where
  "prepared_sample p source_frames output_frame channel =
     (let source_position = output_frame * unat (sample_rate p);
          source_frame = source_position div kRuntimeSampleRate;
          remainder = source_position mod kRuntimeSampleRate;
          ch = unat (channels p);
          left_index = source_frame * ch + channel
      in if source_frames - 1 \<le> source_frame then interleaved p ! ((source_frames - 1) * ch + channel)
      else symmetric_round
        (sint (interleaved p ! left_index) * int (kRuntimeSampleRate - remainder) +
         sint (interleaved p ! (left_index + ch)) * int remainder) (int kRuntimeSampleRate))"

definition prepare_runtime_pcm :: "pcm_sample \<Rightarrow> pcm_sample result" where
  "prepare_runtime_pcm source =
     (case validate_sample source of
        Inl e \<Rightarrow> failure e
      | Inr _ \<Rightarrow>
          if sample_rate source = 48000 then success source
          else
            let ch = unat (channels source); rate = unat (sample_rate source);
                source_frames = length (interleaved source) div ch;
                scaled = source_frames * kRuntimeSampleRate;
                prepared_frames = scaled div rate + (if scaled mod rate = 0 then 0 else 1)
            in if (2 ^ 64 - 1) div kRuntimeSampleRate < source_frames then
              unsupported ''prepared PCM frame count overflowed''
            else if (2 ^ 64 - 1) div ch < prepared_frames then
              unsupported ''prepared PCM sample count overflowed''
            else if 2 ^ 64 - 1 < prepared_frames * ch then
              unsupported ''prepared PCM allocation exceeds supported range''
            else if \<not> list_all (\<lambda>output_frame. output_frame \<le> (2 ^ 64 - 1) div rate) [0..<prepared_frames] then
              unsupported ''prepared PCM source position overflowed''
            else success \<lparr>sample_rate = 48000, channels = channels source,
              interleaved = concat (map (\<lambda>output_frame.
                map (prepared_sample source source_frames output_frame) [0..<ch]) [0..<prepared_frames])\<rparr>)"

section \<open>Buckets cut the window and hold its peaks\<close>

text \<open>The loudest sample of a range of frames, as a number.\<close>

definition loudest :: "pcm_sample \<Rightarrow> nat \<Rightarrow> nat \<Rightarrow> nat" where
  "loudest p a b = Max ((\<lambda>(frame, channel). nat \<bar>sint (interleaved p ! (frame * unat (channels p) + channel))\<bar>) `
     ({a..<b} \<times> {0..<unat (channels p)}))"

lemma sint_i16_bounds: "- 32768 \<le> sint (x :: i16)" "sint (x :: i16) \<le> 32767"
  using sint_range_size [of x] by (simp_all add: word_size)

lemma sint_of_int_i16: "- 32768 \<le> v \<Longrightarrow> v \<le> 32767 \<Longrightarrow> sint (of_int v :: i16) = v"
  by (simp add: signed_of_int signed_take_bit_int_eq_self)

lemma unat_magnitude: "unat (magnitude x) = nat \<bar>sint x\<bar>"
proof -
  have "unat (of_int v :: u16) = nat v" if "0 \<le> v" "v \<le> 32768" for v
    using that by (simp add: unsigned_of_int take_bit_int_eq_self)
  then show ?thesis using sint_i16_bounds [of x] by (auto simp: magnitude_def)
qed

lemma unat_max: "unat (max x y) = max (unat x) (unat y)" for x y :: u16
  by (simp add: max_def word_le_nat_alt)

lemma foldl_max:
  "unat (foldl (\<lambda>m x. max m (f x)) m xs) = Max (insert (unat m) ((\<lambda>x. unat (f x)) ` set xs))"
  for m :: u16
proof (induction xs arbitrary: m)
  case (Cons x xs)
  show ?case
    by (cases "xs = []") (simp_all add: Cons.IH unat_max max.assoc)
qed simp

lemma foldl_product:
  "foldl (\<lambda>m x. foldl (\<lambda>m y. max m (f x y)) m ys) m xs =
   foldl (\<lambda>m z. max m (case z of (x, y) \<Rightarrow> f x y)) m (List.product xs ys)"
  by (induction xs arbitrary: m) (simp_all add: foldl_map)

lemma range_peak_loudest:
  assumes "a < b" "channels p \<in> {1, 2}"
  shows "unat (range_peak p a b) = loudest p a b"
proof -
  let ?f = "\<lambda>(frame, channel). magnitude (interleaved p ! (frame * unat (channels p) + channel))"
  let ?S = "{a..<b} \<times> {0..<unat (channels p)}"
  have "?S \<noteq> {}" using assms by auto
  have "unat (range_peak p a b) = Max (insert 0 ((\<lambda>z. unat (?f z)) ` ?S))"
    unfolding range_peak_def foldl_product foldl_max by simp
  also have "\<dots> = Max ((\<lambda>z. unat (?f z)) ` ?S)"
    using \<open>?S \<noteq> {}\<close> by (subst Max_insert) auto
  also have "\<dots> = loudest p a b"
    unfolding loudest_def by (simp add: unat_magnitude split_def)
  finally show ?thesis .
qed

lemma round_up:
  fixes w c :: nat
  assumes "0 < w" "0 < c"
  shows "w \<le> (w div c + (if w mod c = 0 then 0 else 1)) * c"
    and "w div c + (if w mod c = 0 then 0 else 1) \<noteq> 0"
proof -
  have w: "w = w div c * c + w mod c" and m: "w mod c < c" using assms(2) by simp_all
  show "w \<le> (w div c + (if w mod c = 0 then 0 else 1)) * c"
  proof (cases "w mod c = 0")
    case True
    with w show ?thesis by simp
  next
    case False
    then have "(w div c + (if w mod c = 0 then 0 else 1)) * c = w div c * c + c"
      by (simp add: add_mult_distrib)
    with w m show ?thesis by linarith
  qed
  show "w div c + (if w mod c = 0 then 0 else 1) \<noteq> 0"
    using w assms(1) by (auto simp del: div_mult_mod_eq)
qed

lemma round_up_div:
  fixes w c :: nat
  assumes "0 < c"
  shows "w div c + (if w mod c = 0 then 0 else 1) = (w + (c - 1)) div c"
proof -
  let ?r = "w mod c"
  have "w + (c - 1) = (?r + (c - 1)) + w div c * c" by simp
  then have "(w + (c - 1)) div c = (?r + (c - 1)) div c + w div c"
    using assms by (metis add.commute div_mult_self3 less_not_refl2)
  moreover have "(?r + (c - 1)) div c = (if ?r = 0 then 0 else 1)"
  proof (cases "?r = 0")
    case False
    have "?r < c" using assms by simp
    with False have r: "?r + (c - 1) = (?r - 1) + c" "?r - 1 < c" by linarith+
    from r(2) have "((?r - 1) + c) div c = 1" using assms by (simp only: div_add_self2 div_less)
    then show ?thesis using False r(1) by simp
  qed (use assms in simp)
  ultimately show ?thesis by simp
qed

lemma bucket_loop_cuts:
  assumes "per \<noteq> 0" "channels p \<in> {1, 2}"
  shows "\<exists>bs. bucket_loop p per a b out = Some (out @ bs) \<and>
    concat (map (\<lambda>k. [bucket_start k..<bucket_end k]) bs) = [a..<b] \<and>
    (\<forall>k\<in>set bs. bucket_start k < bucket_end k \<and>
       unat (peak_magnitude k) = loudest p (bucket_start k) (bucket_end k)) \<and>
    length bs * per < (b - a) + per"
proof (induction "b - a" arbitrary: a out rule: less_induct)
  case less
  show ?case
  proof (cases "a < b")
    case False
    with assms(1) show ?thesis by (simp add: bucket_loop.simps)
  next
    case True
    let ?n = "a + min per (b - a)"
    let ?k = "\<lparr>bucket_start = a, bucket_end = ?n, peak_magnitude = range_peak p a ?n\<rparr>"
    have n: "a < ?n" "?n \<le> b" using True assms(1) by auto
    then have "b - ?n < b - a" by linarith
    from less.hyps [OF this, of "out @ [?k]"] obtain bs where
      bs: "bucket_loop p per ?n b (out @ [?k]) = Some ((out @ [?k]) @ bs)"
        "concat (map (\<lambda>k. [bucket_start k..<bucket_end k]) bs) = [?n..<b]"
        "\<forall>k\<in>set bs. bucket_start k < bucket_end k \<and>
           unat (peak_magnitude k) = loudest p (bucket_start k) (bucket_end k)"
        "length bs * per < b - ?n + per" by blast
    have "bucket_loop p per a b out = Some (out @ ?k # bs)"
      using True bs(1) by (subst bucket_loop.simps) (simp add: Let_def)
    moreover have "concat (map (\<lambda>k. [bucket_start k..<bucket_end k]) (?k # bs)) = [a..<b]"
      using bs(2) n upt_add_eq_append [of a ?n "b - ?n"] by simp
    moreover have "length (?k # bs) * per < b - a + per"
    proof (cases "b - a \<le> per")
      case True
      then have "bs = []" using bs(2,3) by (cases bs) auto
      with \<open>a < b\<close> show ?thesis by simp
    next
      case False
      with bs(4) show ?thesis by simp
    qed
    ultimately show ?thesis using bs(3) n range_peak_loudest [OF n(1) assms(2)]
      by (intro exI [of _ "?k # bs"]) auto
  qed
qed

text \<open>
  A waveform request inside its source is always answered (the loop ends), with at most
  the number of buckets asked for; the buckets, in order, list exactly the frames of the window, and
  each holds the largest magnitude among its samples.
\<close>

lemma waveform_cuts_window:
  assumes "pcm_ok p" "0 < bucket_count r" "bucket_count r \<le> 512"
    and "request_start r < request_end r" "unat (request_end r) \<le> pcm_frames p"
  shows "\<exists>env. waveform_envelope p r = Some (Inr env) \<and>
    length (buckets env) \<le> unat (bucket_count r) \<and>
    concat (map (\<lambda>k. [bucket_start k..<bucket_end k]) (buckets env)) =
      [unat (request_start r)..<unat (request_end r)] \<and>
    (\<forall>k\<in>set (buckets env). bucket_start k < bucket_end k \<and>
       unat (peak_magnitude k) = loudest p (bucket_start k) (bucket_end k))"
proof -
  let ?a = "unat (request_start r)" and ?b = "unat (request_end r)" and ?c = "unat (bucket_count r)"
  let ?per = "(?b - ?a) div ?c + (if (?b - ?a) mod ?c = 0 then 0 else 1)"
  have ab: "?a < ?b" and c: "0 < ?c" "?c \<le> 512"
    using assms(2-4) by (simp_all add: word_less_nat_alt word_le_nat_alt)
  have "0 < ?b - ?a" using ab by simp
  note per = round_up [OF this c(1)]
  from bucket_loop_cuts [OF per(2), of p ?a ?b "[]"] assms(1) obtain bs where
    bs: "bucket_loop p ?per ?a ?b [] = Some bs"
      "concat (map (\<lambda>k. [bucket_start k..<bucket_end k]) bs) = [?a..<?b]"
      "\<forall>k\<in>set bs. bucket_start k < bucket_end k \<and>
         unat (peak_magnitude k) = loudest p (bucket_start k) (bucket_end k)"
      "length bs * ?per < ?b - ?a + ?per"
    by (auto simp: pcm_ok_def)
  have "length bs * ?per < (?c + 1) * ?per" using bs(4) per(1) by (simp add: mult.commute)
  then have "length bs < ?c + 1" using mult_less_cancel2 by blast
  then have "length bs \<le> ?c" by simp
  moreover have "validate_sample p = Inr ()" using assms(1) by (simp add: validate_sample_ok)
  ultimately show ?thesis using bs ab c assms(5)
    by (simp add: waveform_envelope_def pcm_frames_def Let_def)
qed

definition demo_pcm :: pcm_sample where
  "demo_pcm = \<lparr>sample_rate = 44100, channels = 1, interleaved = [1, - 32768, 3, 4, 5]\<rparr>"

lemma waveform_cuts_window_witness:
  "\<exists>env. waveform_envelope demo_pcm \<lparr>request_start = 0, request_end = 5, bucket_count = 2\<rparr> = Some (Inr env) \<and>
     length (buckets env) \<le> 2"
  using waveform_cuts_window [of demo_pcm "\<lparr>request_start = 0, request_end = 5, bucket_count = 2\<rparr>"]
  by (auto simp: demo_pcm_def pcm_ok_def pcm_frames_def)

section \<open>Prepared PCM\<close>

lemma sint_symmetric_round:
  assumes "lo * 48000 \<le> n" "n \<le> hi * 48000" "- 32768 \<le> lo" "hi \<le> 32767"
  shows "lo \<le> sint (symmetric_round n 48000)" "sint (symmetric_round n 48000) \<le> hi"
proof -
  define v where "v = (if 0 \<le> n then (n + 24000) div 48000 else - ((- n + 24000) div 48000))"
  have "symmetric_round n 48000 = of_int v" by (simp add: symmetric_round_def v_def)
  moreover have "lo \<le> v" "v \<le> hi" using assms(1,2) by (auto simp: v_def)
  ultimately show "lo \<le> sint (symmetric_round n 48000)" "sint (symmetric_round n 48000) \<le> hi"
    using assms(3,4) sint_of_int_i16 [of v] by simp_all
qed

text \<open>A weighted mean lies between what it weighs; the 64-bit sum of the source cannot overflow.\<close>

lemma weighted_bounds:
  fixes x y :: int
  assumes "0 \<le> r" "r \<le> 48000"
  shows "min x y * 48000 \<le> x * (48000 - r) + y * r" "x * (48000 - r) + y * r \<le> max x y * 48000"
proof -
  have "min x y * (48000 - r) \<le> x * (48000 - r)" "min x y * r \<le> y * r"
    "x * (48000 - r) \<le> max x y * (48000 - r)" "y * r \<le> max x y * r"
    using assms by (intro mult_right_mono; simp)+
  then show "min x y * 48000 \<le> x * (48000 - r) + y * r" "x * (48000 - r) + y * r \<le> max x y * 48000"
    by (simp_all add: right_diff_distrib)
qed

text \<open>The two source samples an output sample is made of; the last frame stands for what follows it.\<close>

definition source_sample :: "pcm_sample \<Rightarrow> nat \<Rightarrow> nat \<Rightarrow> int" where
  "source_sample p frame channel =
     sint (interleaved p ! (min frame (pcm_frames p - 1) * unat (channels p) + channel))"

lemma prepared_sample_between:
  fixes p :: pcm_sample and n :: nat
  defines "f \<equiv> n * unat (sample_rate p) div 48000"
  shows "sint (prepared_sample p (pcm_frames p) n c) \<in>
    {min (source_sample p f c) (source_sample p (f + 1) c)..max (source_sample p f c) (source_sample p (f + 1) c)}"
proof (cases "pcm_frames p - 1 \<le> f")
  case True
  then show ?thesis
    by (simp add: prepared_sample_def source_sample_def kRuntimeSampleRate_def f_def Let_def min_def)
next
  case False
  let ?r = "int (n * unat (sample_rate p) mod 48000)"
  let ?x = "source_sample p f c" and ?y = "source_sample p (f + 1) c"
  have "sint (prepared_sample p (pcm_frames p) n c) =
      sint (symmetric_round (?x * (48000 - ?r) + ?y * ?r) 48000)"
    using False by (simp add: prepared_sample_def source_sample_def kRuntimeSampleRate_def f_def Let_def
        of_nat_diff algebra_simps)
  moreover have "0 \<le> ?r" "?r \<le> 48000" by simp_all
  note weighted = weighted_bounds [OF this, of ?x ?y]
  moreover have "- 32768 \<le> min ?x ?y" "max ?x ?y \<le> 32767"
    using sint_i16_bounds by (simp_all add: source_sample_def)
  ultimately show ?thesis using sint_symmetric_round [OF weighted] by simp
qed

lemma frames_concat:
  assumes "i < n" "c < ch"
  shows "concat (map (\<lambda>i. map (g i) [0..<ch]) [0..<n]) ! (i * ch + c) = g i c"
  using assms
proof (induction n)
  case (Suc n)
  have len: "length (concat (map (\<lambda>i. map (g i) [0..<ch]) [0..<m])) = m * ch" for m
    by (induction m) (simp_all add: add.commute)
  show ?case
  proof (cases "i = n")
    case True
    with Suc.prems show ?thesis by (simp add: nth_append len)
  next
    case False
    with Suc.prems have "i + 1 \<le> n" by simp
    then have "(i + 1) * ch \<le> n * ch" by (rule mult_le_mono1)
    with Suc.prems have "i * ch + c < n * ch" by (simp add: add_mult_distrib)
    with False Suc show ?thesis by (simp add: nth_append len)
  qed
qed simp

lemma length_frames_concat:
  "length (concat (map (\<lambda>i. map (g i) [0..<ch]) [0..<n])) = n * ch"
  by (induction n) (simp_all add: add.commute)

lemma prepared_pcm:
  assumes "pcm_ok p" "length (interleaved p) < 2 ^ 47"
  shows "\<exists>q. prepare_runtime_pcm p = Inr q \<and> pcm_ok q \<and> sample_rate q = 48000 \<and>
    channels q = channels p \<and>
    pcm_frames q = (pcm_frames p * 48000 + (unat (sample_rate p) - 1)) div unat (sample_rate p) \<and>
    (\<forall>n < pcm_frames q. \<forall>c < unat (channels q).
      let x = source_sample p (n * unat (sample_rate p) div 48000) c;
          y = source_sample p (n * unat (sample_rate p) div 48000 + 1) c
      in sint (interleaved q ! (n * unat (channels q) + c)) \<in> {min x y..max x y})"
proof -
  let ?f = "pcm_frames p" and ?ch = "unat (channels p)"
  have ch: "channels p \<in> {1, 2}" and ok: "validate_sample p = Inr ()" using assms(1)
    by (auto simp: pcm_ok_def validate_sample_ok)
  have frames: "?f * ?ch = length (interleaved p)" "?f < 2 ^ 47"
    using assms ch by (auto simp: pcm_ok_def pcm_frames_def intro: le_less_trans [OF div_le_dividend])
  then have "?f \<noteq> 0" using assms(1) by (metis length_0_conv mult_0 pcm_ok_def)
  show ?thesis
  proof (cases "sample_rate p = 48000")
    case True
    have "prepare_runtime_pcm p = Inr p" using ok True by (simp add: prepare_runtime_pcm_def)
    moreover have "sint (interleaved p ! (n * ?ch + c)) = source_sample p n c" if "n < ?f" for n c
    proof -
      have "min n (?f - 1) = n" using that by simp
      then show ?thesis by (simp only: source_sample_def)
    qed
    ultimately show ?thesis using assms(1) True by (auto simp: Let_def)
  next
    case False
    then have rate: "sample_rate p = 44100" using assms(1) by (auto simp: pcm_ok_def)
    let ?n = "?f * 48000 div 44100 + (if ?f * 48000 mod 44100 = 0 then 0 else 1)"
    let ?q = "\<lparr>sample_rate = 48000, channels = channels p,
        interleaved = concat (map (\<lambda>n. map (prepared_sample p ?f n) [0..<?ch]) [0..<?n])\<rparr>"
    have n: "?n \<noteq> 0" "?n = (?f * 48000 + 44099) div 44100"
      using round_up(2) [of "?f * 48000" 44100] round_up_div [of 44100 "?f * 48000"] \<open>?f \<noteq> 0\<close> by auto
    have "?f * 48000 + 44099 < 2 ^ 48 * 44100" using frames(2) by simp
    then have n_less: "?n < 2 ^ 48" unfolding n(2) by (rule less_mult_imp_div_less)
    have "?n * ?ch < 2 ^ 49" using n_less ch by auto
    then have "prepare_runtime_pcm p = Inr ?q"
      using ok rate frames(2) n_less ch
      by (auto simp: prepare_runtime_pcm_def kRuntimeSampleRate_def Let_def list_all_iff pcm_frames_def)
    moreover have "pcm_frames ?q = ?n" using ch by (simp add: pcm_frames_def length_frames_concat)
    moreover have "pcm_ok ?q"
      using ch n(1) length_frames_concat [of "prepared_sample p ?f" ?ch ?n]
      by (auto simp: pcm_ok_def simp flip: length_0_conv)
    ultimately show ?thesis
      using prepared_sample_between [of p] rate n(2) frames_concat [where g = "prepared_sample p ?f"]
      by (simp add: Let_def)
  qed
qed

text \<open>
  Property C27. Preparing accepted PCM never fails and never clips: the result has the runtime rate,
  the same channels and the source duration rounded up to a whole frame, and every sample lies between
  the two neighbouring source samples of its channel (the last source frame is held at the end).
\<close>

theorem prepare_runtime_pcm_exact:
  assumes "pcm_ok p" "length (interleaved p) < 2 ^ 47"
  shows "\<exists>q. prepare_runtime_pcm p = Inr q \<and> pcm_ok q \<and> sample_rate q = 48000 \<and>
    channels q = channels p \<and>
    pcm_frames q = (pcm_frames p * 48000 + (unat (sample_rate p) - 1)) div unat (sample_rate p) \<and>
    (\<forall>n < pcm_frames q. \<forall>c < unat (channels q).
      let x = source_sample p (n * unat (sample_rate p) div 48000) c;
          y = source_sample p (n * unat (sample_rate p) div 48000 + 1) c
      in sint (interleaved q ! (n * unat (channels q) + c)) \<in> {min x y..max x y})"
  using assms by (rule prepared_pcm)

theorem prepare_runtime_pcm_exact_witness:
  "\<exists>q. prepare_runtime_pcm demo_pcm = Inr q \<and> pcm_ok q \<and> sample_rate q = 48000 \<and> pcm_frames q = 6"
  using prepare_runtime_pcm_exact [of demo_pcm] by (auto simp: demo_pcm_def pcm_ok_def pcm_frames_def)

end
