(* ===== verification/Playback_Resolution.thy ===== *)
theory Playback_Resolution
  imports Pattern_Rules Sample_Analysis
begin

unbundle bit_operations_syntax

text \<open>
  From a Pad's authored playback to what the engine plays (\<open>runtime_snapshot.hpp\<close> and
  \<open>resolve_pad_playback\<close>, \<open>resolve_voice_dsp\<close> of \<open>project_cooker.cpp\<close>): source frames are rescaled to
  48 kHz output frames, and the voice settings become an integer block. Frame arithmetic is on 64-bit
  words, as in the source.

  A \<open>float\<close> is its IEEE bit pattern. The gain \<open>10^(millidb / 20000)\<close> is computed by \<open>std::pow\<close> and rounded
  to \<open>float\<close>; that function is an argument, \<open>gain_bits\<close>.
\<close>

section \<open>The resolved values\<close>

text \<open>\<open>std::int8_t\<close> is an 8-bit word read with \<^const>\<open>sint\<close>.\<close>

type_synonym i8 = "8 word"

record resolved_voice_dsp =
  dsp_loop_start_offset :: u32
  dsp_loop_crossfade_frames :: u32
  dsp_pitch_cents :: i16
  dsp_pan :: i8
  dsp_flags :: u8
  dsp_attack_frames :: u32
  dsp_release_frames :: u32
  dsp_tone :: i8
  dsp_eq_flags :: u8
  dsp_eq_low_freq_hz :: u16
  dsp_eq_low_gain_millidb :: i16
  dsp_eq_mid_freq_hz :: u16
  dsp_eq_mid_gain_millidb :: i16
  dsp_eq_mid_q_milli :: u16
  dsp_eq_high_freq_hz :: u16
  dsp_eq_high_gain_millidb :: i16

definition neutral_dsp :: resolved_voice_dsp where
  "neutral_dsp = \<lparr>dsp_loop_start_offset = 0, dsp_loop_crossfade_frames = 0, dsp_pitch_cents = 0,
     dsp_pan = 0, dsp_flags = 0, dsp_attack_frames = 0, dsp_release_frames = 0, dsp_tone = 0,
     dsp_eq_flags = 0, dsp_eq_low_freq_hz = 0, dsp_eq_low_gain_millidb = 0, dsp_eq_mid_freq_hz = 0,
     dsp_eq_mid_gain_millidb = 0, dsp_eq_mid_q_milli = 0, dsp_eq_high_freq_hz = 0,
     dsp_eq_high_gain_millidb = 0\<rparr>"

definition is_neutral :: "resolved_voice_dsp \<Rightarrow> bool" where
  "is_neutral dsp = (dsp = neutral_dsp)"

abbreviation kReverse :: u8 where "kReverse \<equiv> 0x01"
abbreviation kPingPong :: u8 where "kPingPong \<equiv> 0x02"
abbreviation kEqLow :: u8 where "kEqLow \<equiv> 0x01"
abbreviation kEqLowCut :: u8 where "kEqLowCut \<equiv> 0x02"
abbreviation kEqMid :: u8 where "kEqMid \<equiv> 0x04"
abbreviation kEqHigh :: u8 where "kEqHigh \<equiv> 0x08"
abbreviation kEqHighCut :: u8 where "kEqHighCut \<equiv> 0x10"

record resolved_playback =
  play_start_frame :: u32
  play_end_frame :: u32
  play_trigger_mode :: trigger_mode
  linear_gain :: u32
  play_muted :: bool
  play_dsp :: resolved_voice_dsp

definition invalid_argument_error :: "string \<Rightarrow> 'a result" where
  "invalid_argument_error msg = failure (mk_error invalid_argument msg)"

text \<open>\<open>std::isfinite\<close> and \<open>std::signbit\<close> of a \<open>float\<close>, on its bits.\<close>

definition float_finite :: "u32 \<Rightarrow> bool" where
  "float_finite b = (b AND 0x7F800000 \<noteq> 0x7F800000)"

definition float_sign :: "u32 \<Rightarrow> bool" where
  "float_sign b = bit b 31"

section \<open>Voice settings\<close>

definition clamp64 :: "u64 \<Rightarrow> u64 \<Rightarrow> u64 \<Rightarrow> u64" where
  "clamp64 v low high = (if v < low then low else if high < v then high else v)"

text \<open>Where later loop passes resume, and the crossfade, in output frames.\<close>

definition runtime_loop_start :: "pad_playback \<Rightarrow> u32 \<Rightarrow> u64 \<Rightarrow> u64 \<Rightarrow> u64" where
  "runtime_loop_start p source_rate runtime_start runtime_end =
     clamp64 (loop_start p * 48000 div ucast source_rate) runtime_start (runtime_end - 1)"

definition runtime_crossfade :: "pad_playback \<Rightarrow> u32 \<Rightarrow> u64 \<Rightarrow> u64" where
  "runtime_crossfade p source_rate loop_length =
     min (loop_crossfade_frames p * 48000 div ucast source_rate) (loop_length div 2)"

definition resolved_tone :: "i32 \<Rightarrow> i8" where
  "resolved_tone t = (if - 2 \<le> sint t \<and> sint t \<le> 2 then 0 else ucast t)"

definition resolved_release_ms :: "pad_playback \<Rightarrow> i32" where
  "resolved_release_ms p = (if trigger_mode p = TM_one_shot then 0 else release_ms p)"

definition put_low_band :: "pad_eq_shelf option \<Rightarrow> resolved_voice_dsp \<Rightarrow> resolved_voice_dsp" where
  "put_low_band band d =
     (case band of None \<Rightarrow> d
      | Some b \<Rightarrow> d\<lparr>dsp_eq_flags := (dsp_eq_flags d OR kEqLow) OR (if shelf_kind b = EQ_cut then kEqLowCut else 0),
          dsp_eq_low_freq_hz := ucast (shelf_freq_hz b),
          dsp_eq_low_gain_millidb := ucast (shelf_gain_millidb b)\<rparr>)"

definition put_mid_band :: "pad_eq_bell option \<Rightarrow> resolved_voice_dsp \<Rightarrow> resolved_voice_dsp" where
  "put_mid_band band d =
     (case band of None \<Rightarrow> d
      | Some b \<Rightarrow> d\<lparr>dsp_eq_flags := dsp_eq_flags d OR kEqMid,
          dsp_eq_mid_freq_hz := ucast (bell_freq_hz b),
          dsp_eq_mid_gain_millidb := ucast (bell_gain_millidb b),
          dsp_eq_mid_q_milli := ucast (bell_q_milli b)\<rparr>)"

definition put_high_band :: "pad_eq_shelf option \<Rightarrow> resolved_voice_dsp \<Rightarrow> resolved_voice_dsp" where
  "put_high_band band d =
     (case band of None \<Rightarrow> d
      | Some b \<Rightarrow> d\<lparr>dsp_eq_flags := (dsp_eq_flags d OR kEqHigh) OR (if shelf_kind b = EQ_cut then kEqHighCut else 0),
          dsp_eq_high_freq_hz := ucast (shelf_freq_hz b),
          dsp_eq_high_gain_millidb := ucast (shelf_gain_millidb b)\<rparr>)"

text \<open>The block before the EQ.\<close>

definition voice_block :: "pad_playback \<Rightarrow> u32 \<Rightarrow> u64 \<Rightarrow> u64 \<Rightarrow> resolved_voice_dsp" where
  "voice_block p source_rate runtime_start runtime_end =
     (let loop = runtime_loop_start p source_rate runtime_start runtime_end
      in neutral_dsp\<lparr>dsp_loop_start_offset := ucast (loop - runtime_start),
        dsp_loop_crossfade_frames := ucast (runtime_crossfade p source_rate (runtime_end - loop)),
        dsp_pitch_cents := ucast (pitch_cents p), dsp_pan := ucast (pan p),
        dsp_flags := (if reversed p then kReverse else 0) OR
          (if loop_mode p = LM_ping_pong then kPingPong else 0),
        dsp_attack_frames := attack_ms p * 48,
        dsp_release_frames := resolved_release_ms p * 48, dsp_tone := resolved_tone (tone p)\<rparr>)"

text \<open>The build with the voice DSP (\<open>LMDJ_VOICE_DSP\<close> is 1).\<close>

definition resolve_voice_dsp ::
  "pad_playback \<Rightarrow> u32 \<Rightarrow> u64 \<Rightarrow> u64 \<Rightarrow> u64 \<Rightarrow> resolved_voice_dsp result" where
  "resolve_voice_dsp p source_rate source_frames runtime_start runtime_end =
     (if \<not> is_valid_playback_for_source p source_frames then
        invalid_argument_error ''Pad playback voice settings are invalid''
      else success (put_high_band (eq_high (playback_eq p))
        (put_mid_band (eq_mid (playback_eq p))
          (put_low_band (eq_low (playback_eq p))
            (voice_block p source_rate runtime_start runtime_end)))))"

text \<open>The build without it (\<open>LMDJ_VOICE_DSP\<close> is 0): the block is always the neutral one.\<close>

definition resolve_voice_dsp_without ::
  "pad_playback \<Rightarrow> u32 \<Rightarrow> u64 \<Rightarrow> u64 \<Rightarrow> u64 \<Rightarrow> resolved_voice_dsp result" where
  "resolve_voice_dsp_without p source_rate source_frames runtime_start runtime_end =
     (if \<not> is_valid_playback_for_source p source_frames then
        invalid_argument_error ''Pad playback voice settings are invalid''
      else
        let loop = runtime_loop_start p source_rate runtime_start runtime_end;
            loop_offset = ucast (loop - runtime_start) :: u32;
            crossfade = ucast (runtime_crossfade p source_rate (runtime_end - loop)) :: u32;
            neutral = loop_offset = 0 \<and> crossfade = 0 \<and> pitch_cents p = 0 \<and> pan p = 0 \<and>
              \<not> reversed p \<and> loop_mode p \<noteq> LM_ping_pong \<and> attack_ms p = 0 \<and>
              resolved_release_ms p = 0 \<and> resolved_tone (tone p) = 0 \<and>
              eq_low (playback_eq p) = None \<and> eq_mid (playback_eq p) = None \<and>
              eq_high (playback_eq p) = None
        in if \<not> neutral then
             invalid_argument_error ''Pad playback voice settings are not supported by this build''
           else success neutral_dsp)"

section \<open>Playback\<close>

text \<open>The most frames a source may have: the largest 64-bit integer over 48 000.\<close>

definition rescale_limit :: u64 where
  "rescale_limit = 0xFFFFFFFFFFFFFFFF div 48000"

text \<open>The rounding of \<open>prepare_runtime_pcm\<close>, for the prepared length and for an end.\<close>

definition ceiling_div :: "u64 \<Rightarrow> u64 \<Rightarrow> u64" where
  "ceiling_div scaled rate = scaled div rate + (if scaled mod rate = 0 then 0 else 1)"

text \<open>Which of the two builds is compiled is an argument of what calls them.\<close>

definition resolve_pad_playback ::
  "bool \<Rightarrow> (i32 \<Rightarrow> u32) \<Rightarrow> pad_playback \<Rightarrow> u32 \<Rightarrow> u64 \<Rightarrow> resolved_playback result" where
  "resolve_pad_playback voice_dsp gain_bits p source_rate source_frames =
     (if source_rate = 0 \<or> \<not> listed_trigger_mode (trigger_mode p) \<or>
         rescale_limit < source_frames then
        invalid_argument_error ''Pad playback cannot be resolved from invalid PCM or mode''
      else
        let source_end = value_or (trim_end_frame p) source_frames in
        if source_end \<le> trim_start_frame p \<or> source_frames < source_end then
          invalid_argument_error ''Pad playback trim is outside source bounds''
        else
          let rate = ucast source_rate :: u64;
              prepared_frames = ceiling_div (source_frames * 48000) rate;
              runtime_start = trim_start_frame p * 48000 div rate;
              runtime_end = ceiling_div (source_end * 48000) rate
          in if runtime_end \<le> runtime_start \<or> prepared_frames < runtime_end \<or>
              0xFFFFFFFF < runtime_start \<or> 0xFFFFFFFF < runtime_end then
            invalid_argument_error ''Pad playback runtime trim is outside prepared PCM bounds''
          else if sint (gain_millidb p) < - 60000 \<or> 6000 < sint (gain_millidb p) then
            invalid_argument_error ''Pad playback gain is outside supported bounds''
          else if \<not> float_finite (gain_bits (gain_millidb p)) then
            invalid_argument_error ''Pad playback gain is not finite''
          else
            case (if voice_dsp then resolve_voice_dsp else resolve_voice_dsp_without)
                p source_rate source_frames runtime_start runtime_end of
              Inl e \<Rightarrow> failure e
            | Inr dsp \<Rightarrow> success \<lparr>play_start_frame = ucast runtime_start, play_end_frame = ucast runtime_end,
                play_trigger_mode = trigger_mode p, linear_gain = gain_bits (gain_millidb p),
                play_muted = muted p, play_dsp = dsp\<rparr>)"

section \<open>A build without the voice DSP\<close>

lemma ucast_small_zero:
  fixes w :: i32
  assumes "- (2 ^ (LENGTH('a) - 1)) \<le> sint w" "sint w < 2 ^ (LENGTH('a) - 1)" "LENGTH('a) \<le> 32"
  shows "(ucast w :: 'a::len word) = 0 \<longleftrightarrow> w = 0"
proof
  assume zero: "(ucast w :: 'a word) = 0"
  have "take_bit LENGTH('a) (uint w) = uint (ucast w :: 'a word)" by (simp only: unsigned_ucast_eq)
  with zero have "take_bit LENGTH('a) (uint w) = 0" by (simp only: unsigned_0)
  then have "take_bit LENGTH('a) (sint w) = 0"
    using assms(3) by (simp add: sint_uint take_bit_signed_take_bit)
  then have "(2::int) ^ LENGTH('a) dvd sint w" by (simp add: take_bit_eq_0_iff)
  then obtain k where k: "sint w = 2 ^ LENGTH('a) * k" by (auto simp: dvd_def)
  define m :: int where "m = 2 ^ (LENGTH('a) - 1)"
  have "(2::int) ^ LENGTH('a) = m * 2" by (simp add: m_def flip: power_Suc2)
  with assms(1,2) k have "m * - 1 \<le> m * (2 * k)" "m * (2 * k) < m * 1"
    by (simp_all add: m_def mult.assoc)
  moreover have "0 < m" by (simp add: m_def)
  ultimately have "- 1 \<le> 2 * k" "2 * k < 1"
    by (simp_all only: mult_le_cancel_left_pos mult_less_cancel_left_pos)
  then have "sint w = 0" using k by simp
  then show "w = 0" by (simp only: signed_eq_0_iff)
qed simp

lemma small_setting_zero:
  fixes w :: i32
  shows "- 2400 \<le> sint w \<Longrightarrow> sint w \<le> 2400 \<Longrightarrow> (ucast w :: i16) = 0 \<longleftrightarrow> w = 0"
    and "- 100 \<le> sint w \<Longrightarrow> sint w \<le> 100 \<Longrightarrow> (ucast w :: i8) = 0 \<longleftrightarrow> w = 0"
    and "0 \<le> sint w \<Longrightarrow> sint w \<le> 4000 \<Longrightarrow> w * 48 = 0 \<longleftrightarrow> w = 0"
proof -
  show "- 2400 \<le> sint w \<Longrightarrow> sint w \<le> 2400 \<Longrightarrow> (ucast w :: i16) = 0 \<longleftrightarrow> w = 0"
    "- 100 \<le> sint w \<Longrightarrow> sint w \<le> 100 \<Longrightarrow> (ucast w :: i8) = 0 \<longleftrightarrow> w = 0"
    by (intro ucast_small_zero; simp)+
  assume w: "0 \<le> sint w" "sint w \<le> 4000"
  have "w = of_int (sint w)" by simp
  then have "w * 48 = of_int (sint w * 48)" by (metis of_int_mult of_int_numeral)
  then have "w * 48 = 0 \<longleftrightarrow> (2 :: int) ^ 32 dvd sint w * 48"
    using word_of_int_eq_0_iff [where ?'a = 32, of "sint w * 48"] by (simp only: len_num1 len_bit0 len_bit1) simp
  moreover have "(2 :: int) ^ 32 dvd sint w * 48 \<longleftrightarrow> sint w = 0"
    using w zdvd_not_zless [of "sint w * 48" "2 ^ 32"] by (cases "sint w = 0") auto
  ultimately show "w * 48 = 0 \<longleftrightarrow> w = 0" by (simp add: signed_eq_0_iff)
qed

lemma band_fields [simp]:
  "dsp_loop_start_offset (put_low_band lb d) = dsp_loop_start_offset d"
  "dsp_loop_start_offset (put_mid_band mb d) = dsp_loop_start_offset d"
  "dsp_loop_start_offset (put_high_band hb d) = dsp_loop_start_offset d"
  "dsp_loop_crossfade_frames (put_low_band lb d) = dsp_loop_crossfade_frames d"
  "dsp_loop_crossfade_frames (put_mid_band mb d) = dsp_loop_crossfade_frames d"
  "dsp_loop_crossfade_frames (put_high_band hb d) = dsp_loop_crossfade_frames d"
  by (simp_all add: put_low_band_def put_mid_band_def put_high_band_def split: option.splits)

lemma no_bands [simp]: "put_low_band None d = d" "put_mid_band None d = d" "put_high_band None d = d"
  by (simp_all add: put_low_band_def put_mid_band_def put_high_band_def)

lemma bands_neutral:
  "put_high_band hb (put_mid_band mb (put_low_band lb d)) = neutral_dsp \<longleftrightarrow>
     d = neutral_dsp \<and> lb = None \<and> mb = None \<and> hb = None"
  if "dsp_eq_flags d = 0"
  using that by (auto simp: put_low_band_def put_mid_band_def put_high_band_def neutral_dsp_def
      dest!: arg_cong [where f = dsp_eq_flags] split: option.splits)

lemma settings_neutral:
  assumes "is_valid_playback p"
  shows "(ucast (pitch_cents p) :: i16) = 0 \<longleftrightarrow> pitch_cents p = 0"
    and "(ucast (pan p) :: i8) = 0 \<longleftrightarrow> pan p = 0"
    and "attack_ms p * 48 = 0 \<longleftrightarrow> attack_ms p = 0"
    and "resolved_release_ms p * 48 = 0 \<longleftrightarrow> resolved_release_ms p = 0"
proof -
  from assms have "- 2400 \<le> sint (pitch_cents p)" "sint (pitch_cents p) \<le> 2400"
    "- 100 \<le> sint (pan p)" "sint (pan p) \<le> 100" "0 \<le> sint (attack_ms p)" "sint (attack_ms p) \<le> 4000"
    "0 \<le> sint (resolved_release_ms p)" "sint (resolved_release_ms p) \<le> 4000"
    by (auto simp: is_valid_playback_def is_valid_tone_playback_def in_range_def resolved_release_ms_def
        split: if_splits)
  then show "(ucast (pitch_cents p) :: i16) = 0 \<longleftrightarrow> pitch_cents p = 0"
    "(ucast (pan p) :: i8) = 0 \<longleftrightarrow> pan p = 0" "attack_ms p * 48 = 0 \<longleftrightarrow> attack_ms p = 0"
    "resolved_release_ms p * 48 = 0 \<longleftrightarrow> resolved_release_ms p = 0"
    by (simp_all add: small_setting_zero)
qed

lemma without_voice_dsp:
  "resolve_voice_dsp_without p rate n a b =
     (case resolve_voice_dsp p rate n a b of
        Inl e \<Rightarrow> Inl e
      | Inr dsp \<Rightarrow> if is_neutral dsp then Inr dsp
          else invalid_argument_error ''Pad playback voice settings are not supported by this build'')"
proof (cases "is_valid_playback_for_source p n")
  case True
  then have "is_valid_playback p" by (simp add: is_valid_playback_for_source_def split: if_splits)
  note zero = settings_neutral [OF this]
  have flags: "((if r then kReverse else 0) OR (if m then kPingPong else 0)) = 0 \<longleftrightarrow> \<not> r \<and> \<not> m" for r m
    by simp
  have "dsp_eq_flags (voice_block p rate a b) = 0" by (simp add: voice_block_def neutral_dsp_def Let_def)
  note bands = bands_neutral [OF this]
  show ?thesis using True
    by (simp add: resolve_voice_dsp_without_def resolve_voice_dsp_def is_neutral_def bands Let_def)
      (auto simp: voice_block_def neutral_dsp_def zero flags Let_def)
qed (simp add: resolve_voice_dsp_without_def resolve_voice_dsp_def invalid_argument_error_def)

lemma resolve_without_voice_dsp:
  "resolve_pad_playback False gain p rate n =
     (case resolve_pad_playback True gain p rate n of
        Inl e \<Rightarrow> Inl e
      | Inr r \<Rightarrow> if is_neutral (play_dsp r) then Inr r
          else invalid_argument_error ''Pad playback voice settings are not supported by this build'')"
  by (simp add: resolve_pad_playback_def without_voice_dsp Let_def invalid_argument_error_def split: sum.split)

text \<open>
  A build without the voice DSP accepts exactly the Pad settings whose voice block is
  neutral in a build with it, and then resolves them to the same playback; it refuses all others, so a
  Pad never plays differently on it.
\<close>

lemma builds_agree_on_neutral:
  "resolve_pad_playback False gain p rate n =
     (case resolve_pad_playback True gain p rate n of
        Inl e \<Rightarrow> Inl e
      | Inr r \<Rightarrow> if is_neutral (play_dsp r) then Inr r
          else invalid_argument_error ''Pad playback voice settings are not supported by this build'')"
  by (rule resolve_without_voice_dsp)

section \<open>Resolved playback fits the prepared sample\<close>

text \<open>Frames of the source as output frames: rounded down at a start, up at an end.\<close>

definition frame_floor :: "nat \<Rightarrow> u32 \<Rightarrow> nat" where
  "frame_floor n rate = n * 48000 div unat rate"

definition frame_ceiling :: "nat \<Rightarrow> u32 \<Rightarrow> nat" where
  "frame_ceiling n rate = (n * 48000 + (unat rate - 1)) div unat rate"

lemma scale_word:
  fixes n :: u64 and rate :: u32
  assumes "rate \<noteq> 0" "unat n * 48000 < 2 ^ 64"
  shows "unat (n * 48000) = unat n * 48000"
    and "unat (n * 48000 div ucast rate) = frame_floor (unat n) rate"
    and "unat (ceiling_div (n * 48000) (ucast rate)) = frame_ceiling (unat n) rate"
proof -
  have rate: "unat (ucast rate :: u64) = unat rate" by (rule unat_ucast_up) simp
  have pos: "0 < unat rate" using assms(1) by (simp add: unat_gt_0)
  show n: "unat (n * 48000) = unat n * 48000" using assms(2) by (simp add: unat_word_ariths)
  then show floor: "unat (n * 48000 div ucast rate) = frame_floor (unat n) rate"
    by (simp add: frame_floor_def unat_div rate)
  have mod: "n * 48000 mod ucast rate = 0 \<longleftrightarrow> unat n * 48000 mod unat rate = 0"
    by (simp add: word_unat_eq_iff unat_mod rate n)
  have ceil: "unat n * 48000 div unat rate + (if unat n * 48000 mod unat rate = 0 then 0 else 1) =
      frame_ceiling (unat n) rate"
    unfolding frame_ceiling_def using pos by (rule round_up_div)
  have "unat n * 48000 div unat rate \<le> unat n * 48000" by (rule div_le_dividend)
  moreover have "unat n * 48000 \<noteq> 2 ^ 64 - 1"
  proof
    assume "unat n * 48000 = 2 ^ 64 - 1"
    then have "even ((2::nat) ^ 64 - 1)" by (metis dvd_triv_right even_mult_iff even_numeral)
    then show False by simp
  qed
  ultimately have "unat n * 48000 div unat rate + 1 < 2 ^ 64" using assms(2) by linarith
  then show "unat (ceiling_div (n * 48000) (ucast rate)) = frame_ceiling (unat n) rate"
    using floor ceil mod by (auto simp: ceiling_div_def unat_word_ariths frame_floor_def)
qed

lemma frame_ceiling_mono: "m \<le> n \<Longrightarrow> frame_ceiling m rate \<le> frame_ceiling n rate"
  by (simp add: frame_ceiling_def div_le_mono)

lemma frame_floor_less_ceiling:
  assumes "m < n" "rate \<noteq> 0"
  shows "frame_floor m rate < frame_ceiling n rate"
proof -
  have pos: "0 < unat rate" using assms(2) by (simp add: unat_gt_0)
  have "m * 48000 + unat rate \<le> n * 48000 + (unat rate - 1)" using assms(1) pos by linarith
  then have "(m * 48000 + unat rate) div unat rate \<le> frame_ceiling n rate"
    unfolding frame_ceiling_def by (rule div_le_mono)
  moreover have "(m * 48000 + unat rate) div unat rate = frame_floor m rate + 1"
    using pos by (simp add: frame_floor_def div_add_self2)
  ultimately show ?thesis by simp
qed

text \<open>What a resolved playback promises the engine about a sample of \<open>n\<close> prepared frames.\<close>

definition playback_fits :: "resolved_playback \<Rightarrow> nat \<Rightarrow> bool" where
  "playback_fits r n \<longleftrightarrow>
     (let resume = unat (play_start_frame r) + unat (dsp_loop_start_offset (play_dsp r))
      in unat (play_start_frame r) \<le> resume \<and> resume < unat (play_end_frame r) \<and>
         resume + 2 * unat (dsp_loop_crossfade_frames (play_dsp r)) \<le> unat (play_end_frame r) \<and>
         unat (play_end_frame r) \<le> n)"

lemma source_limit: "rescale_limit < n \<longleftrightarrow> \<not> unat n * 48000 < 2 ^ 64"
proof -
  have "unat n \<le> (2 ^ 64 - 1) div 48000 \<longleftrightarrow> unat n * 48000 \<le> 2 ^ 64 - 1"
    by (rule less_eq_div_iff_mult_less_eq) simp
  then show ?thesis
    by (simp add: rescale_limit_def word_less_nat_alt unat_div not_le not_less) linarith
qed

lemma valid_source_facts:
  assumes "is_valid_playback_for_source p n"
  defines "e \<equiv> value_or (trim_end_frame p) n"
  shows "trim_start_frame p < e" "e \<le> n" "trim_start_frame p \<le> loop_start p" "loop_start p < e"
    "loop_crossfade_frames p \<le> (e - loop_start p) div 2"
    "listed_trigger_mode (trigger_mode p)" "- 60000 \<le> sint (gain_millidb p)" "sint (gain_millidb p) \<le> 6000"
  using assms
  by (auto simp: is_valid_playback_for_source_def is_valid_playback_def Let_def not_le not_less split: if_splits)

text \<open>The loop and its crossfade inside the resolved range.\<close>

lemma loop_fits:
  fixes a b :: u64 and p :: pad_playback and rate :: u32
  assumes "a < b" "b \<le> 0xFFFFFFFF"
  defines "loop \<equiv> runtime_loop_start p rate a b"
  shows "unat (ucast (loop - a) :: u32) = unat loop - unat a" "unat a \<le> unat loop" "unat loop < unat b"
    "unat loop + 2 * unat (ucast (runtime_crossfade p rate (b - loop)) :: u32) \<le> unat b"
proof -
  have b: "unat a < unat b" "unat b \<le> 0xFFFFFFFF"
    using assms(1,2) by (simp_all add: word_less_nat_alt word_le_nat_alt)
  have last: "unat (b - 1) = unat b - 1" using b(1) by (intro unat_minus_one) auto
  have "a \<le> loop \<and> loop \<le> b - 1"
    using b last unfolding loop_def runtime_loop_start_def clamp64_def
    by (auto simp: word_le_nat_alt word_less_nat_alt)
  then show loop: "unat a \<le> unat loop" "unat loop < unat b"
    using b(1) last unfolding word_le_nat_alt by linarith+
  have narrow: "unat (ucast v :: u32) = unat v" if "unat v \<le> 0xFFFFFFFF" for v :: u64
    using that by (simp add: unsigned_ucast_eq take_bit_nat_eq_self)
  have sub: "unat (loop - a) = unat loop - unat a" "unat (b - loop) = unat b - unat loop"
    using loop by (simp_all add: unat_sub word_le_nat_alt)
  show "unat (ucast (loop - a) :: u32) = unat loop - unat a"
    using sub(1) loop b by (simp add: narrow)
  have "unat (runtime_crossfade p rate (b - loop)) \<le> (unat b - unat loop) div 2"
    using sub(2) by (simp add: runtime_crossfade_def min_def word_le_nat_alt unat_div)
  moreover from this have "unat (ucast (runtime_crossfade p rate (b - loop)) :: u32) =
      unat (runtime_crossfade p rate (b - loop))"
    using b by (intro narrow) linarith
  ultimately show "unat loop + 2 * unat (ucast (runtime_crossfade p rate (b - loop)) :: u32) \<le> unat b"
    using loop by linarith
qed

lemma resolved_playback_exact:
  "(is_ok (resolve_pad_playback True gain p rate n) \<longleftrightarrow>
      rate \<noteq> 0 \<and> unat n * 48000 < 2 ^ 64 \<and> is_valid_playback_for_source p n \<and>
      frame_ceiling (unat (value_or (trim_end_frame p) n)) rate < 2 ^ 32 \<and> float_finite (gain (gain_millidb p))) \<and>
    (\<forall>r. resolve_pad_playback True gain p rate n = Inr r \<longrightarrow>
      unat (play_start_frame r) = frame_floor (unat (trim_start_frame p)) rate \<and>
      unat (play_end_frame r) = frame_ceiling (unat (value_or (trim_end_frame p) n)) rate \<and>
      playback_fits r (frame_ceiling (unat n) rate))"
proof (cases "rate \<noteq> 0 \<and> unat n * 48000 < 2 ^ 64 \<and> is_valid_playback_for_source p n")
  case False
  then have "\<not> is_ok (resolve_pad_playback True gain p rate n)"
    by (auto simp: resolve_pad_playback_def resolve_voice_dsp_def invalid_argument_error_def source_limit Let_def)
  with False show ?thesis by auto
next
  case True
  let ?e = "value_or (trim_end_frame p) n"
  let ?a = "trim_start_frame p * 48000 div ucast rate :: u64"
  let ?b = "ceiling_div (?e * 48000) (ucast rate)"
  let ?n = "ceiling_div (n * 48000) (ucast rate)"
  from True have rate: "rate \<noteq> 0" and n: "unat n * 48000 < 2 ^ 64"
    and valid: "is_valid_playback_for_source p n" by simp_all
  note facts = valid_source_facts [OF valid]
  have en: "unat ?e \<le> unat n" and se: "unat (trim_start_frame p) < unat ?e"
    using facts(1,2) by (simp_all add: word_le_nat_alt word_less_nat_alt)
  then have small: "unat ?e * 48000 < 2 ^ 64" "unat (trim_start_frame p) * 48000 < 2 ^ 64"
    using n by linarith+
  note words = scale_word(2) [OF rate small(2)] scale_word(3) [OF rate small(1)] scale_word(3) [OF rate n]
  have ab: "?a < ?b" using frame_floor_less_ceiling [OF se rate] by (simp only: word_less_nat_alt words)
  have bn: "?b \<le> ?n" using frame_ceiling_mono [OF en] by (simp only: word_le_nat_alt words)
  have high: "0xFFFFFFFF < ?b \<longleftrightarrow> \<not> frame_ceiling (unat ?e) rate < 2 ^ 32"
    unfolding word_less_nat_alt words by auto
  have low: "\<not> 0xFFFFFFFF < ?a" if "\<not> 0xFFFFFFFF < ?b"
    using that ab by (simp only: not_less)
  have guards: "\<not> ?e \<le> trim_start_frame p" "\<not> n < ?e" "\<not> ?b \<le> ?a" "\<not> ?n < ?b"
    using facts(1,2) ab bn by (simp_all add: not_le not_less)
  have resolved: "resolve_pad_playback True gain p rate n =
    (if \<not> frame_ceiling (unat ?e) rate < 2 ^ 32 then
       invalid_argument_error ''Pad playback runtime trim is outside prepared PCM bounds''
     else if \<not> float_finite (gain (gain_millidb p)) then
       invalid_argument_error ''Pad playback gain is not finite''
     else Inr \<lparr>play_start_frame = ucast ?a, play_end_frame = ucast ?b, play_trigger_mode = trigger_mode p,
       linear_gain = gain (gain_millidb p), play_muted = muted p,
       play_dsp = put_high_band (eq_high (playback_eq p)) (put_mid_band (eq_mid (playback_eq p))
         (put_low_band (eq_low (playback_eq p)) (voice_block p rate ?a ?b)))\<rparr>)"
    using rate n valid facts(6-8) low high
    by (simp add: resolve_pad_playback_def resolve_voice_dsp_def source_limit Let_def guards)
  show ?thesis
  proof (cases "frame_ceiling (unat ?e) rate < 2 ^ 32 \<and> float_finite (gain (gain_millidb p))")
    case False
    then show ?thesis using resolved by (auto simp: invalid_argument_error_def)
  next
    case fits: True
    then have "?b \<le> 0xFFFFFFFF" using high by simp
    note loop = loop_fits [OF ab this, of p rate]
    have "?a \<le> 0xFFFFFFFF" using low fits high by simp
    then have narrow: "unat (ucast ?a :: u32) = unat ?a" "unat (ucast ?b :: u32) = unat ?b"
      using \<open>?b \<le> 0xFFFFFFFF\<close> by (simp_all add: word_le_nat_alt unsigned_ucast_eq take_bit_nat_eq_self)
    show ?thesis
      using fits rate n valid resolved narrow words loop frame_ceiling_mono [OF en]
      by (auto simp: playback_fits_def Let_def voice_block_def neutral_dsp_def)
  qed
qed

text \<open>
  Property C37. Resolving a Pad's playback succeeds exactly when the playback is valid for its source,
  the source length can be rescaled, the end fits 32 bits and the gain is finite; the resolved range is
  the trim rescaled to 48 kHz (start down, end up), it lies inside the prepared sample, the loop resumes
  inside it and two crossfades fit after the resumption point.
\<close>

theorem playback_resolution_exact:
  "(is_ok (resolve_pad_playback True gain p rate n) \<longleftrightarrow>
      rate \<noteq> 0 \<and> unat n * 48000 < 2 ^ 64 \<and> is_valid_playback_for_source p n \<and>
      frame_ceiling (unat (value_or (trim_end_frame p) n)) rate < 2 ^ 32 \<and> float_finite (gain (gain_millidb p))) \<and>
    (\<forall>r. resolve_pad_playback True gain p rate n = Inr r \<longrightarrow>
      unat (play_start_frame r) = frame_floor (unat (trim_start_frame p)) rate \<and>
      unat (play_end_frame r) = frame_ceiling (unat (value_or (trim_end_frame p) n)) rate \<and>
      playback_fits r (frame_ceiling (unat n) rate))"
  by (rule resolved_playback_exact)

theorem playback_resolution_exact_witness:
  "\<exists>r. resolve_pad_playback True (\<lambda>_. 0x3F800000) default_playback 44100 5 = Inr r \<and>
     unat (play_start_frame r) = 0 \<and> unat (play_end_frame r) = 6 \<and> playback_fits r 6"
proof -
  have "is_valid_playback_for_source default_playback 5"
    using default_playback_valid
    by (simp add: is_valid_playback_for_source_def default_playback_def loop_start_def)
  then have "is_ok (resolve_pad_playback True (\<lambda>_. 0x3F800000) default_playback 44100 5)"
    using playback_resolution_exact [of "\<lambda>_. 0x3F800000" default_playback 44100 5]
    by (simp add: frame_ceiling_def default_playback_def float_finite_def)
  then obtain r where "resolve_pad_playback True (\<lambda>_. 0x3F800000) default_playback 44100 5 = Inr r"
    by (auto simp: is_ok_def split: sum.splits)
  then show ?thesis using playback_resolution_exact [of "\<lambda>_. 0x3F800000" default_playback 44100 5]
    by (simp add: frame_ceiling_def frame_floor_def default_playback_def)
qed

end
