(* ===== verification/Sha256.thy ===== *)
theory Sha256
  imports Bytes
begin

unbundle bit_operations_syntax

text \<open>
  The SHA-256 digest as the cooker computes it (\<open>packages/project-cooker/src/project_cooker.cpp\<close>,
  \<open>sha256_block\<close> and \<open>sha256_hex\<close>), and what its padding is.
\<close>

definition kSha256Constants :: "u32 list" where
  "kSha256Constants = concat
    [[0x428a2f98, 0x71374491, 0xb5c0fbcf, 0xe9b5dba5],
     [0x3956c25b, 0x59f111f1, 0x923f82a4, 0xab1c5ed5],
     [0xd807aa98, 0x12835b01, 0x243185be, 0x550c7dc3],
     [0x72be5d74, 0x80deb1fe, 0x9bdc06a7, 0xc19bf174],
     [0xe49b69c1, 0xefbe4786, 0x0fc19dc6, 0x240ca1cc],
     [0x2de92c6f, 0x4a7484aa, 0x5cb0a9dc, 0x76f988da],
     [0x983e5152, 0xa831c66d, 0xb00327c8, 0xbf597fc7],
     [0xc6e00bf3, 0xd5a79147, 0x06ca6351, 0x14292967],
     [0x27b70a85, 0x2e1b2138, 0x4d2c6dfc, 0x53380d13],
     [0x650a7354, 0x766a0abb, 0x81c2c92e, 0x92722c85],
     [0xa2bfe8a1, 0xa81a664b, 0xc24b8b70, 0xc76c51a3],
     [0xd192e819, 0xd6990624, 0xf40e3585, 0x106aa070],
     [0x19a4c116, 0x1e376c08, 0x2748774c, 0x34b0bcb5],
     [0x391c0cb3, 0x4ed8aa4a, 0x5b9cca4f, 0x682e6ff3],
     [0x748f82ee, 0x78a5636f, 0x84c87814, 0x8cc70208],
     [0x90befffa, 0xa4506ceb, 0xbef9a3f7, 0xc67178f2]]"

definition rotate_right :: "u32 \<Rightarrow> nat \<Rightarrow> u32" where
  "rotate_right v n = drop_bit n v OR push_bit (32 - n) v"

section \<open>One block\<close>

definition block_word :: "bytes \<Rightarrow> nat \<Rightarrow> u32" where
  "block_word block index =
     (let at = index * 4 in
      push_bit 24 (ucast (block ! at)) OR push_bit 16 (ucast (block ! (at + 1))) OR
      push_bit 8 (ucast (block ! (at + 2))) OR ucast (block ! (at + 3)))"

text \<open>The next word of the message schedule, from the words before it.\<close>

definition schedule_word :: "u32 list \<Rightarrow> u32" where
  "schedule_word ws =
     (let i = length ws;
          w15 = ws ! (i - 15); w2 = ws ! (i - 2);
          sigma0 = rotate_right w15 7 XOR rotate_right w15 18 XOR drop_bit 3 w15;
          sigma1 = rotate_right w2 17 XOR rotate_right w2 19 XOR drop_bit 10 w2
      in ws ! (i - 16) + sigma0 + ws ! (i - 7) + sigma1)"

definition schedule :: "bytes \<Rightarrow> u32 list" where
  "schedule block = foldl (\<lambda>ws _. ws @ [schedule_word ws]) (map (block_word block) [0..<16]) [16..<64]"

record sha_state =
  sa :: u32  sb :: u32  sc :: u32  sd :: u32  se :: u32  sf :: u32  sg :: u32  sh :: u32

definition sha_round :: "u32 \<Rightarrow> u32 \<Rightarrow> sha_state \<Rightarrow> sha_state" where
  "sha_round k w s =
     (let sigma1 = rotate_right (se s) 6 XOR rotate_right (se s) 11 XOR rotate_right (se s) 25;
          choice = (se s AND sf s) XOR (NOT (se s) AND sg s);
          temp1 = sh s + sigma1 + choice + k + w;
          sigma0 = rotate_right (sa s) 2 XOR rotate_right (sa s) 13 XOR rotate_right (sa s) 22;
          majority = (sa s AND sb s) XOR (sa s AND sc s) XOR (sb s AND sc s);
          temp2 = sigma0 + majority
      in \<lparr>sa = temp1 + temp2, sb = sa s, sc = sb s, sd = sc s,
          se = sd s + temp1, sf = se s, sg = sf s, sh = sg s\<rparr>)"

definition sha256_block :: "sha_state \<Rightarrow> bytes \<Rightarrow> sha_state" where
  "sha256_block s block =
     (let ws = schedule block;
          t = foldl (\<lambda>t i. sha_round (kSha256Constants ! i) (ws ! i) t) s [0..<length ws]
      in \<lparr>sa = sa s + sa t, sb = sb s + sb t, sc = sc s + sc t, sd = sd s + sd t,
          se = se s + se t, sf = sf s + sf t, sg = sg s + sg t, sh = sh s + sh t\<rparr>)"

section \<open>Padding\<close>

function zero_pad :: "bytes \<Rightarrow> bytes" where
  "zero_pad padded = (if length padded mod 64 \<noteq> 56 then zero_pad (padded @ [0]) else padded)"
  by pat_completeness auto
termination
  by (relation "measure (\<lambda>padded. let r = length padded mod 64 in if r \<le> 56 then 56 - r else 120 - r)")
    (auto simp: mod_Suc Let_def)

declare zero_pad.simps [simp del]

definition length_bytes :: "u64 \<Rightarrow> bytes" where
  "length_bytes bits = map (\<lambda>shift. ucast (drop_bit shift bits)) [56, 48, 40, 32, 24, 16, 8, 0]"

definition sha_padded :: "bytes \<Rightarrow> bytes" where
  "sha_padded bs = zero_pad (bs @ [0x80]) @ length_bytes (of_nat (length bs) * 8)"

section \<open>The digest\<close>

definition sha_start :: sha_state where
  "sha_start = \<lparr>sa = 0x6a09e667, sb = 0xbb67ae85, sc = 0x3c6ef372, sd = 0xa54ff53a,
     se = 0x510e527f, sf = 0x9b05688c, sg = 0x1f83d9ab, sh = 0x5be0cd19\<rparr>"

definition sha_blocks :: "bytes \<Rightarrow> bytes list" where
  "sha_blocks padded = map (\<lambda>i. take 64 (drop (64 * i) padded)) [0..<length padded div 64]"

definition kHex :: string where
  "kHex = ''0123456789abcdef''"

definition hex_byte :: "u8 \<Rightarrow> string" where
  "hex_byte b = [kHex ! unat (drop_bit 4 b), kHex ! unat (b AND 0x0F)]"

definition hex_word :: "u32 \<Rightarrow> string" where
  "hex_word w = concat (map (\<lambda>shift. hex_byte (ucast (drop_bit shift w))) [24, 16, 8, 0])"

definition sha256_hex :: "bytes \<Rightarrow> string" where
  "sha256_hex bs =
     (let s = foldl sha256_block sha_start (sha_blocks (sha_padded bs))
      in concat (map hex_word [sa s, sb s, sc s, sd s, se s, sf s, sg s, sh s]))"

section \<open>What the padding is\<close>

definition pad_length :: "nat \<Rightarrow> nat" where
  "pad_length n = (let r = n mod 64 in if r \<le> 56 then 56 - r else 120 - r)"

lemma zero_pad_shape: "zero_pad p = p @ replicate (pad_length (length p)) 0"
proof (induction p rule: zero_pad.induct)
  case (1 p)
  show ?case
  proof (cases "length p mod 64 = 56")
    case True
    then show ?thesis by (simp add: zero_pad.simps [of p] pad_length_def)
  next
    case False
    have "length p mod 64 < 64" by simp
    with False have "pad_length (length p) = Suc (pad_length (length (p @ [0])))"
      by (auto simp: pad_length_def Let_def mod_Suc)
    with 1 False show ?thesis by (simp add: zero_pad.simps [of p] del: length_append)
  qed
qed

lemma pad_length_fills: "(n + pad_length n) mod 64 = 56"
proof -
  define q r where "q = n div 64" and "r = n mod 64"
  then have n: "n = 64 * q + r" "r < 64" by simp_all
  show ?thesis
  proof (cases "r \<le> 56")
    case True
    then have "n + pad_length n = 56 + 64 * q" using n by (simp add: pad_length_def r_def [symmetric])
    then show ?thesis by simp
  next
    case False
    then have "n + pad_length n = 56 + 64 * (q + 1)" using n by (simp add: pad_length_def r_def [symmetric])
    then show ?thesis by simp
  qed
qed

lemma length_length_bytes [simp]: "length (length_bytes n) = 8"
  by (simp add: length_bytes_def)

lemma length_bytes_inj: "length_bytes m = length_bytes n \<Longrightarrow> m = n"
proof (rule bit_word_eqI)
  fix i assume eq: "length_bytes m = length_bytes n" and "i < LENGTH(64)"
  then have i: "i < 64" by simp
  have byte: "(ucast (drop_bit (8 * k) m) :: u8) = ucast (drop_bit (8 * k) n)" if "k < 8" for k
  proof -
    have "k \<in> {0, 1, 2, 3, 4, 5, 6, 7}" using that by auto
    with eq show ?thesis by (auto simp: length_bytes_def)
  qed
  have "bit (ucast (drop_bit (8 * (i div 8)) m) :: u8) (i mod 8) = bit (ucast (drop_bit (8 * (i div 8)) n) :: u8) (i mod 8)"
    using i by (simp add: byte)
  then show "bit m i = bit n i" by (simp add: bit_simps)
qed

text \<open>The padded message is whole blocks, and says which message it came from.\<close>

lemma sha_padded_blocks: "length (sha_padded bs) mod 64 = 0"
proof -
  have "(length bs + 1 + pad_length (length bs + 1)) mod 64 = 56" by (rule pad_length_fills)
  moreover have "(m + 8) mod 64 = 0" if "m mod 64 = 56" for m :: nat using that by presburger
  moreover have "length (sha_padded bs) = length bs + 1 + pad_length (length bs + 1) + 8"
    by (simp add: sha_padded_def zero_pad_shape)
  ultimately show ?thesis by (simp only:)
qed

lemma sha_padded_inj:
  assumes "sha_padded a = sha_padded b" "length a < 2 ^ 61" "length b < 2 ^ 61"
  shows "a = b"
proof -
  have "length_bytes (of_nat (length a) * 8) = length_bytes (of_nat (length b) * 8)"
    using assms(1) unfolding sha_padded_def by (rule append_eq_append_conv [THEN iffD1, THEN conjunct2, rotated]) simp
  then have "unat (of_nat (length a) * 8 :: u64) = unat (of_nat (length b) * 8 :: u64)"
    by (metis length_bytes_inj)
  moreover have "unat (of_nat n * 8 :: u64) = n * 8" if "n < 2 ^ 61" for n
    using that by (simp add: unat_word_ariths unsigned_of_nat take_bit_nat_eq_self)
  ultimately have "length a = length b" using assms(2,3) by simp
  with assms(1) show ?thesis by (simp add: sha_padded_def zero_pad_shape)
qed

section \<open>What a digest looks like\<close>

lemma kHex_digit: "n < 16 \<Longrightarrow> is_lower_hex (kHex ! n)"
proof -
  have "\<forall>n\<in>set [0..<16]. is_lower_hex (kHex ! n)" by code_simp
  then show "n < 16 \<Longrightarrow> is_lower_hex (kHex ! n)" by simp
qed

lemma hex_byte_digits [simp]: "list_all is_lower_hex (hex_byte b)" "length (hex_byte b) = 2"
proof -
  have "unat (drop_bit 4 b) = unat b div 16" by (simp add: drop_bit_eq_div unat_div)
  then have "unat (drop_bit 4 b) < 16" using unat_u8_less [of b] by simp
  moreover have "unat (b AND 0x0F) \<le> unat (0x0F :: u8)"
    by (rule iffD1 [OF word_le_nat_alt]) (rule word_and_le1)
  ultimately show "list_all is_lower_hex (hex_byte b)"
    by (simp add: hex_byte_def kHex_digit)
  show "length (hex_byte b) = 2" by (simp add: hex_byte_def)
qed

lemma hex_word_digits [simp]: "list_all is_lower_hex (hex_word w)" "length (hex_word w) = 8"
  by (simp_all add: hex_word_def)

lemma sha256_hex_valid: "valid_sha256 (sha256_hex bs)"
  by (simp add: valid_sha256_def sha256_hex_def Let_def)

end
