(* ===== verification/Cooker.thy ===== *)
theory Cooker
  imports Playback_Resolution Content Sha256
begin

text \<open>
  Cooking a Pattern of a Project into the snapshot the engine plays (\<open>cook\<close> of
  \<open>packages/project-cooker/src/project_cooker.cpp\<close>). The bytes of an artifact come from the caller:
  the resolver is an argument, a function from references to bytes or an error, and \<open>None\<close> for an empty
  \<open>std::function\<close>. Shared samples are immutable, so a pointer to one is its value.
\<close>

section \<open>The snapshot\<close>

record resolved_event =
  played_slot :: pad_slot_id
  played_onset_tick :: u32
  played_duration_tick :: u32
  played_velocity :: u8
  played_sample :: pcm_sample

record resolved_pad =
  resolved_slot :: pad_slot_id
  resolved_artifact :: artifact_ref
  resolved_sample :: pcm_sample
  resolved_playback_of :: resolved_playback

record runtime_snapshot =
  snapshot_project_id :: string
  snapshot_pattern_id :: string
  snapshot_revision :: u64
  snapshot_bpm :: u16
  snapshot_bars :: u8
  snapshot_ppq :: u32
  snapshot_loop_ticks :: u32
  snapshot_pads :: "resolved_pad list"
  snapshot_events :: "resolved_event list"

section \<open>Cooking\<close>

definition cook_error :: "error_code \<Rightarrow> string \<Rightarrow> 'a result" where
  "cook_error c msg = failure (mk_error c msg)"

definition valid_pattern :: "pattern \<Rightarrow> bool" where
  "valid_pattern p =
     (if \<not> is_valid_uuid (pattern_key p) \<or>
         \<not> (pattern_bars p = 1 \<or> pattern_bars p = 2 \<or> pattern_bars p = 4 \<or> pattern_bars p = 8) then False
      else
        let loop_length = pattern_length_ticks (pattern_bars p) in
        if \<not> list_all (\<lambda>e. \<not> (\<not> is_valid_slot (event_slot e) \<or> velocity e = 0 \<or> 127 < velocity e \<or>
              loop_length \<le> onset_tick e \<or> duration_tick e = 0 \<or>
              loop_length - onset_tick e < duration_tick e)) (pattern_events p) then False
        else merge_pattern_events [] (pattern_events p) = pattern_events p)"

record decoded_artifact =
  decoded_byte_length :: u64
  decoded_source :: pcm_sample
  decoded_prepared :: pcm_sample

type_synonym artifact_cache = "(string, decoded_artifact) std_map"

type_synonym artifact_resolver = "artifact_ref \<Rightarrow> bytes result"

text \<open>Reading, checking, decoding and preparing one artifact.\<close>

definition load_artifact :: "artifact_resolver \<Rightarrow> artifact_ref \<Rightarrow> decoded_artifact result" where
  "load_artifact resolve artifact =
     (case resolve artifact of
        Inl e \<Rightarrow> failure e
      | Inr bs \<Rightarrow>
          let actual_byte_length = of_nat (length bs) :: u64 in
          if actual_byte_length \<noteq> art_byte_length artifact \<or> sha256_hex bs \<noteq> art_sha256 artifact then
            cook_error cook_failed ''artifact bytes do not match declared metadata''
          else case decode_wav bs of
              Inl e \<Rightarrow> failure e
            | Inr source \<Rightarrow>
                (case prepare_runtime_pcm source of
                   Inl e \<Rightarrow> failure e
                 | Inr prepared \<Rightarrow> success \<lparr>decoded_byte_length = actual_byte_length,
                     decoded_source = source, decoded_prepared = prepared\<rparr>))"

definition resolve_sample ::
  "artifact_resolver \<Rightarrow> artifact_cache \<Rightarrow> artifact_ref \<Rightarrow> (artifact_cache \<times> decoded_artifact) result" where
  "resolve_sample resolve cache artifact =
     (if \<not> valid_sha256 (art_sha256 artifact) then
        cook_error invalid_project ''asset artifact hash is invalid''
      else case lookup cache (art_sha256 artifact) of
          Some d \<Rightarrow>
            if decoded_byte_length d \<noteq> art_byte_length artifact then
              cook_error cook_failed ''cached artifact bytes do not match declared metadata''
            else success (cache, d)
        | None \<Rightarrow>
            (case load_artifact resolve artifact of
               Inl e \<Rightarrow> failure e
             | Inr d \<Rightarrow> success (emplace (art_sha256 artifact) d cache, d)))"

text \<open>\<open>resolve_playback\<close>: the playback for a source and the sample prepared from it.\<close>

definition resolve_playback ::
  "bool \<Rightarrow> (i32 \<Rightarrow> u32) \<Rightarrow> pad_playback \<Rightarrow> pcm_sample \<Rightarrow> pcm_sample \<Rightarrow> resolved_playback result" where
  "resolve_playback voice_dsp gain_bits p source prepared =
     (if channels source = 0 \<or> channels prepared = 0 \<or>
         length (interleaved source) mod unat (channels source) \<noteq> 0 \<or>
         length (interleaved prepared) mod unat (channels prepared) \<noteq> 0 \<or>
         sample_rate prepared \<noteq> 48000 then
        invalid_argument_error ''Pad playback cannot be resolved from invalid PCM or mode''
      else case resolve_pad_playback voice_dsp gain_bits p (sample_rate source)
          (of_nat (length (interleaved source) div unat (channels source))) of
          Inl e \<Rightarrow> failure e
        | Inr r \<Rightarrow>
            if length (interleaved prepared) div unat (channels prepared) < unat (play_end_frame r) then
              invalid_argument_error ''Pad playback runtime trim is outside prepared PCM bounds''
            else success r)"

text \<open>The Pads of the Project with the slots their positions stand for, Bank by Bank.\<close>

definition pad_positions :: "project_state \<Rightarrow> (pad_slot_id \<times> pad_slot) list" where
  "pad_positions s = concat (map (\<lambda>b. map (\<lambda>p. (\<lparr>bank = of_nat b, pad = of_nat p\<rparr>, banks s ! b ! p))
     [0..<length (banks s ! b)]) [0..<length (banks s)])"

fun cook_pads ::
  "bool \<Rightarrow> (i32 \<Rightarrow> u32) \<Rightarrow> project_state \<Rightarrow> artifact_resolver \<Rightarrow> artifact_cache \<Rightarrow>
   (pad_slot_id \<times> pad_slot) list \<Rightarrow> resolved_pad list result" where
  "cook_pads voice_dsp gain s resolve cache [] = success []"
| "cook_pads voice_dsp gain s resolve cache ((slot, assignment) # rest) =
     (if slot_id assignment \<noteq> slot then
        cook_error invalid_project ''project pad slot identity is invalid''
      else if slot_asset assignment = None then cook_pads voice_dsp gain s resolve cache rest
      else case resolve_slot_asset s slot of
          None \<Rightarrow> cook_error missing_asset ''assigned pad references a missing asset''
        | Some a \<Rightarrow>
            (case resolve_sample resolve cache (asset_artifact a) of
               Inl e \<Rightarrow> failure e
             | Inr (cache', d) \<Rightarrow>
                 (case resolve_playback voice_dsp gain (slot_playback assignment)
                     (decoded_source d) (decoded_prepared d) of
                    Inl e \<Rightarrow> failure e
                  | Inr r \<Rightarrow>
                      (case cook_pads voice_dsp gain s resolve cache' rest of
                         Inl e \<Rightarrow> failure e
                       | Inr pads \<Rightarrow> success (\<lparr>resolved_slot = slot, resolved_artifact = asset_artifact a,
                           resolved_sample = decoded_prepared d, resolved_playback_of = r\<rparr> # pads)))))"

text \<open>The sample of a slot, as the map the loop fills beside the Pads.\<close>

definition pad_samples :: "resolved_pad list \<Rightarrow> pad_slot_id \<Rightarrow> pcm_sample option" where
  "pad_samples pads slot = map_of (map (\<lambda>p. (resolved_slot p, resolved_sample p)) pads) slot"

definition cook_event :: "resolved_pad list \<Rightarrow> pattern_event \<Rightarrow> resolved_event list" where
  "cook_event pads e =
     (case pad_samples pads (event_slot e) of
        None \<Rightarrow> []
      | Some sample \<Rightarrow> [\<lparr>played_slot = event_slot e, played_onset_tick = onset_tick e,
          played_duration_tick = duration_tick e, played_velocity = velocity e, played_sample = sample\<rparr>])"

definition cook ::
  "bool \<Rightarrow> (i32 \<Rightarrow> u32) \<Rightarrow> project_state \<Rightarrow> pattern_id \<Rightarrow> artifact_resolver option \<Rightarrow> runtime_snapshot result" where
  "cook voice_dsp gain s pid resolver =
     (if \<not> is_valid_uuid (state_id s) \<or> bpm s < 40 \<or> 240 < bpm s \<or> \<not> is_valid_uuid pid \<or> resolver = None then
        cook_error invalid_project ''project or cook request is invalid''
      else case lookup (patterns s) pid of
          None \<Rightarrow> cook_error not_found ''pattern does not exist''
        | Some p \<Rightarrow>
            if pattern_key p \<noteq> pid \<or> \<not> valid_pattern p then
              cook_error invalid_project ''pattern is invalid''
            else case cook_pads voice_dsp gain s (the resolver) map_empty (pad_positions s) of
                Inl e \<Rightarrow> failure e
              | Inr pads \<Rightarrow> success \<lparr>snapshot_project_id = state_id s, snapshot_pattern_id = pattern_key p,
                  snapshot_revision = revision s, snapshot_bpm = bpm s, snapshot_bars = pattern_bars p,
                  snapshot_ppq = kPpq, snapshot_loop_ticks = pattern_length_ticks (pattern_bars p),
                  snapshot_pads = pads,
                  snapshot_events = concat (map (cook_event pads) (pattern_events p))\<rparr>)"

end
