(* ===== verification/Runtime_Content.thy ===== *)
theory Runtime_Content
  imports Cooker
begin

unbundle bit_operations_syntax

text \<open>
  The binary form of a snapshot for a device (\<open>packages/project-cooker/src/runtime_content.cpp\<close>): the
  writer, the validating reader and the inspector that runs the same reader.

  \<open>InvalidContent\<close>, which the source throws, is the left side of a sum. The digest is that of the
  library \<open>picosha2\<close>; it is an argument, \<open>hash\<close>, a function of all bytes given to one hasher. A
  \<open>float\<close> is its bit pattern, so \<open>std::bit_cast\<close> is the identity.
\<close>

section \<open>Data\<close>

record runtime_content_identity =
  identity_sha256 :: string
  identity_byte_length :: u64

record runtime_content_limits =
  maximum_encoded_bytes :: u64
  maximum_pcm_bytes :: u64
  maximum_sample_frames :: u32
  maximum_pads :: u32
  maximum_events :: u32

record runtime_content_footprint =
  footprint_encoded_bytes :: u64
  footprint_pcm_bytes :: u64
  prepared_float_bytes :: u64
  largest_float_sample_bytes :: u64
  footprint_pads :: u32
  footprint_events :: u32
  footprint_samples :: u32

record encoded_runtime_content =
  content_identity :: runtime_content_identity
  content_bytes :: bytes

record invalid_content =
  invalid_condition :: string
  invalid_why :: string

type_synonym 'a checked = "invalid_content + 'a"

definition require :: "bool \<Rightarrow> string \<Rightarrow> string \<Rightarrow> unit checked" where
  "require valid condition why =
     (if \<not> valid then Inl \<lparr>invalid_condition = condition, invalid_why = why\<rparr> else Inr ())"

text \<open>The next statement, unless this one threw.\<close>

definition checked_then :: "'a checked \<Rightarrow> ('a \<Rightarrow> 'b checked) \<Rightarrow> 'b checked" where
  "checked_then r f = (case r of Inl e \<Rightarrow> Inl e | Inr x \<Rightarrow> f x)"

definition content_error :: "invalid_content \<Rightarrow> error" where
  "content_error e = (mk_error invalid_argument (''why: '' @ invalid_why e @
       ''; remedy: supply canonical supported runtime content within the caller limits''))
     \<lparr>err_details := [(''runtime_content_condition'', ArgString (invalid_condition e))]\<rparr>"

definition content_result :: "'a checked \<Rightarrow> 'a result" where
  "content_result r = (case r of Inl e \<Rightarrow> failure (content_error e) | Inr x \<Rightarrow> success x)"

section \<open>Checked arithmetic\<close>

definition add_bytes :: "u64 \<Rightarrow> u64 \<Rightarrow> u64 checked" where
  "add_bytes left right =
     checked_then (require (right \<le> 0xFFFFFFFFFFFFFFFF - left) ''overflow'' ''runtime content byte count overflows'')
       (\<lambda>_. Inr (left + right))"

definition multiply_bytes :: "u64 \<Rightarrow> u64 \<Rightarrow> u64 checked" where
  "multiply_bytes left right =
     checked_then (require (right = 0 \<or> left \<le> 0xFFFFFFFFFFFFFFFF div right) ''overflow''
         ''runtime content byte product overflows'')
       (\<lambda>_. Inr (left * right))"

section \<open>Writing and reading fields\<close>

text \<open>\<open>append\<close>: the bytes of an integer, lowest first.\<close>

definition field :: "nat \<Rightarrow> u64 \<Rightarrow> bytes" where
  "field width v = map (\<lambda>i. ucast (drop_bit (i * 8) v AND 0xFF)) [0..<width]"

text \<open>\<open>Reader\<close>: the bytes not yet read.\<close>

definition take_input :: "u64 \<Rightarrow> bytes \<Rightarrow> (bytes \<times> bytes) checked" where
  "take_input n input =
     checked_then (require (unat n \<le> length input) ''length'' ''runtime content is truncated'')
       (\<lambda>_. Inr (take (unat n) input, drop (unat n) input))"

definition join_bytes :: "bytes \<Rightarrow> u64" where
  "join_bytes bs = foldl (\<lambda>v i. v OR push_bit (i * 8) (ucast (bs ! i))) 0 [0..<length bs]"

definition integer :: "nat \<Rightarrow> bytes \<Rightarrow> (u64 \<times> bytes) checked" where
  "integer width input =
     checked_then (take_input (of_nat width) input) (\<lambda>(bs, rest). Inr (join_bytes bs, rest))"

definition char_of_byte :: "u8 \<Rightarrow> char" where
  "char_of_byte b = char_of (unat b)"

definition read_text :: "nat \<Rightarrow> bytes \<Rightarrow> (string \<times> bytes) checked" where
  "read_text n input =
     checked_then (take_input (of_nat n) input) (\<lambda>(bs, rest). Inr (map char_of_byte bs, rest))"

definition hex_digest :: "bytes \<Rightarrow> string" where
  "hex_digest digest = concat (map hex_byte digest)"

section \<open>Checks both directions share\<close>

definition kHeaderBytes :: u64 where "kHeaderBytes = 136"
definition kPadBytes :: u64 where "kPadBytes = 20"
definition kEventBytes :: u64 where "kEventBytes = 12"
definition kSampleHeaderBytes :: u64 where "kSampleHeaderBytes = 12"
definition kRequiredCapabilities :: u64 where "kRequiredCapabilities = 7"
definition kMagic :: string where "kMagic = ''LMDJRC01''"
definition kRuntimePcmMediaType :: string where
  "kRuntimePcmMediaType = ''application/vnd.lmdj.runtime-pcm16le''"

definition check_pattern :: "runtime_snapshot \<Rightarrow> unit checked" where
  "check_pattern s =
     checked_then (require (is_valid_uuid (snapshot_project_id s) \<and> is_valid_uuid (snapshot_pattern_id s))
       ''source'' ''runtime content source identity is invalid'') (\<lambda>_.
     require (40 \<le> snapshot_bpm s \<and> snapshot_bpm s \<le> 240 \<and>
         (snapshot_bars s = 1 \<or> snapshot_bars s = 2 \<or> snapshot_bars s = 4 \<or> snapshot_bars s = 8) \<and>
         snapshot_ppq s = 960 \<and> snapshot_loop_ticks s = ucast (snapshot_bars s) * 4 * 960)
       ''timing'' ''runtime content Pattern timing is invalid'')"

definition check_counts :: "u64 \<Rightarrow> u64 \<Rightarrow> u64 \<Rightarrow> runtime_content_limits \<Rightarrow> unit checked" where
  "check_counts pads events samples lim =
     checked_then (require (pads \<le> 64 \<and> samples \<le> pads \<and> events \<le> 0xFFFFFFFF)
       ''counts'' ''runtime content table counts are invalid'') (\<lambda>_.
     checked_then (require (pads \<le> ucast (maximum_pads lim)) ''pad_limit'' ''runtime content exceeds the Pad allowance'') (\<lambda>_.
     require (events \<le> ucast (maximum_events lim)) ''event_limit'' ''runtime content exceeds the event allowance''))"

definition mode_number :: "trigger_mode \<Rightarrow> u32 checked" where
  "mode_number m =
     (case m of TM_one_shot \<Rightarrow> Inr 0 | TM_gate \<Rightarrow> Inr 1 | TM_loop_gate \<Rightarrow> Inr 2 | TM_loop_toggle \<Rightarrow> Inr 3
      | TM_unlisted _ \<Rightarrow> Inl \<lparr>invalid_condition = ''playback'',
          invalid_why = ''runtime content trigger mode is unsupported''\<rparr>)"

definition read_mode :: "u64 \<Rightarrow> trigger_mode checked" where
  "read_mode m =
     checked_then (require (m < 4) ''playback'' ''runtime content trigger mode is unsupported'')
       (\<lambda>_. Inr ([TM_one_shot, TM_gate, TM_loop_gate, TM_loop_toggle] ! unat m))"

definition slot_number :: "pad_slot_id \<Rightarrow> nat checked" where
  "slot_number slot =
     checked_then (require (is_valid_slot slot) ''slot'' ''runtime content Pad Slot is invalid'')
       (\<lambda>_. Inr (unat (bank slot) * 16 + unat (pad slot)))"

text \<open>\<open>linear_gain <= 2.0F\<close> for a finite float with no sign, on its bits.\<close>

definition at_most_two :: "u32 \<Rightarrow> bool" where
  "at_most_two b = (b \<le> 0x40000000)"

definition check_playback :: "resolved_playback \<Rightarrow> u32 \<Rightarrow> unit checked" where
  "check_playback p frames =
     checked_then (mode_number (play_trigger_mode p)) (\<lambda>_.
     checked_then (require (play_start_frame p < play_end_frame p \<and> play_end_frame p \<le> frames \<and>
         float_finite (linear_gain p) \<and> \<not> float_sign (linear_gain p) \<and> at_most_two (linear_gain p))
       ''playback'' ''runtime content playback range or gain is invalid'') (\<lambda>_.
     require (is_neutral (play_dsp p)) ''voice_dsp''
       ''runtime content v1 cannot carry Pad reverse, pitch, pan, loop, envelope, tone or EQ settings''))"

definition event_key :: "resolved_event \<Rightarrow> u32 \<times> u8 \<times> u8" where
  "event_key e = (played_onset_tick e, bank (played_slot e), pad (played_slot e))"

definition check_event :: "resolved_event \<Rightarrow> u32 \<Rightarrow> unit checked" where
  "check_event e loop_ticks =
     checked_then (slot_number (played_slot e)) (\<lambda>_.
     require (1 \<le> played_velocity e \<and> played_velocity e \<le> 127 \<and> played_onset_tick e < loop_ticks \<and>
         0 < played_duration_tick e \<and> played_duration_tick e \<le> loop_ticks - played_onset_tick e)
       ''event'' ''runtime content event timing or velocity is invalid'')"

definition check_sample :: "pcm_sample \<Rightarrow> runtime_content_limits \<Rightarrow> u32 checked" where
  "check_sample sample lim =
     checked_then (require (sample_rate sample = 48000 \<and> (channels sample = 1 \<or> channels sample = 2) \<and>
         interleaved sample \<noteq> [] \<and> length (interleaved sample) mod unat (channels sample) = 0)
       ''pcm'' ''runtime content requires complete 48 kHz mono/stereo PCM16 frames'')
     (\<lambda>_. let frames = length (interleaved sample) div unat (channels sample) in
       checked_then (require (frames \<le> 0xFFFFFFFF \<and> frames \<le> unat (maximum_sample_frames lim))
         ''frame_limit'' ''runtime content exceeds the sample frame allowance'')
       (\<lambda>_. Inr (of_nat frames)))"

definition sample_header :: "pcm_sample \<Rightarrow> bytes" where
  "sample_header sample =
     (let frames = of_nat (length (interleaved sample) div unat (channels sample)) :: u64
      in [0x80, 0xbb, 0, 0, ucast (channels sample), 0, 0, 0,
          ucast (frames AND 0xFF), ucast (drop_bit 8 frames AND 0xFF),
          ucast (drop_bit 16 frames AND 0xFF), ucast (drop_bit 24 frames AND 0xFF)])"

text \<open>The bytes \<open>sample_hash\<close> gives to the hasher, 512 at a time.\<close>

definition pcm_words :: "i16 list \<Rightarrow> bytes" where
  "pcm_words xs = concat (map (\<lambda>x. [ucast (x AND 0xFF), ucast (drop_bit 8 x)]) xs)"

definition sample_hash :: "(bytes \<Rightarrow> bytes) \<Rightarrow> pcm_sample \<Rightarrow> bytes" where
  "sample_hash hash sample = hash (sample_header sample @ pcm_words (interleaved sample))"

section \<open>Encoding\<close>

record encoded_sample =
  encoded_pcm :: pcm_sample
  encoded_digest :: bytes
  body_bytes :: u64

record encode_state =
  table :: "encoded_sample list"
  pad_sample :: "nat list"
  by_slot :: "resolved_pad option list"
  prior_slot :: nat
  unique_pcm_bytes :: u64
  total_bytes :: u64

definition encode_pad ::
  "(bytes \<Rightarrow> bytes) \<Rightarrow> runtime_content_limits \<Rightarrow> resolved_pad \<Rightarrow> encode_state \<Rightarrow> encode_state checked" where
  "encode_pad hash lim p st =
     checked_then (slot_number (resolved_slot p)) (\<lambda>slot.
     checked_then (require (pad_sample st = [] \<or> prior_slot st < slot) ''pad_order''
       ''runtime content Pads are duplicated or not canonically ordered'') (\<lambda>_.
     checked_then (check_sample (resolved_sample p) lim) (\<lambda>frames.
     checked_then (check_playback (resolved_playback_of p) frames) (\<lambda>_.
     checked_then (multiply_bytes (of_nat (length (interleaved (resolved_sample p)))) 2) (\<lambda>sample_bytes.
     checked_then (require (sample_bytes \<le> maximum_pcm_bytes lim) ''pcm_limit''
       ''runtime content sample exceeds the decoded PCM allowance'') (\<lambda>_.
     let digest = sample_hash hash (resolved_sample p) in
     checked_then (add_bytes kSampleHeaderBytes sample_bytes) (\<lambda>body.
     let st = st\<lparr>prior_slot := slot, by_slot := (by_slot st)[slot := Some p]\<rparr> in
     case find_from (\<lambda>s. encoded_digest s = digest \<and> body_bytes s = body) 0 (table st) of
       Some i \<Rightarrow> Inr (st\<lparr>pad_sample := pad_sample st @ [i]\<rparr>)
     | None \<Rightarrow>
         checked_then (add_bytes (unique_pcm_bytes st) sample_bytes) (\<lambda>pcm.
         checked_then (require (pcm \<le> maximum_pcm_bytes lim) ''pcm_limit''
           ''runtime content exceeds the total unique decoded PCM allowance'') (\<lambda>_.
         checked_then (checked_then (add_bytes 40 body) (add_bytes (total_bytes st))) (\<lambda>total.
         checked_then (require (total \<le> maximum_encoded_bytes lim) ''encoded_limit''
           ''runtime content samples exceed the encoded byte allowance'') (\<lambda>_.
         Inr (st\<lparr>unique_pcm_bytes := pcm, total_bytes := total,
           table := table st @ [\<lparr>encoded_pcm = resolved_sample p, encoded_digest = digest, body_bytes = body\<rparr>],
           pad_sample := pad_sample st @ [length (table st)]\<rparr>))))))))))))"

fun encode_pads ::
  "(bytes \<Rightarrow> bytes) \<Rightarrow> runtime_content_limits \<Rightarrow> resolved_pad list \<Rightarrow> encode_state \<Rightarrow> encode_state checked" where
  "encode_pads hash lim [] st = Inr st"
| "encode_pads hash lim (p # ps) st = checked_then (encode_pad hash lim p st) (encode_pads hash lim ps)"

text \<open>The checks of the events, after the one before it.\<close>

fun check_events ::
  "u32 \<Rightarrow> resolved_pad option list \<Rightarrow> resolved_event option \<Rightarrow> resolved_event list \<Rightarrow> unit checked" where
  "check_events loop_ticks slots before [] = Inr ()"
| "check_events loop_ticks slots before (e # es) =
     checked_then (check_event e loop_ticks) (\<lambda>_.
     checked_then (require (before = None \<or> event_key (the before) < event_key e) ''event_order''
       ''runtime content events are duplicated or not canonically ordered'') (\<lambda>_.
     checked_then (slot_number (played_slot e)) (\<lambda>slot.
     checked_then (require (slots ! slot \<noteq> None) ''reference'' ''runtime content event references an absent Pad'') (\<lambda>_.
     checked_then (require (played_sample e = resolved_sample (the (slots ! slot))) ''reference''
       ''runtime content event PCM disagrees with its Pad'') (\<lambda>_.
     check_events loop_ticks slots (Some e) es)))))"

definition pad_entry :: "resolved_pad \<Rightarrow> nat \<Rightarrow> bytes checked" where
  "pad_entry p index =
     checked_then (mode_number (play_trigger_mode (resolved_playback_of p))) (\<lambda>mode.
     let play = resolved_playback_of p; slot = resolved_slot p in
     Inr (field 1 (ucast (bank slot)) @ field 1 (ucast (pad slot)) @ field 1 (ucast mode) @
       field 1 (if play_muted play then 1 else 0) @ field 4 (of_nat index) @
       field 4 (ucast (play_start_frame play)) @ field 4 (ucast (play_end_frame play)) @
       field 4 (ucast (linear_gain play))))"

fun pad_entries :: "(resolved_pad \<times> nat) list \<Rightarrow> bytes checked" where
  "pad_entries [] = Inr []"
| "pad_entries ((p, index) # rest) =
     checked_then (pad_entry p index) (\<lambda>b. checked_then (pad_entries rest) (\<lambda>bs. Inr (b @ bs)))"

definition event_entry :: "resolved_event \<Rightarrow> bytes" where
  "event_entry e =
     field 1 (ucast (bank (played_slot e))) @ field 1 (ucast (pad (played_slot e))) @
     field 1 (ucast (played_velocity e)) @ field 1 0 @
     field 4 (ucast (played_onset_tick e)) @ field 4 (ucast (played_duration_tick e))"

definition sample_entry :: "encoded_sample \<Rightarrow> bytes" where
  "sample_entry s =
     field 8 (body_bytes s) @ encoded_digest s @ sample_header (encoded_pcm s) @
     concat (map (\<lambda>x. field 2 (ucast x)) (interleaved (encoded_pcm s)))"

definition header_entry :: "runtime_snapshot \<Rightarrow> u64 \<Rightarrow> nat \<Rightarrow> bytes" where
  "header_entry s encoded samples =
     bytes_of_string kMagic @ field 2 1 @ field 2 0 @ field 2 0 @ field 2 0 @
     field 8 encoded @ field 8 kRequiredCapabilities @
     bytes_of_string (snapshot_project_id s) @ bytes_of_string (snapshot_pattern_id s) @
     field 8 (snapshot_revision s) @ field 2 (ucast (snapshot_bpm s)) @ field 1 (ucast (snapshot_bars s)) @
     field 1 0 @ field 4 (ucast (snapshot_ppq s)) @ field 4 (ucast (snapshot_loop_ticks s)) @
     field 4 (of_nat (length (snapshot_pads s))) @ field 4 (of_nat (length (snapshot_events s))) @
     field 4 (of_nat samples)"

definition encode_checks :: "(bytes \<Rightarrow> bytes) \<Rightarrow> runtime_snapshot \<Rightarrow> runtime_content_limits \<Rightarrow> encode_state checked" where
  "encode_checks hash s lim =
     checked_then (check_pattern s) (\<lambda>_.
     checked_then (check_counts (of_nat (length (snapshot_pads s))) (of_nat (length (snapshot_events s))) 0 lim) (\<lambda>_.
     checked_then (multiply_bytes (of_nat (length (snapshot_pads s))) kPadBytes) (\<lambda>pad_table.
     checked_then (multiply_bytes (of_nat (length (snapshot_events s))) kEventBytes) (\<lambda>event_table.
     checked_then (checked_then (add_bytes pad_table event_table) (add_bytes kHeaderBytes)) (\<lambda>tables.
     checked_then (require (tables \<le> maximum_encoded_bytes lim) ''encoded_limit''
       ''runtime content tables exceed the encoded byte allowance'') (\<lambda>_.
     checked_then (encode_pads hash lim (snapshot_pads s) \<lparr>table = [], pad_sample = [],
       by_slot = replicate 64 None, prior_slot = 0, unique_pcm_bytes = 0, total_bytes = tables\<rparr>) (\<lambda>st.
     checked_then (check_events (snapshot_loop_ticks s) (by_slot st) None (snapshot_events s)) (\<lambda>_. Inr st))))))))"

definition encode :: "(bytes \<Rightarrow> bytes) \<Rightarrow> runtime_snapshot \<Rightarrow> runtime_content_limits \<Rightarrow> encoded_runtime_content checked" where
  "encode hash s lim =
     checked_then (encode_checks hash s lim) (\<lambda>st.
     checked_then (pad_entries (zip (snapshot_pads s) (pad_sample st))) (\<lambda>pads.
     let bs = header_entry s (total_bytes st) (length (table st)) @ pads @
       concat (map event_entry (snapshot_events s)) @ concat (map sample_entry (table st))
     in Inr \<lparr>content_identity = \<lparr>identity_sha256 = hex_digest (hash bs), identity_byte_length = total_bytes st\<rparr>,
          content_bytes = bs\<rparr>))"

definition encode_runtime_content ::
  "(bytes \<Rightarrow> bytes) \<Rightarrow> runtime_snapshot \<Rightarrow> runtime_content_limits \<Rightarrow> encoded_runtime_content result" where
  "encode_runtime_content hash s lim = content_result (encode hash s lim)"

section \<open>Decoding\<close>

record parsed_pad =
  parsed_slot :: pad_slot_id
  sample_index :: u32
  parsed_playback :: resolved_playback

record parsed_sample =
  parsed_digest :: bytes
  parsed_body_bytes :: u64
  parsed_frames :: u32
  parsed_channels :: u16
  parsed_pcm :: bytes

text \<open>The header up to the counts, with the snapshot it starts.\<close>

record parsed_header =
  header_snapshot :: runtime_snapshot
  pad_count :: u32
  event_count :: u32
  sample_count :: u32

definition parse_header :: "bytes \<Rightarrow> runtime_content_limits \<Rightarrow> (parsed_header \<times> bytes) checked" where
  "parse_header bs lim =
     checked_then (read_text 8 bs) (\<lambda>(magic, input).
     checked_then (require (magic = kMagic) ''magic'' ''runtime content magic is unsupported'') (\<lambda>_.
     checked_then (integer 2 input) (\<lambda>(major, input).
     checked_then (integer 2 input) (\<lambda>(minor, input).
     checked_then (integer 2 input) (\<lambda>(patch, input).
     checked_then (require (major = 1 \<and> minor = 0 \<and> patch = 0) ''version''
       ''runtime content Contract version is unsupported'') (\<lambda>_.
     checked_then (integer 2 input) (\<lambda>(reserved, input).
     checked_then (require (reserved = 0) ''reserved'' ''runtime content reserved header is nonzero'') (\<lambda>_.
     checked_then (integer 8 input) (\<lambda>(size, input).
     checked_then (require (size = of_nat (length bs)) ''length'' ''runtime content header length is false'') (\<lambda>_.
     checked_then (integer 8 input) (\<lambda>(capabilities, input).
     checked_then (require (capabilities = kRequiredCapabilities) ''capabilities''
       ''runtime content required capabilities are unsupported or incomplete'') (\<lambda>_.
     checked_then (read_text 36 input) (\<lambda>(project, input).
     checked_then (read_text 36 input) (\<lambda>(pattern, input).
     checked_then (integer 8 input) (\<lambda>(rev, input).
     checked_then (integer 2 input) (\<lambda>(tempo, input).
     checked_then (integer 1 input) (\<lambda>(bars, input).
     checked_then (integer 1 input) (\<lambda>(reserved, input).
     checked_then (require (reserved = 0) ''reserved'' ''runtime content timing reserved field is nonzero'') (\<lambda>_.
     checked_then (integer 4 input) (\<lambda>(ppq, input).
     checked_then (integer 4 input) (\<lambda>(loop, input).
     let s = \<lparr>snapshot_project_id = project, snapshot_pattern_id = pattern, snapshot_revision = rev,
       snapshot_bpm = ucast tempo, snapshot_bars = ucast bars, snapshot_ppq = ucast ppq,
       snapshot_loop_ticks = ucast loop, snapshot_pads = [], snapshot_events = []\<rparr> in
     checked_then (check_pattern s) (\<lambda>_.
     checked_then (integer 4 input) (\<lambda>(pads, input).
     checked_then (integer 4 input) (\<lambda>(events, input).
     checked_then (integer 4 input) (\<lambda>(samples, input).
     let pads = ucast pads :: u32; events = ucast events :: u32; samples = ucast samples :: u32 in
     checked_then (check_counts (ucast pads) (ucast events) (ucast samples) lim) (\<lambda>_.
     Inr (\<lparr>header_snapshot = s, pad_count = pads, event_count = events, sample_count = samples\<rparr>, input)
     ))))))))))))))))))))))))))"

record pad_table =
  table_pads :: "parsed_pad list"
  index_by_slot :: "int list"
  used_samples :: "bool list"
  next_sample :: u32
  table_prior :: nat

definition parse_pad :: "u32 \<Rightarrow> pad_table \<Rightarrow> bytes \<Rightarrow> (pad_table \<times> bytes) checked" where
  "parse_pad samples t input =
     checked_then (integer 1 input) (\<lambda>(b, input).
     checked_then (integer 1 input) (\<lambda>(p, input).
     let id = \<lparr>bank = ucast b, pad = ucast p\<rparr> in
     checked_then (slot_number id) (\<lambda>slot.
     checked_then (require (table_pads t = [] \<or> table_prior t < slot) ''pad_order''
       ''runtime content Pads are duplicated or not canonically ordered'') (\<lambda>_.
     checked_then (integer 1 input) (\<lambda>(mode_value, input).
     checked_then (read_mode mode_value) (\<lambda>mode.
     checked_then (integer 1 input) (\<lambda>(mute, input).
     checked_then (require (mute \<le> 1) ''playback'' ''runtime content mute value is invalid'') (\<lambda>_.
     checked_then (integer 4 input) (\<lambda>(index_value, input).
     let index = ucast index_value :: u32 in
     checked_then (require (index < samples) ''reference'' ''runtime content Pad references an absent sample'') (\<lambda>_.
     checked_then (if used_samples t ! unat index then Inr t
       else checked_then (require (index = next_sample t) ''sample_order''
           ''runtime content samples are not ordered by first Pad use'') (\<lambda>_.
         Inr (t\<lparr>used_samples := (used_samples t)[unat index := True], next_sample := next_sample t + 1\<rparr>))) (\<lambda>t.
     checked_then (integer 4 input) (\<lambda>(first_frame, input).
     checked_then (integer 4 input) (\<lambda>(last_frame, input).
     checked_then (integer 4 input) (\<lambda>(gain, input).
     Inr (t\<lparr>table_pads := table_pads t @ [\<lparr>parsed_slot = id, sample_index = index,
         parsed_playback = \<lparr>play_start_frame = ucast first_frame, play_end_frame = ucast last_frame,
           play_trigger_mode = mode, linear_gain = ucast gain, play_muted = (mute \<noteq> 0), play_dsp = neutral_dsp\<rparr>\<rparr>],
       index_by_slot := (index_by_slot t)[slot := int (length (table_pads t))], table_prior := slot\<rparr>, input)
     ))))))))))))))"

fun parse_pads :: "nat \<Rightarrow> u32 \<Rightarrow> pad_table \<Rightarrow> bytes \<Rightarrow> pad_table checked" where
  "parse_pads 0 samples t input = Inr t"
| "parse_pads (Suc n) samples t input =
     checked_then (parse_pad samples t input) (\<lambda>(t, input). parse_pads n samples t input)"

text \<open>One event of the table; the sample is that of its Pad and comes later.\<close>

definition no_pcm :: pcm_sample where
  "no_pcm = \<lparr>sample_rate = 0, channels = 0, interleaved = []\<rparr>"

definition parse_event :: "bytes \<Rightarrow> (resolved_event \<times> bytes) checked" where
  "parse_event input =
     checked_then (integer 1 input) (\<lambda>(b, input).
     checked_then (integer 1 input) (\<lambda>(p, input).
     checked_then (integer 1 input) (\<lambda>(vel, input).
     checked_then (integer 1 input) (\<lambda>(reserved, input).
     checked_then (require (reserved = 0) ''reserved'' ''runtime content event reserved field is nonzero'') (\<lambda>_.
     checked_then (integer 4 input) (\<lambda>(onset, input).
     checked_then (integer 4 input) (\<lambda>(duration, input).
     Inr (\<lparr>played_slot = \<lparr>bank = ucast b, pad = ucast p\<rparr>, played_onset_tick = ucast onset,
       played_duration_tick = ucast duration, played_velocity = ucast vel, played_sample = no_pcm\<rparr>, input))))))))"

fun parse_events ::
  "nat \<Rightarrow> u32 \<Rightarrow> int list \<Rightarrow> resolved_event option \<Rightarrow> bytes \<Rightarrow> unit checked" where
  "parse_events 0 loop_ticks slots before input = Inr ()"
| "parse_events (Suc n) loop_ticks slots before input =
     checked_then (parse_event input) (\<lambda>(e, input).
     checked_then (check_event e loop_ticks) (\<lambda>_.
     checked_then (require (before = None \<or> event_key (the before) < event_key e) ''event_order''
       ''runtime content events are duplicated or not canonically ordered'') (\<lambda>_.
     checked_then (slot_number (played_slot e)) (\<lambda>slot.
     checked_then (require (0 \<le> slots ! slot) ''reference'' ''runtime content event references an absent Pad'') (\<lambda>_.
     parse_events n loop_ticks slots (Some e) input)))))"

definition parse_sample ::
  "(bytes \<Rightarrow> bytes) \<Rightarrow> runtime_content_limits \<Rightarrow> parsed_sample list \<Rightarrow> u64 \<Rightarrow> bytes \<Rightarrow>
   ((parsed_sample \<times> u64) \<times> bytes) checked" where
  "parse_sample hash lim prior pcm_total input =
     checked_then (integer 8 input) (\<lambda>(body_length, input).
     checked_then (take_input 32 input) (\<lambda>(digest, input).
     checked_then (take_input body_length input) (\<lambda>(body_bytes, input).
     checked_then (integer 4 body_bytes) (\<lambda>(rate, body).
     checked_then (integer 2 body) (\<lambda>(channel_value, body).
     let ch = ucast channel_value :: u16 in
     checked_then (integer 2 body) (\<lambda>(reserved, body).
     checked_then (require (reserved = 0) ''reserved'' ''runtime content PCM reserved field is nonzero'') (\<lambda>_.
     checked_then (integer 4 body) (\<lambda>(frame_value, body).
     let frames = ucast frame_value :: u32 in
     checked_then (require (rate = 48000 \<and> (ch = 1 \<or> ch = 2) \<and> 0 < frames) ''pcm''
       ''runtime content requires complete 48 kHz mono/stereo PCM16 frames'') (\<lambda>_.
     checked_then (require (frames \<le> maximum_sample_frames lim) ''frame_limit''
       ''runtime content exceeds the sample frame allowance'') (\<lambda>_.
     checked_then (checked_then (multiply_bytes (ucast ch) 2) (multiply_bytes (ucast frames))) (\<lambda>pcm_bytes.
     checked_then (add_bytes kSampleHeaderBytes pcm_bytes) (\<lambda>expected.
     checked_then (require (body_length = expected) ''length''
       ''runtime content PCM body length disagrees with its shape'') (\<lambda>_.
     checked_then (add_bytes pcm_total pcm_bytes) (\<lambda>total.
     checked_then (require (total \<le> maximum_pcm_bytes lim) ''pcm_limit''
       ''runtime content exceeds the total unique decoded PCM allowance'') (\<lambda>_.
     checked_then (require (hash body_bytes = digest) ''sample_identity''
       ''runtime content sample body digest is false'') (\<lambda>_.
     checked_then (require (list_all (\<lambda>q. parsed_digest q \<noteq> digest \<or> parsed_body_bytes q \<noteq> body_length) prior)
       ''duplicate_sample'' ''runtime content sample table is not deduplicated'') (\<lambda>_.
     checked_then (take_input pcm_bytes body) (\<lambda>(pcm, body).
     Inr ((\<lparr>parsed_digest = digest, parsed_body_bytes = body_length, parsed_frames = frames,
       parsed_channels = ch, parsed_pcm = pcm\<rparr>, total), input)))))))))))))))))))"

fun parse_samples ::
  "(bytes \<Rightarrow> bytes) \<Rightarrow> runtime_content_limits \<Rightarrow> nat \<Rightarrow> parsed_sample list \<Rightarrow> u64 \<Rightarrow> bytes \<Rightarrow>
   ((parsed_sample list \<times> u64) \<times> bytes) checked" where
  "parse_samples hash lim 0 prior pcm_total input = Inr ((prior, pcm_total), input)"
| "parse_samples hash lim (Suc n) prior pcm_total input =
     checked_then (parse_sample hash lim prior pcm_total input) (\<lambda>((q, total), input).
     parse_samples hash lim n (prior @ [q]) total input)"

fun check_playbacks :: "parsed_sample list \<Rightarrow> parsed_pad list \<Rightarrow> unit checked" where
  "check_playbacks samples [] = Inr ()"
| "check_playbacks samples (p # ps) =
     checked_then (check_playback (parsed_playback p) (parsed_frames (samples ! unat (sample_index p))))
       (\<lambda>_. check_playbacks samples ps)"

text \<open>Everything the two readers check, before either builds its answer.\<close>

record validated_content =
  content_header :: parsed_header
  content_pads :: pad_table
  event_input :: bytes
  content_samples :: "parsed_sample list"
  content_pcm_bytes :: u64

definition new_pad_table :: pad_table where
  "new_pad_table = \<lparr>table_pads = [], index_by_slot = replicate 64 (- 1), used_samples = replicate 64 False,
     next_sample = 0, table_prior = 0\<rparr>"

definition validate_content ::
  "(bytes \<Rightarrow> bytes) \<Rightarrow> bytes \<Rightarrow> runtime_content_identity \<Rightarrow> runtime_content_limits \<Rightarrow> validated_content checked" where
  "validate_content hash bs expected lim =
     checked_then (require ((of_nat (length bs) :: u64) \<le> maximum_encoded_bytes lim) ''encoded_limit''
       ''runtime content input exceeds the encoded byte allowance'') (\<lambda>_.
     checked_then (require (kHeaderBytes \<le> (of_nat (length bs) :: u64) \<and> of_nat (length bs) = identity_byte_length expected)
       ''length'' ''runtime content length differs from the complete identity'') (\<lambda>_.
     checked_then (require (identity_sha256 expected = hex_digest (hash bs)) ''identity''
       ''runtime content digest differs from the complete identity'') (\<lambda>_.
     checked_then (parse_header bs lim) (\<lambda>(h, input).
     checked_then (checked_then (multiply_bytes (ucast (pad_count h)) kPadBytes) (\<lambda>n. take_input n input)) (\<lambda>(pad_input, input).
     checked_then (checked_then (multiply_bytes (ucast (event_count h)) kEventBytes) (\<lambda>n. take_input n input)) (\<lambda>(events, input).
     checked_then (parse_pads (unat (pad_count h)) (sample_count h) new_pad_table pad_input) (\<lambda>t.
     checked_then (require (next_sample t = sample_count h) ''reference'' ''runtime content has unused samples'') (\<lambda>_.
     checked_then (parse_events (unat (event_count h)) (snapshot_loop_ticks (header_snapshot h)) (index_by_slot t) None events) (\<lambda>_.
     checked_then (parse_samples hash lim (unat (sample_count h)) [] 0 input) (\<lambda>((samples, total), input).
     checked_then (require (input = []) ''length'' ''runtime content has trailing bytes'') (\<lambda>_.
     checked_then (check_playbacks samples (table_pads t)) (\<lambda>_.
     Inr \<lparr>content_header = h, content_pads = t, event_input = events, content_samples = samples,
       content_pcm_bytes = total\<rparr>))))))))))))"

section \<open>The two readers\<close>

fun add_footprints :: "parsed_sample list \<Rightarrow> parsed_pad list \<Rightarrow> u64 \<Rightarrow> u64 \<Rightarrow> (u64 \<times> u64) checked" where
  "add_footprints samples [] prepared largest = Inr (prepared, largest)"
| "add_footprints samples (p # ps) prepared largest =
     checked_then (multiply_bytes (ucast (parsed_frames (samples ! unat (sample_index p)))) 4) (\<lambda>float_bytes.
     checked_then (add_bytes prepared float_bytes) (\<lambda>prepared.
     add_footprints samples ps prepared (max largest float_bytes)))"

definition content_footprint :: "bytes \<Rightarrow> validated_content \<Rightarrow> runtime_content_footprint checked" where
  "content_footprint bs v =
     checked_then (add_footprints (content_samples v) (table_pads (content_pads v)) 0 0) (\<lambda>(prepared, largest).
     Inr \<lparr>footprint_encoded_bytes = of_nat (length bs), footprint_pcm_bytes = content_pcm_bytes v,
       prepared_float_bytes = prepared, largest_float_sample_bytes = largest,
       footprint_pads = pad_count (content_header v), footprint_events = event_count (content_header v),
       footprint_samples = sample_count (content_header v)\<rparr>)"

fun decode_words :: "bytes \<Rightarrow> i16 list" where
  "decode_words (low # high # rest) = ucast (join_bytes [low, high]) # decode_words rest"
| "decode_words bs = []"

definition owned_sample :: "parsed_sample \<Rightarrow> pcm_sample" where
  "owned_sample q = \<lparr>sample_rate = 48000, channels = parsed_channels q, interleaved = decode_words (parsed_pcm q)\<rparr>"

definition decoded_pad :: "parsed_sample list \<Rightarrow> parsed_pad \<Rightarrow> resolved_pad" where
  "decoded_pad samples p =
     (let q = samples ! unat (sample_index p) in
      \<lparr>resolved_slot = parsed_slot p,
       resolved_artifact = \<lparr>art_sha256 = hex_digest (parsed_digest q), art_media_type = kRuntimePcmMediaType,
         art_byte_length = parsed_body_bytes q\<rparr>,
       resolved_sample = owned_sample q, resolved_playback_of = parsed_playback p\<rparr>)"

text \<open>The second reading of the event table.\<close>

fun decode_events :: "nat \<Rightarrow> int list \<Rightarrow> resolved_pad list \<Rightarrow> bytes \<Rightarrow> resolved_event list checked" where
  "decode_events 0 slots pads input = Inr []"
| "decode_events (Suc n) slots pads input =
     checked_then (parse_event input) (\<lambda>(e, input).
     checked_then (slot_number (played_slot e)) (\<lambda>slot.
     checked_then (decode_events n slots pads input) (\<lambda>es.
     Inr (e\<lparr>played_sample := resolved_sample (pads ! nat (slots ! slot))\<rparr> # es))))"

definition decoded_content :: "validated_content \<Rightarrow> runtime_snapshot checked" where
  "decoded_content v =
     (let pads = map (decoded_pad (content_samples v)) (table_pads (content_pads v)) in
      checked_then (decode_events (unat (event_count (content_header v))) (index_by_slot (content_pads v)) pads (event_input v))
        (\<lambda>events. Inr ((header_snapshot (content_header v))\<lparr>snapshot_pads := pads, snapshot_events := events\<rparr>)))"

definition decode_runtime_content ::
  "(bytes \<Rightarrow> bytes) \<Rightarrow> bytes \<Rightarrow> runtime_content_identity \<Rightarrow> runtime_content_limits \<Rightarrow> runtime_snapshot result" where
  "decode_runtime_content hash bs expected lim =
     content_result (checked_then (validate_content hash bs expected lim) decoded_content)"

definition inspect_runtime_content ::
  "(bytes \<Rightarrow> bytes) \<Rightarrow> bytes \<Rightarrow> runtime_content_identity \<Rightarrow> runtime_content_limits \<Rightarrow> runtime_content_footprint result" where
  "inspect_runtime_content hash bs expected lim =
     content_result (checked_then (validate_content hash bs expected lim) (content_footprint bs))"

end
