(* ===== verification/Cook_Laws.thy ===== *)
theory Cook_Laws
  imports Cooker Pattern_Commands Wav_Selection "HOL-Library.Sublist"
begin

text \<open>
  What cooking promises: the cache of decoded artifacts is invisible when the resolver is content
  addressed, what a snapshot holds, and when a valid Project cooks.
\<close>

section \<open>Cooking without a cache\<close>

definition content_addressed :: "artifact_resolver \<Rightarrow> bool" where
  "content_addressed resolve \<longleftrightarrow> (\<forall>a b. art_sha256 a = art_sha256 b \<longrightarrow> resolve a = resolve b)"

definition checked_artifact :: "artifact_resolver \<Rightarrow> artifact_ref \<Rightarrow> decoded_artifact result" where
  "checked_artifact resolve artifact =
     (if \<not> valid_sha256 (art_sha256 artifact) then
        cook_error invalid_project ''asset artifact hash is invalid''
      else load_artifact resolve artifact)"

text \<open>One position of the Project: nothing for an unassigned Pad.\<close>

definition cook_position ::
  "bool \<Rightarrow> (i32 \<Rightarrow> u32) \<Rightarrow> project_state \<Rightarrow> artifact_resolver \<Rightarrow> pad_slot_id \<times> pad_slot \<Rightarrow>
   resolved_pad list result" where
  "cook_position voice_dsp gain s resolve sp =
     (case sp of (slot, assignment) \<Rightarrow>
      if slot_id assignment \<noteq> slot then
        cook_error invalid_project ''project pad slot identity is invalid''
      else if slot_asset assignment = None then success []
      else case resolve_slot_asset s slot of
          None \<Rightarrow> cook_error missing_asset ''assigned pad references a missing asset''
        | Some a \<Rightarrow>
            (case checked_artifact resolve (asset_artifact a) of
               Inl e \<Rightarrow> failure e
             | Inr d \<Rightarrow>
                 (case resolve_playback voice_dsp gain (slot_playback assignment)
                     (decoded_source d) (decoded_prepared d) of
                    Inl e \<Rightarrow> failure e
                  | Inr r \<Rightarrow> success [\<lparr>resolved_slot = slot, resolved_artifact = asset_artifact a,
                      resolved_sample = decoded_prepared d, resolved_playback_of = r\<rparr>])))"

fun cook_positions ::
  "bool \<Rightarrow> (i32 \<Rightarrow> u32) \<Rightarrow> project_state \<Rightarrow> artifact_resolver \<Rightarrow>
   (pad_slot_id \<times> pad_slot) list \<Rightarrow> resolved_pad list result" where
  "cook_positions voice_dsp gain s resolve [] = success []"
| "cook_positions voice_dsp gain s resolve (sp # rest) =
     (case cook_position voice_dsp gain s resolve sp of
        Inl e \<Rightarrow> failure e
      | Inr pads \<Rightarrow>
          (case cook_positions voice_dsp gain s resolve rest of
             Inl e \<Rightarrow> failure e
           | Inr more_pads \<Rightarrow> success (pads @ more_pads)))"

text \<open>A result up to the wording of its error.\<close>

definition verdict :: "'a result \<Rightarrow> error_code + 'a" where
  "verdict r = (case r of Inl e \<Rightarrow> Inl (err_code e) | Inr x \<Rightarrow> Inr x)"

lemma verdict_simps [simp]: "verdict (Inl e) = Inl (err_code e)" "verdict (Inr x) = Inr x"
  by (simp_all add: verdict_def)

lemma verdict_Inr [simp]: "verdict r = Inr x \<longleftrightarrow> r = Inr x"
  by (cases r) simp_all

text \<open>A cache whose entries are what loading gives.\<close>

definition cache_ok :: "artifact_resolver \<Rightarrow> artifact_cache \<Rightarrow> bool" where
  "cache_ok resolve cache \<longleftrightarrow>
     (\<forall>sha d. lookup cache sha = Some d \<longrightarrow> (\<exists>a. art_sha256 a = sha \<and> load_artifact resolve a = Inr d))"

lemma load_artifact_iff:
  "load_artifact resolve a = Inr d \<longleftrightarrow>
     (\<exists>bs p q. resolve a = Inr bs \<and> (of_nat (length bs) :: u64) = art_byte_length a \<and>
        sha256_hex bs = art_sha256 a \<and> decode_wav bs = Inr p \<and> prepare_runtime_pcm p = Inr q \<and>
        d = \<lparr>decoded_byte_length = art_byte_length a, decoded_source = p, decoded_prepared = q\<rparr>)"
  by (auto simp: load_artifact_def cook_error_def Let_def split: sum.splits)

lemma cached_load:
  assumes "content_addressed resolve" "art_sha256 b = art_sha256 a" "load_artifact resolve b = Inr d"
  shows "verdict (load_artifact resolve a) =
    (if decoded_byte_length d = art_byte_length a then Inr d else Inl cook_failed)"
proof -
  have same: "resolve b = resolve a" using assms(1,2) unfolding content_addressed_def by blast
  obtain bs p q where
    loaded: "resolve a = Inr bs" "sha256_hex bs = art_sha256 a" "decode_wav bs = Inr p" "prepare_runtime_pcm p = Inr q"
    and byte_count: "(of_nat (length bs) :: u64) = art_byte_length b"
    and d: "d = \<lparr>decoded_byte_length = art_byte_length b, decoded_source = p, decoded_prepared = q\<rparr>"
    using assms(3) unfolding load_artifact_iff same assms(2) by blast
  show ?thesis by (simp add: load_artifact_def cook_error_def mk_error_def loaded byte_count d)
qed

lemma resolve_sample_verdict:
  assumes "content_addressed resolve" "cache_ok resolve cache"
  shows "map_sum id snd (verdict (resolve_sample resolve cache a)) = verdict (checked_artifact resolve a)"
    and "resolve_sample resolve cache a = Inr (cache', d) \<Longrightarrow> cache_ok resolve cache'"
proof -
  have "verdict (load_artifact resolve a) =
      (if decoded_byte_length d = art_byte_length a then Inr d else Inl cook_failed)"
    if found: "lookup cache (art_sha256 a) = Some d" for d
  proof -
    obtain b where "art_sha256 b = art_sha256 a" "load_artifact resolve b = Inr d"
      using assms(2) found unfolding cache_ok_def by blast
    then show ?thesis by (rule cached_load [OF assms(1)])
  qed
  then show "map_sum id snd (verdict (resolve_sample resolve cache a)) = verdict (checked_artifact resolve a)"
    by (auto simp: resolve_sample_def checked_artifact_def cook_error_def mk_error_def split: option.splits sum.splits)
  show "resolve_sample resolve cache a = Inr (cache', d) \<Longrightarrow> cache_ok resolve cache'"
    using assms(2) by (auto simp: resolve_sample_def cook_error_def cache_ok_def lookup_emplace
        split: if_splits option.splits sum.splits)
qed

lemma cook_pads_verdict:
  assumes "content_addressed resolve" "cache_ok resolve cache"
  shows "verdict (cook_pads v g s resolve cache sps) = verdict (cook_positions v g s resolve sps)"
  using assms
proof (induction v g s resolve cache sps rule: cook_pads.induct)
  case (2 v g s resolve cache slot assignment rest)
  show ?case
  proof (cases "slot_id assignment \<noteq> slot \<or> slot_asset assignment = None \<or> resolve_slot_asset s slot = None")
    case True
    then show ?thesis using 2 by (auto simp: cook_position_def cook_error_def verdict_def split: sum.splits)
  next
    case False
    then obtain a aid where a: "resolve_slot_asset s slot = Some a"
      and assigned: "slot_id assignment = slot" "slot_asset assignment = Some aid" by auto
    show ?thesis
    proof (cases "resolve_sample resolve cache (asset_artifact a)")
      case (Inl e)
      with resolve_sample_verdict(1) [OF "2.prems", of "asset_artifact a"]
      obtain e' where "checked_artifact resolve (asset_artifact a) = Inl e'" "err_code e' = err_code e"
        by (cases "checked_artifact resolve (asset_artifact a)") auto
      with assigned Inl a show ?thesis by (simp add: cook_position_def)
    next
      case (Inr found)
      then obtain cache' d where found: "resolve_sample resolve cache (asset_artifact a) = Inr (cache', d)"
        by (cases found) simp
      with resolve_sample_verdict [OF "2.prems", of "asset_artifact a"]
      have checked: "checked_artifact resolve (asset_artifact a) = Inr d" and ok: "cache_ok resolve cache'"
        by (auto simp: eq_commute [of "Inr d"])
      show ?thesis
      proof (cases "resolve_playback v g (slot_playback assignment) (decoded_source d) (decoded_prepared d)")
        case (Inl e)
        with assigned a found checked show ?thesis by (simp add: cook_position_def)
      next
        case (Inr r)
        have "verdict (cook_pads v g s resolve cache' rest) = verdict (cook_positions v g s resolve rest)"
          using "2.IH"(2) [OF _ _ a found refl Inr "2.prems"(1) ok] False by simp
        with assigned a found checked Inr show ?thesis
          by (auto simp: cook_position_def verdict_def split: sum.splits)
      qed
    qed
  qed
qed simp

text \<open>The checks of the request and the snapshot built from the Pads.\<close>

definition snapshot_of :: "project_state \<Rightarrow> pattern \<Rightarrow> resolved_pad list \<Rightarrow> runtime_snapshot" where
  "snapshot_of s p pads = \<lparr>snapshot_project_id = state_id s, snapshot_pattern_id = pattern_key p,
     snapshot_revision = revision s, snapshot_bpm = bpm s, snapshot_bars = pattern_bars p,
     snapshot_ppq = kPpq, snapshot_loop_ticks = pattern_length_ticks (pattern_bars p),
     snapshot_pads = pads, snapshot_events = concat (map (cook_event pads) (pattern_events p))\<rparr>"

definition cook_from :: "project_state \<Rightarrow> pattern_id \<Rightarrow> resolved_pad list result \<Rightarrow> runtime_snapshot result" where
  "cook_from s pid cooked =
     (if \<not> is_valid_uuid (state_id s) \<or> bpm s < 40 \<or> 240 < bpm s \<or> \<not> is_valid_uuid pid then
        cook_error invalid_project ''project or cook request is invalid''
      else case lookup (patterns s) pid of
          None \<Rightarrow> cook_error not_found ''pattern does not exist''
        | Some p \<Rightarrow>
            if pattern_key p \<noteq> pid \<or> \<not> valid_pattern p then
              cook_error invalid_project ''pattern is invalid''
            else case cooked of Inl e \<Rightarrow> failure e | Inr pads \<Rightarrow> success (snapshot_of s p pads))"

lemma cook_is_from:
  "cook v g s pid (Some resolve) = cook_from s pid (cook_pads v g s resolve map_empty (pad_positions s))"
  unfolding cook_def cook_from_def snapshot_of_def option.sel
  by (simp only: option.distinct simp_thms)

lemma cook_from_Inr:
  "cook_from s pid cooked = Inr snap \<longleftrightarrow>
     is_valid_uuid (state_id s) \<and> \<not> bpm s < 40 \<and> \<not> 240 < bpm s \<and> is_valid_uuid pid \<and>
     (\<exists>p pads. lookup (patterns s) pid = Some p \<and> pattern_key p = pid \<and> valid_pattern p \<and>
        cooked = Inr pads \<and> snap = snapshot_of s p pads)"
  unfolding cook_from_def cook_error_def by (simp split: option.split sum.split) blast

lemma cook_from_verdict:
  "verdict x = verdict y \<Longrightarrow> verdict (cook_from s pid x) = verdict (cook_from s pid y)"
  by (cases x; cases y) (simp_all add: cook_from_def split: option.split)

text \<open>The reference: cooking with no cache.\<close>

definition cook_uncached ::
  "bool \<Rightarrow> (i32 \<Rightarrow> u32) \<Rightarrow> project_state \<Rightarrow> pattern_id \<Rightarrow> artifact_resolver \<Rightarrow> runtime_snapshot result" where
  "cook_uncached voice_dsp gain s pid resolve =
     cook_from s pid (cook_positions voice_dsp gain s resolve (pad_positions s))"

lemma cache_ok_empty [simp]: "cache_ok resolve map_empty"
  by (simp add: cache_ok_def)

lemma cook_verdict:
  "content_addressed resolve \<Longrightarrow>
     verdict (cook v g s pid (Some resolve)) = verdict (cook_uncached v g s pid resolve)"
  unfolding cook_is_from cook_uncached_def by (intro cook_from_verdict cook_pads_verdict cache_ok_empty)

section \<open>What a snapshot holds\<close>

lemma valid_pattern_iff:
  "valid_pattern p \<longleftrightarrow> is_ok (validate_pattern p) \<and> canonical_events (pattern_events p)"
proof -
  have "merge_pattern_events [] es = es \<longleftrightarrow> canonical_events es" for es
    using merge_canonical [of "[]" es] canonical_events_unique [of "merge_pattern_events [] es" es]
    by (auto simp: event_map_merge)
  note order = this
  have event: "(\<not> (\<not> is_valid_slot (event_slot e) \<or> velocity e = 0 \<or> 127 < velocity e \<or> limit \<le> onset_tick e \<or>
      duration_tick e = 0 \<or> limit - onset_tick e < duration_tick e)) = valid_pattern_event limit e" for limit e
    unfolding valid_pattern_event_def valid_velocity_def word_one_le by (simp only: not_less [symmetric]) blast
  show ?thesis
    unfolding valid_pattern_def Let_def order validate_pattern_ok valid_bars_def event by simp
qed

text \<open>A cooked Pad comes from the Asset of its slot, whose bytes have the declared digest and length.\<close>

definition pad_resolved :: "project_state \<Rightarrow> artifact_resolver \<Rightarrow> resolved_pad \<Rightarrow> bool" where
  "pad_resolved s resolve rp \<longleftrightarrow>
     (\<exists>a ref bs source. resolve_slot_asset s (resolved_slot rp) = Some a \<and> resolved_artifact rp = asset_artifact a \<and>
        art_sha256 ref = art_sha256 (asset_artifact a) \<and> resolve ref = Inr bs \<and>
        sha256_hex bs = art_sha256 (asset_artifact a) \<and>
        (of_nat (length bs) :: u64) = art_byte_length (asset_artifact a) \<and>
        decode_wav bs = Inr source \<and> prepare_runtime_pcm source = Inr (resolved_sample rp))"

text \<open>Its playback was resolved for the source its sample was prepared from.\<close>

definition pad_decoded :: "(i32 \<Rightarrow> u32) \<Rightarrow> resolved_pad \<Rightarrow> bool" where
  "pad_decoded g rp \<longleftrightarrow>
     (\<exists>bs source p. decode_wav bs = Inr source \<and> prepare_runtime_pcm source = Inr (resolved_sample rp) \<and>
        resolve_pad_playback True g p (sample_rate source) (of_nat (pcm_frames source)) =
          Inr (resolved_playback_of rp))"

text \<open>What the mixer relies on: 48 kHz samples and ranges inside them.\<close>

definition pad_playable :: "resolved_pad \<Rightarrow> bool" where
  "pad_playable rp \<longleftrightarrow>
     pcm_ok (resolved_sample rp) \<and> sample_rate (resolved_sample rp) = 48000 \<and>
     playback_fits (resolved_playback_of rp) (pcm_frames (resolved_sample rp))"

definition slot_place :: "pad_slot_id \<Rightarrow> u8 \<times> u8" where
  "slot_place sl = (bank sl, pad sl)"

definition event_place :: "resolved_event \<Rightarrow> u32 \<times> u8 \<times> u8" where
  "event_place e = (played_onset_tick e, slot_place (played_slot e))"

definition event_playable :: "runtime_snapshot \<Rightarrow> resolved_event \<Rightarrow> bool" where
  "event_playable snap e \<longleftrightarrow>
     0 < unat (played_duration_tick e) \<and>
     unat (played_onset_tick e) + unat (played_duration_tick e) \<le> unat (snapshot_loop_ticks snap) \<and>
     valid_velocity (played_velocity e) \<and>
     (\<exists>rp\<in>set (snapshot_pads snap). resolved_slot rp = played_slot e \<and> resolved_sample rp = played_sample e)"

lemma prepared_source:
  assumes "decode_wav bs = Inr source" "prepare_runtime_pcm source = Inr q"
  shows "pcm_ok source" "pcm_ok q" "sample_rate q = 48000" "pcm_frames source < 2 ^ 33"
    "pcm_frames q = frame_ceiling (pcm_frames source) (sample_rate source)"
proof -
  note ok = decode_wav_ok [OF assms(1)]
  then have small: "length (interleaved source) < 2 ^ 33" by simp
  show "pcm_ok source" by (rule ok(1))
  from small show "pcm_frames source < 2 ^ 33" 
    by (auto simp: pcm_frames_def intro: le_less_trans [OF div_le_dividend])
  have "length (interleaved source) < 2 ^ 47" using small by simp
  from prepared_pcm [OF ok(1) this] assms(2)
  show "pcm_ok q" "sample_rate q = 48000" "pcm_frames q = frame_ceiling (pcm_frames source) (sample_rate source)"
    by (auto simp: frame_ceiling_def)
qed

lemma resolve_playback_prepared:
  assumes "decode_wav bs = Inr source" "prepare_runtime_pcm source = Inr q"
  shows "resolve_playback True g p source q =
     resolve_pad_playback True g p (sample_rate source) (of_nat (pcm_frames source))"
    and "resolve_playback True g p source q = Inr r \<Longrightarrow> playback_fits r (pcm_frames q)"
proof -
  note facts = prepared_source [OF assms]
  have frames: "unat (of_nat (pcm_frames source) :: u64) = pcm_frames source"
    using facts(4) by (simp add: unsigned_of_nat take_bit_nat_eq_self)
  have fits: "playback_fits r (pcm_frames q)"
    if "resolve_pad_playback True g p (sample_rate source) (of_nat (pcm_frames source)) = Inr r" for r
    using resolved_playback_exact [of g p "sample_rate source" "of_nat (pcm_frames source)"] that
    by (simp add: frames facts(5))
  then have "unat (play_end_frame r) \<le> length (interleaved q) div unat (channels q)"
    if "resolve_pad_playback True g p (sample_rate source) (of_nat (pcm_frames source)) = Inr r" for r
    using that by (auto simp: playback_fits_def Let_def pcm_frames_def)
  moreover have "channels source \<noteq> 0" "channels q \<noteq> 0"
    "length (interleaved source) mod unat (channels source) = 0" "length (interleaved q) mod unat (channels q) = 0"
    using facts(1,2) by (auto simp: pcm_ok_def)
  ultimately show same: "resolve_playback True g p source q =
     resolve_pad_playback True g p (sample_rate source) (of_nat (pcm_frames source))"
    using facts(3) by (auto simp: resolve_playback_def not_less pcm_frames_def split: sum.splits)
  show "resolve_playback True g p source q = Inr r \<Longrightarrow> playback_fits r (pcm_frames q)"
    using fits same by simp
qed

text \<open>Every cooked Pad stands at a position of the Project, in the order of the positions.\<close>

lemma load_checks:
  "load_artifact resolve ref = Inr d \<Longrightarrow> decoded_byte_length d = art_byte_length ref"
  unfolding load_artifact_iff by auto

lemma resolve_sample_loads:
  assumes "cache_ok resolve cache" "resolve_sample resolve cache a = Inr (cache', d)"
  shows "cache_ok resolve cache'"
    and "\<exists>ref. art_sha256 ref = art_sha256 a \<and> load_artifact resolve ref = Inr d \<and> art_byte_length ref = art_byte_length a"
proof -
  show "cache_ok resolve cache'"
    using assms by (auto simp: resolve_sample_def cook_error_def cache_ok_def lookup_emplace
        split: if_splits option.splits sum.splits)
  show "\<exists>ref. art_sha256 ref = art_sha256 a \<and> load_artifact resolve ref = Inr d \<and> art_byte_length ref = art_byte_length a"
  proof (cases "lookup cache (art_sha256 a)")
    case None
    with assms(2) show ?thesis
      by (auto simp: resolve_sample_def cook_error_def split: if_splits sum.splits)
  next
    case (Some found)
    with assms(2) have "found = d" "decoded_byte_length d = art_byte_length a"
      by (auto simp: resolve_sample_def cook_error_def split: if_splits)
    with assms(1) Some show ?thesis unfolding cache_ok_def using load_checks by fastforce
  qed
qed

lemma cook_pads_sound:
  assumes "cook_pads True g s resolve cache sps = Inr pads" "cache_ok resolve cache"
  shows "list_all (\<lambda>rp. pad_resolved s resolve rp \<and> pad_playable rp \<and> pad_decoded g rp) pads \<and>
    subseq (map resolved_slot pads) (map fst sps)"
  using assms
proof (induction True g s resolve cache sps arbitrary: pads rule: cook_pads.induct)
  case (2 g s resolve cache slot assignment rest)
  show ?case
  proof (cases "slot_asset assignment = None")
    case True
    with 2 show ?thesis by (auto simp: cook_error_def split: if_splits)
  next
    case False
    with "2.prems"(1) obtain a cache' d r rest_pads where
      here: "slot_id assignment = slot" "resolve_slot_asset s slot = Some a"
      and found: "resolve_sample resolve cache (asset_artifact a) = Inr (cache', d)"
      and played: "resolve_playback True g (slot_playback assignment) (decoded_source d) (decoded_prepared d) = Inr r"
      and rest: "cook_pads True g s resolve cache' rest = Inr rest_pads"
      and pads: "pads = \<lparr>resolved_slot = slot, resolved_artifact = asset_artifact a,
        resolved_sample = decoded_prepared d, resolved_playback_of = r\<rparr> # rest_pads"
      by (auto simp: cook_error_def split: if_splits option.splits sum.splits)
    note loads = resolve_sample_loads [OF "2.prems"(2) found]
    obtain ref bs where ref: "art_sha256 ref = art_sha256 (asset_artifact a)" "art_byte_length ref = art_byte_length (asset_artifact a)"
        "resolve ref = Inr bs" "(of_nat (length bs) :: u64) = art_byte_length ref" "sha256_hex bs = art_sha256 ref"
        "decode_wav bs = Inr (decoded_source d)" "prepare_runtime_pcm (decoded_source d) = Inr (decoded_prepared d)"
      using loads(2) unfolding load_artifact_iff by auto
    have "pad_decoded g (hd pads)"
      using ref(6,7) played unfolding pads pad_decoded_def resolve_playback_prepared(1) [OF ref(6,7)] by auto
    moreover have "pad_resolved s resolve (hd pads) \<and> pad_playable (hd pads)"
      using ref here prepared_source [OF ref(6,7)] resolve_playback_prepared(2) [OF ref(6,7) played]
      unfolding pads pad_resolved_def pad_playable_def by auto
    moreover have "list_all (\<lambda>rp. pad_resolved s resolve rp \<and> pad_playable rp \<and> pad_decoded g rp) rest_pads \<and>
        subseq (map resolved_slot rest_pads) (map fst rest)"
      using here False by (intro "2.hyps"(2) [OF _ _ here(2) found refl played rest loads(1)]) auto
    ultimately show ?thesis by (simp add: pads)
  qed
qed simp

lemma sorted_wrt_subseq: "subseq xs ys \<Longrightarrow> sorted_wrt R ys \<Longrightarrow> sorted_wrt R xs"
  by (induction rule: list_emb.induct) (auto dest: list_emb_set)

lemma positions_ascending:
  assumes "array_extents s"
  shows "sorted_wrt (<) (map slot_place (map fst (pad_positions s)))"
proof -
  have extents: "length (banks s) = 4" "b < 4 \<Longrightarrow> length (banks s ! b) = 16" for b
    using assms by (simp_all add: array_extents_def list_all_length)
  have "map slot_place (map fst (pad_positions s)) =
      concat (map (\<lambda>b. map (\<lambda>p. (of_nat b, of_nat p)) [0..<length (banks s ! b)]) [0..<4])"
    by (simp add: pad_positions_def extents(1) map_concat comp_def slot_place_def)
  also have "\<dots> = concat (map (\<lambda>b. map (\<lambda>p. (of_nat b, of_nat p)) [0..<16]) [0..<4])"
    by (intro arg_cong [where f = concat] map_cong refl) (simp add: extents(2))
  also have "sorted_wrt (<) (\<dots> :: (u8 \<times> u8) list)" by code_simp
  finally show ?thesis .
qed

lemma cooked_events:
  assumes "canonical_events es" "list_all (valid_pattern_event limit) es"
  shows "sorted_wrt (<) (map event_place (concat (map (cook_event pads) es))) \<and>
    (\<forall>e \<in> set (concat (map (cook_event pads) es)). 0 < unat (played_duration_tick e) \<and>
       unat (played_onset_tick e) + unat (played_duration_tick e) \<le> unat limit \<and> valid_velocity (played_velocity e) \<and>
       (\<exists>rp\<in>set pads. resolved_slot rp = played_slot e \<and> resolved_sample rp = played_sample e))"
proof
  have places: "subseq (map event_place (concat (map (cook_event pads) es))) (map key_order es)"
    by (induction es) (auto simp: cook_event_def event_place_def key_order_def slot_place_def split: option.split)
  moreover have "sorted_wrt (<) (map key_order es)"
    using assms(1) by (simp add: canonical_iff_ascending sorted_wrt_map)
  ultimately show "sorted_wrt (<) (map event_place (concat (map (cook_event pads) es)))"
    by (rule sorted_wrt_subseq)
  show "\<forall>e \<in> set (concat (map (cook_event pads) es)). 0 < unat (played_duration_tick e) \<and>
       unat (played_onset_tick e) + unat (played_duration_tick e) \<le> unat limit \<and> valid_velocity (played_velocity e) \<and>
       (\<exists>rp\<in>set pads. resolved_slot rp = played_slot e \<and> resolved_sample rp = played_sample e)"
  proof
    fix e assume "e \<in> set (concat (map (cook_event pads) es))"
    then obtain x sample where x: "x \<in> set es" "pad_samples pads (event_slot x) = Some sample"
      and e: "e = \<lparr>played_slot = event_slot x, played_onset_tick = onset_tick x,
          played_duration_tick = duration_tick x, played_velocity = velocity x, played_sample = sample\<rparr>"
      by (auto simp: cook_event_def split: option.splits)
    have "valid_pattern_event limit x" using x(1) assms(2) by (simp add: list_all_iff)
    moreover from x(2) have "\<exists>rp\<in>set pads. resolved_slot rp = event_slot x \<and> resolved_sample rp = sample"
      unfolding pad_samples_def by (force dest!: map_of_SomeD)
    ultimately show "0 < unat (played_duration_tick e) \<and>
       unat (played_onset_tick e) + unat (played_duration_tick e) \<le> unat limit \<and> valid_velocity (played_velocity e) \<and>
       (\<exists>rp\<in>set pads. resolved_slot rp = played_slot e \<and> resolved_sample rp = played_sample e)"
      by (simp add: valid_pattern_event_nat e)
  qed
qed

lemma snapshot_sound:
  assumes "array_extents s" "cook True g s pid (Some resolve) = Inr snap"
  shows "sorted_wrt (<) (map (\<lambda>rp. slot_place (resolved_slot rp)) (snapshot_pads snap)) \<and>
    list_all (\<lambda>rp. pad_resolved s resolve rp \<and> pad_playable rp) (snapshot_pads snap) \<and>
    sorted_wrt (<) (map event_place (snapshot_events snap)) \<and>
    list_all (event_playable snap) (snapshot_events snap)"
proof -
  from assms(2) obtain p pads where p: "valid_pattern p"
    and pads: "cook_pads True g s resolve map_empty (pad_positions s) = Inr pads" and snap: "snap = snapshot_of s p pads"
    unfolding cook_is_from cook_from_Inr by blast
  note sound = cook_pads_sound [OF pads cache_ok_empty]
  have "subseq (map slot_place (map resolved_slot pads)) (map slot_place (map fst (pad_positions s)))"
    using sound by (intro subseq_map) simp
  then have "sorted_wrt (<) (map slot_place (map resolved_slot pads))"
    using positions_ascending [OF assms(1)] by (rule sorted_wrt_subseq)
  moreover have "canonical_events (pattern_events p)"
    "list_all (valid_pattern_event (pattern_length_ticks (pattern_bars p))) (pattern_events p)"
    using p by (simp_all add: valid_pattern_iff validate_pattern_ok)
  note events = cooked_events [OF this, of pads]
  ultimately show ?thesis
    using sound events by (simp add: snap snapshot_of_def event_playable_def comp_def list_all_iff)
qed

lemma snapshot_decoded:
  assumes "cook True g s pid (Some resolve) = Inr snap"
  shows "list_all (pad_decoded g) (snapshot_pads snap)"
proof -
  from assms obtain p pads where "cook_pads True g s resolve map_empty (pad_positions s) = Inr pads"
    and "snap = snapshot_of s p pads"
    unfolding cook_is_from cook_from_Inr by blast
  with cook_pads_sound [OF this(1) cache_ok_empty] show ?thesis by (simp add: snapshot_of_def list_all_iff)
qed

text \<open>A prepared sample is far shorter than 32 bits can count.\<close>

lemma prepared_small:
  assumes "decode_wav bs = Inr source" "prepare_runtime_pcm source = Inr q"
  shows "pcm_frames q \<le> 4294967280"
proof -
  note ok = decode_wav_ok [OF assms(1)]
  have "length (interleaved source) < 2147483648" using ok(2,3) by simp
  then have n: "pcm_frames source < 2147483648"
    by (auto simp: pcm_frames_def intro: le_less_trans [OF div_le_dividend])
  have "44100 \<le> unat (sample_rate source)" using ok(1) by (auto simp: pcm_ok_def)
  then have "frame_ceiling (pcm_frames source) (sample_rate source) \<le>
      (pcm_frames source * 48000 div unat (sample_rate source)) + 1"
  proof -
    let ?r = "unat (sample_rate source)" and ?m = "pcm_frames source * 48000"
    have "(?m + (?r - 1)) div ?r \<le> (?m + ?r) div ?r" by (rule div_le_mono) simp
    also have "\<dots> = ?m div ?r + 1" using \<open>44100 \<le> ?r\<close> by (intro div_add_self2) simp
    finally show ?thesis by (simp only: frame_ceiling_def)
  qed
  also have "\<dots> \<le> pcm_frames source * 48000 div 44100 + 1"
    using div_le_mono2 [OF _ \<open>44100 \<le> unat (sample_rate source)\<close>, of "pcm_frames source * 48000"] by linarith
  also have "\<dots> \<le> 4294967280" using n by simp
  finally show ?thesis using prepared_source(5) [OF assms] by simp
qed

section \<open>When a Project cooks\<close>

text \<open>A Pad can be cooked when its bytes are the declared ones, are a supported WAV, and its trim, loop,
  end and gain fit the decoded source.\<close>

definition pad_cooks :: "(i32 \<Rightarrow> u32) \<Rightarrow> project_state \<Rightarrow> artifact_resolver \<Rightarrow> pad_slot \<Rightarrow> bool" where
  "pad_cooks g s resolve pd \<longleftrightarrow>
     (case slot_asset pd of None \<Rightarrow> True
      | Some aid \<Rightarrow> \<exists>a bs source. lookup (assets s) aid = Some a \<and> resolve (asset_artifact a) = Inr bs \<and>
          (of_nat (length bs) :: u64) = art_byte_length (asset_artifact a) \<and>
          sha256_hex bs = art_sha256 (asset_artifact a) \<and> decode_wav bs = Inr source \<and>
          (let n = of_nat (pcm_frames source) in is_valid_playback_for_source (slot_playback pd) n \<and>
             frame_ceiling (unat (value_or (trim_end_frame (slot_playback pd)) n)) (sample_rate source) < 2 ^ 32) \<and>
          float_finite (g (gain_millidb (slot_playback pd))))"

lemma cook_positions_ok:
  "is_ok (cook_positions v g s resolve sps) \<longleftrightarrow> list_all (\<lambda>sp. is_ok (cook_position v g s resolve sp)) sps"
  by (induction sps) (auto split: sum.split)

lemma decoded_playback_ok:
  assumes "decode_wav bs = Inr source"
  shows "\<exists>q. prepare_runtime_pcm source = Inr q \<and>
    (is_ok (resolve_playback True g p source q) \<longleftrightarrow>
       (let n = of_nat (pcm_frames source) in is_valid_playback_for_source p n \<and>
          frame_ceiling (unat (value_or (trim_end_frame p) n)) (sample_rate source) < 2 ^ 32) \<and>
       float_finite (g (gain_millidb p)))"
proof -
  note ok = decode_wav_ok [OF assms]
  then have "length (interleaved source) < 2 ^ 47" by simp
  then obtain q where q: "prepare_runtime_pcm source = Inr q" using prepared_pcm [OF ok(1)] by blast
  note facts = prepared_source [OF assms q]
  have "unat (of_nat (pcm_frames source) :: u64) = pcm_frames source"
    using facts(4) by (simp add: unsigned_of_nat take_bit_nat_eq_self)
  then have "unat (of_nat (pcm_frames source) :: u64) * 48000 < 2 ^ 64" using facts(4) by simp
  moreover have "sample_rate source \<noteq> 0" using ok(1) by (auto simp: pcm_ok_def)
  ultimately have "is_ok (resolve_playback True g p source q) \<longleftrightarrow>
       (let n = of_nat (pcm_frames source) in is_valid_playback_for_source p n \<and>
          frame_ceiling (unat (value_or (trim_end_frame p) n)) (sample_rate source) < 2 ^ 32) \<and>
       float_finite (g (gain_millidb p))"
    using resolved_playback_exact [of g p "sample_rate source" "of_nat (pcm_frames source)"]
    unfolding resolve_playback_prepared(1) [OF assms q] by (simp add: Let_def)
  with q show ?thesis by blast
qed

lemma cook_position_ok:
  assumes "valid_asset_entry aid a" "slot_id pd = slot" "slot_asset pd = Some aid" "resolve_slot_asset s slot = Some a"
    "lookup (assets s) aid = Some a"
  shows "is_ok (cook_position True g s resolve (slot, pd)) \<longleftrightarrow> pad_cooks g s resolve pd"
proof -
  have valid: "valid_sha256 (art_sha256 (asset_artifact a))"
    using assms(1) by (simp add: valid_artifact_entry valid_artifact_def)
  have "is_ok (cook_position True g s resolve (slot, pd)) \<longleftrightarrow>
    (\<exists>d. load_artifact resolve (asset_artifact a) = Inr d \<and>
       is_ok (resolve_playback True g (slot_playback pd) (decoded_source d) (decoded_prepared d)))"
    using assms valid by (simp add: cook_position_def checked_artifact_def split: sum.split)
  also have "\<dots> \<longleftrightarrow> pad_cooks g s resolve pd"
  proof (cases "\<exists>bs source. resolve (asset_artifact a) = Inr bs \<and>
      (of_nat (length bs) :: u64) = art_byte_length (asset_artifact a) \<and>
      sha256_hex bs = art_sha256 (asset_artifact a) \<and> decode_wav bs = Inr source")
    case True
    then obtain bs source where bs: "resolve (asset_artifact a) = Inr bs"
      "(of_nat (length bs) :: u64) = art_byte_length (asset_artifact a)"
      "sha256_hex bs = art_sha256 (asset_artifact a)" and src: "decode_wav bs = Inr source" by blast
    obtain q where q: "prepare_runtime_pcm source = Inr q"
      and ok: "is_ok (resolve_playback True g (slot_playback pd) source q) \<longleftrightarrow>
       (let n = of_nat (pcm_frames source) in is_valid_playback_for_source (slot_playback pd) n \<and>
          frame_ceiling (unat (value_or (trim_end_frame (slot_playback pd)) n)) (sample_rate source) < 2 ^ 32) \<and>
       float_finite (g (gain_millidb (slot_playback pd)))"
      using decoded_playback_ok [OF src, of g "slot_playback pd"] by blast
    have "load_artifact resolve (asset_artifact a) = Inr d \<longleftrightarrow>
        d = \<lparr>decoded_byte_length = art_byte_length (asset_artifact a), decoded_source = source, decoded_prepared = q\<rparr>" for d
      unfolding load_artifact_iff using bs src q by auto
    then show ?thesis unfolding pad_cooks_def using assms(3,5) bs src ok by simp
  next
    case False
    then show ?thesis unfolding pad_cooks_def load_artifact_iff using assms(3,5) by auto
  qed
  finally show ?thesis .
qed

lemma project_cooks:
  assumes "valid_content s" "array_extents s" "canonical_patterns s" "is_valid_uuid (state_id s)"
    "lookup (patterns s) pid = Some p" "content_addressed resolve"
  shows "is_ok (cook True g s pid (Some resolve)) \<longleftrightarrow> list_all (pad_cooks g s resolve) (concat (banks s))"
proof -
  have entry: "valid_pattern_entry pid p" and assets: "all_entries valid_asset_entry (assets s)"
    and pads: "valid_banks (assets s) (banks s)" and settings: "valid_settings s"
    using assms(1,5) by (simp_all add: valid_content_def all_entries_iff)
  have request: "is_valid_uuid pid" "pattern_key p = pid" "valid_pattern p"
    using entry canonical_patterns_lookup [OF assms(3,5)]
    by (auto simp: valid_pattern_entry_iff valid_pattern_iff validate_pattern_ok)
  have ok_verdict: "is_ok x \<longleftrightarrow> is_ok (verdict x)" for x :: "'z result" by (cases x) simp_all
  have "is_ok (cook True g s pid (Some resolve)) \<longleftrightarrow> is_ok (cook_uncached True g s pid resolve)"
    unfolding ok_verdict cook_verdict [OF assms(6)] ..
  also have "\<dots> \<longleftrightarrow> is_ok (cook_positions True g s resolve (pad_positions s))"
    using request assms(4,5) settings
    by (auto simp: cook_uncached_def cook_from_def valid_settings_def split: sum.split)
  also have "\<dots> \<longleftrightarrow> (\<forall>b < length (banks s). \<forall>p < length (banks s ! b).
      is_ok (cook_position True g s resolve (\<lparr>bank = of_nat b, pad = of_nat p\<rparr>, banks s ! b ! p)))"
    unfolding cook_positions_ok pad_positions_def by (auto simp: list_all_iff)
  also have "\<dots> \<longleftrightarrow> (\<forall>b < length (banks s). \<forall>p < length (banks s ! b). pad_cooks g s resolve (banks s ! b ! p))"
  proof (intro all_cong)
    fix b p assume b: "b < length (banks s)" and p: "p < length (banks s ! b)"
    let ?pd = "banks s ! b ! p" and ?slot = "\<lparr>bank = of_nat b, pad = of_nat p\<rparr> :: pad_slot_id"
    have extents: "b < 4" "p < 16" using b p assms(2) by (auto simp: array_extents_def list_all_length)
    then have place: "unat (of_nat b :: u8) = b" "unat (of_nat p :: u8) = p" by (simp_all add: unat_of_nat)
    have pd: "valid_pad (assets s) b p ?pd" using pads b p by (simp add: valid_banks_iff)
    then have slot: "slot_id ?pd = ?slot"
      using place by (auto simp: valid_pad_def word_unat_eq_iff intro!: pad_slot_id.equality)
    show "is_ok (cook_position True g s resolve (?slot, ?pd)) = pad_cooks g s resolve ?pd"
    proof (cases "slot_asset ?pd")
      case None
      then show ?thesis by (simp add: cook_position_def slot pad_cooks_def)
    next
      case (Some aid)
      with pd obtain a where a: "lookup (assets s) aid = Some a" by (auto simp: valid_pad_def)
      have "is_valid_slot ?slot" using extents place by (simp add: is_valid_slot_def word_less_nat_alt)
      then have "resolve_slot_asset s ?slot = Some a"
        using a Some place by (simp add: resolve_slot_asset_def pad_at_def)
      moreover have "valid_asset_entry aid a" using assets a by (simp add: all_entries_iff)
      ultimately show ?thesis using cook_position_ok slot Some a by blast
    qed
  qed
  also have "\<dots> \<longleftrightarrow> list_all (pad_cooks g s resolve) (concat (banks s))"
    by (auto simp: list_all_iff all_set_conv_all_nth)
  finally show ?thesis .
qed

section \<open>A Project with a sample\<close>

text \<open>The Pattern of the other examples, with the Asset of its Pad; the bytes are a short WAV file.\<close>

definition demo_sample :: asset where
  "demo_sample = demo_asset\<lparr>asset_artifact := \<lparr>art_sha256 = sha256_hex demo_wav,
     art_media_type = ''audio/wav'', art_byte_length = 60\<rparr>\<rparr>"

definition demo_cook_project :: project_state where
  "demo_cook_project = demo_pattern_project
     \<lparr>assets := insert_or_assign (asset_key demo_sample) demo_sample (assets demo_pattern_project),
      banks := (banks demo_pattern_project)[0 := (banks demo_pattern_project ! 0)
        [3 := (empty_pad 0 3)\<lparr>slot_asset := Some (asset_key demo_sample)\<rparr>]]\<rparr>"

definition demo_resolver :: artifact_resolver where
  "demo_resolver = (\<lambda>_. Inr demo_wav)"

abbreviation unit_gain :: "i32 \<Rightarrow> u32" where
  "unit_gain \<equiv> (\<lambda>_. 0x3F800000)"

lemma demo_resolver_addressed: "content_addressed demo_resolver"
  by (simp add: content_addressed_def demo_resolver_def)

lemma demo_banks: "banks demo_pattern_project = map (\<lambda>b. map (empty_pad b) [0..<16]) [0..<4]"
  by code_simp

lemma demo_wav_decodes:
  "decode_wav demo_wav = Inr \<lparr>sample_rate = 44100, channels = 1, interleaved = [1, 2, 3, 4, 5, 6, 7, - 8]\<rparr>"
  "length demo_wav = 60"
proof -
  show "decode_wav demo_wav = Inr \<lparr>sample_rate = 44100, channels = 1, interleaved = [1, 2, 3, 4, 5, 6, 7, - 8]\<rparr>"
    unfolding demo_wav_def by (rule decode_written) simp_all
  show "length demo_wav = 60" by (simp add: demo_wav_def write_wav_header_bytes)
qed

lemma demo_cook_good:
  "valid_content demo_cook_project" "array_extents demo_cook_project" "canonical_patterns demo_cook_project"
  "is_valid_uuid (state_id demo_cook_project)"
  "lookup (patterns demo_cook_project) (pattern_key demo_pattern) = Some demo_pattern"
proof -
  let ?p = demo_pattern_project and ?pd = "(empty_pad 0 3)\<lparr>slot_asset := Some (asset_key demo_sample)\<rparr>"
  have key: "asset_key demo_sample = asset_key demo_asset" "is_valid_uuid (asset_key demo_asset)"
    "asset_lineage_of demo_sample = None"
    by (simp add: demo_sample_def, code_simp, simp add: demo_sample_def demo_asset_def)
  have entry: "valid_asset_entry (asset_key demo_sample) demo_sample"
    using key by (simp add: valid_artifact_entry valid_artifact_def demo_sample_def sha256_hex_valid)
  let ?as = "insert_or_assign (asset_key demo_sample) demo_sample (assets ?p)"
  have good: "valid_banks (assets ?p) (banks ?p)" "all_entries valid_asset_entry (assets ?p)"
    using demo_pattern_project_good(1) by (simp_all add: valid_content_def)
  have "valid_banks ?as (banks ?p)" using good(1) by (rule valid_banks_mono) auto
  moreover have "valid_pad ?as 0 3 ?pd" by (simp add: valid_pad_def empty_pad_def default_playback_valid)
  ultimately have "valid_banks ?as ((banks ?p)[0 := (banks ?p ! 0)[3 := ?pd]])"
    by (intro valid_banks_update) (simp_all add: demo_banks)
  then have "valid_banks ?as (banks demo_cook_project)" by (simp add: demo_cook_project_def)
  moreover have "all_entries valid_asset_entry ?as" using good(2) entry by (simp add: all_entries_insert)
  ultimately show "valid_content demo_cook_project"
    using demo_pattern_project_good(1)
    by (simp add: valid_content_def demo_cook_project_def valid_settings_def validate_pattern_slots_def)
  have "array_extents ?p" "is_valid_uuid (state_id ?p)" by code_simp+
  then show "array_extents demo_cook_project" "is_valid_uuid (state_id demo_cook_project)"
    by (simp_all add: array_extents_def demo_cook_project_def demo_banks list_all_length nth_list_update)
  show "canonical_patterns demo_cook_project"
    "lookup (patterns demo_cook_project) (pattern_key demo_pattern) = Some demo_pattern"
    using demo_pattern_project_good(2,3) by (simp_all add: canonical_patterns_def demo_cook_project_def)
qed

lemma set_concat_update:
  assumes "i < length xss"
  shows "set (concat (xss[i := (xss ! i)[j := x]])) \<subseteq> insert x (set (concat xss))"
proof -
  have "set (xss[i := (xss ! i)[j := x]]) \<subseteq> insert ((xss ! i)[j := x]) (set xss)"
    "set ((xss ! i)[j := x]) \<subseteq> insert x (set (xss ! i))"
    by (rule set_update_subset_insert)+
  with nth_mem [OF assms] show ?thesis by fastforce
qed

lemma demo_pads_cook: "list_all (pad_cooks unit_gain demo_cook_project demo_resolver) (concat (banks demo_cook_project))"
proof -
  let ?pd = "(empty_pad 0 3)\<lparr>slot_asset := Some (asset_key demo_sample)\<rparr>"
  have "pd = ?pd \<or> slot_asset pd = None" if "pd \<in> set (concat (banks demo_cook_project))" for pd
  proof -
    have "set (concat (banks demo_cook_project)) \<subseteq> {?pd} \<union> set (concat (banks demo_pattern_project))"
      using set_concat_update [of 0 "banks demo_pattern_project" 3 ?pd]
      by (simp add: demo_cook_project_def) (simp add: demo_banks)
    moreover have "list_all (\<lambda>pd. slot_asset pd = None) (concat (banks demo_pattern_project))"
      unfolding demo_banks by (auto simp: list_all_iff empty_pad_def)
    ultimately show ?thesis using that by (auto simp: list_all_iff)
  qed
  moreover have "pad_cooks unit_gain demo_cook_project demo_resolver ?pd"
  proof -
    have "is_valid_playback_for_source default_playback 8"
      using default_playback_valid
      by (simp add: is_valid_playback_for_source_def default_playback_def loop_start_def)
    then show ?thesis
      using demo_wav_decodes
      by (simp add: pad_cooks_def demo_cook_project_def demo_resolver_def demo_sample_def empty_pad_def
          frame_ceiling_def float_finite_def default_playback_def pcm_frames_def)
  qed
  moreover have "pad_cooks unit_gain demo_cook_project demo_resolver pd" if "slot_asset pd = None" for pd
    using that by (simp add: pad_cooks_def)
  ultimately show ?thesis unfolding list_all_iff by metis
qed

section \<open>The properties\<close>

text \<open>
  Decoding each distinct artifact once is invisible: with a resolver that answers by digest,
  cooking gives the snapshot, or the error code, of cooking every Pad from its own bytes.
\<close>

lemma cook_cache_invisible:
  "content_addressed resolve \<Longrightarrow>
     verdict (cook v g s pid (Some resolve)) = verdict (cook_uncached v g s pid resolve)"
  by (rule cook_verdict)

lemma cook_cache_invisible_witness:
  "is_ok (cook_uncached True unit_gain demo_cook_project (pattern_key demo_pattern) demo_resolver) \<and>
   verdict (cook True unit_gain demo_cook_project (pattern_key demo_pattern) (Some demo_resolver)) =
     verdict (cook_uncached True unit_gain demo_cook_project (pattern_key demo_pattern) demo_resolver)"
proof -
  note same = cook_cache_invisible [OF demo_resolver_addressed, of True unit_gain demo_cook_project "pattern_key demo_pattern"]
  have "is_ok (cook True unit_gain demo_cook_project (pattern_key demo_pattern) (Some demo_resolver))"
    using project_cooks [OF demo_cook_good demo_resolver_addressed] demo_pads_cook by blast
  then obtain snap where "cook True unit_gain demo_cook_project (pattern_key demo_pattern) (Some demo_resolver) = Inr snap"
    by (auto simp: is_ok_def split: sum.splits)
  with same show ?thesis by (simp add: eq_commute [of "Inr snap"])
qed

text \<open>
  Property C28. What the engine may rely on in a snapshot: Pads in ascending slot order, each made from the
  declared bytes of its slot's Asset, at 48 kHz, with its range, loop and crossfades inside the sample;
  events in strictly ascending order of onset and slot, each ending inside the loop and playing the
  sample of the Pad of its slot.
\<close>

theorem cooked_snapshot_sound:
  assumes "array_extents s" "cook True g s pid (Some resolve) = Inr snap"
  shows "sorted_wrt (<) (map (\<lambda>rp. slot_place (resolved_slot rp)) (snapshot_pads snap)) \<and>
    list_all (\<lambda>rp. pad_resolved s resolve rp \<and> pad_playable rp) (snapshot_pads snap) \<and>
    sorted_wrt (<) (map event_place (snapshot_events snap)) \<and>
    list_all (event_playable snap) (snapshot_events snap)"
  using assms by (rule snapshot_sound)

theorem cooked_snapshot_sound_witness:
  "\<exists>snap. cook True unit_gain demo_cook_project (pattern_key demo_pattern) (Some demo_resolver) = Inr snap \<and>
     list_all pad_playable (snapshot_pads snap) \<and> list_all (event_playable snap) (snapshot_events snap)"
proof -
  have "is_ok (cook True unit_gain demo_cook_project (pattern_key demo_pattern) (Some demo_resolver))"
    using project_cooks [OF demo_cook_good demo_resolver_addressed] demo_pads_cook by blast
  then obtain snap where snap: "cook True unit_gain demo_cook_project (pattern_key demo_pattern) (Some demo_resolver) = Inr snap"
    by (auto simp: is_ok_def split: sum.splits)
  with cooked_snapshot_sound [OF demo_cook_good(2) snap] show ?thesis by (auto simp: list_all_iff)
qed



end
