(* ===== verification/Runtime_Content_Laws.thy ===== *)
theory Runtime_Content_Laws
  imports Runtime_Content Cook_Laws
begin

unbundle bit_operations_syntax

text \<open>
  What the runtime content codec promises: what is encoded is decoded, what is decoded is as sound as
  what the cooker makes, and the inspector accepts exactly what the decoder accepts.
\<close>

section \<open>Checked steps\<close>

lemma checked_then_simps [simp]: "checked_then (Inr x) f = f x" "checked_then (Inl e) f = Inl e"
  by (simp_all add: checked_then_def)

lemma checked_then_Inr [simp]: "checked_then r f = Inr y \<longleftrightarrow> (\<exists>x. r = Inr x \<and> f x = Inr y)"
  by (cases r) simp_all

lemma require_Inr [simp]: "require c cond why = Inr u \<longleftrightarrow> c"
  by (simp add: require_def)

lemma require_True [simp]: "require True cond why = Inr ()"
  by (simp add: require_def)

lemma requireI: "c \<Longrightarrow> require c cond why = Inr ()"
  by simp

lemma content_result_Inr [simp]: "content_result r = Inr x \<longleftrightarrow> r = Inr x"
  by (cases r) (simp_all add: content_result_def)

section \<open>Fields\<close>

lemma bit_joined:
  "bit (foldl (\<lambda>v i. v OR push_bit (i * 8) (ucast (bs ! i :: u8))) (a :: u64) [0..<k]) n \<longleftrightarrow>
     bit a n \<or> n < 64 \<and> n div 8 < k \<and> bit (bs ! (n div 8)) (n mod 8)"
proof (induction k)
  case (Suc k)
  have "k * 8 \<le> n \<and> bit (bs ! k) (n - k * 8) \<longleftrightarrow> n div 8 = k \<and> bit (bs ! (n div 8)) (n mod 8)"
  proof (cases "n div 8 = k")
    case True
    then have "n = k * 8 + n mod 8" using mod_mult_div_eq [of n 8] by simp
    then have "k * 8 \<le> n" "n - k * 8 = n mod 8" by linarith+
    then show ?thesis by (simp add: True)
  next
    case False
    have "8 \<le> n - k * 8" if "k * 8 \<le> n" using False that by linarith
    then show ?thesis using False bit_imp_le_length [of "bs ! k" "n - k * 8"] by auto
  qed
  with Suc show ?case by (auto simp: bit_simps less_Suc_eq)
qed simp

lemma length_field [simp]: "length (field w v) = w"
  by (simp add: field_def)

lemma join_field: "w \<le> 8 \<Longrightarrow> join_bytes (field w v) = take_bit (8 * w) v"
proof (rule bit_word_eqI)
  fix n assume "w \<le> 8" "n < LENGTH(64)"
  have "bit (ucast (drop_bit (i * 8) v AND 0xFF) :: u8) j \<longleftrightarrow> bit v (i * 8 + j)" if "j < 8" for i j
    using that by (simp add: low_byte bit_simps)
  then have "n div 8 < w \<and> bit (field w v ! (n div 8)) (n mod 8) \<longleftrightarrow> n div 8 < w \<and> bit v n"
    by (auto simp: field_def)
  moreover have "n div 8 < w \<longleftrightarrow> n < 8 * w" by (simp add: div_less_iff_less_mult mult.commute)
  ultimately show "bit (join_bytes (field w v)) n = bit (take_bit (8 * w) v) n"
    using \<open>n < LENGTH(64)\<close> by (simp add: join_bytes_def bit_joined bit_take_bit_iff)
qed

lemma take_input_append:
  "length xs = unat n \<Longrightarrow> take_input n (xs @ rest) = Inr (xs, rest)"
  by (simp add: take_input_def)

lemma integer_field: "w \<le> 8 \<Longrightarrow> integer w (field w v @ rest) = Inr (take_bit (8 * w) v, rest)"
  by (simp add: integer_def take_input_append unsigned_of_nat take_bit_nat_eq_self join_field)

lemma integer_constant [simp]:
  "w \<le> 8 \<Longrightarrow> integer w (field w 0 @ rest) = Inr (0, rest)"
  "0 < w \<Longrightarrow> w \<le> 8 \<Longrightarrow> integer w (field w 1 @ rest) = Inr (1, rest)"
  "0 < w \<Longrightarrow> w \<le> 8 \<Longrightarrow> integer w (field w (if c then 1 else 0) @ rest) = Inr (if c then 1 else 0, rest)"
  by (simp_all add: integer_field)

lemma integer_u8 [simp]: "integer 1 (field 1 (ucast (x :: u8)) @ rest) = Inr (ucast x, rest)"
  and integer_u16 [simp]: "integer 2 (field 2 (ucast (y :: u16)) @ rest) = Inr (ucast y, rest)"
  and integer_u32 [simp]: "integer 4 (field 4 (ucast (z :: u32)) @ rest) = Inr (ucast z, rest)"
  and integer_u64 [simp]: "integer 8 (field 8 v @ rest) = Inr (v, rest)"
proof -
  have narrow: "take_bit LENGTH('a) (ucast x :: u64) = ucast x" for x :: "'a::len word"
    by (rule bit_word_eqI) (auto simp: bit_simps dest: bit_imp_le_length)
  show "integer 1 (field 1 (ucast x) @ rest) = Inr (ucast x, rest)" using narrow [of x] by (simp add: integer_field)
  show "integer 2 (field 2 (ucast y) @ rest) = Inr (ucast y, rest)" using narrow [of y] by (simp add: integer_field)
  show "integer 4 (field 4 (ucast z) @ rest) = Inr (ucast z, rest)" using narrow [of z] by (simp add: integer_field)
  have "take_bit 64 v = v" by (rule bit_word_eqI) (auto simp: bit_simps)
  then show "integer 8 (field 8 v @ rest) = Inr (v, rest)" by (simp add: integer_field)
qed

lemmas integer_u8_Suc [simp] = integer_u8 [unfolded One_nat_def]

lemma char_of_byte [simp]: "char_of_byte (byte_of_char c) = c"
  by (simp add: char_of_byte_def byte_of_char_def unsigned_of_nat take_bit_nat_eq_self)

lemma read_text_append [simp]:
  "length s = n \<Longrightarrow> n < 2 ^ 64 \<Longrightarrow> read_text n (bytes_of_string s @ rest) = Inr (s, rest)"
  by (simp add: read_text_def take_input_append unsigned_of_nat take_bit_nat_eq_self)
    (simp add: bytes_of_string_def comp_def)

lemma ucast_back [simp]:
  "(ucast (ucast (a :: u8) :: u64) :: u8) = a" "(ucast (ucast (b :: u16) :: u64) :: u16) = b"
  "(ucast (ucast (c :: u32) :: u64) :: u32) = c"
  by (rule bit_word_eqI; simp add: bit_simps)+

section \<open>Samples\<close>

text \<open>A sample the writer accepts, and its body in the file.\<close>

definition sample_fits :: "runtime_content_limits \<Rightarrow> pcm_sample \<Rightarrow> bool" where
  "sample_fits lim p \<longleftrightarrow> pcm_ok p \<and> sample_rate p = 48000 \<and> pcm_frames p < 2 ^ 32 \<and>
     pcm_frames p \<le> unat (maximum_sample_frames lim)"

definition sample_body :: "pcm_sample \<Rightarrow> bytes" where
  "sample_body p = sample_header p @ pcm_words (interleaved p)"

lemma check_sample_Inr:
  "check_sample p lim = Inr n \<longleftrightarrow> sample_fits lim p \<and> n = of_nat (pcm_frames p)"
  by (auto simp: check_sample_def sample_fits_def pcm_ok_def pcm_frames_def Let_def)

lemma sample_hash_body: "sample_hash hash p = hash (sample_body p)"
  by (simp add: sample_hash_def sample_body_def)

lemma pcm_words_fields: "pcm_words xs = concat (map (\<lambda>x. field 2 (ucast x)) xs)"
proof -
  have "[ucast (x AND 0xFF), ucast (drop_bit 8 x)] = field 2 (ucast x)" for x :: i16
  proof -
    have "(ucast x :: u8) = ucast (ucast x :: u64)" "(ucast (drop_bit 8 x) :: u8) = ucast (drop_bit 8 (ucast x :: u64))"
      by (rule bit_word_eqI; auto simp: bit_simps dest: bit_imp_le_length)+
    then show ?thesis by (simp add: field_def low_byte upt_rec)
  qed
  then show ?thesis by (simp add: pcm_words_def)
qed

lemma length_pcm_words [simp]: "length (pcm_words xs) = 2 * length xs"
  by (induction xs) (simp_all add: pcm_words_def)

lemma decode_pcm_words [simp]: "decode_words (pcm_words xs) = xs"
proof (induction xs)
  case (Cons x xs)
  have "(ucast (join_bytes (field 2 (ucast x))) :: i16) = x"
    by (subst join_field) (auto intro!: bit_word_eqI simp: bit_simps)
  moreover have "field 2 (ucast x) = [ucast (x AND 0xFF), ucast (drop_bit 8 x)]"
    using pcm_words_fields [of "[x]"] by (simp add: pcm_words_def)
  ultimately show ?case using Cons by (simp add: pcm_words_def)
qed (simp add: pcm_words_def)

lemma sample_header_fields:
  assumes "channels p \<in> {1, 2}"
  shows "sample_header p = field 4 48000 @ field 2 (ucast (channels p)) @ field 2 0 @ field 4 (of_nat (pcm_frames p))"
proof -
  have "(ucast (channels p) :: u8) = ucast (ucast (channels p) AND 0xFF :: u64) \<and>
      (0 :: u8) = ucast (drop_bit 8 (ucast (channels p) :: u64) AND 0xFF)"
    using assms by auto
  then show ?thesis
    by (simp add: sample_header_def field_def upt_rec pcm_frames_def Let_def low_byte)
qed

lemma length_sample_header [simp]: "length (sample_header p) = 12"
  by (simp add: sample_header_def Let_def)

lemma length_sample_body [simp]: "length (sample_body p) = 12 + 2 * length (interleaved p)"
  by (simp add: sample_body_def)

lemma pcm_ok_shape:
  assumes "pcm_ok p"
  shows "channels p \<in> {1, 2}" "pcm_frames p * unat (channels p) = length (interleaved p)" "0 < pcm_frames p"
proof -
  show ch: "channels p \<in> {1, 2}" using assms by (simp add: pcm_ok_def)
  show all: "pcm_frames p * unat (channels p) = length (interleaved p)"
    using assms by (auto simp: pcm_ok_def pcm_frames_def)
  show "0 < pcm_frames p" using assms all by (auto simp: pcm_ok_def intro: gr0I)
qed

lemma sample_fits_length:
  assumes "sample_fits lim p"
  shows "length (interleaved p) < 2 ^ 33" "unat (of_nat (pcm_frames p) :: u32) = pcm_frames p"
    "(of_nat (length (interleaved p)) :: u64) = ucast (of_nat (pcm_frames p) :: u32) * ucast (channels p)"
proof -
  have p: "pcm_ok p" "pcm_frames p < 2 ^ 32" using assms by (simp_all add: sample_fits_def)
  note shape = pcm_ok_shape [OF p(1)]
  show "unat (of_nat (pcm_frames p) :: u32) = pcm_frames p"
    using p(2) by (simp add: unsigned_of_nat take_bit_nat_eq_self)
  then have narrow: "(ucast (of_nat (pcm_frames p) :: u32) :: u64) = of_nat (pcm_frames p)"
    by (metis of_nat_unat)
  have "length (interleaved p) \<le> pcm_frames p * 2" using shape(1,2) by auto
  with p(2) show "length (interleaved p) < 2 ^ 33" by simp
  have "(of_nat (length (interleaved p)) :: u64) = of_nat (pcm_frames p) * of_nat (unat (channels p))"
    by (metis of_nat_mult shape(2))
  then show "(of_nat (length (interleaved p)) :: u64) = ucast (of_nat (pcm_frames p) :: u32) * ucast (channels p)"
    by (simp add: narrow)
qed

lemma sample_body_inj:
  assumes "sample_fits lim p" "sample_fits lim q" "sample_body p = sample_body q"
  shows "p = q"
proof -
  have ok: "pcm_ok p" "pcm_ok q" "sample_rate p = sample_rate q" using assms(1,2) by (simp_all add: sample_fits_def)
  have "sample_header p = sample_header q" "pcm_words (interleaved p) = pcm_words (interleaved q)"
    using assms(3) by (simp_all add: sample_body_def)
  then have words: "interleaved p = interleaved q" and byte: "(ucast (channels p) :: u8) = ucast (channels q)"
    by (metis decode_pcm_words, simp add: sample_header_def Let_def)
  have "channels p = channels q"
    using byte pcm_ok_shape(1) [OF ok(1)] pcm_ok_shape(1) [OF ok(2)] by auto
  with words ok(3) show ?thesis by (cases p; cases q) simp
qed

section \<open>Byte counts\<close>

lemma unat_u64_less: "unat (a :: u64) < 2 ^ 64"
  using unsigned_less [of a] by simp

lemma add_bytes_Inr: "add_bytes a b = Inr c \<longleftrightarrow> unat a + unat b < 2 ^ 64 \<and> c = a + b"
proof -
  have a: "unat a < 2 ^ 64" by (rule unat_u64_less)
  then have "unat (0xFFFFFFFFFFFFFFFF - a) = 0xFFFFFFFFFFFFFFFF - unat a"
    by (simp add: unat_sub_if_size)
  with a have "b \<le> 0xFFFFFFFFFFFFFFFF - a \<longleftrightarrow> unat a + unat b < 2 ^ 64"
    by (simp only: word_le_nat_alt) auto
  then show ?thesis by (auto simp: add_bytes_def)
qed

lemma multiply_bytes_Inr: "multiply_bytes a b = Inr c \<longleftrightarrow> unat a * unat b < 2 ^ 64 \<and> c = a * b"
proof -
  have "b = 0 \<or> a \<le> 0xFFFFFFFFFFFFFFFF div b \<longleftrightarrow> unat a * unat b < 2 ^ 64"
  proof (cases "b = 0")
    case False
    then have "unat a \<le> 0xFFFFFFFFFFFFFFFF div unat b \<longleftrightarrow> unat a * unat b \<le> 0xFFFFFFFFFFFFFFFF"
      by (intro less_eq_div_iff_mult_less_eq) (simp add: unat_gt_0)
    then show ?thesis using False by (auto simp: word_le_nat_alt unat_div)
  qed simp
  then show ?thesis by (auto simp: multiply_bytes_def)
qed

lemma unat_sum: "unat a + unat b < 2 ^ 64 \<Longrightarrow> unat (a + b) = unat a + unat b" for a b :: u64
  by (simp add: unat_word_ariths)

lemma unat_product: "unat a * unat b < 2 ^ 64 \<Longrightarrow> unat (a * b) = unat a * unat b" for a b :: u64
  by (simp add: unat_word_ariths)

lemma unat_small: "n < 2 ^ 64 \<Longrightarrow> unat (of_nat n :: u64) = n"
  by (simp add: unsigned_of_nat take_bit_nat_eq_self)

section \<open>The sample table\<close>

definition entry_ok :: "(bytes \<Rightarrow> bytes) \<Rightarrow> runtime_content_limits \<Rightarrow> encoded_sample \<Rightarrow> bool" where
  "entry_ok hash lim s \<longleftrightarrow> sample_fits lim (encoded_pcm s) \<and>
     encoded_digest s = hash (sample_body (encoded_pcm s)) \<and>
     body_bytes s = of_nat (length (sample_body (encoded_pcm s)))"

definition parsed_of :: "encoded_sample \<Rightarrow> parsed_sample" where
  "parsed_of s = \<lparr>parsed_digest = encoded_digest s, parsed_body_bytes = body_bytes s,
     parsed_frames = of_nat (pcm_frames (encoded_pcm s)), parsed_channels = channels (encoded_pcm s),
     parsed_pcm = pcm_words (interleaved (encoded_pcm s))\<rparr>"

definition entry_pcm_bytes :: "encoded_sample \<Rightarrow> nat" where
  "entry_pcm_bytes s = 2 * length (interleaved (encoded_pcm s))"

definition same_key :: "encoded_sample \<Rightarrow> encoded_sample \<Rightarrow> bool" where
  "same_key s t \<longleftrightarrow> encoded_digest s = encoded_digest t \<and> body_bytes s = body_bytes t"

lemma sample_entry_body:
  "sample_entry s = field 8 (body_bytes s) @ encoded_digest s @ sample_body (encoded_pcm s)"
  by (simp add: sample_entry_def sample_body_def pcm_words_fields)

lemma owned_parsed: "entry_ok hash lim s \<Longrightarrow> owned_sample (parsed_of s) = encoded_pcm s"
  by (simp add: owned_sample_def parsed_of_def entry_ok_def sample_fits_def)

lemma entry_bytes:
  assumes "entry_ok hash lim s"
  shows "entry_pcm_bytes s < 2 ^ 34" "unat (body_bytes s) = length (sample_body (encoded_pcm s))"
    "unat (body_bytes s) = 12 + entry_pcm_bytes s"
proof -
  have "length (interleaved (encoded_pcm s)) < 2 ^ 33"
    by (rule sample_fits_length(1) [of lim]) (use assms in \<open>simp add: entry_ok_def\<close>)
  then show small: "entry_pcm_bytes s < 2 ^ 34" by (simp add: entry_pcm_bytes_def)
  then have "length (sample_body (encoded_pcm s)) < 2 ^ 64" by (simp add: entry_pcm_bytes_def)
  then show "unat (body_bytes s) = length (sample_body (encoded_pcm s))"
    using assms by (simp add: entry_ok_def unat_small del: length_sample_body)
  then show "unat (body_bytes s) = 12 + entry_pcm_bytes s" by (simp add: entry_pcm_bytes_def)
qed

lemma parse_sample_entry:
  assumes ok: "entry_ok hash lim s" and hash: "length (encoded_digest s) = 32"
    and room: "unat pcm_total + entry_pcm_bytes s \<le> unat (maximum_pcm_bytes lim)"
    and new: "list_all (\<lambda>q. \<not> same_key q s) prior"
  shows "parse_sample hash lim (map parsed_of prior) pcm_total (sample_entry s @ rest) =
    Inr ((parsed_of s, pcm_total + of_nat (entry_pcm_bytes s)), rest)"
proof -
  let ?p = "encoded_pcm s"
  let ?frames = "of_nat (pcm_frames ?p) :: u32"
  have fits: "sample_fits lim ?p" using ok by (simp add: entry_ok_def)
  then have p: "pcm_ok ?p" "pcm_frames ?p < 2 ^ 32" "unat ?frames \<le> unat (maximum_sample_frames lim)"
    by (simp_all add: sample_fits_def sample_fits_length(2) [OF fits])
  note shape = pcm_ok_shape [OF p(1)] and lengths = sample_fits_length [OF fits] and bytes = entry_bytes [OF ok]
  have head: "sample_body ?p = field 4 48000 @ field 2 (ucast (channels ?p)) @ field 2 0 @
      field 4 (ucast ?frames) @ pcm_words (interleaved ?p)"
    using sample_header_fields [OF shape(1)] lengths(2) by (simp add: sample_body_def) (metis of_nat_unat)
  have body_take: "take_input (body_bytes s) (sample_body ?p @ rest) = Inr (sample_body ?p, rest)"
    by (rule take_input_append) (simp add: bytes(2))
  have shape_bytes: "ucast ?frames * (ucast (channels ?p) * 2) = (of_nat (entry_pcm_bytes s) :: u64)"
    using lengths(3) by (simp add: entry_pcm_bytes_def mult.commute mult.left_commute)
  have mult: "checked_then (multiply_bytes (ucast (channels ?p)) 2) (multiply_bytes (ucast ?frames)) =
      Inr (of_nat (entry_pcm_bytes s))"
  proof -
    have "unat (ucast (channels ?p) :: u64) * unat (2 :: u64) < 2 ^ 64" using shape(1) by auto
    moreover have "unat (ucast ?frames :: u64) * unat (ucast (channels ?p) * 2 :: u64) < 2 ^ 64"
      using shape(1) p(2) lengths(2) by (auto simp: unat_ucast_up)
    ultimately show ?thesis by (simp add: multiply_bytes_Inr shape_bytes)
  qed
  have expected: "add_bytes kSampleHeaderBytes (of_nat (entry_pcm_bytes s)) = Inr (body_bytes s)"
  proof -
    have small: "unat (of_nat (entry_pcm_bytes s) :: u64) = entry_pcm_bytes s"
      using bytes(1) by (simp add: unat_small)
    have "unat (12 + of_nat (entry_pcm_bytes s) :: u64) = 12 + entry_pcm_bytes s"
      using bytes(1) small unat_sum [of 12 "of_nat (entry_pcm_bytes s)"] by simp
    then have "body_bytes s = 12 + of_nat (entry_pcm_bytes s)"
      using bytes(3) by (simp only: word_unat_eq_iff)
    then show ?thesis
      using bytes(1) by (simp add: add_bytes_Inr kSampleHeaderBytes_def unat_small)
  qed
  have sum: "add_bytes pcm_total (of_nat (entry_pcm_bytes s)) = Inr (pcm_total + of_nat (entry_pcm_bytes s))"
    "pcm_total + of_nat (entry_pcm_bytes s) \<le> maximum_pcm_bytes lim"
  proof -
    have "unat pcm_total + unat (of_nat (entry_pcm_bytes s) :: u64) < 2 ^ 64"
      using room bytes(1) unat_u64_less [of "maximum_pcm_bytes lim"] by (simp add: unat_small)
    then show "add_bytes pcm_total (of_nat (entry_pcm_bytes s)) = Inr (pcm_total + of_nat (entry_pcm_bytes s))"
      and "pcm_total + of_nat (entry_pcm_bytes s) \<le> maximum_pcm_bytes lim"
      using room bytes(1) by (simp_all add: add_bytes_Inr word_le_nat_alt unat_sum unat_small)
  qed
  have pcm: "take_input (of_nat (entry_pcm_bytes s)) (pcm_words (interleaved ?p)) = Inr (pcm_words (interleaved ?p), [])"
  proof -
    have "length (pcm_words (interleaved ?p)) = unat (of_nat (entry_pcm_bytes s) :: u64)"
      using bytes(1) by (subst unat_small) (simp_all add: entry_pcm_bytes_def)
    from take_input_append [OF this, of "[]"] show ?thesis by simp
  qed
  have digest: "take_input 32 (encoded_digest s @ r) = Inr (encoded_digest s, r)" for r
    by (rule take_input_append) (simp add: hash)
  have "hash (sample_body ?p) = encoded_digest s" using ok by (simp add: entry_ok_def)
  moreover have "0 < ?frames" using shape(3) lengths(2) by (simp add: word_less_nat_alt)
  moreover have "?frames \<le> maximum_sample_frames lim" using p(3) by (simp add: word_le_nat_alt)
  moreover have "list_all (\<lambda>q. parsed_digest q \<noteq> encoded_digest s \<or> parsed_body_bytes q \<noteq> body_bytes s) (map parsed_of prior)"
    using new by (simp add: list_all_iff same_key_def parsed_of_def)
  moreover have "integer 4 (sample_body ?p) = Inr (48000, field 2 (ucast (channels ?p)) @ field 2 0 @
      field 4 (ucast ?frames) @ pcm_words (interleaved ?p))"
    unfolding head by (simp add: integer_field)
  ultimately show ?thesis
    using shape(1) unfolding parse_sample_def sample_entry_body append_assoc
    by (simp add: digest body_take mult expected sum pcm parsed_of_def del: checked_then_Inr)
qed

text \<open>Entries with different keys and room for their PCM are read back one after the other.\<close>

definition distinct_keys :: "encoded_sample list \<Rightarrow> bool" where
  "distinct_keys ss \<longleftrightarrow> sorted_wrt (\<lambda>s t. \<not> same_key s t) ss"

definition table_pcm_bytes :: "encoded_sample list \<Rightarrow> nat" where
  "table_pcm_bytes ss = sum_list (map entry_pcm_bytes ss)"

lemma table_pcm_bytes_simps [simp]:
  "table_pcm_bytes [] = 0" "table_pcm_bytes (ss @ [s]) = table_pcm_bytes ss + entry_pcm_bytes s"
  by (simp_all add: table_pcm_bytes_def)

lemma table_pcm_bytes_prefix: "table_pcm_bytes ss \<le> table_pcm_bytes (ss @ ts)"
  by (simp add: table_pcm_bytes_def)

lemma parse_samples_table:
  assumes "list_all (entry_ok hash lim) (ss @ ts)" "\<And>bs. length (hash bs) = 32" "distinct_keys (ss @ ts)"
    and "unat pcm_total = table_pcm_bytes ss" "table_pcm_bytes (ss @ ts) \<le> unat (maximum_pcm_bytes lim)"
  shows "\<exists>result. parse_samples hash lim (length ts) (map parsed_of ss) pcm_total (concat (map sample_entry ts)) =
    Inr ((map parsed_of (ss @ ts), result), []) \<and> unat result = table_pcm_bytes (ss @ ts)"
  using assms
proof (induction ts arbitrary: ss pcm_total)
  case (Cons t ts)
  have ok: "entry_ok hash lim t" using Cons.prems(1) by simp
  have room: "table_pcm_bytes (ss @ [t]) \<le> unat (maximum_pcm_bytes lim)"
    using table_pcm_bytes_prefix [of "ss @ [t]" ts] Cons.prems(5) by simp
  have "length (encoded_digest t) = 32" using ok Cons.prems(2) by (simp add: entry_ok_def)
  moreover have "list_all (\<lambda>q. \<not> same_key q t) ss"
    using Cons.prems(3) by (simp add: distinct_keys_def sorted_wrt_append list_all_iff)
  ultimately have step: "parse_sample hash lim (map parsed_of ss) pcm_total (sample_entry t @ concat (map sample_entry ts)) =
      Inr ((parsed_of t, pcm_total + of_nat (entry_pcm_bytes t)), concat (map sample_entry ts))"
    using room Cons.prems(4) by (intro parse_sample_entry [OF ok]) simp_all
  have "unat pcm_total + entry_pcm_bytes t < 2 ^ 64"
    using room Cons.prems(4) unat_u64_less [of "maximum_pcm_bytes lim"] by simp
  then have "unat (pcm_total + of_nat (entry_pcm_bytes t)) = table_pcm_bytes (ss @ [t])"
    using Cons.prems(4) by (subst unat_sum) (simp_all add: unat_small)
  from Cons.IH [OF _ Cons.prems(2) _ this] Cons.prems(1,3,5) step show ?case
    by (simp del: checked_then_Inr)
qed simp

section \<open>The Pad table\<close>

definition slot_index :: "pad_slot_id \<Rightarrow> nat" where
  "slot_index sl = unat (bank sl) * 16 + unat (pad sl)"

lemma slot_number_Inr: "slot_number sl = Inr n \<longleftrightarrow> is_valid_slot sl \<and> n = slot_index sl"
  by (auto simp: slot_number_def slot_index_def)

lemma slot_index_less: "is_valid_slot sl \<Longrightarrow> slot_index sl < 64"
  by (simp add: is_valid_slot_def slot_index_def word_less_nat_alt)

definition pad_frames :: "resolved_pad \<Rightarrow> u32" where
  "pad_frames p = of_nat (pcm_frames (resolved_sample p))"

text \<open>What the checks of one Pad say.\<close>

definition pad_fits :: "runtime_content_limits \<Rightarrow> resolved_pad \<Rightarrow> bool" where
  "pad_fits lim p \<longleftrightarrow> is_valid_slot (resolved_slot p) \<and> sample_fits lim (resolved_sample p) \<and>
     check_playback (resolved_playback_of p) (pad_frames p) = Inr ()"

definition new_entry :: "(bytes \<Rightarrow> bytes) \<Rightarrow> resolved_pad \<Rightarrow> encoded_sample" where
  "new_entry hash p = \<lparr>encoded_pcm = resolved_sample p, encoded_digest = hash (sample_body (resolved_sample p)),
     body_bytes = of_nat (length (sample_body (resolved_sample p)))\<rparr>"

lemma new_entry_ok: "pad_fits lim p \<Longrightarrow> entry_ok hash lim (new_entry hash p)"
  by (simp add: entry_ok_def new_entry_def pad_fits_def)

lemma encode_pad_cases:
  assumes "encode_pad hash lim p st = Inr st'"
  obtains (old) i where "pad_fits lim p" "pad_sample st = [] \<or> prior_slot st < slot_index (resolved_slot p)"
      "i < length (table st)" "same_key (table st ! i) (new_entry hash p)"
      "st' = st\<lparr>prior_slot := slot_index (resolved_slot p), by_slot := (by_slot st)[slot_index (resolved_slot p) := Some p],
        pad_sample := pad_sample st @ [i]\<rparr>"
  | (new) "pad_fits lim p" "pad_sample st = [] \<or> prior_slot st < slot_index (resolved_slot p)"
      "list_all (\<lambda>s. \<not> same_key s (new_entry hash p)) (table st)"
      "unat (unique_pcm_bytes st) + entry_pcm_bytes (new_entry hash p) \<le> unat (maximum_pcm_bytes lim)"
      "unat (total_bytes st) + (52 + entry_pcm_bytes (new_entry hash p)) < 2 ^ 64"
      "total_bytes st + of_nat (52 + entry_pcm_bytes (new_entry hash p)) \<le> maximum_encoded_bytes lim"
      "st' = st\<lparr>prior_slot := slot_index (resolved_slot p), by_slot := (by_slot st)[slot_index (resolved_slot p) := Some p],
        pad_sample := pad_sample st @ [length (table st)], table := table st @ [new_entry hash p],
        unique_pcm_bytes := unique_pcm_bytes st + of_nat (entry_pcm_bytes (new_entry hash p)),
        total_bytes := total_bytes st + of_nat (52 + entry_pcm_bytes (new_entry hash p))\<rparr>"
proof -
  let ?new = "new_entry hash p" and ?slot = "slot_index (resolved_slot p)"
  let ?n = "of_nat (entry_pcm_bytes ?new) :: u64"
  let ?st = "st\<lparr>prior_slot := ?slot, by_slot := (by_slot st)[?slot := Some p]\<rparr>"
  from assms have fits: "pad_fits lim p" and order: "pad_sample st = [] \<or> prior_slot st < ?slot"
    by (auto simp: encode_pad_def slot_number_Inr check_sample_Inr pad_fits_def pad_frames_def)
  note entry = entry_bytes [OF new_entry_ok [OF fits, of hash]]
  have len: "entry_pcm_bytes ?new = 2 * length (interleaved (resolved_sample p))"
    by (simp add: entry_pcm_bytes_def new_entry_def)
  have small: "unat ?n = entry_pcm_bytes ?new" using entry(1) by (simp add: unat_small)
  have n: "multiply_bytes (of_nat (length (interleaved (resolved_sample p)))) 2 = Inr ?n"
    using entry(1) by (simp add: multiply_bytes_Inr len unat_small)
  have body: "add_bytes kSampleHeaderBytes ?n = Inr (body_bytes ?new)"
  proof -
    have "body_bytes ?new = 12 + ?n" using entry(1) small by (simp add: word_unat_eq_iff entry(3) unat_sum)
    then show ?thesis using entry(1) small by (simp add: add_bytes_Inr kSampleHeaderBytes_def)
  qed
  have total: "add_bytes 40 (body_bytes ?new) = Inr (of_nat (52 + entry_pcm_bytes ?new))"
  proof -
    have "40 + body_bytes ?new = of_nat (52 + entry_pcm_bytes ?new)"
      using entry(1,3) by (simp only: word_unat_eq_iff) (simp add: unat_sum unat_small)
    then show ?thesis using entry(1,3) by (simp add: add_bytes_Inr)
  qed
  have key: "(\<lambda>s. encoded_digest s = sample_hash hash (resolved_sample p) \<and> body_bytes s = body_bytes ?new) =
      (\<lambda>s. same_key s ?new)"
    by (simp add: same_key_def new_entry_def sample_hash_body)
  have run: "encode_pad hash lim p st = checked_then (require (?n \<le> maximum_pcm_bytes lim) ''pcm_limit''
       ''runtime content sample exceeds the decoded PCM allowance'') (\<lambda>_.
     case find_from (\<lambda>s. same_key s ?new) 0 (table st) of
       Some i \<Rightarrow> Inr (?st\<lparr>pad_sample := pad_sample st @ [i]\<rparr>)
     | None \<Rightarrow>
         checked_then (add_bytes (unique_pcm_bytes st) ?n) (\<lambda>pcm.
         checked_then (require (pcm \<le> maximum_pcm_bytes lim) ''pcm_limit''
           ''runtime content exceeds the total unique decoded PCM allowance'') (\<lambda>_.
         checked_then (add_bytes (total_bytes st) (of_nat (52 + entry_pcm_bytes ?new))) (\<lambda>total.
         checked_then (require (total \<le> maximum_encoded_bytes lim) ''encoded_limit''
           ''runtime content samples exceed the encoded byte allowance'') (\<lambda>_.
         Inr (?st\<lparr>unique_pcm_bytes := pcm, total_bytes := total, table := table st @ [?new],
           pad_sample := pad_sample st @ [length (table st)]\<rparr>))))))"
  proof -
    have "slot_number (resolved_slot p) = Inr ?slot"
      "check_sample (resolved_sample p) lim = Inr (pad_frames p)"
      "check_playback (resolved_playback_of p) (pad_frames p) = Inr ()"
      using fits by (simp_all add: pad_fits_def slot_number_Inr check_sample_Inr pad_frames_def)
    moreover have "\<lparr>encoded_pcm = resolved_sample p, encoded_digest = sample_hash hash (resolved_sample p),
        body_bytes = body_bytes ?new\<rparr> = ?new"
      by (simp add: new_entry_def sample_hash_body)
    ultimately show ?thesis
      using order unfolding encode_pad_def Let_def
      by (simp add: n body total key del: checked_then_Inr cong: option.case_cong)
  qed
  show thesis
  proof (cases "find_from (\<lambda>s. same_key s ?new) 0 (table st)")
    case (Some i)
    with assms run have "st' = ?st\<lparr>pad_sample := pad_sample st @ [i]\<rparr>" by simp
    with find_from_Some [OF Some] fits order show ?thesis by (intro old) simp_all
  next
    case None
    with assms run have "unat (unique_pcm_bytes st) + unat ?n < 2 ^ 64" "unique_pcm_bytes st + ?n \<le> maximum_pcm_bytes lim"
      "unat (total_bytes st) + unat (of_nat (52 + entry_pcm_bytes ?new) :: u64) < 2 ^ 64"
      and room: "total_bytes st + of_nat (52 + entry_pcm_bytes ?new) \<le> maximum_encoded_bytes lim"
      and st': "st' = ?st\<lparr>unique_pcm_bytes := unique_pcm_bytes st + ?n,
        total_bytes := total_bytes st + of_nat (52 + entry_pcm_bytes ?new), table := table st @ [?new],
        pad_sample := pad_sample st @ [length (table st)]\<rparr>"
      by (auto simp: add_bytes_Inr)
    then have "unat (unique_pcm_bytes st) + entry_pcm_bytes ?new \<le> unat (maximum_pcm_bytes lim)"
      "unat (total_bytes st) + (52 + entry_pcm_bytes ?new) < 2 ^ 64"
      using entry(1) by (simp_all add: word_le_nat_alt unat_sum unat_small)
    moreover have "list_all (\<lambda>s. \<not> same_key s ?new) (table st)" using None by (simp add: find_from_None list_all_iff)
    ultimately show ?thesis using fits order room st' by (intro new) simp_all
  qed
qed

section \<open>Reading the Pad table back\<close>

lemma of_nat_u64: "i < 2 ^ 32 \<Longrightarrow> (of_nat i :: u64) = ucast (of_nat i :: u32)"
  by (simp add: word_unat_eq_iff unat_ucast_up unsigned_of_nat take_bit_nat_eq_self)

lemma mode_roundtrip:
  assumes "mode_number m = Inr k"
  shows "integer 1 (field 1 (ucast k) @ rest) = Inr (ucast k, rest)" "read_mode (ucast k) = Inr m"
  using assms by (cases m; force simp: mode_number_def read_mode_def integer_field)+

definition parsed_pad_of :: "resolved_pad \<Rightarrow> nat \<Rightarrow> parsed_pad" where
  "parsed_pad_of p i = \<lparr>parsed_slot = resolved_slot p, sample_index = of_nat i, parsed_playback = resolved_playback_of p\<rparr>"

text \<open>The reader after some Pads mirrors the writer after the same Pads.\<close>

definition slots_mirror :: "resolved_pad option list \<Rightarrow> int list \<Rightarrow> resolved_pad list \<Rightarrow> bool" where
  "slots_mirror slots indices pads \<longleftrightarrow> length slots = 64 \<and> length indices = 64 \<and>
     (\<forall>k < 64. case slots ! k of None \<Rightarrow> indices ! k = - 1
        | Some p \<Rightarrow> \<exists>i < length pads. indices ! k = int i \<and> pads ! i = p)"

definition mirrors :: "resolved_pad list \<Rightarrow> encode_state \<Rightarrow> pad_table \<Rightarrow> bool" where
  "mirrors pads st t \<longleftrightarrow>
     length (pad_sample st) = length pads \<and>
     table_pads t = map2 parsed_pad_of pads (pad_sample st) \<and>
     slots_mirror (by_slot st) (index_by_slot t) pads \<and>
     used_samples t = map (\<lambda>i. i < length (table st)) [0..<64] \<and>
     next_sample t = of_nat (length (table st)) \<and> table_prior t = prior_slot st"

lemma slots_mirror_update:
  assumes "slots_mirror slots indices pads" "k < 64"
  shows "slots_mirror (slots[k := Some p]) (indices[k := int (length pads)]) (pads @ [p])"
proof -
  have "case slots[k := Some p] ! j of None \<Rightarrow> indices[k := int (length pads)] ! j = - 1
      | Some q \<Rightarrow> \<exists>i < length (pads @ [p]). indices[k := int (length pads)] ! j = int i \<and> (pads @ [p]) ! i = q"
    if "j < 64" for j
  proof (cases "j = k")
    case True
    then show ?thesis using assms by (auto simp: slots_mirror_def)
  next
    case False
    have "case slots ! j of None \<Rightarrow> indices ! j = - 1 | Some q \<Rightarrow> \<exists>i < length pads. indices ! j = int i \<and> pads ! i = q"
      using assms(1) that by (simp add: slots_mirror_def)
    with False show ?thesis by (auto simp: nth_append less_Suc_eq split: option.splits)
  qed
  with assms show ?thesis by (simp add: slots_mirror_def)
qed

lemma slot_eta [simp]: "\<lparr>bank = bank sl, pad = pad sl\<rparr> = sl" for sl :: pad_slot_id
  by simp

lemma flag_value [simp]: "(if c then 1 else 0 :: u64) \<le> 1" "((if c then 1 else 0 :: u64) = 0) = (\<not> c)"
  by simp_all

lemma parse_pad_entry:
  assumes m: "mirrors pads st t" and enc: "encode_pad hash lim p st = Inr st'"
    and N: "length (table st') \<le> N" "N \<le> 64" and entry: "pad_entry p (last (pad_sample st')) = Inr bs"
  shows "\<exists>t'. parse_pad (of_nat N) t (bs @ rest) = Inr (t', rest) \<and> mirrors (pads @ [p]) st' t'"
proof -
  define idx where "idx = last (pad_sample st')"
  let ?play = "resolved_playback_of p" and ?slot = "slot_index (resolved_slot p)"
  obtain k where mode: "mode_number (play_trigger_mode ?play) = Inr k"
    and bs: "bs = field 1 (ucast (bank (resolved_slot p))) @ field 1 (ucast (pad (resolved_slot p))) @
       field 1 (ucast k) @ field 1 (if play_muted ?play then 1 else 0) @ field 4 (of_nat idx) @
       field 4 (ucast (play_start_frame ?play)) @ field 4 (ucast (play_end_frame ?play)) @
       field 4 (ucast (linear_gain ?play))"
    using entry by (auto simp: pad_entry_def Let_def idx_def)
  have st': "idx < length (table st')" "idx \<le> length (table st)" "pad_sample st' = pad_sample st @ [idx]"
    "length (table st') = (if idx < length (table st) then length (table st) else Suc (length (table st)))"
    "pad_fits lim p" "pad_sample st = [] \<or> prior_slot st < ?slot" "prior_slot st' = ?slot"
    "by_slot st' = (by_slot st)[?slot := Some p]"
    using enc by (cases rule: encode_pad_cases; simp add: idx_def)+
  then have idx: "idx < N" "idx < 64" using N by linarith+
  have narrow: "unat (of_nat n :: u32) = n" if "n \<le> 64" for n
    using that by (simp add: unsigned_of_nat take_bit_nat_eq_self)
  have index: "(of_nat idx :: u64) = ucast (of_nat idx :: u32)" "unat (of_nat idx :: u32) = idx"
    "(of_nat idx :: u32) < of_nat N"
    using idx N narrow [of idx] narrow [of N] by (simp add: of_nat_u64, simp, simp only: word_less_nat_alt)
  have slot: "slot_number (resolved_slot p) = Inr ?slot" "?slot < 64"
    using st'(5) by (simp_all add: slot_number_Inr pad_fits_def slot_index_less)
  have play: "?play = \<lparr>play_start_frame = play_start_frame ?play, play_end_frame = play_end_frame ?play,
      play_trigger_mode = play_trigger_mode ?play, linear_gain = linear_gain ?play, play_muted = play_muted ?play,
      play_dsp = neutral_dsp\<rparr>"
    using st'(5) by (auto simp: pad_fits_def check_playback_def is_neutral_def)
  have first: "table_pads t = [] \<or> table_prior t < ?slot"
    using m st'(6) by (auto simp: mirrors_def)
  define t1 where "t1 = (if idx < length (table st) then t
    else t\<lparr>used_samples := (used_samples t)[idx := True], next_sample := next_sample t + 1\<rparr>)"
  have use: "(if used_samples t ! idx then Inr t
      else checked_then (require ((of_nat idx :: u32) = next_sample t) ''sample_order''
          ''runtime content samples are not ordered by first Pad use'') (\<lambda>_.
        Inr (t\<lparr>used_samples := (used_samples t)[idx := True], next_sample := next_sample t + 1\<rparr>))) = Inr t1"
    using m idx st'(2) by (auto simp: mirrors_def t1_def)
  define t' where "t' = t1\<lparr>table_pads := table_pads t1 @ [parsed_pad_of p idx],
    index_by_slot := (index_by_slot t1)[?slot := int (length (table_pads t1))], table_prior := ?slot\<rparr>"
  have "parse_pad (of_nat N) t (bs @ rest) = Inr (t', rest)"
    unfolding parse_pad_def bs append_assoc using first
    by (simp add: Let_def mode_roundtrip [OF mode, unfolded One_nat_def] slot index use t'_def parsed_pad_of_def play [symmetric]
        del: checked_then_Inr split del: if_split cong: if_cong)
  moreover have "mirrors (pads @ [p]) st' t'"
  proof -
    have same: "table_pads t1 = table_pads t" "index_by_slot t1 = index_by_slot t"
      and now: "length (table st') = (if idx < length (table st) then length (table st) else Suc idx)"
      using st'(2,4) by (simp_all add: t1_def)
    have "slots_mirror (by_slot st') (index_by_slot t') (pads @ [p])"
      using m slot st'(8) slots_mirror_update [of "by_slot st" "index_by_slot t" pads ?slot p]
      by (simp add: mirrors_def t'_def same)
    moreover have "used_samples t' = map (\<lambda>i. i < length (table st')) [0..<64]"
    proof (rule nth_equalityI)
      fix i assume "i < length (used_samples t')"
      then have "i < 64" using m by (simp add: mirrors_def t'_def t1_def split: if_splits)
      then show "used_samples t' ! i = map (\<lambda>i. i < length (table st')) [0..<64] ! i"
        using m st'(2) by (cases "i = idx") (auto simp: mirrors_def t'_def t1_def now)
    qed (use m in \<open>simp add: mirrors_def t'_def t1_def\<close>)
    moreover have "next_sample t' = of_nat (length (table st'))"
      using m st'(2) by (auto simp: mirrors_def t'_def t1_def now add.commute)
    ultimately show ?thesis
      using m st'(3,7) by (simp add: mirrors_def t'_def same)
  qed
  ultimately show ?thesis by blast
qed

section \<open>The writer's tables\<close>

definition table_bytes :: "encoded_sample list \<Rightarrow> nat" where
  "table_bytes ss = sum_list (map (\<lambda>s. 52 + entry_pcm_bytes s) ss)"

lemma table_bytes_simps [simp]:
  "table_bytes [] = 0" "table_bytes (ss @ [s]) = table_bytes ss + (52 + entry_pcm_bytes s)"
  by (simp_all add: table_bytes_def)

definition encodes ::
  "(bytes \<Rightarrow> bytes) \<Rightarrow> runtime_content_limits \<Rightarrow> u64 \<Rightarrow> resolved_pad list \<Rightarrow> encode_state \<Rightarrow> bool" where
  "encodes hash lim tables pads st \<longleftrightarrow>
     list_all (entry_ok hash lim) (table st) \<and> distinct_keys (table st) \<and>
     unat (unique_pcm_bytes st) = table_pcm_bytes (table st) \<and>
     unat (unique_pcm_bytes st) \<le> unat (maximum_pcm_bytes lim) \<and>
     unat (total_bytes st) = unat tables + table_bytes (table st) \<and>
     total_bytes st \<le> maximum_encoded_bytes lim \<and>
     length (table st) \<le> length pads \<and> list_all (pad_fits lim) pads \<and>
     list_all2 (\<lambda>p i. i < length (table st) \<and> same_key (table st ! i) (new_entry hash p)) pads (pad_sample st) \<and>
     encoded_pcm ` set (table st) \<subseteq> resolved_sample ` set pads"

lemma same_key_refl [simp]: "same_key s s"
  by (simp add: same_key_def)

lemma encode_pad_encodes:
  assumes inv: "encodes hash lim tables pads st" and enc: "encode_pad hash lim p st = Inr st'"
  shows "encodes hash lim tables (pads @ [p]) st'" "length (table st) \<le> length (table st')"
    "pad_sample st' = pad_sample st @ [last (pad_sample st')]"
proof -
  have keep: "list_all2 (\<lambda>p i. i < length (ss @ ts) \<and> same_key ((ss @ ts) ! i) (new_entry hash p)) pads is"
    if "list_all2 (\<lambda>p i. i < length ss \<and> same_key (ss ! i) (new_entry hash p)) pads is" for ss ts "is"
    using that by (rule list_all2_mono) (auto simp: nth_append)
  show "encodes hash lim tables (pads @ [p]) st'"
    using enc
  proof (cases rule: encode_pad_cases)
    case (old i)
    with inv show ?thesis by (auto simp: encodes_def intro: list_all2_appendI)
  next
    case new
    note entry = entry_bytes [OF new_entry_ok [OF new(1), of hash]]
    have sums: "unat (unique_pcm_bytes st + of_nat (entry_pcm_bytes (new_entry hash p))) =
        unat (unique_pcm_bytes st) + entry_pcm_bytes (new_entry hash p)"
      "unat (total_bytes st + of_nat (52 + entry_pcm_bytes (new_entry hash p))) =
        unat (total_bytes st) + (52 + entry_pcm_bytes (new_entry hash p))"
      using entry(1) new(4,5) unat_u64_less [of "maximum_pcm_bytes lim"]
      by (subst unat_sum; simp add: unat_small)+
    have "distinct_keys (table st @ [new_entry hash p])"
      using inv new(3) by (simp add: encodes_def distinct_keys_def sorted_wrt_append list_all_iff)
    moreover have "list_all2 (\<lambda>q i. i < length (table st') \<and> same_key (table st' ! i) (new_entry hash q))
        (pads @ [p]) (pad_sample st')"
    proof -
      let ?P = "\<lambda>q i. i < length (table st @ [new_entry hash p]) \<and>
        same_key ((table st @ [new_entry hash p]) ! i) (new_entry hash q)"
      have "list_all2 ?P pads (pad_sample st)" using inv by (intro keep) (simp add: encodes_def)
      moreover have "list_all2 ?P [p] [length (table st)]" by simp
      ultimately have "list_all2 ?P (pads @ [p]) (pad_sample st @ [length (table st)])" by (rule list_all2_appendI)
      then show ?thesis using new(7) by simp
    qed
    moreover have "encoded_pcm (new_entry hash p) = resolved_sample p" by (simp add: new_entry_def)
    ultimately show ?thesis
      using inv new sums new_entry_ok [OF new(1), of hash] by (auto simp: encodes_def)
  qed
  show "length (table st) \<le> length (table st')" "pad_sample st' = pad_sample st @ [last (pad_sample st')]"
    using enc by (cases rule: encode_pad_cases; simp)+
qed

lemma encode_pads_encodes:
  assumes "encode_pads hash lim ps st = Inr st'" "encodes hash lim tables pads st"
  shows "encodes hash lim tables (pads @ ps) st'" "length (table st) \<le> length (table st')"
    "\<exists>idxs. pad_sample st' = pad_sample st @ idxs \<and> length idxs = length ps"
proof -
  have "encodes hash lim tables (pads @ ps) st' \<and> length (table st) \<le> length (table st') \<and>
      (\<exists>idxs. pad_sample st' = pad_sample st @ idxs \<and> length idxs = length ps)"
    using assms
  proof (induction ps arbitrary: pads st)
    case (Cons p ps)
    then obtain st1 where enc: "encode_pad hash lim p st = Inr st1" and rest: "encode_pads hash lim ps st1 = Inr st'"
      by auto
    note here = encode_pad_encodes [OF Cons.prems(2) enc]
    obtain idxs where "encodes hash lim tables (pads @ p # ps) st'" "length (table st1) \<le> length (table st')"
      "pad_sample st' = pad_sample st1 @ idxs" "length idxs = length ps"
      using Cons.IH [OF rest here(1)] by auto
    moreover from this(3) here(3) have "pad_sample st' = pad_sample st @ last (pad_sample st1) # idxs"
      by (metis append_Cons append_Nil append_assoc)
    ultimately show ?case using here(2) by (intro conjI exI [of _ "last (pad_sample st1) # idxs"]) simp_all
  qed simp
  then show "encodes hash lim tables (pads @ ps) st'" "length (table st) \<le> length (table st')"
    "\<exists>idxs. pad_sample st' = pad_sample st @ idxs \<and> length idxs = length ps" by simp_all
qed

lemma length_pad_entry: "pad_entry p i = Inr bs \<Longrightarrow> length bs = 20"
  by (auto simp: pad_entry_def Let_def)

lemma encode_pads_mirrors:
  assumes "encode_pads hash lim ps st = Inr st'" "encodes hash lim tables pads st" "mirrors pads st t"
    and N: "length (table st') \<le> N" "N \<le> 64"
    and "pad_entries (zip ps (drop (length (pad_sample st)) (pad_sample st'))) = Inr bs"
  shows "length bs = 20 * length ps \<and>
    (\<exists>t'. parse_pads (length ps) (of_nat N) t (bs @ rest) = Inr t' \<and> mirrors (pads @ ps) st' t')"
  using assms(1-3,6)
proof (induction ps arbitrary: pads st t bs)
  case (Cons p ps)
  then obtain st1 where enc: "encode_pad hash lim p st = Inr st1" and more: "encode_pads hash lim ps st1 = Inr st'"
    by auto
  note here = encode_pad_encodes [OF Cons.prems(2) enc] and later = encode_pads_encodes [OF more]
  define idx where "idx = last (pad_sample st1)"
  from later(3) [OF here(1)] obtain idxs where idxs: "pad_sample st' = pad_sample st1 @ idxs" by blast
  have "pad_sample st1 = pad_sample st @ [idx]" using here(3) by (simp add: idx_def)
  then have drops: "drop (length (pad_sample st)) (pad_sample st') = idx # drop (length (pad_sample st1)) (pad_sample st')"
    using idxs by simp
  with Cons.prems(4) obtain b1 b2 where entry: "pad_entry p idx = Inr b1"
    and entries: "pad_entries (zip ps (drop (length (pad_sample st1)) (pad_sample st'))) = Inr b2" and bs: "bs = b1 @ b2"
    by auto
  have "length (table st1) \<le> N" using later(2) [OF here(1)] N(1) by simp
  from parse_pad_entry [OF Cons.prems(3) enc this N(2) entry [unfolded idx_def], of "b2 @ rest"]
  obtain t1 where "parse_pad (of_nat N) t (b1 @ b2 @ rest) = Inr (t1, b2 @ rest)" and t1: "mirrors (pads @ [p]) st1 t1"
    by blast
  moreover obtain t' where "length b2 = 20 * length ps" "parse_pads (length ps) (of_nat N) t1 (b2 @ rest) = Inr t'"
    "mirrors (pads @ p # ps) st' t'"
    using Cons.IH [OF more here(1) t1 entries] by auto
  ultimately show ?case using length_pad_entry [OF entry] by (simp add: bs del: checked_then_Inr)
qed simp

section \<open>Reading the events and the header back\<close>

definition bare_event :: "resolved_event \<Rightarrow> resolved_event" where
  "bare_event e = e\<lparr>played_sample := no_pcm\<rparr>"

lemma bare_event_simps [simp]:
  "check_event (bare_event e) l = check_event e l" "event_key (bare_event e) = event_key e"
  "played_slot (bare_event e) = played_slot e" "(bare_event e)\<lparr>played_sample := played_sample e\<rparr> = e"
  by (simp_all add: check_event_def event_key_def bare_event_def)

lemma length_event_entry [simp]: "length (event_entry e) = 12"
  by (simp add: event_entry_def)

lemma parse_event_entry: "parse_event (event_entry e @ rest) = Inr (bare_event e, rest)"
  unfolding parse_event_def event_entry_def append_assoc
  by (simp add: bare_event_def del: checked_then_Inr)

lemma events_roundtrip:
  assumes "check_events loop_ticks slots before es = Inr ()" "slots_mirror slots indices pads"
    "map resolved_sample decoded = map resolved_sample pads"
  shows "parse_events (length es) loop_ticks indices (map_option bare_event before) (concat (map event_entry es)) = Inr ()"
    and "decode_events (length es) indices decoded (concat (map event_entry es)) = Inr es"
proof -
  have "parse_events (length es) loop_ticks indices (map_option bare_event before) (concat (map event_entry es)) = Inr () \<and>
      decode_events (length es) indices decoded (concat (map event_entry es)) = Inr es"
    using assms(1)
  proof (induction es arbitrary: before)
    case (Cons e es)
    let ?k = "slot_index (played_slot e)"
    from Cons.prems have e: "check_event e loop_ticks = Inr ()" "before = None \<or> event_key (the before) < event_key e"
      "is_valid_slot (played_slot e)" "slots ! ?k \<noteq> None" "played_sample e = resolved_sample (the (slots ! ?k))"
      and more: "check_events loop_ticks slots (Some e) es = Inr ()"
      by (auto simp: slot_number_Inr)
    have k: "?k < 64" using e(3) by (rule slot_index_less)
    with assms(2) e(4) obtain i where i: "i < length pads" "indices ! ?k = int i" "pads ! i = the (slots ! ?k)"
      by (auto simp: slots_mirror_def split: option.splits)
    then have sample: "resolved_sample (decoded ! i) = played_sample e"
      using assms(3) e(5) by (metis length_map nth_map)
    have slot: "slot_number (played_slot e) = Inr ?k" using e(3) by (simp add: slot_number_Inr)
    have order: "map_option bare_event before = None \<or> event_key (the (map_option bare_event before)) < event_key e"
      using e(2) by (cases before) simp_all
    from Cons.IH [OF more] show ?case
      using order by (simp add: parse_event_entry e(1) slot i(2) sample del: checked_then_Inr)
  qed simp
  then show "parse_events (length es) loop_ticks indices (map_option bare_event before) (concat (map event_entry es)) = Inr ()"
    and "decode_events (length es) indices decoded (concat (map event_entry es)) = Inr es" by simp_all
qed

definition bare_snapshot :: "runtime_snapshot \<Rightarrow> runtime_snapshot" where
  "bare_snapshot s = s\<lparr>snapshot_pads := [], snapshot_events := []\<rparr>"

lemma length_header_entry:
  "check_pattern s = Inr () \<Longrightarrow> length (header_entry s n k) = 136"
  by (auto simp: header_entry_def check_pattern_def kMagic_def is_valid_uuid_def split: if_splits)

lemma parse_header_entry:
  assumes pattern: "check_pattern s = Inr ()" and size: "encoded = of_nat (length (header_entry s encoded k @ rest))"
    and counts: "length (snapshot_pads s) < 2 ^ 32" "length (snapshot_events s) < 2 ^ 32" "k < 2 ^ 32"
      "check_counts (of_nat (length (snapshot_pads s))) (of_nat (length (snapshot_events s))) (of_nat k) lim = Inr ()"
  shows "parse_header (header_entry s encoded k @ rest) lim =
    Inr (\<lparr>header_snapshot = bare_snapshot s, pad_count = of_nat (length (snapshot_pads s)),
      event_count = of_nat (length (snapshot_events s)), sample_count = of_nat k\<rparr>, rest)"
proof -
  have ids: "length (snapshot_project_id s) = 36" "length (snapshot_pattern_id s) = 36" "length kMagic = 8"
    using pattern by (auto simp: check_pattern_def is_valid_uuid_def kMagic_def split: if_splits)
  have narrow: "(of_nat n :: u64) = ucast (of_nat n :: u32)" if "n < 2 ^ 32" for n
    using that by (rule of_nat_u64)
  have checked: "check_counts (ucast (of_nat (length (snapshot_pads s)) :: u32))
      (ucast (of_nat (length (snapshot_events s)) :: u32)) (ucast (of_nat k :: u32)) lim = Inr ()"
    using counts by (simp only: narrow)
  have bare: "check_pattern \<lparr>snapshot_project_id = snapshot_project_id s, snapshot_pattern_id = snapshot_pattern_id s,
      snapshot_revision = snapshot_revision s, snapshot_bpm = snapshot_bpm s, snapshot_bars = snapshot_bars s,
      snapshot_ppq = snapshot_ppq s, snapshot_loop_ticks = snapshot_loop_ticks s,
      snapshot_pads = [], snapshot_events = []\<rparr> = Inr ()"
    using pattern by (simp add: check_pattern_def)
  have head: "header_entry s encoded k @ rest = bytes_of_string kMagic @ field 2 1 @ field 2 0 @ field 2 0 @ field 2 0 @
     field 8 encoded @ field 8 kRequiredCapabilities @
     bytes_of_string (snapshot_project_id s) @ bytes_of_string (snapshot_pattern_id s) @
     field 8 (snapshot_revision s) @ field 2 (ucast (snapshot_bpm s)) @ field 1 (ucast (snapshot_bars s)) @
     field 1 0 @ field 4 (ucast (snapshot_ppq s)) @ field 4 (ucast (snapshot_loop_ticks s)) @
     field 4 (ucast (of_nat (length (snapshot_pads s)) :: u32)) @
     field 4 (ucast (of_nat (length (snapshot_events s)) :: u32)) @ field 4 (ucast (of_nat k :: u32)) @ rest"
    unfolding header_entry_def append_assoc using counts by (simp only: narrow)
  show ?thesis
    unfolding parse_header_def size [symmetric] unfolding head
    by (simp add: ids checked bare bare_snapshot_def Let_def del: checked_then_Inr)
qed

section \<open>The round trip\<close>

text \<open>The snapshot with the references the reader gives to the PCM it carries.\<close>

definition carried_artifact :: "(bytes \<Rightarrow> bytes) \<Rightarrow> pcm_sample \<Rightarrow> artifact_ref" where
  "carried_artifact hash p = \<lparr>art_sha256 = hex_digest (sample_hash hash p), art_media_type = kRuntimePcmMediaType,
     art_byte_length = of_nat (length (sample_body p))\<rparr>"

definition carried_pad :: "(bytes \<Rightarrow> bytes) \<Rightarrow> resolved_pad \<Rightarrow> resolved_pad" where
  "carried_pad hash p = p\<lparr>resolved_artifact := carried_artifact hash (resolved_sample p)\<rparr>"

definition carried_snapshot :: "(bytes \<Rightarrow> bytes) \<Rightarrow> runtime_snapshot \<Rightarrow> runtime_snapshot" where
  "carried_snapshot hash s = s\<lparr>snapshot_pads := map (carried_pad hash) (snapshot_pads s)\<rparr>"

text \<open>No two samples of the snapshot with the same digest.\<close>

definition no_collision :: "(bytes \<Rightarrow> bytes) \<Rightarrow> runtime_snapshot \<Rightarrow> bool" where
  "no_collision hash s \<longleftrightarrow> inj_on hash (sample_body ` resolved_sample ` set (snapshot_pads s))"

definition start_state :: "u64 \<Rightarrow> encode_state" where
  "start_state tables = \<lparr>table = [], pad_sample = [], by_slot = replicate 64 None, prior_slot = 0,
     unique_pcm_bytes = 0, total_bytes = tables\<rparr>"

lemma start_encodes: "tables \<le> maximum_encoded_bytes lim \<Longrightarrow> encodes hash lim tables [] (start_state tables)"
  by (simp add: encodes_def start_state_def distinct_keys_def)

lemma start_mirrors: "mirrors [] (start_state tables) new_pad_table"
  by (simp add: mirrors_def start_state_def new_pad_table_def slots_mirror_def map_replicate_const)

lemma encode_checks_Inr:
  assumes "encode_checks hash s lim = Inr st" "length (snapshot_pads s) < 2 ^ 64" "length (snapshot_events s) < 2 ^ 64"
  obtains tables where "check_pattern s = Inr ()"
    "check_counts (of_nat (length (snapshot_pads s))) (of_nat (length (snapshot_events s))) 0 lim = Inr ()"
    "length (snapshot_pads s) \<le> 64" "length (snapshot_events s) < 2 ^ 32"
    "unat tables = 136 + 20 * length (snapshot_pads s) + 12 * length (snapshot_events s)"
    "tables \<le> maximum_encoded_bytes lim"
    "encode_pads hash lim (snapshot_pads s) (start_state tables) = Inr st"
    "check_events (snapshot_loop_ticks s) (by_slot st) None (snapshot_events s) = Inr ()"
proof -
  let ?np = "length (snapshot_pads s)" and ?ne = "length (snapshot_events s)"
  have small: "unat (of_nat ?np :: u64) = ?np" "unat (of_nat ?ne :: u64) = ?ne"
    using assms(2,3) by (simp_all add: unat_small)
  from assms(1) have counts: "check_counts (of_nat ?np) (of_nat ?ne) 0 lim = Inr ()"
    by (auto simp: encode_checks_def)
  then have le: "?np \<le> 64" "?ne \<le> 0xFFFFFFFF"
    using small by (auto simp: check_counts_def word_le_nat_alt)
  have sum: "kHeaderBytes + (of_nat ?np * kPadBytes + of_nat ?ne * kEventBytes) =
      (of_nat (136 + 20 * ?np + 12 * ?ne) :: u64)"
    by (simp add: kPadBytes_def kEventBytes_def kHeaderBytes_def)
  have "unat (of_nat (136 + 20 * ?np + 12 * ?ne) :: u64) = 136 + 20 * ?np + 12 * ?ne"
    by (rule unat_small) (use le in simp)
  moreover have "of_nat (136 + 20 * ?np + 12 * ?ne) \<le> maximum_encoded_bytes lim"
    "encode_pads hash lim (snapshot_pads s) (start_state (of_nat (136 + 20 * ?np + 12 * ?ne))) = Inr st"
    "check_events (snapshot_loop_ticks s) (by_slot st) None (snapshot_events s) = Inr ()" "check_pattern s = Inr ()"
    using assms(1) unfolding sum [symmetric]
    by (auto simp: encode_checks_def start_state_def multiply_bytes_Inr add_bytes_Inr)
  ultimately show thesis using counts le by (intro that) simp_all
qed

lemma key_means_same_sample:
  assumes "no_collision hash s" "p \<in> set (snapshot_pads s)" "pad_fits lim p" "entry_ok hash lim e"
    "encoded_pcm e \<in> resolved_sample ` set (snapshot_pads s)" "same_key e (new_entry hash p)"
  shows "encoded_pcm e = resolved_sample p"
proof -
  have "hash (sample_body (encoded_pcm e)) = hash (sample_body (resolved_sample p))"
    using assms(4,6) by (simp add: entry_ok_def same_key_def new_entry_def)
  then have "sample_body (encoded_pcm e) = sample_body (resolved_sample p)"
    using assms(1,2,5) by (auto simp: no_collision_def dest: inj_onD)
  then show ?thesis using assms(3,4) by (intro sample_body_inj [of lim]) (simp_all add: pad_fits_def entry_ok_def)
qed

lemma pad_entries_ok:
  "list_all (pad_fits lim) ps \<Longrightarrow> \<exists>bs. pad_entries (zip ps is) = Inr bs"
proof (induction ps arbitrary: "is")
  case (Cons p ps)
  then obtain k where "mode_number (play_trigger_mode (resolved_playback_of p)) = Inr k"
    by (auto simp: pad_fits_def check_playback_def)
  with Cons show ?case by (cases "is") (auto simp: pad_entry_def Let_def)
qed simp

lemma length_sample_entries:
  assumes "list_all (entry_ok hash lim) ss" "\<And>bs. length (hash bs) = 32"
  shows "length (concat (map sample_entry ss)) = table_bytes ss"
  using assms by (induction ss)
    (simp_all add: table_bytes_def sample_entry_body entry_ok_def entry_pcm_bytes_def)

lemma decoded_pads_carried:
  assumes "no_collision hash s" "encodes hash lim tables (snapshot_pads s) st" "length (table st) \<le> 64"
  shows "map (decoded_pad (map parsed_of (table st))) (map2 parsed_pad_of (snapshot_pads s) (pad_sample st)) =
    map (carried_pad hash) (snapshot_pads s)"
    and "check_playbacks (map parsed_of (table st)) (map2 parsed_pad_of (snapshot_pads s) (pad_sample st)) = Inr ()"
proof -
  let ?ps = "snapshot_pads s" and ?parsed = "map parsed_of (table st)"
  have all: "list_all2 (\<lambda>p i. i < length (table st) \<and> same_key (table st ! i) (new_entry hash p)) ?ps (pad_sample st)"
    using assms(2) by (simp add: encodes_def)
  have pad: "decoded_pad ?parsed (parsed_pad_of p i) = carried_pad hash p \<and>
      check_playback (parsed_playback (parsed_pad_of p i)) (parsed_frames (?parsed ! unat (sample_index (parsed_pad_of p i)))) = Inr ()"
    if "p \<in> set ?ps" "i < length (table st)" "same_key (table st ! i) (new_entry hash p)" for p i
  proof -
    let ?e = "table st ! i"
    have e: "?e \<in> set (table st)" using that(2) by simp
    then have ok: "entry_ok hash lim ?e" "pad_fits lim p" "encoded_pcm ?e \<in> resolved_sample ` set ?ps"
      using assms(2) that(1) by (auto simp: encodes_def list_all_iff)
    then have same: "encoded_pcm ?e = resolved_sample p"
      using key_means_same_sample [OF assms(1) that(1) ok(2,1,3) that(3)] by simp
    have i: "unat (of_nat i :: u32) = i" using that(2) assms(3) by (simp add: unsigned_of_nat take_bit_nat_eq_self)
    have "owned_sample (parsed_of ?e) = resolved_sample p" using owned_parsed [OF ok(1)] same by simp
    moreover have "parsed_digest (parsed_of ?e) = sample_hash hash (resolved_sample p)"
      "parsed_body_bytes (parsed_of ?e) = of_nat (length (sample_body (resolved_sample p)))"
      "parsed_frames (parsed_of ?e) = pad_frames p"
      using ok(1) same by (simp_all add: parsed_of_def entry_ok_def sample_hash_body pad_frames_def)
    ultimately show ?thesis
      using ok(2) that(2) by (simp add: decoded_pad_def parsed_pad_of_def carried_pad_def carried_artifact_def i pad_fits_def Let_def)
  qed
  then show "map (decoded_pad ?parsed) (map2 parsed_pad_of ?ps (pad_sample st)) = map (carried_pad hash) ?ps"
    using all by (auto simp: list_all2_conv_all_nth intro!: nth_equalityI)
  have checked: "check_playbacks ?parsed qs = Inr ()"
    if "\<forall>q \<in> set qs. check_playback (parsed_playback q) (parsed_frames (?parsed ! unat (sample_index q))) = Inr ()" for qs
    using that by (induction qs) (simp_all del: checked_then_Inr)
  show "check_playbacks ?parsed (map2 parsed_pad_of ?ps (pad_sample st)) = Inr ()"
  proof (rule checked, rule ballI)
    fix q assume "q \<in> set (map2 parsed_pad_of ?ps (pad_sample st))"
    then obtain j where "j < length ?ps" "j < length (pad_sample st)" "q = parsed_pad_of (?ps ! j) (pad_sample st ! j)"
      by (auto simp: in_set_conv_nth)
    then show "check_playback (parsed_playback q) (parsed_frames (?parsed ! unat (sample_index q))) = Inr ()"
      using all pad [of "?ps ! j" "pad_sample st ! j"] by (simp add: list_all2_conv_all_nth)
  qed
qed

text \<open>What the writer produced, piece by piece.\<close>

lemma encode_Inr:
  assumes "encode hash s lim = Inr enc"
  obtains st entries where "encode_checks hash s lim = Inr st"
    "pad_entries (zip (snapshot_pads s) (pad_sample st)) = Inr entries"
    "content_bytes enc = header_entry s (total_bytes st) (length (table st)) @ entries @
       concat (map event_entry (snapshot_events s)) @ concat (map sample_entry (table st))"
    "content_identity enc = \<lparr>identity_sha256 = hex_digest (hash (content_bytes enc)), identity_byte_length = total_bytes st\<rparr>"
  using assms by (auto simp: encode_def Let_def)

lemma take_table:
  assumes "n < 2 ^ 32" "length xs = n * unat w" "unat w \<le> 20"
  shows "checked_then (multiply_bytes (ucast (of_nat n :: u32)) w) (\<lambda>m. take_input m (xs @ rest)) = Inr (xs, rest)"
proof -
  have n: "unat (ucast (of_nat n :: u32) :: u64) = n"
    using assms(1) by (simp add: unat_ucast_up unsigned_of_nat take_bit_nat_eq_self)
  have "n * unat w \<le> n * 20" using assms(3) by (rule mult_le_mono2)
  also have "n * 20 < 2 ^ 64" using assms(1) by simp
  finally have "n * unat w < 2 ^ 64" .
  then have "multiply_bytes (ucast (of_nat n :: u32)) w = Inr (ucast (of_nat n :: u32) * w)"
    "unat (ucast (of_nat n :: u32) * w) = length xs"
    using assms(2) n by (simp_all add: multiply_bytes_Inr unat_product)
  then show ?thesis by (simp add: take_input_append del: checked_then_Inr)
qed

lemma unat_u32_small: "n < 2 ^ 32 \<Longrightarrow> unat (of_nat n :: u32) = n"
  by (simp add: unsigned_of_nat take_bit_nat_eq_self)

lemma decode_encoded:
  assumes "encode hash s lim = Inr enc" "\<And>bs. length (hash bs) = 32" "no_collision hash s"
    "length (snapshot_pads s) < 2 ^ 64" "length (snapshot_events s) < 2 ^ 64"
  shows "checked_then (validate_content hash (content_bytes enc) (content_identity enc) lim) decoded_content =
    Inr (carried_snapshot hash s)"
proof -
  let ?ps = "snapshot_pads s" and ?es = "snapshot_events s"
  obtain st entries where checks: "encode_checks hash s lim = Inr st"
    and entries: "pad_entries (zip ?ps (pad_sample st)) = Inr entries"
    and bs: "content_bytes enc = header_entry s (total_bytes st) (length (table st)) @ entries @
       concat (map event_entry ?es) @ concat (map sample_entry (table st))"
    and identity: "content_identity enc =
      \<lparr>identity_sha256 = hex_digest (hash (content_bytes enc)), identity_byte_length = total_bytes st\<rparr>"
    using encode_Inr [OF assms(1)] by blast
  obtain tables where pattern: "check_pattern s = Inr ()"
    and counts: "check_counts (of_nat (length ?ps)) (of_nat (length ?es)) 0 lim = Inr ()"
    and np: "length ?ps \<le> 64" and ne: "length ?es < 2 ^ 32"
    and tables: "unat tables = 136 + 20 * length ?ps + 12 * length ?es" "tables \<le> maximum_encoded_bytes lim"
    and padded: "encode_pads hash lim ?ps (start_state tables) = Inr st"
    and events: "check_events (snapshot_loop_ticks s) (by_slot st) None ?es = Inr ()"
    using encode_checks_Inr [OF checks assms(4,5)] by blast
  have inv: "encodes hash lim tables ?ps st"
    using encode_pads_encodes(1) [OF padded start_encodes [OF tables(2)]] by simp
  then have n: "length (table st) \<le> length ?ps" by (simp add: encodes_def)
  have "length entries = 20 * length ?ps \<and> (\<exists>t. parse_pads (length ?ps) (of_nat (length (table st))) new_pad_table
      (entries @ []) = Inr t \<and> mirrors ([] @ ?ps) st t)"
    using n np entries
    by (intro encode_pads_mirrors [OF padded start_encodes [OF tables(2)] start_mirrors]) (simp_all add: start_state_def)
  then obtain t where len: "length entries = 20 * length ?ps"
    and parsed: "parse_pads (length ?ps) (of_nat (length (table st))) new_pad_table entries = Inr t"
    and t: "mirrors ?ps st t" by auto
  have table: "list_all (entry_ok hash lim) (table st)" using inv by (simp add: encodes_def)
  have bytes: "length (content_bytes enc) = unat (total_bytes st)"
    using inv tables(1) len length_sample_entries [OF table assms(2)] length_header_entry [OF pattern]
    by (simp add: bs encodes_def length_concat comp_def sum_list_triv del: length_concat) (simp add: length_concat comp_def sum_list_triv)
  have size: "of_nat (length (content_bytes enc)) = total_bytes st" by (simp add: bytes)
  have fits: "total_bytes st \<le> maximum_encoded_bytes lim" "kHeaderBytes \<le> total_bytes st"
    using inv tables(1) by (simp_all add: encodes_def kHeaderBytes_def word_le_nat_alt)
  let ?n = "length (table st)"
  have n32: "?n < 2 ^ 32" "length ?ps < 2 ^ 32" using n np by simp_all
  have "(of_nat ?n :: u64) \<le> of_nat (length ?ps)"
    using n np by (simp add: word_le_nat_alt unat_small)
  then have "check_counts (of_nat (length ?ps)) (of_nat (length ?es)) (of_nat ?n) lim = Inr ()"
    using counts by (simp add: check_counts_def)
  note header = parse_header_entry [OF pattern _ n32(2) ne n32(1) this]
  have head: "parse_header (content_bytes enc) lim =
      Inr (\<lparr>header_snapshot = bare_snapshot s, pad_count = of_nat (length ?ps), event_count = of_nat (length ?es),
        sample_count = of_nat ?n\<rparr>, entries @ concat (map event_entry ?es) @ concat (map sample_entry (table st)))"
    unfolding bs by (rule header) (simp only: bs [symmetric] size)
  have width: "unat kPadBytes = 20" "unat kEventBytes = 12" by (simp_all add: kPadBytes_def kEventBytes_def)
  note pads_taken = take_table [OF n32(2), of entries kPadBytes]
  have "length (concat (map event_entry es)) = length es * unat kEventBytes" for es
    by (induction es) (simp_all add: width)
  note events_taken = take_table [OF ne this]
  obtain sum where samples: "parse_samples hash lim ?n [] 0 (concat (map sample_entry (table st))) =
      Inr ((map parsed_of (table st), sum), [])"
    using parse_samples_table [of hash lim "[]" "table st" 0] table assms(2) inv
    by (auto simp: encodes_def)
  have t_fields: "table_pads t = map2 parsed_pad_of ?ps (pad_sample st)"
    "slots_mirror (by_slot st) (index_by_slot t) ?ps" "next_sample t = of_nat ?n"
    using t by (simp_all add: mirrors_def)
  note carried = decoded_pads_carried [OF assms(3) inv] 
  have same: "map resolved_sample (map (carried_pad hash) ?ps) = map resolved_sample ?ps"
    by (simp add: carried_pad_def)
  note events_read = events_roundtrip [OF events t_fields(2) same]
  have "validate_content hash (content_bytes enc) (content_identity enc) lim =
      Inr \<lparr>content_header = \<lparr>header_snapshot = bare_snapshot s, pad_count = of_nat (length ?ps),
          event_count = of_nat (length ?es), sample_count = of_nat ?n\<rparr>, content_pads = t,
        event_input = concat (map event_entry ?es), content_samples = map parsed_of (table st), content_pcm_bytes = sum\<rparr>"
    unfolding validate_content_def
    using fits events_read(1) carried(2) n np
    by (simp add: size identity head pads_taken events_taken len width parsed samples t_fields unat_u32_small [OF ne] unat_u32_small [OF n32(1)] unat_u32_small [OF n32(2)]
        bare_snapshot_def del: checked_then_Inr)
  then show ?thesis
    using carried(1) events_read(2) n np
    by (simp add: decoded_content_def t_fields unat_u32_small [OF ne] bare_snapshot_def carried_snapshot_def Let_def
        del: checked_then_Inr)
qed

section \<open>What the reader accepts\<close>

text \<open>The table of Pads after some entries.\<close>

definition pads_read :: "u32 \<Rightarrow> pad_table \<Rightarrow> bool" where
  "pads_read samples t \<longleftrightarrow>
     list_all (\<lambda>p. is_valid_slot (parsed_slot p) \<and> sample_index p < samples) (table_pads t) \<and>
     sorted_wrt (<) (map (\<lambda>p. slot_index (parsed_slot p)) (table_pads t)) \<and>
     (table_pads t \<noteq> [] \<longrightarrow> table_prior t = slot_index (parsed_slot (last (table_pads t)))) \<and>
     length (index_by_slot t) = 64 \<and>
     (\<forall>k < 64. index_by_slot t ! k = - 1 \<or> (\<exists>i < length (table_pads t). index_by_slot t ! k = int i \<and>
        slot_index (parsed_slot (table_pads t ! i)) = k))"

lemma parse_pad_Inr:
  assumes "parse_pad samples t input = Inr (t', rest)"
  obtains p where "is_valid_slot (parsed_slot p)" "sample_index p < samples"
    "table_pads t = [] \<or> table_prior t < slot_index (parsed_slot p)"
    "table_pads t' = table_pads t @ [p]" "table_prior t' = slot_index (parsed_slot p)"
    "index_by_slot t' = (index_by_slot t)[slot_index (parsed_slot p) := int (length (table_pads t))]"
proof -
  have "\<exists>p. is_valid_slot (parsed_slot p) \<and> sample_index p < samples \<and>
    (table_pads t = [] \<or> table_prior t < slot_index (parsed_slot p)) \<and>
    table_pads t' = table_pads t @ [p] \<and> table_prior t' = slot_index (parsed_slot p) \<and>
    index_by_slot t' = (index_by_slot t)[slot_index (parsed_slot p) := int (length (table_pads t))]"
    using assms by (auto simp: parse_pad_def Let_def slot_number_Inr split: if_splits)
  then show thesis using that by blast
qed

lemma pads_read_step:
  assumes "pads_read samples t" "parse_pad samples t input = Inr (t', rest)"
  shows "pads_read samples t'"
proof -
  obtain p where p: "is_valid_slot (parsed_slot p)" "sample_index p < samples"
    "table_pads t = [] \<or> table_prior t < slot_index (parsed_slot p)"
    "table_pads t' = table_pads t @ [p]" "table_prior t' = slot_index (parsed_slot p)"
    "index_by_slot t' = (index_by_slot t)[slot_index (parsed_slot p) := int (length (table_pads t))]"
    using parse_pad_Inr [OF assms(2)] by blast
  have k: "slot_index (parsed_slot p) < 64" using p(1) by (rule slot_index_less)
  have "slot_index (parsed_slot q) < slot_index (parsed_slot p)" if q: "q \<in> set (table_pads t)" for q
  proof -
    have "slot_index (parsed_slot q) \<le> table_prior t"
      using assms(1) q by (cases "table_pads t" rule: rev_cases) (auto simp: pads_read_def sorted_wrt_append)
    with p(3) q show ?thesis by auto
  qed
  then have "sorted_wrt (<) (map (\<lambda>p. slot_index (parsed_slot p)) (table_pads t'))"
    using assms(1) by (simp add: pads_read_def p(4) sorted_wrt_append)
  moreover have "index_by_slot t' ! j = - 1 \<or> (\<exists>i < length (table_pads t'). index_by_slot t' ! j = int i \<and>
      slot_index (parsed_slot (table_pads t' ! i)) = j)" if "j < 64" for j
  proof (cases "j = slot_index (parsed_slot p)")
    case True
    then show ?thesis using assms(1) k by (auto simp: p(4,6) pads_read_def)
  next
    case False
    have "index_by_slot t ! j = - 1 \<or> (\<exists>i < length (table_pads t). index_by_slot t ! j = int i \<and>
      slot_index (parsed_slot (table_pads t ! i)) = j)"
      using assms(1) that by (simp add: pads_read_def)
    with False show ?thesis by (auto simp: p(4,6) nth_append less_Suc_eq)
  qed
  ultimately show ?thesis using assms(1) p by (simp add: pads_read_def)
qed

lemma parse_pads_read:
  assumes "parse_pads n samples t input = Inr t'" "pads_read samples t"
  shows "pads_read samples t' \<and> length (table_pads t') = length (table_pads t) + n"
  using assms
proof (induction n arbitrary: t input)
  case (Suc n)
  then obtain t1 more where one: "parse_pad samples t input = Inr (t1, more)"
    and rest: "parse_pads n samples t1 more = Inr t'" by auto
  obtain p where "table_pads t1 = table_pads t @ [p]" using parse_pad_Inr [OF one] by blast
  then show ?case using Suc.IH [OF rest pads_read_step [OF Suc.prems(2) one]] by simp
qed simp

lemma new_pads_read: "pads_read samples new_pad_table"
  by (simp add: pads_read_def new_pad_table_def)

text \<open>A sample the reader accepts.\<close>

definition parsed_ok :: "parsed_sample \<Rightarrow> bool" where
  "parsed_ok q \<longleftrightarrow> parsed_channels q \<in> {1, 2} \<and> 0 < parsed_frames q \<and>
     length (parsed_pcm q) = unat (parsed_frames q) * (unat (parsed_channels q) * 2)"

lemma take_input_length: "take_input n input = Inr (xs, rest) \<Longrightarrow> length xs = unat n"
  unfolding take_input_def by clarsimp

lemma parse_sample_ok:
  assumes "parse_sample hash lim prior pcm_total input = Inr ((q, pcm_sum), rest)"
  shows "parsed_ok q"
proof -
  obtain bytes body more where ch: "parsed_channels q = 1 \<or> parsed_channels q = 2" and frames: "0 < parsed_frames q"
    and n: "checked_then (multiply_bytes (ucast (parsed_channels q)) 2) (multiply_bytes (ucast (parsed_frames q))) = Inr bytes"
    and pcm: "take_input bytes body = Inr (parsed_pcm q, more)"
    using assms by (auto simp: parse_sample_def Let_def)
  from n have "unat bytes = unat (parsed_frames q) * (unat (parsed_channels q) * 2)"
    by (auto simp: multiply_bytes_Inr unat_product unat_ucast_up)
  moreover have "length (parsed_pcm q) = unat bytes" using pcm by (rule take_input_length)
  ultimately show ?thesis using ch frames by (simp add: parsed_ok_def)
qed

lemma parse_samples_ok:
  assumes "parse_samples hash lim n prior pcm_total input = Inr ((qs, pcm_sum), rest)" "list_all parsed_ok prior"
  shows "list_all parsed_ok qs \<and> length qs = length prior + n"
  using assms
proof (induction n arbitrary: prior pcm_total input)
  case (Suc n)
  then obtain q sum1 more where "parse_sample hash lim prior pcm_total input = Inr ((q, sum1), more)"
    and rest: "parse_samples hash lim n (prior @ [q]) sum1 more = Inr ((qs, pcm_sum), rest)" by auto
  then have "list_all parsed_ok (prior @ [q])" using parse_sample_ok Suc.prems(2) by simp
  from Suc.IH [OF rest this] show ?case by simp
qed simp

lemma length_decode_words: "length (decode_words bs) = length bs div 2"
  by (induction bs rule: decode_words.induct) simp_all

lemma owned_sample_ok:
  assumes "parsed_ok q"
  shows "pcm_ok (owned_sample q)" "pcm_frames (owned_sample q) = unat (parsed_frames q)"
proof -
  let ?f = "unat (parsed_frames q)" and ?c = "unat (parsed_channels q)"
  have c: "?c = 1 \<or> ?c = 2" and f: "0 < ?f" using assms by (auto simp: parsed_ok_def unat_gt_0)
  have "length (decode_words (parsed_pcm q)) = ?f * ?c"
    using assms by (auto simp: length_decode_words parsed_ok_def)
  then show "pcm_frames (owned_sample q) = ?f" "pcm_ok (owned_sample q)"
    using c f assms by (auto simp: pcm_frames_def pcm_ok_def owned_sample_def parsed_ok_def)
qed

lemma check_playbacks_Inr:
  "check_playbacks samples ps = Inr () \<longleftrightarrow>
     list_all (\<lambda>p. check_playback (parsed_playback p) (parsed_frames (samples ! unat (sample_index p))) = Inr ()) ps"
  by (induction ps) auto

lemma check_event_Inr:
  "check_event e loop_ticks = Inr () \<longleftrightarrow> is_valid_slot (played_slot e) \<and> valid_velocity (played_velocity e) \<and>
     0 < unat (played_duration_tick e) \<and>
     unat (played_onset_tick e) + unat (played_duration_tick e) \<le> unat loop_ticks"
proof -
  have "check_event e loop_ticks = Inr () \<longleftrightarrow> valid_pattern_event loop_ticks
      \<lparr>event_slot = played_slot e, onset_tick = played_onset_tick e, duration_tick = played_duration_tick e,
       velocity = played_velocity e\<rparr>"
    by (auto simp: check_event_def slot_number_Inr valid_pattern_event_def valid_velocity_def not_le not_less
        word_one_le word_gt_0)
  then show ?thesis by (auto simp: valid_pattern_event_nat)
qed

text \<open>The two readings of the event table agree, and every event plays the sample of its Pad.\<close>

lemma event_key_place: "event_key e = event_place e"
  by (simp add: event_key_def event_place_def slot_place_def)

lemma decode_events_read:
  assumes "parse_events n loop_ticks indices before input = Inr ()"
  shows "\<exists>es. decode_events n indices pads input = Inr es \<and>
    sorted_wrt (<) (map event_place es) \<and>
    (\<forall>b e. before = Some b \<longrightarrow> e \<in> set es \<longrightarrow> event_place b < event_place e) \<and>
    list_all (\<lambda>e. check_event e loop_ticks = Inr () \<and> 0 \<le> indices ! slot_index (played_slot e) \<and>
      played_sample e = resolved_sample (pads ! nat (indices ! slot_index (played_slot e)))) es"
  using assms
proof (induction n arbitrary: before input)
  case (Suc n)
  from Suc.prems obtain e more where e: "parse_event input = Inr (e, more)" "check_event e loop_ticks = Inr ()"
    "before = None \<or> event_key (the before) < event_key e" "is_valid_slot (played_slot e)"
    "0 \<le> indices ! slot_index (played_slot e)" and rest: "parse_events n loop_ticks indices (Some e) more = Inr ()"
    by (auto simp: slot_number_Inr)
  let ?e = "e\<lparr>played_sample := resolved_sample (pads ! nat (indices ! slot_index (played_slot e)))\<rparr>"
  have same: "check_event ?e loop_ticks = check_event e loop_ticks" "event_place ?e = event_place e"
    by (simp_all add: check_event_def event_place_def)
  obtain es where es: "decode_events n indices pads more = Inr es" "sorted_wrt (<) (map event_place es)"
    "\<forall>x \<in> set es. event_place e < event_place x"
    "list_all (\<lambda>e. check_event e loop_ticks = Inr () \<and> 0 \<le> indices ! slot_index (played_slot e) \<and>
      played_sample e = resolved_sample (pads ! nat (indices ! slot_index (played_slot e)))) es"
    using Suc.IH [OF rest] by blast
  have "decode_events (Suc n) indices pads input = Inr (?e # es)"
    using e(1,4) es(1) by (simp add: slot_number_Inr)
  moreover have "event_place b < event_place x" if "before = Some b" "x \<in> set (?e # es)" for b x
    using e(3) es(3) that same(2) by (auto simp: event_key_place intro: less_trans)
  ultimately show ?case
    using e(2,5) es same by (intro exI [of _ "?e # es"]) (auto simp: list_all_iff)
qed simp

lemma validate_content_Inr:
  assumes "validate_content hash bs expected lim = Inr v"
  shows "pads_read (sample_count (content_header v)) (content_pads v)"
    "list_all parsed_ok (content_samples v)" "length (content_samples v) = unat (sample_count (content_header v))"
    "check_playbacks (content_samples v) (table_pads (content_pads v)) = Inr ()"
    "parse_events (unat (event_count (content_header v))) (snapshot_loop_ticks (header_snapshot (content_header v)))
       (index_by_slot (content_pads v)) None (event_input v) = Inr ()"
    "length (table_pads (content_pads v)) \<le> 64"
proof -
  from assms obtain h input rest pad_input where
    head: "parse_header bs lim = Inr (h, input)"
    and pads: "parse_pads (unat (pad_count h)) (sample_count h) new_pad_table pad_input = Inr (content_pads v)"
    and samples: "parse_samples hash lim (unat (sample_count h)) [] 0 rest = Inr ((content_samples v, content_pcm_bytes v), [])"
    and v: "content_header v = h"
    and more: "check_playbacks (content_samples v) (table_pads (content_pads v)) = Inr ()"
      "parse_events (unat (event_count h)) (snapshot_loop_ticks (header_snapshot h)) (index_by_slot (content_pads v))
        None (event_input v) = Inr ()"
    unfolding validate_content_def by auto
  from head obtain n :: u64 and m k where "check_counts (ucast (pad_count h)) m k lim = Inr ()"
    by (auto simp: parse_header_def Let_def)
  then have "unat (ucast (pad_count h) :: u64) \<le> 64" by (auto simp: check_counts_def word_le_nat_alt)
  then have n: "unat (pad_count h) \<le> 64" by (simp add: unat_ucast_up)
  have t: "pads_read (sample_count h) (content_pads v) \<and> length (table_pads (content_pads v)) = unat (pad_count h)"
    using parse_pads_read [OF pads new_pads_read] by (simp add: new_pad_table_def)
  have q: "list_all parsed_ok (content_samples v) \<and> length (content_samples v) = unat (sample_count h)"
    using parse_samples_ok [OF samples] by simp
  show "pads_read (sample_count (content_header v)) (content_pads v)"
    "list_all parsed_ok (content_samples v)" "length (content_samples v) = unat (sample_count (content_header v))"
    "check_playbacks (content_samples v) (table_pads (content_pads v)) = Inr ()"
    "parse_events (unat (event_count (content_header v))) (snapshot_loop_ticks (header_snapshot (content_header v)))
       (index_by_slot (content_pads v)) None (event_input v) = Inr ()"
    "length (table_pads (content_pads v)) \<le> 64"
    using t q more n by (simp_all add: v)
qed

lemma slot_place_order:
  assumes "is_valid_slot a" "is_valid_slot b"
  shows "slot_index a < slot_index b \<longleftrightarrow> slot_place a < slot_place b"
proof -
  have "unat (pad a) < 16" "unat (pad b) < 16" using assms by (simp_all add: is_valid_slot_def word_less_nat_alt)
  then show ?thesis
    by (auto simp: slot_index_def slot_place_def less_prod_def word_less_nat_alt word_le_nat_alt less_le_not_le word_unat_eq_iff)
qed

lemma checked_playback_fits:
  assumes "check_playback r frames = Inr ()" "unat frames \<le> n"
  shows "playback_fits r n"
  using assms by (auto simp: check_playback_def playback_fits_def is_neutral_def neutral_dsp_def word_less_nat_alt
      word_le_nat_alt Let_def)

lemma validated_decodes:
  assumes "validate_content hash bs expected lim = Inr v"
  shows "\<exists>snap. decoded_content v = Inr snap \<and>
    sorted_wrt (<) (map (\<lambda>rp. slot_place (resolved_slot rp)) (snapshot_pads snap)) \<and>
    list_all pad_playable (snapshot_pads snap) \<and>
    sorted_wrt (<) (map event_place (snapshot_events snap)) \<and>
    list_all (event_playable snap) (snapshot_events snap)"
proof -
  note facts = validate_content_Inr [OF assms]
  let ?t = "content_pads v" and ?qs = "content_samples v"
  let ?ps = "table_pads ?t" and ?ix = "index_by_slot ?t"
  let ?pads = "map (decoded_pad ?qs) ?ps"
  let ?loop = "snapshot_loop_ticks (header_snapshot (content_header v))"
  obtain es where es: "decode_events (unat (event_count (content_header v))) ?ix ?pads (event_input v) = Inr es"
    "sorted_wrt (<) (map event_place es)"
    "list_all (\<lambda>e. check_event e ?loop = Inr () \<and> 0 \<le> ?ix ! slot_index (played_slot e) \<and>
      played_sample e = resolved_sample (?pads ! nat (?ix ! slot_index (played_slot e)))) es"
    using decode_events_read [OF facts(5), of ?pads] by blast
  have slots: "resolved_slot (decoded_pad ?qs p) = parsed_slot p" for p by (simp add: decoded_pad_def Let_def)
  have pads: "sorted_wrt (<) (map (\<lambda>rp. slot_place (resolved_slot rp)) ?pads)"
  proof -
    have "sorted_wrt (\<lambda>p q. slot_place (parsed_slot p) < slot_place (parsed_slot q)) ?ps"
    proof (rule sorted_wrt_mono_rel)
      show "sorted_wrt (\<lambda>p q. slot_index (parsed_slot p) < slot_index (parsed_slot q)) ?ps"
        using facts(1) by (simp add: pads_read_def sorted_wrt_map)
      show "slot_place (parsed_slot p) < slot_place (parsed_slot q)"
        if "p \<in> set ?ps" "q \<in> set ?ps" "slot_index (parsed_slot p) < slot_index (parsed_slot q)" for p q
      proof -
        have "is_valid_slot (parsed_slot p)" "is_valid_slot (parsed_slot q)"
          using facts(1) that(1,2) by (simp_all add: pads_read_def list_all_iff)
        then show ?thesis using that(3) slot_place_order by blast
      qed
    qed
    then show ?thesis by (simp add: sorted_wrt_map slots)
  qed
  have playable: "pad_playable (decoded_pad ?qs p)" if p: "p \<in> set ?ps" for p
  proof -
    let ?q = "?qs ! unat (sample_index p)"
    have "unat (sample_index p) < length ?qs"
      using facts(1,3) p by (auto simp: pads_read_def list_all_iff word_less_nat_alt)
    then have q: "parsed_ok ?q" using facts(2) by (simp add: list_all_length)
    have "check_playback (parsed_playback p) (parsed_frames ?q) = Inr ()"
      using facts(4) p by (simp add: check_playbacks_Inr list_all_iff)
    then show ?thesis
      using owned_sample_ok [OF q] by (auto simp: pad_playable_def decoded_pad_def owned_sample_def Let_def
          intro: checked_playback_fits)
  qed
  have events: "event_playable (bare_snapshot s\<lparr>snapshot_loop_ticks := ?loop, snapshot_pads := ?pads, snapshot_events := es\<rparr>) e"
    if e: "e \<in> set es" for e s
  proof -
    from es(3) e have ok: "check_event e ?loop = Inr ()" "0 \<le> ?ix ! slot_index (played_slot e)"
      "played_sample e = resolved_sample (?pads ! nat (?ix ! slot_index (played_slot e)))" by (simp_all add: list_all_iff)
    let ?k = "slot_index (played_slot e)"
    have valid: "is_valid_slot (played_slot e)" using ok(1) by (simp add: check_event_Inr)
    then have "?k < 64" by (rule slot_index_less)
    with facts(1) ok(2) obtain i where i: "i < length ?ps" "?ix ! ?k = int i" "slot_index (parsed_slot (?ps ! i)) = ?k"
      by (auto simp: pads_read_def)
    have "is_valid_slot (parsed_slot (?ps ! i))" using facts(1) i(1) by (simp add: pads_read_def list_all_length)
    with valid i(3) have "slot_place (parsed_slot (?ps ! i)) = slot_place (played_slot e)"
      using slot_place_order [of "parsed_slot (?ps ! i)" "played_slot e"] slot_place_order [of "played_slot e" "parsed_slot (?ps ! i)"]
      by (auto simp: not_less_iff_gr_or_eq)
    then have "parsed_slot (?ps ! i) = played_slot e" by (auto simp: slot_place_def intro: pad_slot_id.equality)
    then have "\<exists>rp \<in> set ?pads. resolved_slot rp = played_slot e \<and> resolved_sample rp = played_sample e"
      using i(1,2) ok(3) by (intro bexI [of _ "?pads ! i"]) (simp_all add: slots)
    with ok(1) show ?thesis by (auto simp: event_playable_def check_event_Inr)
  qed
  let ?snap = "(header_snapshot (content_header v))\<lparr>snapshot_pads := ?pads, snapshot_events := es\<rparr>"
  have "event_playable ?snap e" if "e \<in> set es" for e
    using events [OF that, of ?snap] by (simp add: event_playable_def)
  moreover have "decoded_content v = Inr ?snap" using es(1) by (simp add: decoded_content_def Let_def)
  ultimately show ?thesis
    using pads playable es(2) by (intro exI [of _ ?snap]) (auto simp: list_all_iff)
qed

text \<open>The sums of the inspector cannot overflow.\<close>

lemma footprint_ok:
  assumes "validate_content hash bs expected lim = Inr v"
  shows "\<exists>f. content_footprint bs v = Inr f"
proof -
  have sums: "\<exists>r. add_footprints qs ps prepared largest = Inr r"
    if "unat prepared + length ps * 2 ^ 34 < 2 ^ 64" for qs ps prepared largest
    using that
  proof (induction ps arbitrary: prepared largest)
    case (Cons p ps)
    let ?f = "parsed_frames (qs ! unat (sample_index p))"
    have f: "unat (ucast ?f :: u64) < 2 ^ 32" using unsigned_less [of ?f] by (simp add: unat_ucast_up)
    then have product: "multiply_bytes (ucast ?f) 4 = Inr (ucast ?f * 4)" "unat (ucast ?f * 4 :: u64) < 2 ^ 34"
      by (simp_all add: multiply_bytes_Inr unat_product)
    then have "unat prepared + unat (ucast ?f * 4 :: u64) + length ps * 2 ^ 34 < 2 ^ 64"
      using Cons.prems by simp
    then have "add_bytes prepared (ucast ?f * 4) = Inr (prepared + ucast ?f * 4)"
      "unat (prepared + ucast ?f * 4) + length ps * 2 ^ 34 < 2 ^ 64"
      by (simp_all add: add_bytes_Inr unat_sum)
    from Cons.IH [OF this(2)] this(1) product(1) show ?case by (simp del: checked_then_Inr)
  qed simp
  have "length (table_pads (content_pads v)) * 2 ^ 34 < 2 ^ 64"
    using validate_content_Inr(6) [OF assms] by simp
  then obtain r where "add_footprints (content_samples v) (table_pads (content_pads v)) 0 0 = Inr r"
    using sums [of 0] by force
  then show ?thesis by (cases r) (simp add: content_footprint_def)
qed

section \<open>The properties\<close>

text \<open>
  Property C38. What the writer accepts, the reader reads back: the same snapshot with the digest of its own
  PCM as the reference of every Pad, provided the digests of its samples differ.
\<close>

theorem runtime_content_roundtrip:
  assumes "encode_runtime_content hash s lim = Inr enc" "\<And>bs. length (hash bs) = 32" "no_collision hash s"
    "length (snapshot_pads s) < 2 ^ 64" "length (snapshot_events s) < 2 ^ 64"
  shows "decode_runtime_content hash (content_bytes enc) (content_identity enc) lim = Inr (carried_snapshot hash s)"
  using decode_encoded [of hash s lim enc] assms
  by (simp add: encode_runtime_content_def decode_runtime_content_def del: checked_then_Inr)

text \<open>One Pad with a short sample and two hits, for the concrete instances.\<close>

definition demo_hash :: "bytes \<Rightarrow> bytes" where
  "demo_hash bs = take 32 (bs @ replicate 32 0)"

definition demo_snapshot :: runtime_snapshot where
  "demo_snapshot =
    (let sample = \<lparr>sample_rate = 48000, channels = 2, interleaved = [1, - 2, 300, - 400]\<rparr>;
         slot = \<lparr>bank = 1, pad = 5\<rparr>;
         hit = (\<lambda>onset. \<lparr>played_slot = slot, played_onset_tick = onset, played_duration_tick = 240,
           played_velocity = 100, played_sample = sample\<rparr>)
     in \<lparr>snapshot_project_id = ''0198b8e2-0000-4000-8000-000000000001'',
       snapshot_pattern_id = ''0198b8e2-0000-4000-8000-0000000000b1'', snapshot_revision = 7, snapshot_bpm = 120,
       snapshot_bars = 1, snapshot_ppq = 960, snapshot_loop_ticks = 3840,
       snapshot_pads = [\<lparr>resolved_slot = slot, resolved_artifact = \<lparr>art_sha256 = [], art_media_type = [],
         art_byte_length = 0\<rparr>, resolved_sample = sample, resolved_playback_of = \<lparr>play_start_frame = 0,
         play_end_frame = 2, play_trigger_mode = TM_gate, linear_gain = 0x3F800000, play_muted = True,
         play_dsp = neutral_dsp\<rparr>\<rparr>],
       snapshot_events = [hit 0, hit 960]\<rparr>)"

definition demo_content_limits :: runtime_content_limits where
  "demo_content_limits = \<lparr>maximum_encoded_bytes = 4096, maximum_pcm_bytes = 64, maximum_sample_frames = 8,
     maximum_pads = 64, maximum_events = 16\<rparr>"

lemma demo_encodes: "is_ok (encode_runtime_content demo_hash demo_snapshot demo_content_limits)"
  by (simp add: encode_runtime_content_def encode_def encode_checks_def check_pattern_def demo_snapshot_def
      demo_content_limits_def require_def is_valid_uuid_def is_lower_hex_def check_counts_def multiply_bytes_def
      add_bytes_def kPadBytes_def kEventBytes_def kHeaderBytes_def kSampleHeaderBytes_def encode_pad_def
      check_sample_def check_playback_def mode_number_def float_finite_def float_sign_def at_most_two_def
      is_neutral_def slot_number_def is_valid_slot_def check_event_def event_key_def content_result_def
      pad_entry_def Let_def del: checked_then_Inr)

lemma demo_hash_length: "length (demo_hash bs) = 32"
  by (simp add: demo_hash_def)

lemma demo_snapshot_small: "no_collision demo_hash demo_snapshot" "length (snapshot_pads demo_snapshot) < 2 ^ 64"
  "length (snapshot_events demo_snapshot) < 2 ^ 64"
  by (simp_all add: no_collision_def demo_snapshot_def Let_def)

theorem runtime_content_roundtrip_witness:
  "\<exists>enc. encode_runtime_content demo_hash demo_snapshot demo_content_limits = Inr enc \<and>
     decode_runtime_content demo_hash (content_bytes enc) (content_identity enc) demo_content_limits =
       Inr (carried_snapshot demo_hash demo_snapshot)"
proof -
  from demo_encodes obtain enc where enc: "encode_runtime_content demo_hash demo_snapshot demo_content_limits = Inr enc"
    by (auto simp: is_ok_def split: sum.splits)
  with runtime_content_roundtrip [OF enc demo_hash_length demo_snapshot_small] show ?thesis by blast
qed

text \<open>
  Property C39. Whatever bytes it is given, the reader only returns snapshots with the guarantees of the
  cooker: Pads in ascending slot order at 48 kHz with their ranges inside the sample, events in strictly
  ascending order inside the loop, each playing the sample of its Pad.
\<close>

theorem decoded_content_sound:
  assumes "decode_runtime_content hash bs expected lim = Inr snap"
  shows "sorted_wrt (<) (map (\<lambda>rp. slot_place (resolved_slot rp)) (snapshot_pads snap)) \<and>
    list_all pad_playable (snapshot_pads snap) \<and>
    sorted_wrt (<) (map event_place (snapshot_events snap)) \<and>
    list_all (event_playable snap) (snapshot_events snap)"
proof -
  from assms obtain v where v: "validate_content hash bs expected lim = Inr v" and snap: "decoded_content v = Inr snap"
    by (auto simp: decode_runtime_content_def)
  show ?thesis using validated_decodes [OF v] snap by auto
qed

theorem decoded_content_sound_witness:
  "list_all pad_playable (snapshot_pads (carried_snapshot demo_hash demo_snapshot)) \<and>
   list_all (event_playable (carried_snapshot demo_hash demo_snapshot)) (snapshot_events (carried_snapshot demo_hash demo_snapshot))"
proof -
  from demo_encodes obtain enc where enc: "encode_runtime_content demo_hash demo_snapshot demo_content_limits = Inr enc"
    by (auto simp: is_ok_def split: sum.splits)
  have "decode_runtime_content demo_hash (content_bytes enc) (content_identity enc) demo_content_limits =
      Inr (carried_snapshot demo_hash demo_snapshot)"
    using decode_encoded [of demo_hash demo_snapshot demo_content_limits enc] enc demo_hash_length demo_snapshot_small
    by (simp add: encode_runtime_content_def decode_runtime_content_def del: checked_then_Inr)
  from decoded_content_sound [OF this] show ?thesis by blast
qed

text \<open>
  Property C40. The inspector accepts exactly the bytes the reader accepts, and refuses the others with the
  same error.
\<close>

theorem inspector_agrees_with_reader:
  "map_sum id (\<lambda>_. ()) (inspect_runtime_content hash bs expected lim) =
   map_sum id (\<lambda>_. ()) (decode_runtime_content hash bs expected lim)"
proof (cases "validate_content hash bs expected lim")
  case (Inl e)
  then show ?thesis by (simp add: inspect_runtime_content_def decode_runtime_content_def content_result_def)
next
  case (Inr v)
  then show ?thesis
    using footprint_ok [OF Inr] validated_decodes [OF Inr]
    by (auto simp: inspect_runtime_content_def decode_runtime_content_def content_result_def)
qed

end
