(* ===== verification/Transport.thy ===== *)
theory Transport
  imports Playback_Resolution
begin

text \<open>
  Musical time against audio frames (the first half of
  \<open>packages/audio-runtime/include/lmdj/audio/prepared_sample_bank.hpp\<close> and its \<open>.cpp\<close>). A position is a
  numerator over 2880000 ticks: at \<open>bpm\<close> beats a minute and 960 ticks a beat every frame of 48 kHz adds
  \<open>bpm * 960\<close>. All of it is 64-bit arithmetic with the overflow checks of the source.
\<close>

section \<open>The operations\<close>

abbreviation kTransportPpq :: u32 where "kTransportPpq \<equiv> 960"
abbreviation kTransportSampleRate :: u32 where "kTransportSampleRate \<equiv> 48000"
abbreviation kTickDenominator :: u64 where "kTickDenominator \<equiv> 2880000"

text \<open>\<open>std::numeric_limits<std::uint64_t>::max()\<close>.\<close>

definition max_u64 :: u64 where
  "max_u64 = 0xFFFFFFFFFFFFFFFF"

definition valid_bpm :: "u16 \<Rightarrow> bool" where
  "valid_bpm b = (40 \<le> b \<and> b \<le> 240)"

definition integrate_tick_numerator :: "u64 \<Rightarrow> u64 \<Rightarrow> u16 \<Rightarrow> u32 \<Rightarrow> u64 option" where
  "integrate_tick_numerator anchor frame_delta b ppq =
     (let rate = ucast b * ucast ppq
      in if rate = 0 \<or> (max_u64 - anchor) div rate < frame_delta then None
         else Some (anchor + frame_delta * rate))"

definition whole_tick :: "u64 \<Rightarrow> u64" where
  "whole_tick n = n div kTickDenominator"

record transport_anchor =
  anchor_frame :: u64
  anchor_numerator :: u64
  anchor_bpm :: u16

definition invalid_timing :: "string \<Rightarrow> error" where
  "invalid_timing msg = mk_error invalid_argument msg"

definition tick_numerator_at :: "transport_anchor \<Rightarrow> u64 \<Rightarrow> u64 result" where
  "tick_numerator_at a frame =
     (if \<not> valid_bpm (anchor_bpm a) \<or> frame < anchor_frame a then
        failure (invalid_timing ''transport anchor or frame is invalid'')
      else case integrate_tick_numerator (anchor_numerator a) (frame - anchor_frame a) (anchor_bpm a)
                  kTransportPpq of
          None \<Rightarrow> failure (invalid_timing ''transport tick numerator overflowed'')
        | Some n \<Rightarrow> success n)"

definition raw_tick_at :: "transport_anchor \<Rightarrow> u64 \<Rightarrow> u64 result" where
  "raw_tick_at a frame =
     (case tick_numerator_at a frame of Inl e \<Rightarrow> failure e | Inr n \<Rightarrow> success (whole_tick n))"

definition anchored_tick_boundary_frame :: "transport_anchor \<Rightarrow> u64 \<Rightarrow> u64 option" where
  "anchored_tick_boundary_frame a tick =
     (if \<not> valid_bpm (anchor_bpm a) \<or> max_u64 div kTickDenominator < tick then None
      else let target = tick * kTickDenominator
        in if target \<le> anchor_numerator a then Some (anchor_frame a)
           else let remaining = target - anchor_numerator a;
                    rate = ucast (anchor_bpm a) * ucast kTransportPpq;
                    frames = remaining div rate + (if remaining mod rate \<noteq> 0 then 1 else 0)
             in if max_u64 - anchor_frame a < frames then None else Some (anchor_frame a + frames))"

definition phase_matched_pattern_anchor ::
  "u64 \<Rightarrow> u64 \<Rightarrow> u64 \<Rightarrow> u64 \<Rightarrow> u16 \<Rightarrow> transport_anchor option" where
  "phase_matched_pattern_anchor frame source_numerator source_length target_length b =
     (let maximum_ticks = max_u64 div kTickDenominator
      in if \<not> valid_bpm b \<or> source_length = 0 \<or> target_length = 0 \<or>
            maximum_ticks < source_length \<or> maximum_ticks < target_length then None
         else let source_local = source_numerator mod (source_length * kTickDenominator);
                  target_local = source_local mod (target_length * kTickDenominator)
           in Some \<lparr>anchor_frame = frame, anchor_numerator = target_local, anchor_bpm = b\<rparr>)"

definition freeze_transport_bpm :: "transport_anchor \<Rightarrow> u64 \<Rightarrow> u16 \<Rightarrow> transport_anchor result" where
  "freeze_transport_bpm a frame b =
     (if \<not> valid_bpm b then failure (invalid_timing ''transport BPM is outside the supported range'')
      else case tick_numerator_at a frame of
          Inl e \<Rightarrow> failure e
        | Inr n \<Rightarrow> success \<lparr>anchor_frame = frame, anchor_numerator = n, anchor_bpm = b\<rparr>)"

definition tick_boundary_frame :: "u64 \<Rightarrow> u16 \<Rightarrow> u32 \<Rightarrow> u64 result" where
  "tick_boundary_frame tick b ppq =
     (if \<not> valid_bpm b \<or> ppq \<noteq> kTransportPpq then
        failure (invalid_timing ''tick boundary timing is invalid'')
      else if tick \<noteq> 0 \<and> max_u64 div kTickDenominator < tick then
        failure (invalid_timing ''tick boundary numerator overflowed'')
      else let numerator = tick * kTickDenominator; rate = ucast b * ucast ppq
        in success (numerator div rate + (if numerator mod rate = 0 then 0 else 1)))"

section \<open>Reading the words\<close>

abbreviation max_tick :: nat where "max_tick \<equiv> 6405119470038"

text \<open>What one frame adds.\<close>

definition tick_rate :: "u16 \<Rightarrow> nat" where
  "tick_rate b = unat b * 960"

lemma unat_below_u64: "unat (x :: u64) < 18446744073709551616"
  using unsigned_less [of x] by simp

lemma unat_room: "unat (max_u64 - x) = 18446744073709551615 - unat x"
proof -
  have "x \<le> max_u64" by (simp add: max_u64_def word_le_nat_alt) (use unat_below_u64 [of x] in simp)
  then show ?thesis by (simp add: unat_sub max_u64_def)
qed

lemma tick_limit [simp]: "max_u64 div kTickDenominator < tick \<longleftrightarrow> max_tick < unat tick"
  by (simp add: max_u64_def word_less_nat_alt unat_div)

lemma valid_bpm_bounds: "valid_bpm b \<longleftrightarrow> 40 \<le> unat b \<and> unat b \<le> 240"
  by (simp add: valid_bpm_def word_le_nat_alt)

lemma tick_rate_bounds: "valid_bpm b \<Longrightarrow> 38400 \<le> tick_rate b \<and> tick_rate b \<le> 230400"
  by (simp add: valid_bpm_bounds tick_rate_def)

lemma unat_rate:
  assumes "valid_bpm b"
  shows "unat (ucast b * ucast kTransportPpq :: u64) = tick_rate b"
proof -
  have "unat (ucast b :: u64) = unat b" by (rule unat_ucast_up) simp
  then show ?thesis using assms
    by (simp add: unat_word_ariths tick_rate_def valid_bpm_bounds)
qed

lemma unat_tick: "unat tick \<le> max_tick \<Longrightarrow> unat (tick * kTickDenominator) = unat tick * 2880000"
  for tick :: u64
  by (simp add: unat_word_ariths)

lemma unat_step: "unat n + unat d * unat r < 2 ^ 64 \<Longrightarrow> unat (n + d * r) = unat n + unat d * unat r"
  for n d r :: u64
  by (simp add: unat_word_ariths)

text \<open>Dividing upwards by a rate.\<close>

definition div_up :: "nat \<Rightarrow> nat \<Rightarrow> nat" where
  "div_up n r = (n + (r - 1)) div r"

lemma word_value_is: "unat w = k \<Longrightarrow> w = f \<longleftrightarrow> unat f = k"
  by (metis unsigned_word_eqI)

lemma unat_div_up:
  fixes n r :: u64
  assumes "1 < unat r"
  shows "unat (n div r + (if n mod r = 0 then 0 else 1)) = div_up (unat n) (unat r)"
    and "unat (n div r + (if n mod r \<noteq> 0 then 1 else 0)) = div_up (unat n) (unat r)"
proof -
  have small: "unat n div unat r + 1 < 2 ^ 64"
  proof -
    have "unat n div unat r \<le> unat n div 2" using assms by (intro div_le_mono2) simp_all
    also have "\<dots> < 2 ^ 63" using unat_below_u64 [of n] by simp
    finally show ?thesis by simp
  qed
  have "n mod r = 0 \<longleftrightarrow> unat n mod unat r = 0" by (metis unat_mod unsigned_eq_0_iff)
  then have "unat (n div r + (if n mod r = 0 then 0 else 1)) =
      unat n div unat r + (if unat n mod unat r = 0 then 0 else 1)"
    using small by (simp add: unat_word_ariths unat_div)
  also have "\<dots> = div_up (unat n) (unat r)" unfolding div_up_def using assms by (intro round_up_div) simp
  finally show "unat (n div r + (if n mod r = 0 then 0 else 1)) = div_up (unat n) (unat r)" .
  then show "unat (n div r + (if n mod r \<noteq> 0 then 1 else 0)) = div_up (unat n) (unat r)"
    by (simp split: if_splits)
qed

lemma div_up_le: "0 < r \<Longrightarrow> div_up n r \<le> g \<longleftrightarrow> n \<le> g * r" for n r g :: nat
proof -
  assume r: "0 < r"
  have "(n + (r - 1)) div r \<le> g \<longleftrightarrow> n + (r - 1) < (g + 1) * r"
    using r by (simp add: less_Suc_eq_le [symmetric] div_less_iff_less_mult)
  also have "\<dots> \<longleftrightarrow> n \<le> g * r" using r by (simp add: algebra_simps) linarith
  finally show ?thesis by (simp add: div_up_def)
qed

lemma div_up_0: "0 < r \<Longrightarrow> div_up 0 r = 0"
  by (simp add: div_up_def)

section \<open>Where the transport is\<close>

text \<open>The numerator a frame reaches, without width.\<close>

definition numerator_at :: "transport_anchor \<Rightarrow> nat \<Rightarrow> nat" where
  "numerator_at a g = unat (anchor_numerator a) + (g - unat (anchor_frame a)) * tick_rate (anchor_bpm a)"

lemma integrate_exact:
  assumes "valid_bpm b"
  shows "integrate_tick_numerator n d b kTransportPpq =
    (if unat n + unat d * tick_rate b < 2 ^ 64 then Some (n + d * (ucast b * ucast kTransportPpq)) else None)"
    and "unat n + unat d * tick_rate b < 2 ^ 64 \<Longrightarrow>
      unat (n + d * (ucast b * ucast kTransportPpq)) = unat n + unat d * tick_rate b"
proof -
  let ?r = "ucast b * ucast kTransportPpq :: u64"
  note rate = unat_rate [OF assms] and bounds = tick_rate_bounds [OF assms]
  have pos: "0 < tick_rate b" using bounds by simp
  have "?r \<noteq> 0" using rate pos by (metis unsigned_0 less_irrefl)
  moreover have "(max_u64 - n) div ?r < d \<longleftrightarrow> \<not> unat n + unat d * tick_rate b < 2 ^ 64"
  proof -
    have "(max_u64 - n) div ?r < d \<longleftrightarrow> (18446744073709551615 - unat n) div tick_rate b < unat d"
      by (simp only: word_less_nat_alt unat_div unat_room rate)
    also have "\<dots> \<longleftrightarrow> 18446744073709551615 - unat n < unat d * tick_rate b"
      using pos by (simp add: div_less_iff_less_mult)
    finally show ?thesis using unat_below_u64 [of n] by auto
  qed
  ultimately show "integrate_tick_numerator n d b kTransportPpq =
    (if unat n + unat d * tick_rate b < 2 ^ 64 then Some (n + d * ?r) else None)"
    by (simp only: integrate_tick_numerator_def Let_def) simp
  show "unat n + unat d * tick_rate b < 2 ^ 64 \<Longrightarrow> unat (n + d * ?r) = unat n + unat d * tick_rate b"
    unfolding rate [symmetric] by (rule unat_step)
qed

text \<open>The numerator is given exactly when it fits.\<close>

lemma tick_numerator_exact:
  "tick_numerator_at a g = Inr n \<longleftrightarrow> valid_bpm (anchor_bpm a) \<and> anchor_frame a \<le> g \<and>
     unat n = numerator_at a (unat g)"
proof (cases "valid_bpm (anchor_bpm a) \<and> anchor_frame a \<le> g")
  case True
  then have d: "unat (g - anchor_frame a) = unat g - unat (anchor_frame a)" by (simp add: unat_sub)
  show ?thesis
    using True integrate_exact [of "anchor_bpm a" "anchor_numerator a" "g - anchor_frame a"] unat_below_u64 [of n]
    by (auto simp: tick_numerator_at_def numerator_at_def d not_less word_unat_eq_iff
        simp del: unsigned_ucast_eq split: if_splits)
qed (auto simp: tick_numerator_at_def not_less not_le)

text \<open>The boundary of a tick is the first frame that reaches it.\<close>

lemma tick_boundary_exact:
  "tick_boundary_frame tick b ppq = Inr f \<longleftrightarrow> valid_bpm b \<and> ppq = 960 \<and> unat tick \<le> max_tick \<and>
     unat f = div_up (unat tick * 2880000) (tick_rate b)"
proof (cases "valid_bpm b \<and> ppq = 960 \<and> unat tick \<le> max_tick")
  case True
  let ?r = "ucast b * ucast kTransportPpq :: u64"
  have r: "unat ?r = tick_rate b" using unat_rate True by blast
  have "1 < unat ?r" using r tick_rate_bounds True by fastforce
  then have "unat (tick * kTickDenominator div ?r + (if tick * kTickDenominator mod ?r = 0 then 0 else 1)) =
      div_up (unat tick * 2880000) (tick_rate b)"
    using unat_div_up(1) [of ?r "tick * kTickDenominator"] r unat_tick True by simp
  moreover have "tick_boundary_frame tick b ppq =
      Inr (tick * kTickDenominator div ?r + (if tick * kTickDenominator mod ?r = 0 then 0 else 1))"
    using True by (simp add: tick_boundary_frame_def Let_def)
  ultimately have "tick_boundary_frame tick b ppq = Inr f \<longleftrightarrow>
      unat f = div_up (unat tick * 2880000) (tick_rate b)"
    by (simp add: word_value_is)
  then show ?thesis using True by blast
next
  case False
  then show ?thesis by (auto simp: tick_boundary_frame_def Let_def)
qed

lemma tick_boundary_first:
  assumes "tick_boundary_frame tick b ppq = Inr f"
  shows "unat f \<le> g \<longleftrightarrow> unat tick * 2880000 \<le> g * tick_rate b"
proof -
  have "0 < tick_rate b" using assms tick_rate_bounds [of b] by (simp add: tick_boundary_exact)
  then show ?thesis using assms by (simp add: tick_boundary_exact div_up_le)
qed

lemma tick_boundary_total:
  assumes "valid_bpm b" "unat tick \<le> max_tick"
  obtains f where "tick_boundary_frame tick b kTransportPpq = Inr f"
  using assms by (cases "tick_boundary_frame tick b kTransportPpq")
    (auto simp: tick_boundary_frame_def Let_def split: if_splits)

lemma anchored_boundary_exact:
  "anchored_tick_boundary_frame a tick = Some f \<longleftrightarrow>
     valid_bpm (anchor_bpm a) \<and> unat tick \<le> max_tick \<and>
     unat f = unat (anchor_frame a) +
       div_up (unat tick * 2880000 - unat (anchor_numerator a)) (tick_rate (anchor_bpm a))"
proof (cases "valid_bpm (anchor_bpm a) \<and> unat tick \<le> max_tick")
  case True
  let ?r = "ucast (anchor_bpm a) * ucast kTransportPpq :: u64" and ?t = "tick * kTickDenominator"
  let ?rem = "?t - anchor_numerator a"
  let ?up = "?rem div ?r + (if ?rem mod ?r \<noteq> 0 then 1 else 0)"
  have r: "unat ?r = tick_rate (anchor_bpm a)" using unat_rate True by blast
  have big: "1 < tick_rate (anchor_bpm a)" using tick_rate_bounds True by fastforce
  have t: "unat ?t = unat tick * 2880000" using unat_tick True by blast
  have eq: "anchored_tick_boundary_frame a tick =
      (if ?t \<le> anchor_numerator a then Some (anchor_frame a)
       else if max_u64 - anchor_frame a < ?up then None else Some (anchor_frame a + ?up))"
    using True by (simp add: anchored_tick_boundary_frame_def Let_def)
  show ?thesis
  proof (cases "?t \<le> anchor_numerator a")
    case le: True
    then have "unat tick * 2880000 - unat (anchor_numerator a) = 0" using t by (simp add: word_le_nat_alt)
    then show ?thesis using True le eq big by (simp add: div_up_0 word_value_is [OF refl])
  next
    case False
    then have rem: "unat ?rem = unat tick * 2880000 - unat (anchor_numerator a)"
      by (simp add: unat_sub t)
    have up: "unat ?up = div_up (unat ?rem) (unat ?r)"
      by (rule unat_div_up(2)) (use r big in simp)
    have "(if max_u64 - x < u then None else Some (x + u)) = Some f \<longleftrightarrow> unat f = unat x + unat u" for x u
      using unat_below_u64 [of f] unat_below_u64 [of x]
      by (auto simp: word_less_nat_alt unat_room unat_word_ariths intro!: word_value_is [THEN iffD2])
    then have "anchored_tick_boundary_frame a tick = Some f \<longleftrightarrow> unat f = unat (anchor_frame a) + unat ?up"
      by (simp only: eq False if_False)
    then show ?thesis using True by (simp only: up r rem) blast
  qed
next
  case False
  then show ?thesis by (auto simp: anchored_tick_boundary_frame_def)
qed

lemma boundary_from_zero:
  "tick_boundary_frame tick b kTransportPpq = Inr f \<longleftrightarrow>
     anchored_tick_boundary_frame \<lparr>anchor_frame = 0, anchor_numerator = 0, anchor_bpm = b\<rparr> tick = Some f"
  by (simp add: tick_boundary_exact anchored_boundary_exact)

lemma anchored_boundary_first:
  assumes "anchored_tick_boundary_frame a tick = Some f" "tick_numerator_at a g = Inr n"
  shows "tick \<le> whole_tick n \<longleftrightarrow> f \<le> g"
proof -
  let ?r = "tick_rate (anchor_bpm a)" and ?n = "unat (anchor_numerator a)" and ?d = "unat g - unat (anchor_frame a)"
  have v: "valid_bpm (anchor_bpm a)" and g: "unat (anchor_frame a) \<le> unat g"
    and n: "unat n = ?n + ?d * ?r"
    using assms(2) by (simp_all add: tick_numerator_exact numerator_at_def word_le_nat_alt)
  have f: "unat f = unat (anchor_frame a) + div_up (unat tick * 2880000 - ?n) ?r"
    using assms(1) by (simp add: anchored_boundary_exact)
  have "f \<le> g \<longleftrightarrow> div_up (unat tick * 2880000 - ?n) ?r \<le> ?d" using f g by (auto simp: word_le_nat_alt)
  also have "\<dots> \<longleftrightarrow> unat tick * 2880000 - ?n \<le> ?d * ?r" using tick_rate_bounds [OF v] by (simp add: div_up_le)
  also have "\<dots> \<longleftrightarrow> unat tick * 2880000 \<le> unat n" using n by auto
  also have "\<dots> \<longleftrightarrow> tick \<le> whole_tick n"
    by (simp add: whole_tick_def word_le_nat_alt unat_div less_eq_div_iff_mult_less_eq)
  finally show ?thesis by simp
qed

lemma frozen_numerator:
  assumes "freeze_transport_bpm a f b = Inr a'" "f \<le> g"
  shows "tick_numerator_at a' g = Inr n \<longleftrightarrow>
    unat n = numerator_at a (unat f) + (unat g - unat f) * tick_rate b"
proof -
  obtain m where "unat m = numerator_at a (unat f)" "valid_bpm b"
    and "a' = \<lparr>anchor_frame = f, anchor_numerator = m, anchor_bpm = b\<rparr>"
    using assms(1) by (auto simp: freeze_transport_bpm_def tick_numerator_exact split: if_splits sum.splits)
  then show ?thesis using assms(2) by (simp add: tick_numerator_exact numerator_at_def)
qed

lemma freeze_Inr:
  "freeze_transport_bpm a f b = Inr a' \<longleftrightarrow> (\<exists>n. tick_numerator_at a f = Inr n \<and> valid_bpm b \<and>
     a' = \<lparr>anchor_frame = f, anchor_numerator = n, anchor_bpm = b\<rparr>)"
  by (auto simp: freeze_transport_bpm_def split: if_splits sum.splits)

text \<open>Numerators given on both sides agree when the values they must have agree.\<close>

lemma numerators_agree:
  assumes "\<And>n. tick_numerator_at a g = Inr n \<longleftrightarrow> tick_numerator_at a' g = Inr n"
    and "valid_bpm (anchor_bpm a)" "valid_bpm (anchor_bpm a')" "anchor_frame a \<le> g" "anchor_frame a' \<le> g"
  shows "tick_numerator_at a g = tick_numerator_at a' g"
proof (cases "tick_numerator_at a g")
  case (Inr n)
  then show ?thesis using assms(1) by metis
next
  case Inl: (Inl e)
  then obtain e' where "tick_numerator_at a' g = Inl e'"
    using assms(1) by (cases "tick_numerator_at a' g") auto
  then show ?thesis using Inl assms(2-)
    by (auto simp: tick_numerator_at_def not_less split: option.splits if_splits)
qed

lemma numerator_step: "unat (anchor_frame a) \<le> f \<Longrightarrow> f \<le> g \<Longrightarrow>
    numerator_at a f + (g - f) * tick_rate (anchor_bpm a) = numerator_at a g"
  by (simp add: numerator_at_def flip: distrib_right)

lemma freeze_keeps_time:
  assumes "freeze_transport_bpm a f b = Inr a'" "f \<le> g"
  shows "tick_numerator_at a' f = tick_numerator_at a f"
    and "b = anchor_bpm a \<Longrightarrow> tick_numerator_at a' g = tick_numerator_at a g"
    and "b = anchor_bpm a \<Longrightarrow> freeze_transport_bpm a' g c = freeze_transport_bpm a g c"
proof -
  obtain n where n: "tick_numerator_at a f = Inr n" and b: "valid_bpm b"
    and a': "a' = \<lparr>anchor_frame = f, anchor_numerator = n, anchor_bpm = b\<rparr>"
    using assms(1) by (auto simp: freeze_Inr)
  have a: "valid_bpm (anchor_bpm a)" "anchor_frame a \<le> f" "unat n = numerator_at a (unat f)"
    using n by (simp_all add: tick_numerator_exact)
  have "tick_numerator_at a' f = Inr n" using b by (simp add: a' tick_numerator_exact numerator_at_def)
  then show "tick_numerator_at a' f = tick_numerator_at a f" using n by simp
  show same: "tick_numerator_at a' g = tick_numerator_at a g" if "b = anchor_bpm a"
  proof (rule numerators_agree)
    fix m
    have "numerator_at a (unat f) + (unat g - unat f) * tick_rate b = numerator_at a (unat g)"
      unfolding that using a(2) assms(2) by (intro numerator_step) (simp_all add: word_le_nat_alt)
    then show "tick_numerator_at a' g = Inr m \<longleftrightarrow> tick_numerator_at a g = Inr m"
      using frozen_numerator [OF assms] a(1,2) assms(2) by (auto simp: tick_numerator_exact [of a])
  qed (use a b a' assms(2) in auto)
  then show "freeze_transport_bpm a' g c = freeze_transport_bpm a g c" if "b = anchor_bpm a"
    using that by (simp add: freeze_transport_bpm_def)
qed

text \<open>Cutting whole loops off a position keeps its fraction of a tick.\<close>

lemma mod_times_div: "0 < d \<Longrightarrow> n mod (s * d) div d = n div d mod s" for n s d :: nat
  by (simp add: mult.commute [of s] mod_mult2_eq)

lemma phase_matched:
  assumes "phase_matched_pattern_anchor frame n source target b = Some a"
  shows "anchor_frame a = frame" "anchor_bpm a = b"
    and "unat (whole_tick (anchor_numerator a)) = unat (whole_tick n) mod unat source mod unat target"
    and "anchor_numerator a mod kTickDenominator = n mod kTickDenominator"
    and "unat (anchor_numerator a) < unat target * 2880000"
proof -
  have l: "unat source \<le> max_tick" "unat target \<le> max_tick" "0 < unat source" "0 < unat target"
    using assms by (auto simp: phase_matched_pattern_anchor_def Let_def not_less unat_gt_0 split: if_splits)
  have a: "a = \<lparr>anchor_frame = frame,
      anchor_numerator = n mod (source * kTickDenominator) mod (target * kTickDenominator), anchor_bpm = b\<rparr>"
    using assms by (simp add: phase_matched_pattern_anchor_def Let_def split: if_splits)
  then show "anchor_frame a = frame" "anchor_bpm a = b" by simp_all
  have n: "unat (anchor_numerator a) = unat n mod (unat source * 2880000) mod (unat target * 2880000)"
    using l by (simp add: a unat_mod unat_tick)
  show "unat (whole_tick (anchor_numerator a)) = unat (whole_tick n) mod unat source mod unat target"
    by (simp add: whole_tick_def unat_div n mod_times_div)
  have "unat (anchor_numerator a mod kTickDenominator) = unat (n mod kTickDenominator)"
    by (simp add: unat_mod n mod_mod_cancel)
  then show "anchor_numerator a mod kTickDenominator = n mod kTickDenominator" by (rule unsigned_word_eqI)
  show "unat (anchor_numerator a) < unat target * 2880000" using l by (simp add: n)
qed

section \<open>Properties\<close>

text \<open>
  Property C33. \<open>anchored_tick_boundary_frame\<close> gives the first frame at which its tick has been reached: at
  any later frame whose position is known the whole tick is at least that tick exactly when the frame is
  not before it. \<open>tick_boundary_frame\<close> is the case of an anchor at frame and tick zero; it fails only for a
  tempo outside 40 to 240, another resolution, or a tick whose numerator does not fit in 64 bits.
\<close>

theorem boundary_is_first_frame:
  assumes "anchored_tick_boundary_frame a tick = Some f" "tick_numerator_at a g = Inr n"
  shows "(tick \<le> whole_tick n) = (f \<le> g) \<and> raw_tick_at a g = Inr (whole_tick n) \<and>
    (tick_boundary_frame t b kTransportPpq = Inr k) =
      (anchored_tick_boundary_frame \<lparr>anchor_frame = 0, anchor_numerator = 0, anchor_bpm = b\<rparr> t = Some k) \<and>
    is_ok (tick_boundary_frame t b ppq) = (valid_bpm b \<and> ppq = kTransportPpq \<and> unat t \<le> max_tick)"
proof -
  have first: "(tick \<le> whole_tick n) = (f \<le> g)" using assms by (rule anchored_boundary_first)
  have raw: "raw_tick_at a g = Inr (whole_tick n)" using assms(2) by (simp add: raw_tick_at_def)
  have zero: "(tick_boundary_frame t b kTransportPpq = Inr k) =
      (anchored_tick_boundary_frame \<lparr>anchor_frame = 0, anchor_numerator = 0, anchor_bpm = b\<rparr> t = Some k)"
    by (rule boundary_from_zero)
  have known: "is_ok (tick_boundary_frame t b ppq) = (valid_bpm b \<and> ppq = kTransportPpq \<and> unat t \<le> max_tick)"
    by (auto simp: tick_boundary_frame_def Let_def)
  show ?thesis by (rule conjI [OF first conjI [OF raw conjI [OF zero known]]])
qed

definition demo_anchor :: transport_anchor where
  "demo_anchor = \<lparr>anchor_frame = 1000, anchor_numerator = 2880001, anchor_bpm = 120\<rparr>"

theorem boundary_is_first_frame_witness:
  "whole_tick (2880001 + 24 * 115200) = 1 \<and> ((2 :: u64) \<le> 1) = ((1025 :: u64) \<le> 1024) \<and>
   raw_tick_at demo_anchor 1024 = Inr (whole_tick (2880001 + 24 * 115200))"
proof -
  have f: "anchored_tick_boundary_frame demo_anchor 2 = Some 1025" by code_simp
  have n: "tick_numerator_at demo_anchor 1024 = Inr (2880001 + 24 * 115200)" by code_simp
  have w: "whole_tick (2880001 + 24 * 115200) = 1" by code_simp
  show ?thesis using boundary_is_first_frame [OF f n] w by simp
qed

text \<open>
  Property C34. Freezing the tempo at a frame moves the anchor there without moving the music: at that
  frame the position is the one the old anchor gives, from there it advances at the new tempo, and
  freezing at the tempo already playing changes no later position and no later freeze. A refused freeze
  is a tempo outside the range or a frame whose position is unknown, with the error of that lookup.
\<close>

theorem freeze_moves_no_time:
  assumes "freeze_transport_bpm a f b = Inr a'" "f \<le> g"
  shows "tick_numerator_at a' f = tick_numerator_at a f \<and>
    (tick_numerator_at a' g = Inr n) =
      (unat n = numerator_at a (unat f) + (unat g - unat f) * tick_rate b) \<and>
    (b = anchor_bpm a \<longrightarrow> tick_numerator_at a' g = tick_numerator_at a g \<and>
      freeze_transport_bpm a' g c = freeze_transport_bpm a g c) \<and>
    (valid_bpm c \<longrightarrow> tick_numerator_at a g = Inl e \<longrightarrow> freeze_transport_bpm a g c = Inl e)"
proof -
  have here: "tick_numerator_at a' f = tick_numerator_at a f" using assms by (rule freeze_keeps_time(1))
  have later: "(tick_numerator_at a' g = Inr n) =
      (unat n = numerator_at a (unat f) + (unat g - unat f) * tick_rate b)"
    using assms by (rule frozen_numerator)
  have same: "b = anchor_bpm a \<longrightarrow> tick_numerator_at a' g = tick_numerator_at a g \<and>
      freeze_transport_bpm a' g c = freeze_transport_bpm a g c"
    using freeze_keeps_time(2,3) [OF assms] by blast
  have refused: "valid_bpm c \<longrightarrow> tick_numerator_at a g = Inl e \<longrightarrow> freeze_transport_bpm a g c = Inl e"
    by (simp add: freeze_transport_bpm_def)
  show ?thesis by (rule conjI [OF here conjI [OF later conjI [OF same refused]]])
qed

theorem freeze_moves_no_time_witness:
  "tick_numerator_at \<lparr>anchor_frame = 1024, anchor_numerator = 5644801, anchor_bpm = 90\<rparr> 1024 =
   tick_numerator_at demo_anchor 1024"
proof -
  have "freeze_transport_bpm demo_anchor 1024 90 =
      Inr \<lparr>anchor_frame = 1024, anchor_numerator = 5644801, anchor_bpm = 90\<rparr>"
    by code_simp
  then show ?thesis using freeze_moves_no_time [OF _ order_refl] by blast
qed

text \<open>
  Switching Patterns in phase keeps the frame and the fraction of a tick, discards the
  source loops already played and wraps what is left into the target loop, so the new position lies inside it.
\<close>

lemma phase_match_exact:
  assumes "phase_matched_pattern_anchor frame n source target b = Some a"
  shows "anchor_frame a = frame \<and> anchor_bpm a = b"
    and "unat (whole_tick (anchor_numerator a)) = unat (whole_tick n) mod unat source mod unat target"
    and "anchor_numerator a mod kTickDenominator = n mod kTickDenominator"
    and "unat (anchor_numerator a) < unat target * 2880000"
  using phase_matched [OF assms] by blast+

lemma phase_match_exact_witness:
  "unat (5760007 :: u64) < unat (3840 :: u64) * 2880000"
proof -
  have "phase_matched_pattern_anchor 77 (7682 * 2880000 + 7) 7680 3840 120 =
      Some \<lparr>anchor_frame = 77, anchor_numerator = 5760007, anchor_bpm = 120\<rparr>"
    by code_simp
  from phase_match_exact(4) [OF this] show ?thesis by simp
qed

end
