(* ===== verification/Voice_Kernel.thy ===== *)
theory Voice_Kernel
  imports Playback_Resolution
begin

unbundle bit_operations_syntax

text \<open>
  The voice kernel (\<open>packages/audio-runtime/include/lmdj/audio/detail/voice_dsp.hpp\<close> and
  \<open>src/voice_dsp.cpp\<close>): what a Pad with a non-neutral voice block plays, one output frame at a time. A
  position is a Q32.32 frame in a 64-bit word, counted from the start of the trimmed region.

  C++ leaves the rounding of floating-point operations and the mathematical functions to the target, so
  the arithmetic unit is an argument, a record of the operations the code uses on IEEE bit patterns; the
  literals are the bit patterns of the source's constants.
\<close>

section \<open>Floating-point arithmetic\<close>

record fpu =
  f_add :: "u32 \<Rightarrow> u32 \<Rightarrow> u32"
  f_sub :: "u32 \<Rightarrow> u32 \<Rightarrow> u32"
  f_mul :: "u32 \<Rightarrow> u32 \<Rightarrow> u32"
  f_div :: "u32 \<Rightarrow> u32 \<Rightarrow> u32"
  f_less :: "u32 \<Rightarrow> u32 \<Rightarrow> bool"
  f_sin :: "u32 \<Rightarrow> u32"
  f_of_int :: "int \<Rightarrow> u32"
  f_to_nat :: "u32 \<Rightarrow> nat"
  d_add :: "u64 \<Rightarrow> u64 \<Rightarrow> u64"
  d_sub :: "u64 \<Rightarrow> u64 \<Rightarrow> u64"
  d_mul :: "u64 \<Rightarrow> u64 \<Rightarrow> u64"
  d_div :: "u64 \<Rightarrow> u64 \<Rightarrow> u64"
  d_sin :: "u64 \<Rightarrow> u64"
  d_cos :: "u64 \<Rightarrow> u64"
  d_pow :: "u64 \<Rightarrow> u64 \<Rightarrow> u64"
  d_sqrt :: "u64 \<Rightarrow> u64"
  d_exp2 :: "u64 \<Rightarrow> u64"
  d_of_int :: "int \<Rightarrow> u64"
  d_llround :: "u64 \<Rightarrow> int"
  d_to_float :: "u64 \<Rightarrow> u32"

text \<open>Negation flips the sign bit.\<close>

definition f_neg :: "u32 \<Rightarrow> u32" where
  "f_neg x = x XOR 0x80000000"

definition d_neg :: "u64 \<Rightarrow> u64" where
  "d_neg x = x XOR 0x8000000000000000"

abbreviation f_half :: u32 where "f_half \<equiv> 0x3F000000"
abbreviation f_one :: u32 where "f_one \<equiv> 0x3F800000"
abbreviation d_one :: u64 where "d_one \<equiv> 0x3FF0000000000000"
abbreviation d_two :: u64 where "d_two \<equiv> 0x4000000000000000"

section \<open>Envelopes\<close>

abbreviation kVoiceDspRampFrames :: u32 where "kVoiceDspRampFrames \<equiv> 96"
abbreviation kVoiceDspMaxAttackFrames :: u32 where "kVoiceDspMaxAttackFrames \<equiv> 96000"
abbreviation kVoiceDspMaxReleaseFrames :: u32 where "kVoiceDspMaxReleaseFrames \<equiv> 192000"

record voice_ramps =
  ramp_attack_frames :: u32
  ramp_attack_scale :: u32
  ramp_release_frames :: u32
  ramp_release_scale :: u32

definition voice_dsp_release_declick :: "fpu \<Rightarrow> bool \<Rightarrow> u32 \<Rightarrow> u32" where
  "voice_dsp_release_declick U releasing frames_remaining =
     (if releasing \<and> frames_remaining < kVoiceDspRampFrames then
        f_mul U (f_of_int U (uint frames_remaining)) (f_div U f_one (f_of_int U (uint kVoiceDspRampFrames)))
      else f_one)"

definition ramp_frames :: "u32 \<Rightarrow> u32" where
  "ramp_frames user = (if kVoiceDspRampFrames < user then user else kVoiceDspRampFrames)"

text \<open>The build with the voice DSP, and the one without.\<close>

definition voice_envelope :: "fpu \<Rightarrow> resolved_playback \<Rightarrow> voice_ramps" where
  "voice_envelope U p =
     (let attack = ramp_frames (dsp_attack_frames (play_dsp p));
          release = if play_trigger_mode p = TM_one_shot then kVoiceDspRampFrames
            else ramp_frames (dsp_release_frames (play_dsp p))
      in \<lparr>ramp_attack_frames = attack, ramp_attack_scale = f_div U f_one (f_of_int U (uint attack)),
          ramp_release_frames = release, ramp_release_scale = f_div U f_one (f_of_int U (uint release))\<rparr>)"

definition voice_envelope_without :: "fpu \<Rightarrow> resolved_playback \<Rightarrow> voice_ramps" where
  "voice_envelope_without U p =
     (let kScale = f_div U f_one (f_of_int U (uint kVoiceDspRampFrames))
      in \<lparr>ramp_attack_frames = kVoiceDspRampFrames, ramp_attack_scale = kScale,
          ramp_release_frames = kVoiceDspRampFrames, ramp_release_scale = kScale\<rparr>)"

section \<open>State\<close>

record voice_dsp_biquad =
  biquad_b0 :: u32
  biquad_b1 :: u32
  biquad_b2 :: u32
  biquad_a1 :: u32
  biquad_a2 :: u32

text \<open>The filter memory has two words per stage; the state keeps its enabled stages in a list.\<close>

type_synonym filter_memory = "(u32 \<times> u32) list"

record voice_state =
  voice_position :: u64
  voice_step :: u64
  voice_fade_span :: u64
  voice_start :: u32
  voice_length :: u32
  voice_loop_begin :: u32
  voice_crossfade :: u32
  voice_pan_left :: u32
  voice_pan_right :: u32
  voice_inverse_fade_span :: u32
  voice_reverse :: bool
  voice_looping :: bool
  voice_ping_pong :: bool
  voice_backwards :: bool
  voice_filters :: "voice_dsp_biquad list"

section \<open>Filter design\<close>

definition kSampleRate_d :: u64 where "kSampleRate_d = 0x40E7700000000000"
definition kTwoPi :: u64 where "kTwoPi = 0x401921FB54442D18"
definition kButterworthQ :: u64 where "kButterworthQ = 0x3FE6A09E667F3BCD"

definition normalized :: "fpu \<Rightarrow> u64 \<Rightarrow> u64 \<Rightarrow> u64 \<Rightarrow> u64 \<Rightarrow> u64 \<Rightarrow> u64 \<Rightarrow> voice_dsp_biquad" where
  "normalized U b0 b1 b2 a0 a1 a2 =
     \<lparr>biquad_b0 = d_to_float U (d_div U b0 a0), biquad_b1 = d_to_float U (d_div U b1 a0),
      biquad_b2 = d_to_float U (d_div U b2 a0), biquad_a1 = d_to_float U (d_div U a1 a0),
      biquad_a2 = d_to_float U (d_div U a2 a0)\<rparr>"

text \<open>The cosine and the alpha of a design frequency.\<close>

definition angle :: "fpu \<Rightarrow> u64 \<Rightarrow> u64 \<Rightarrow> u64 \<times> u64" where
  "angle U hz q =
     (let w0 = d_div U (d_mul U kTwoPi hz) kSampleRate_d
      in (d_cos U w0, d_div U (d_sin U w0) (d_mul U d_two q)))"

definition pass_stage :: "fpu \<Rightarrow> u64 \<Rightarrow> bool \<Rightarrow> voice_dsp_biquad" where
  "pass_stage U hz high =
     (case angle U hz kButterworthQ of (c, alpha) \<Rightarrow>
       let side = if high then d_div U (d_add U d_one c) d_two else d_div U (d_sub U d_one c) d_two
       in normalized U side (if high then d_neg (d_add U d_one c) else d_sub U d_one c) side
            (d_add U d_one alpha) (d_mul U (d_neg d_two) c) (d_sub U d_one alpha))"

definition bell_stage :: "fpu \<Rightarrow> u64 \<Rightarrow> u64 \<Rightarrow> u64 \<Rightarrow> voice_dsp_biquad" where
  "bell_stage U hz gain_db q =
     (let a = d_pow U 0x4024000000000000 (d_div U gain_db 0x4044000000000000)
      in case angle U hz q of (c, alpha) \<Rightarrow>
        normalized U (d_add U d_one (d_mul U alpha a)) (d_mul U (d_neg d_two) c)
          (d_sub U d_one (d_mul U alpha a)) (d_add U d_one (d_div U alpha a)) (d_mul U (d_neg d_two) c)
          (d_sub U d_one (d_div U alpha a)))"

definition shelf_stage :: "fpu \<Rightarrow> u64 \<Rightarrow> u64 \<Rightarrow> bool \<Rightarrow> voice_dsp_biquad" where
  "shelf_stage U hz gain_db high =
     (let a = d_pow U 0x4024000000000000 (d_div U gain_db 0x4044000000000000)
      in case angle U hz kButterworthQ of (c, alpha_q) \<Rightarrow>
        let root = d_mul U (d_mul U d_two (d_sqrt U a)) alpha_q;
            sign = if high then d_neg d_one else d_one;
            up = d_add U a d_one; down = d_sub U a d_one;
            b0 = d_mul U a (d_add U (d_sub U up (d_mul U (d_mul U sign down) c)) root);
            b1 = d_mul U (d_mul U (d_mul U sign d_two) a) (d_sub U down (d_mul U (d_mul U sign up) c));
            b2 = d_mul U a (d_sub U (d_sub U up (d_mul U (d_mul U sign down) c)) root);
            a0 = d_add U (d_add U up (d_mul U (d_mul U sign down) c)) root;
            a1 = d_mul U (d_mul U (d_neg sign) d_two) (d_add U down (d_mul U (d_mul U sign up) c));
            a2 = d_sub U (d_add U up (d_mul U (d_mul U sign down) c)) root
        in normalized U b0 b1 b2 a0 a1 a2)"

definition tone_stage :: "fpu \<Rightarrow> i8 \<Rightarrow> voice_dsp_biquad" where
  "tone_stage U t =
     (if sint t < 0 then
        pass_stage U (d_mul U 0x40D3880000000000
          (d_pow U (d_div U 0x4059000000000000 0x40D3880000000000)
            (d_div U (d_neg (d_of_int U (sint t))) 0x4059000000000000))) False
      else
        pass_stage U (d_mul U 0x4034000000000000
          (d_pow U (d_div U 0x40BF400000000000 0x4034000000000000)
            (d_div U (d_of_int U (sint t)) 0x4059000000000000))) True)"

text \<open>\<open>in_range\<close> of this file, whose arguments are promoted to \<open>int\<close>.\<close>

definition int_in_range :: "int \<Rightarrow> int \<Rightarrow> int \<Rightarrow> bool" where
  "int_in_range v low high = (low \<le> v \<and> v \<le> high)"

definition has_flag :: "u8 \<Rightarrow> u8 \<Rightarrow> bool" where
  "has_flag flags f = (flags AND f \<noteq> 0)"

definition tone_fits :: "resolved_voice_dsp \<Rightarrow> bool" where
  "tone_fits dsp =
     (let kKnownEq = kEqLow OR kEqLowCut OR kEqMid OR kEqHigh OR kEqHighCut;
          flags = dsp_eq_flags dsp;
          gain = (\<lambda>v. int_in_range (sint (v :: i16)) (- 18000) 18000)
      in if flags AND NOT kKnownEq \<noteq> 0 \<or> (has_flag flags kEqLowCut \<and> \<not> has_flag flags kEqLow) \<or>
            (has_flag flags kEqHighCut \<and> \<not> has_flag flags kEqHigh) \<or>
            \<not> int_in_range (sint (dsp_tone dsp)) (- 100) 100 then False
         else if has_flag flags kEqLow \<and>
            (\<not> int_in_range (uint (dsp_eq_low_freq_hz dsp)) 20 2000 \<or> \<not> gain (dsp_eq_low_gain_millidb dsp)) then False
         else if has_flag flags kEqMid \<and>
            (\<not> int_in_range (uint (dsp_eq_mid_freq_hz dsp)) 100 10000 \<or> \<not> gain (dsp_eq_mid_gain_millidb dsp) \<or>
             \<not> int_in_range (uint (dsp_eq_mid_q_milli dsp)) 100 10000) then False
         else \<not> has_flag flags kEqHigh \<or>
            (int_in_range (uint (dsp_eq_high_freq_hz dsp)) 1000 20000 \<and> gain (dsp_eq_high_gain_millidb dsp)))"

definition prepare_filters :: "fpu \<Rightarrow> resolved_voice_dsp \<Rightarrow> voice_dsp_biquad list" where
  "prepare_filters U dsp =
     (let db = (\<lambda>m. d_div U (d_of_int U (sint (m :: i16))) 0x408F400000000000);
          hz = (\<lambda>f. d_of_int U (uint (f :: u16)));
          flags = dsp_eq_flags dsp
      in (if sint (dsp_tone dsp) < - 2 \<or> 2 < sint (dsp_tone dsp) then [tone_stage U (dsp_tone dsp)] else []) @
         (if has_flag flags kEqLow then
            [if has_flag flags kEqLowCut then pass_stage U (hz (dsp_eq_low_freq_hz dsp)) True
             else shelf_stage U (hz (dsp_eq_low_freq_hz dsp)) (db (dsp_eq_low_gain_millidb dsp)) False] else []) @
         (if has_flag flags kEqMid then
            [bell_stage U (hz (dsp_eq_mid_freq_hz dsp)) (db (dsp_eq_mid_gain_millidb dsp))
              (d_div U (hz (dsp_eq_mid_q_milli dsp)) 0x408F400000000000)] else []) @
         (if has_flag flags kEqHigh then
            [if has_flag flags kEqHighCut then pass_stage U (hz (dsp_eq_high_freq_hz dsp)) False
             else shelf_stage U (hz (dsp_eq_high_freq_hz dsp)) (db (dsp_eq_high_gain_millidb dsp)) True] else []))"

section \<open>Starting a voice\<close>

definition voice_loops :: "trigger_mode \<Rightarrow> bool" where
  "voice_loops m = (m = TM_loop_gate \<or> m = TM_loop_toggle)"

definition kPi :: u32 where "kPi = 0x40490FDB"

definition pitch_step :: "fpu \<Rightarrow> i16 \<Rightarrow> u64" where
  "pitch_step U cents =
     (if cents = 0 then 0x100000000
      else of_int (d_llround U (d_mul U (d_exp2 U (d_div U (d_of_int U (sint cents)) 0x4092C00000000000))
        0x41F0000000000000)))"

text \<open>The gain of the left or right channel; the pan is an \<open>int\<close> after promotion.\<close>

definition pan_gain :: "fpu \<Rightarrow> int \<Rightarrow> u32" where
  "pan_gain U v = f_mul U 0x3FB504F3 (f_sin U (f_mul U (f_of_int U v) (f_div U kPi 0x43C80000)))"

text \<open>The guards of the start, in the order of the source.\<close>

definition voice_block_refused :: "resolved_playback \<Rightarrow> nat \<Rightarrow> bool" where
  "voice_block_refused p material_frames =
     (let dsp = play_dsp p; kKnownFlags = kReverse OR kPingPong;
          len = play_end_frame p - play_start_frame p
      in if play_end_frame p \<le> play_start_frame p \<or> material_frames < unat (play_end_frame p) \<or>
            dsp_flags dsp AND NOT kKnownFlags \<noteq> 0 \<or>
            sint (dsp_pitch_cents dsp) < - 2400 \<or> 2400 < sint (dsp_pitch_cents dsp) \<or>
            sint (dsp_pan dsp) < - 100 \<or> 100 < sint (dsp_pan dsp) \<or>
            kVoiceDspMaxAttackFrames < dsp_attack_frames dsp \<or>
            kVoiceDspMaxReleaseFrames < dsp_release_frames dsp \<or> \<not> tone_fits dsp then True
         else if len \<le> dsp_loop_start_offset dsp then True
         else (has_flag (dsp_flags dsp) kPingPong \<and> dsp_loop_crossfade_frames dsp \<noteq> 0) \<or>
              (len - dsp_loop_start_offset dsp) div 2 < dsp_loop_crossfade_frames dsp)"

definition started_voice :: "fpu \<Rightarrow> resolved_playback \<Rightarrow> voice_state" where
  "started_voice U p =
     (let dsp = play_dsp p; looping = voice_loops (play_trigger_mode p);
          ping_pong = looping \<and> has_flag (dsp_flags dsp) kPingPong;
          step = pitch_step U (dsp_pitch_cents dsp); fade_span = step * 96
      in \<lparr>voice_position = 0, voice_step = step, voice_fade_span = fade_span,
           voice_start = play_start_frame p, voice_length = play_end_frame p - play_start_frame p,
           voice_loop_begin = (if looping then dsp_loop_start_offset dsp else 0),
           voice_crossfade = (if looping \<and> \<not> ping_pong then dsp_loop_crossfade_frames dsp else 0),
           voice_pan_left = (if dsp_pan dsp = 0 then f_one else pan_gain U (100 - sint (dsp_pan dsp))),
           voice_pan_right = (if dsp_pan dsp = 0 then f_one else pan_gain U (100 + sint (dsp_pan dsp))),
           voice_inverse_fade_span = f_div U f_one (f_of_int U (uint fade_span)),
           voice_reverse = has_flag (dsp_flags dsp) kReverse,
           voice_looping = looping, voice_ping_pong = ping_pong, voice_backwards = False,
           voice_filters = prepare_filters U dsp\<rparr>)"

text \<open>\<open>None\<close> is the result \<open>false\<close>; the caller refuses the event.\<close>

definition prepare_voice_dsp :: "fpu \<Rightarrow> resolved_playback \<Rightarrow> nat \<Rightarrow> voice_state option" where
  "prepare_voice_dsp U p material_frames =
     (if voice_block_refused p material_frames then None else Some (started_voice U p))"

text \<open>Whether a block fits, in a build with and in one without the kernel.\<close>

definition voice_dsp_fits :: "bool \<Rightarrow> fpu \<Rightarrow> resolved_playback \<Rightarrow> nat \<Rightarrow> bool" where
  "voice_dsp_fits voice_dsp U p material_frames =
     (if \<not> voice_dsp then True
      else if is_neutral (play_dsp p) then True
      else prepare_voice_dsp U p material_frames \<noteq> None)"

section \<open>Reading\<close>

definition kQuarterSine :: "fpu \<Rightarrow> nat \<Rightarrow> u32" where
  "kQuarterSine U i =
     (if i = 0 then 0 else if i = 256 then f_one
      else f_sin U (f_div U (f_mul U (f_of_int U (int i)) (f_mul U kPi f_half)) (f_of_int U 256)))"

definition quarter_sine :: "fpu \<Rightarrow> u32 \<Rightarrow> u32" where
  "quarter_sine U t =
     (if \<not> f_less U 0 t then 0
      else if \<not> f_less U t f_one then f_one
      else let scaled = f_mul U t (f_of_int U 256); index = f_to_nat U scaled;
               fraction = f_sub U scaled (f_of_int U (int index))
        in f_add U (kQuarterSine U index)
             (f_mul U (f_sub U (kQuarterSine U (index + 1)) (kQuarterSine U index)) fraction))"

definition voice_dsp_physical_frame :: "voice_state \<Rightarrow> u32 \<Rightarrow> u32" where
  "voice_dsp_physical_frame st logical =
     (if voice_reverse st then voice_start st + (voice_length st - 1 - logical) else voice_start st + logical)"

definition voice_dsp_source_frame :: "voice_state \<Rightarrow> u32" where
  "voice_dsp_source_frame st = voice_dsp_physical_frame st (ucast (drop_bit 32 (voice_position st)))"

text \<open>The four neighbours and the cubic through them.\<close>

definition hermite :: "fpu \<Rightarrow> u32 \<Rightarrow> u32 \<Rightarrow> u32 \<Rightarrow> u32 \<Rightarrow> u32 \<Rightarrow> u32" where
  "hermite U xm1 x0 x1 x2 t =
     (let c1 = f_mul U f_half (f_sub U x1 xm1);
          c2 = f_sub U (f_add U (f_sub U xm1 (f_mul U 0x40200000 x0)) (f_mul U 0x40000000 x1)) (f_mul U f_half x2);
          c3 = f_add U (f_mul U f_half (f_sub U x2 xm1)) (f_mul U 0x3FC00000 (f_sub U x0 x1))
      in f_add U (f_mul U (f_add U (f_mul U (f_add U (f_mul U c3 t) c2) t) c1) t) x0)"

definition voice_dsp_sample_at :: "fpu \<Rightarrow> voice_state \<Rightarrow> u64 \<Rightarrow> (u32 \<Rightarrow> u32) \<Rightarrow> u32" where
  "voice_dsp_sample_at U st position fetch =
     (let whole = ucast (drop_bit 32 position) :: u32; fraction = ucast position :: u32
      in if fraction = 0 then fetch (voice_dsp_physical_frame st whole)
         else let final = voice_length st - 1;
                  previous = if whole = 0 then 0 else whole - 1;
                  following = if final \<le> whole then final else whole + 1;
                  after = if final < whole + 2 then final else whole + 2
           in hermite U (fetch (voice_dsp_physical_frame st previous)) (fetch (voice_dsp_physical_frame st whole))
                (fetch (voice_dsp_physical_frame st following)) (fetch (voice_dsp_physical_frame st after))
                (f_mul U (f_of_int U (uint fraction)) 0x2F800000))"

definition shifted :: "u32 \<Rightarrow> u64" where
  "shifted frame = push_bit 32 (ucast frame)"

definition voice_dsp_read :: "fpu \<Rightarrow> voice_state \<Rightarrow> (u32 \<Rightarrow> u32) \<Rightarrow> u32" where
  "voice_dsp_read U st fetch =
     (let tail = voice_dsp_sample_at U st (voice_position st) fetch
      in if voice_crossfade st = 0 then tail
         else let window_start = shifted (voice_length st - voice_crossfade st)
           in if voice_position st < window_start then tail
              else let into = voice_position st - window_start;
                       head_position = shifted (voice_loop_begin st) + into;
                       head = voice_dsp_sample_at U st head_position fetch;
                       t = f_div U (f_of_int U (uint into)) (f_of_int U (uint (shifted (voice_crossfade st))))
                in f_add U (f_mul U tail (quarter_sine U (f_sub U f_one t))) (f_mul U head (quarter_sine U t)))"

definition voice_dsp_end_fade :: "fpu \<Rightarrow> voice_state \<Rightarrow> u32" where
  "voice_dsp_end_fade U st =
     (if voice_looping st then f_one
      else let remaining = shifted (voice_length st) - voice_position st
        in if voice_fade_span st \<le> remaining then f_one
           else f_mul U (f_of_int U (uint remaining)) (voice_inverse_fade_span st))"

section \<open>Filters\<close>

text \<open>One stage (transposed direct form II), then the enabled stages in order over their memory.\<close>

definition filter_stage :: "fpu \<Rightarrow> voice_dsp_biquad \<Rightarrow> u32 \<times> u32 \<Rightarrow> u32 \<Rightarrow> (u32 \<times> u32) \<times> u32" where
  "filter_stage U f z sample =
     (let output = f_add U (f_mul U (biquad_b0 f) sample) (fst z)
      in ((f_add U (f_sub U (f_mul U (biquad_b1 f) sample) (f_mul U (biquad_a1 f) output)) (snd z),
           f_sub U (f_mul U (biquad_b2 f) sample) (f_mul U (biquad_a2 f) output)), output))"

fun run_filters :: "fpu \<Rightarrow> voice_dsp_biquad list \<Rightarrow> filter_memory \<Rightarrow> u32 \<Rightarrow> filter_memory \<times> u32" where
  "run_filters U (f # fs) (z # zs) sample =
     (case filter_stage U f z sample of (z', out) \<Rightarrow>
       (case run_filters U fs zs out of (zs', result) \<Rightarrow> (z' # zs', result)))"
| "run_filters U _ zs sample = (zs, sample)"

definition voice_dsp_filter :: "fpu \<Rightarrow> voice_state \<Rightarrow> filter_memory \<Rightarrow> u32 \<Rightarrow> filter_memory \<times> u32" where
  "voice_dsp_filter U st memory sample = run_filters U (voice_filters st) memory sample"

definition flush_word :: "fpu \<Rightarrow> u32 \<Rightarrow> u32" where
  "flush_word U w = (if f_less U w 0x1E3CE508 \<and> f_less U (f_neg 0x1E3CE508) w then 0 else w)"

definition voice_dsp_flush_filters :: "fpu \<Rightarrow> voice_state \<Rightarrow> filter_memory \<Rightarrow> filter_memory" where
  "voice_dsp_flush_filters U st memory =
     map (\<lambda>(a, b). (flush_word U a, flush_word U b)) (take (length (voice_filters st)) memory) @
     drop (length (voice_filters st)) memory"

section \<open>Advancing\<close>

text \<open>One output frame; \<open>False\<close> once a voice that does not loop has passed its last frame.\<close>

definition advance_forward :: "voice_state \<Rightarrow> bool \<times> voice_state" where
  "advance_forward st =
     (let end_pos = shifted (voice_length st); position = voice_position st + voice_step st
      in if position < end_pos then (True, st\<lparr>voice_position := position\<rparr>)
         else if \<not> voice_looping st then (False, st\<lparr>voice_position := position\<rparr>)
         else let resume = shifted (voice_loop_begin st + voice_crossfade st); cycle = end_pos - resume
           in (True, st\<lparr>voice_position := resume + (position - end_pos) mod cycle\<rparr>))"

definition advance_ping_pong :: "voice_state \<Rightarrow> voice_state" where
  "advance_ping_pong st =
     (let end_pos = shifted (voice_length st); top = end_pos - 0x100000000;
          bottom = shifted (voice_loop_begin st)
      in if top \<le> bottom then st\<lparr>voice_position := bottom\<rparr>
         else if \<not> voice_backwards st then
           (let position = voice_position st + voice_step st
            in if top < position then
                 let over = position - top
                 in st\<lparr>voice_position := if top - bottom \<le> over then bottom else top - over,
                      voice_backwards := True\<rparr>
               else st\<lparr>voice_position := position\<rparr>)
         else if voice_step st \<le> voice_position st - bottom then
           st\<lparr>voice_position := voice_position st - voice_step st\<rparr>
         else let under = voice_step st - (voice_position st - bottom)
           in st\<lparr>voice_position := if top - bottom \<le> under then top else bottom + under,
                voice_backwards := False\<rparr>)"

definition voice_dsp_advance :: "voice_state \<Rightarrow> bool \<times> voice_state" where
  "voice_dsp_advance st =
     (if \<not> voice_ping_pong st then advance_forward st else (True, advance_ping_pong st))"

end
