(* ===== verification/Prepared_Pattern.thy ===== *)
theory Prepared_Pattern
  imports Transport Voice_Kernel Cooker
begin

unbundle bit_operations_syntax

text \<open>
  Preparing a snapshot's Pattern for the audio thread (\<open>PreparedPatternView\<close> of
  \<open>packages/audio-runtime/include/lmdj/audio/prepared_sample_bank.hpp\<close> and \<open>src/prepared_sample_bank.cpp\<close>).
  Samples are shared and immutable, so a pointer to one is its value and never null here; the list of owners a
  view keeps only to hold them alive is left out. Whether the voice DSP is compiled and the arithmetic
  unit of the target are arguments, as in the voice kernel.
\<close>

section \<open>Pads\<close>

record material_view =
  view_interleaved :: "i16 list"
  view_frame_count :: u32
  view_channels :: u16

definition global_slot :: "pad_slot_id \<Rightarrow> u8" where
  "global_slot slot = bank slot * 16 + pad slot"

text \<open>\<open>playback.linear_gain >= 0.0F\<close> of a finite gain: no sign, or minus zero.\<close>

definition float_not_negative :: "u32 \<Rightarrow> bool" where
  "float_not_negative b = (\<not> float_sign b \<or> b AND 0x7FFFFFFF = 0)"

definition valid_playback :: "bool \<Rightarrow> fpu \<Rightarrow> resolved_playback \<Rightarrow> nat \<Rightarrow> bool" where
  "valid_playback voice_dsp U p frame_count =
     (play_start_frame p < play_end_frame p \<and> unat (play_end_frame p) \<le> frame_count \<and>
      listed_trigger_mode (play_trigger_mode p) \<and> float_finite (linear_gain p) \<and>
      float_not_negative (linear_gain p) \<and> voice_dsp_fits voice_dsp U p frame_count)"

record pattern_material =
  material_view_of :: material_view
  material_playback :: resolved_playback

type_synonym pattern_materials = "u8 \<Rightarrow> pattern_material option"

definition timing_failure :: "string \<Rightarrow> 'a result" where
  "timing_failure msg = failure (invalid_timing msg)"

fun gather_materials ::
  "bool \<Rightarrow> fpu \<Rightarrow> resolved_pad list \<Rightarrow> pattern_materials \<Rightarrow> pattern_materials result" where
  "gather_materials voice_dsp U [] materials = success materials"
| "gather_materials voice_dsp U (p # pads) materials =
     (let slot = global_slot (resolved_slot p); sample = resolved_sample p in
      if \<not> is_valid_slot (resolved_slot p) \<or> materials slot \<noteq> None \<or>
         sample_rate sample \<noteq> kTransportSampleRate \<or> (channels sample \<noteq> 1 \<and> channels sample \<noteq> 2) \<or>
         interleaved sample = [] \<or> length (interleaved sample) mod unat (channels sample) \<noteq> 0 then
        timing_failure ''runtime snapshot Pattern Pad is invalid''
      else let frame_count = length (interleaved sample) div unat (channels sample) in
        if 2 ^ 32 - 1 < frame_count \<or> \<not> valid_playback voice_dsp U (resolved_playback_of p) frame_count then
          timing_failure ''runtime snapshot Pattern Pad material is invalid''
        else gather_materials voice_dsp U pads (materials(slot \<mapsto>
          \<lparr>material_view_of = \<lparr>view_interleaved = interleaved sample,
             view_frame_count = of_nat frame_count, view_channels = channels sample\<rparr>,
           material_playback = resolved_playback_of p\<rparr>)))"

section \<open>Events\<close>

record prepared_event =
  prep_slot :: pad_slot_id
  prep_onset_tick :: u32
  prep_duration_tick :: u32
  prep_velocity :: u8
  prep_start_frame :: u64
  prep_release_frame :: u64
  prep_material :: material_view
  prep_playback :: resolved_playback

definition authored_event :: "resolved_event \<Rightarrow> pattern_event" where
  "authored_event e = \<lparr>event_slot = played_slot e, onset_tick = played_onset_tick e,
     duration_tick = played_duration_tick e, velocity = played_velocity e\<rparr>"

text \<open>\<open>std::tie (onset_tick, bank, pad)\<close>, compared in that order.\<close>

definition tie_key :: "pattern_event \<Rightarrow> u32 \<times> u8 \<times> u8" where
  "tie_key e = (onset_tick e, bank (event_slot e), pad (event_slot e))"

fun base_events :: "bool \<Rightarrow> pattern_event list \<Rightarrow> resolved_event list \<Rightarrow> pattern_event list result" where
  "base_events canonical base [] = success base"
| "base_events canonical base (e # es) =
     (if canonical \<and> base \<noteq> [] \<and> tie_key (authored_event e) \<le> tie_key (last base) then
        timing_failure ''runtime snapshot events are not canonical''
      else base_events canonical (base @ [authored_event e]) es)"

text \<open>The frames of an event; the release tick is added in 64 bits.\<close>

definition event_bounds :: "pattern_event \<Rightarrow> u16 \<Rightarrow> u32 \<Rightarrow> (u64 result \<times> u64 result)" where
  "event_bounds e b ppq =
     (tick_boundary_frame (ucast (onset_tick e)) b ppq,
      tick_boundary_frame (ucast (onset_tick e) + ucast (duration_tick e)) b ppq)"

fun prepare_events ::
  "runtime_snapshot \<Rightarrow> u64 \<Rightarrow> pattern_materials \<Rightarrow> pattern_event list \<Rightarrow> prepared_event list result" where
  "prepare_events snap loop_frames materials [] = success []"
| "prepare_events snap loop_frames materials (e # es) =
     (if \<not> is_valid_slot (event_slot e) \<or> velocity e < 1 \<or> 127 < velocity e \<or>
         materials (global_slot (event_slot e)) = None \<or> snapshot_loop_ticks snap \<le> onset_tick e \<or>
         duration_tick e < 1 \<or> snapshot_loop_ticks snap - onset_tick e < duration_tick e then
        timing_failure ''runtime snapshot Pattern event is invalid''
      else (case event_bounds e (snapshot_bpm snap) (snapshot_ppq snap) of
          (Inr start, Inr release) \<Rightarrow>
            if loop_frames \<le> start \<or> release \<le> start \<or> loop_frames < release then
              timing_failure ''runtime snapshot Pattern event frame is invalid''
            else let material = the (materials (global_slot (event_slot e))) in
              (case prepare_events snap loop_frames materials es of
                 Inl err \<Rightarrow> failure err
               | Inr rest \<Rightarrow> success (\<lparr>prep_slot = event_slot e, prep_onset_tick = onset_tick e,
                   prep_duration_tick = duration_tick e, prep_velocity = velocity e,
                   prep_start_frame = start, prep_release_frame = release,
                   prep_material = material_view_of material,
                   prep_playback = material_playback material\<rparr> # rest))
        | _ \<Rightarrow> timing_failure ''runtime snapshot Pattern event frame is invalid''))"

section \<open>The view\<close>

record prepared_pattern =
  view_project_id :: string
  view_pattern_id :: string
  view_revision :: u64
  view_bpm :: u16
  view_ppq :: u32
  view_loop_ticks :: u32
  view_loop_frames :: u64
  view_bar_frames :: u64
  view_events :: "prepared_event list"
  view_has_overlay :: bool

definition prepare_pattern ::
  "bool \<Rightarrow> fpu \<Rightarrow> runtime_snapshot \<Rightarrow> pattern_event list \<Rightarrow> bool \<Rightarrow> prepared_pattern result" where
  "prepare_pattern voice_dsp U snap overlay canonical =
     (if \<not> is_valid_uuid (snapshot_project_id snap) \<or> \<not> is_valid_uuid (snapshot_pattern_id snap) \<or>
         \<not> valid_bpm (snapshot_bpm snap) \<or> snapshot_ppq snap \<noteq> kTransportPpq \<or> snapshot_loop_ticks snap = 0 \<or>
         snapshot_loop_ticks snap \<noteq> pattern_length_ticks (snapshot_bars snap) then
        timing_failure ''runtime snapshot Pattern timing is invalid''
      else case gather_materials voice_dsp U (snapshot_pads snap) (\<lambda>_. None) of
          Inl err \<Rightarrow> failure err
        | Inr materials \<Rightarrow>
            (case base_events canonical [] (snapshot_events snap) of
               Inl err \<Rightarrow> failure err
             | Inr base \<Rightarrow>
                 let merged = if canonical then base else merge_pattern_events base overlay in
                 (case (tick_boundary_frame (ucast (snapshot_loop_ticks snap)) (snapshot_bpm snap) (snapshot_ppq snap),
                        tick_boundary_frame (ucast kBarTicks4x4) (snapshot_bpm snap) (snapshot_ppq snap)) of
                    (Inr loop_frames, Inr bar_frames) \<Rightarrow>
                      if loop_frames = 0 \<or> bar_frames = 0 then
                        timing_failure ''runtime snapshot Pattern frame bounds overflowed''
                      else (case prepare_events snap loop_frames materials merged of
                          Inl err \<Rightarrow> failure err
                        | Inr prepared \<Rightarrow> success \<lparr>view_project_id = snapshot_project_id snap,
                            view_pattern_id = snapshot_pattern_id snap, view_revision = snapshot_revision snap,
                            view_bpm = snapshot_bpm snap, view_ppq = snapshot_ppq snap,
                            view_loop_ticks = snapshot_loop_ticks snap, view_loop_frames = loop_frames,
                            view_bar_frames = bar_frames, view_events = prepared,
                            view_has_overlay = (overlay \<noteq> [])\<rparr>)
                  | _ \<Rightarrow> timing_failure ''runtime snapshot Pattern frame bounds overflowed'')))"

definition pattern_from_snapshot :: "bool \<Rightarrow> fpu \<Rightarrow> runtime_snapshot \<Rightarrow> prepared_pattern result" where
  "pattern_from_snapshot voice_dsp U snap = prepare_pattern voice_dsp U snap [] False"

definition from_canonical_snapshot :: "bool \<Rightarrow> fpu \<Rightarrow> runtime_snapshot \<Rightarrow> prepared_pattern result" where
  "from_canonical_snapshot voice_dsp U snap = prepare_pattern voice_dsp U snap [] True"

definition from_snapshot_with_overlay ::
  "bool \<Rightarrow> fpu \<Rightarrow> runtime_snapshot \<Rightarrow> pattern_event list \<Rightarrow> prepared_pattern result" where
  "from_snapshot_with_overlay voice_dsp U snap overlay = prepare_pattern voice_dsp U snap overlay False"

section \<open>Another tempo\<close>

fun retime_events :: "u16 \<Rightarrow> u32 \<Rightarrow> prepared_event list \<Rightarrow> prepared_event list result" where
  "retime_events b ppq [] = success []"
| "retime_events b ppq (e # es) =
     (case (tick_boundary_frame (ucast (prep_onset_tick e)) b ppq,
            tick_boundary_frame (ucast (prep_onset_tick e) + ucast (prep_duration_tick e)) b ppq) of
        (Inr start, Inr release) \<Rightarrow>
          (case retime_events b ppq es of
             Inl err \<Rightarrow> failure err
           | Inr rest \<Rightarrow> success (e\<lparr>prep_start_frame := start, prep_release_frame := release\<rparr> # rest))
      | _ \<Rightarrow> timing_failure ''Pattern tempo event bounds overflowed'')"

definition with_tempo :: "prepared_pattern \<Rightarrow> u16 \<Rightarrow> prepared_pattern result" where
  "with_tempo v b =
     (if \<not> valid_bpm b then timing_failure ''Pattern tempo must be from 40 through 240 BPM''
      else case (tick_boundary_frame (ucast (view_loop_ticks v)) b (view_ppq v),
                 tick_boundary_frame (ucast kBarTicks4x4) b (view_ppq v)) of
          (Inr loop, Inr bar) \<Rightarrow>
            (case retime_events b (view_ppq v) (view_events v) of
               Inl err \<Rightarrow> failure err
             | Inr events \<Rightarrow> success (v\<lparr>view_bpm := b, view_loop_frames := loop, view_bar_frames := bar,
                 view_events := events\<rparr>))
        | _ \<Rightarrow> timing_failure ''Pattern tempo frame bounds overflowed'')"

end
