(* ===== verification/Voice_Kernel_Laws.thy ===== *)
theory Voice_Kernel_Laws
  imports Voice_Kernel Transport
begin

unbundle bit_operations_syntax

text \<open>
  What the voice kernel guarantees: a started voice keeps its read head inside the trimmed region for as
  long as it plays, so no read leaves the material, and it plays the frames it should, in order.
\<close>

section \<open>The invariant\<close>

text \<open>
  The region, the loop and the read head of a playing voice. The bound on the length keeps a step past
  the end inside 64 bits; the largest step is that of 2400 cents.
\<close>

definition voice_ok :: "voice_state \<Rightarrow> bool" where
  "voice_ok st \<longleftrightarrow>
     unat (voice_start st) + unat (voice_length st) \<le> 4294967280 \<and>
     unat (voice_loop_begin st) < unat (voice_length st) \<and>
     unat (voice_loop_begin st) + 2 * unat (voice_crossfade st) \<le> unat (voice_length st) \<and>
     (voice_crossfade st \<noteq> 0 \<longrightarrow> voice_looping st \<and> \<not> voice_ping_pong st) \<and>
     0 < unat (voice_step st) \<and> unat (voice_step st) \<le> 17179869184 \<and>
     unat (voice_position st) < unat (voice_length st) * 4294967296 \<and>
     (voice_ping_pong st \<longrightarrow> voice_looping st \<and>
       unat (voice_position st) \<le> (unat (voice_length st) - 1) * 4294967296) \<and>
     (voice_backwards st \<longrightarrow> voice_ping_pong st \<and>
       unat (voice_loop_begin st) * 4294967296 \<le> unat (voice_position st))"

lemma unat_u32_less: "unat (x :: u32) < 4294967296"
  using unsigned_less [of x] by simp

lemma unat_shifted: "unat (shifted x) = unat x * 4294967296"
proof -
  have "unat (ucast x :: u64) = unat x" by (rule unat_ucast_up) simp
  then show ?thesis using unat_u32_less [of x]
    by (simp add: shifted_def push_bit_eq_mult unat_word_ariths)
qed

lemma unat_whole: "unat (ucast (drop_bit 32 (p :: u64)) :: u32) = unat p div 4294967296"
proof -
  have "unat p div 4294967296 < 4294967296" using unat_below_u64 [of p] by simp
  then show ?thesis by (simp add: unsigned_ucast_eq unsigned_drop_bit_eq drop_bit_eq_div unat_div take_bit_nat_eq_self)
qed

lemma fraction_zero: "(ucast (p :: u64) :: u32) = 0 \<longleftrightarrow> unat p mod 4294967296 = 0"
proof -
  have "unat (ucast p :: u32) = unat p mod 4294967296" by (simp add: unsigned_ucast_eq take_bit_eq_mod)
  then show ?thesis by (metis unsigned_eq_0_iff)
qed

lemma unat_sub_le: "y \<le> x \<Longrightarrow> unat (x - y) = unat x - unat y" for x y :: "'a::len word"
  by (rule unat_sub)

lemma unat_add_small: "unat x + unat y < 2 ^ LENGTH('a) \<Longrightarrow> unat (x + y) = unat x + unat y" for x y :: "'a::len word"
  by (simp add: unat_word_ariths)

section \<open>The read head stays inside\<close>

text \<open>The fields that do not change while a voice plays.\<close>

definition same_voice :: "voice_state \<Rightarrow> voice_state \<Rightarrow> bool" where
  "same_voice a b \<longleftrightarrow> b = a\<lparr>voice_position := voice_position b, voice_backwards := voice_backwards b\<rparr>"

lemma advance_same: "snd (voice_dsp_advance st) = st' \<Longrightarrow> same_voice st st'"
  by (auto simp: same_voice_def voice_dsp_advance_def advance_forward_def advance_ping_pong_def Let_def)

text \<open>The forward step on natural numbers.\<close>

lemma advance_forward_exact:
  fixes st :: voice_state
  defines "E \<equiv> unat (voice_length st) * 4294967296"
    and "R \<equiv> (unat (voice_loop_begin st) + unat (voice_crossfade st)) * 4294967296"
    and "q \<equiv> unat (voice_position st) + unat (voice_step st)"
  assumes ok: "voice_ok st"
  shows "fst (advance_forward st) = (q < E \<or> voice_looping st)"
    and "q < E \<or> voice_looping st \<Longrightarrow> unat (voice_position (snd (advance_forward st))) =
      (if q < E then q else R + (q - E) mod (E - R))"
    and "R < E"
proof -
  have L: "unat (voice_length st) \<le> 4294967280" "unat (voice_loop_begin st) < unat (voice_length st)"
    "unat (voice_loop_begin st) + 2 * unat (voice_crossfade st) \<le> unat (voice_length st)"
    using ok by (simp_all add: voice_ok_def)
  have BC: "unat (voice_loop_begin st) + unat (voice_crossfade st) < unat (voice_length st)"
    using L(2,3) by linarith
  then show RE: "R < E" by (simp add: R_def E_def)
  have "unat (voice_position st) < unat (voice_length st) * 4294967296" "unat (voice_step st) \<le> 17179869184"
    using ok by (simp_all add: voice_ok_def)
  then have "q < 18446744073709551616" using L(1) unfolding q_def by linarith
  then have q: "unat (voice_position st + voice_step st) = q" by (simp add: q_def unat_add_small)
  have E: "unat (shifted (voice_length st)) = E" by (simp add: unat_shifted E_def)
  have "unat (voice_loop_begin st + voice_crossfade st) = unat (voice_loop_begin st) + unat (voice_crossfade st)"
    using BC L(1) by (intro unat_add_small) simp
  then have R: "unat (shifted (voice_loop_begin st + voice_crossfade st)) = R" by (simp add: unat_shifted R_def)
  show "fst (advance_forward st) = (q < E \<or> voice_looping st)"
    by (simp add: advance_forward_def Let_def word_less_nat_alt q E)
  show "unat (voice_position (snd (advance_forward st))) = (if q < E then q else R + (q - E) mod (E - R))"
    if "q < E \<or> voice_looping st"
  proof (cases "q < E")
    case True
    then show ?thesis by (simp add: advance_forward_def Let_def word_less_nat_alt q E)
  next
    case False
    have m: "unat ((voice_position st + voice_step st - shifted (voice_length st)) mod
        (shifted (voice_length st) - shifted (voice_loop_begin st + voice_crossfade st))) = (q - E) mod (E - R)"
      using False RE by (simp add: unat_mod unat_sub_le word_le_nat_alt q E R)
    have "(q - E) mod (E - R) < E - R" using RE by simp
    then have "R + (q - E) mod (E - R) < 18446744073709551616" using RE L(1) unfolding E_def by linarith
    then show ?thesis using False that
      by (simp add: advance_forward_def Let_def word_less_nat_alt q E unat_add_small R m)
  qed
qed

text \<open>The ping-pong step on natural numbers: position and direction.\<close>

definition pong_step :: "nat \<Rightarrow> nat \<Rightarrow> nat \<Rightarrow> nat \<times> bool \<Rightarrow> nat \<times> bool" where
  "pong_step low high step = (\<lambda>(pos, back).
     if high \<le> low then (low, back)
     else if \<not> back then
       (if high < pos + step then (max low (2 * high - (pos + step)), True) else (pos + step, False))
     else if step \<le> pos - low then (pos - step, True)
     else (min high (low + (step - (pos - low))), False))"

lemma reflect_down:
  fixes b t v :: u64
  assumes "b < t" shows "unat (if t - b \<le> v then b else t - v) = max (unat b) (unat t - unat v)"
  using assms by (auto simp: word_le_nat_alt word_less_nat_alt unat_sub_le)

lemma reflect_up:
  fixes b t v :: u64
  assumes "b < t" "unat b + unat v < 18446744073709551616"
  shows "unat (if t - b \<le> v then t else b + v) = min (unat t) (unat b + unat v)"
  using assms by (auto simp: word_le_nat_alt word_less_nat_alt unat_sub_le unat_add_small)

lemma advance_ping_pong_exact:
  assumes ok: "voice_ok st" and pp: "voice_ping_pong st"
  shows "(unat (voice_position (advance_ping_pong st)), voice_backwards (advance_ping_pong st)) =
    pong_step (unat (voice_loop_begin st) * 4294967296) ((unat (voice_length st) - 1) * 4294967296)
      (unat (voice_step st)) (unat (voice_position st), voice_backwards st)"
proof -
  let ?p = "voice_position st" and ?s = "voice_step st"
  let ?top = "shifted (voice_length st) - 0x100000000" and ?bottom = "shifted (voice_loop_begin st)"
  have L: "unat (voice_length st) \<le> 4294967280" "unat (voice_loop_begin st) < unat (voice_length st)"
    using ok by (simp_all add: voice_ok_def)
  have s: "unat ?s \<le> 17179869184" and pos: "unat ?p \<le> (unat (voice_length st) - 1) * 4294967296"
    and behind: "voice_backwards st \<Longrightarrow> unat (voice_loop_begin st) * 4294967296 \<le> unat ?p"
    using ok pp by (simp_all add: voice_ok_def)
  have T: "unat ?top = (unat (voice_length st) - 1) * 4294967296"
    using L(2) by (subst unat_sub_le) (simp_all add: word_le_nat_alt unat_shifted diff_mult_distrib)
  have B: "unat ?bottom = unat (voice_loop_begin st) * 4294967296" by (rule unat_shifted)
  have up: "unat (?p + ?s) = unat ?p + unat ?s" using pos s L(1) by (intro unat_add_small) simp
  show ?thesis unfolding T [symmetric] B [symmetric]
  proof (cases "?top \<le> ?bottom")
    case True
    then show "(unat (voice_position (advance_ping_pong st)), voice_backwards (advance_ping_pong st)) =
        pong_step (unat ?bottom) (unat ?top) (unat ?s) (unat ?p, voice_backwards st)"
      by (simp add: advance_ping_pong_def pong_step_def Let_def word_le_nat_alt)
  next
    case wide: False
    then have bt: "unat ?bottom < unat ?top" by (simp add: word_le_nat_alt)
    show "(unat (voice_position (advance_ping_pong st)), voice_backwards (advance_ping_pong st)) =
        pong_step (unat ?bottom) (unat ?top) (unat ?s) (unat ?p, voice_backwards st)"
    proof (cases "voice_backwards st")
      case False
      show ?thesis
      proof (cases "?top < ?p + ?s")
        case True
        then have over: "unat (?p + ?s - ?top) = unat ?p + unat ?s - unat ?top"
          by (simp add: unat_sub_le up)
        have "unat (if ?top - ?bottom \<le> ?p + ?s - ?top then ?bottom else ?top - (?p + ?s - ?top)) =
            max (unat ?bottom) (2 * unat ?top - (unat ?p + unat ?s))"
          using bt True by (subst reflect_down) (auto simp: over word_less_nat_alt up)
        then show ?thesis using wide False True bt
          by (simp add: advance_ping_pong_def pong_step_def Let_def word_less_nat_alt up)
      next
        case stay: False
        then show ?thesis using wide bt False
          by (simp add: advance_ping_pong_def pong_step_def Let_def word_less_nat_alt up)
      qed
    next
      case True
      then have bp: "?bottom \<le> ?p" using behind by (simp add: word_le_nat_alt B)
      then have sub: "unat (?p - ?bottom) = unat ?p - unat ?bottom" by (simp add: unat_sub_le)
      show ?thesis
      proof (cases "?s \<le> ?p - ?bottom")
        case down: True
        then have "unat (?p - ?s) = unat ?p - unat ?s"
          using sub by (intro unat_sub_le) (simp add: word_le_nat_alt)
        then show ?thesis using wide bt True down
          by (simp add: advance_ping_pong_def pong_step_def Let_def word_le_nat_alt sub)
      next
        case False
        have under: "unat (?s - (?p - ?bottom)) = unat ?s - (unat ?p - unat ?bottom)"
          using False by (simp add: unat_sub_le sub)
        have "unat ?bottom + (unat ?s - (unat ?p - unat ?bottom)) < 18446744073709551616"
          using s L B by linarith
        then have "unat (if ?top - ?bottom \<le> ?s - (?p - ?bottom) then ?top else ?bottom + (?s - (?p - ?bottom))) =
            min (unat ?top) (unat ?bottom + (unat ?s - (unat ?p - unat ?bottom)))"
          using bt by (subst reflect_up) (simp_all add: under word_less_nat_alt)
        then show ?thesis using wide True False bt
          by (simp add: advance_ping_pong_def pong_step_def Let_def word_le_nat_alt sub)
      qed
    qed
  qed
qed

lemma pong_step_inside:
  assumes "low \<le> high" "fst x \<le> high" "snd x \<longrightarrow> low \<le> fst x"
  shows "fst (pong_step low high step x) \<le> high"
    and "snd (pong_step low high step x) \<longrightarrow> low \<le> fst (pong_step low high step x)"
  using assms by (auto simp: pong_step_def split: prod.splits)

lemma same_voice_fields:
  assumes "same_voice a b"
  shows "voice_step b = voice_step a" "voice_start b = voice_start a" "voice_length b = voice_length a"
    "voice_loop_begin b = voice_loop_begin a" "voice_crossfade b = voice_crossfade a"
    "voice_looping b = voice_looping a" "voice_ping_pong b = voice_ping_pong a"
    "voice_reverse b = voice_reverse a"
  using arg_cong [OF assms [unfolded same_voice_def], of voice_step]
    arg_cong [OF assms [unfolded same_voice_def], of voice_start]
    arg_cong [OF assms [unfolded same_voice_def], of voice_length]
    arg_cong [OF assms [unfolded same_voice_def], of voice_loop_begin]
    arg_cong [OF assms [unfolded same_voice_def], of voice_crossfade]
    arg_cong [OF assms [unfolded same_voice_def], of voice_looping]
    arg_cong [OF assms [unfolded same_voice_def], of voice_ping_pong]
    arg_cong [OF assms [unfolded same_voice_def], of voice_reverse] by simp_all

lemma voice_ok_advance:
  assumes ok: "voice_ok st" and adv: "voice_dsp_advance st = (True, st')"
  shows "voice_ok st'"
proof -
  have "same_voice st st'" using adv by (intro advance_same) simp
  note same = same_voice_fields [OF this]
  have B: "unat (voice_loop_begin st) < unat (voice_length st)" using ok by (simp add: voice_ok_def)
  show ?thesis
  proof (cases "voice_ping_pong st")
    case False
    note exact = advance_forward_exact [OF ok]
    let ?E = "unat (voice_length st) * 4294967296"
    let ?R = "(unat (voice_loop_begin st) + unat (voice_crossfade st)) * 4294967296"
    have f: "advance_forward st = (True, st')" using adv False by (simp add: voice_dsp_advance_def)
    have wrap: "?R + m mod (?E - ?R) < ?E" for m using exact(3) mod_less_divisor [of "?E - ?R" m] by linarith
    have "unat (voice_position st) + unat (voice_step st) < ?E \<or> voice_looping st" using exact(1) f by simp
    then have "unat (voice_position st') < ?E"
      using exact(2) f wrap by (simp del: distrib_right_numeral)
    moreover have "voice_backwards st' = voice_backwards st"
      using f by (auto simp: advance_forward_def Let_def split: if_splits)
    ultimately show ?thesis using ok False by (simp add: voice_ok_def same)
  next
    case True
    then have st': "st' = advance_ping_pong st" using adv by (simp add: voice_dsp_advance_def)
    let ?low = "unat (voice_loop_begin st) * 4294967296" and ?high = "(unat (voice_length st) - 1) * 4294967296"
    let ?x = "(unat (voice_position st), voice_backwards st)"
    have step: "(unat (voice_position st'), voice_backwards st') = pong_step ?low ?high (unat (voice_step st)) ?x"
      unfolding st' by (rule advance_ping_pong_exact [OF ok True])
    have x: "?low \<le> ?high" "fst ?x \<le> ?high" "snd ?x \<longrightarrow> ?low \<le> fst ?x"
      using ok True B by (simp_all add: voice_ok_def)
    have "unat (voice_position st') \<le> ?high" "voice_backwards st' \<longrightarrow> ?low \<le> unat (voice_position st')"
      using pong_step_inside [OF x, of "unat (voice_step st)"] unfolding step [symmetric] by simp_all
    moreover from this(1) have "unat (voice_position st') < unat (voice_length st) * 4294967296" using B by simp
    ultimately show ?thesis using ok True by (simp add: voice_ok_def same)
  qed
qed

section \<open>No read leaves the region\<close>

text \<open>Two sources of frames that agree on the trimmed region.\<close>

definition agree_on_region :: "voice_state \<Rightarrow> (u32 \<Rightarrow> u32) \<Rightarrow> (u32 \<Rightarrow> u32) \<Rightarrow> bool" where
  "agree_on_region st f g \<longleftrightarrow>
     (\<forall>i. voice_start st \<le> i \<and> unat i < unat (voice_start st) + unat (voice_length st) \<longrightarrow> f i = g i)"

lemma physical_inside:
  assumes "unat (voice_start st) + unat (voice_length st) \<le> 4294967280" "unat i < unat (voice_length st)"
  shows "unat (voice_dsp_physical_frame st i) = unat (voice_start st) +
    (if voice_reverse st then unat (voice_length st) - 1 - unat i else unat i)"
proof -
  have one: "unat (voice_length st - 1) = unat (voice_length st) - 1"
    using assms(2) by (intro unat_minus_one) auto
  have "unat (voice_length st - 1 - i) = unat (voice_length st) - 1 - unat i"
    using assms(2) one by (subst unat_sub_le) (simp_all add: word_le_nat_alt)
  then show ?thesis using assms by (simp add: voice_dsp_physical_frame_def unat_add_small)
qed

lemma fetch_agrees:
  assumes "unat (voice_start st) + unat (voice_length st) \<le> 4294967280" "agree_on_region st f g"
    "unat i < unat (voice_length st)"
  shows "f (voice_dsp_physical_frame st i) = g (voice_dsp_physical_frame st i)"
proof -
  have "unat (voice_start st) \<le> unat (voice_dsp_physical_frame st i)"
    "unat (voice_dsp_physical_frame st i) < unat (voice_start st) + unat (voice_length st)"
    using physical_inside [OF assms(1,3)] assms(3) by auto
  then show ?thesis using assms(2) by (simp add: agree_on_region_def word_le_nat_alt)
qed

lemma sample_agrees:
  assumes region: "unat (voice_start st) + unat (voice_length st) \<le> 4294967280" "agree_on_region st f g"
    and pos: "unat position < unat (voice_length st) * 4294967296"
  shows "voice_dsp_sample_at U st position f = voice_dsp_sample_at U st position g"
proof -
  let ?w = "ucast (drop_bit 32 position) :: u32" and ?last = "voice_length st - 1"
  have w: "unat ?w < unat (voice_length st)"
    using pos by (simp add: unat_whole div_less_iff_less_mult)
  have one: "unat ?last = unat (voice_length st) - 1"
    using w by (intro unat_minus_one) auto
  have small: "unat (voice_length st) \<le> 4294967280" using region(1) by linarith
  have "unat (if ?w = 0 then 0 else ?w - 1) < unat (voice_length st)"
  proof (cases "?w = 0")
    case False
    then have "unat (?w - 1) = unat ?w - 1" by (rule unat_minus_one)
    then show ?thesis using False w by simp
  qed (use w in simp)
  moreover have "unat (if ?last \<le> ?w then ?last else ?w + 1) < unat (voice_length st)"
    using w one small unat_add_small [of ?w 1] by (auto simp: word_le_nat_alt)
  moreover have "unat (if ?last < ?w + 2 then ?last else ?w + 2) < unat (voice_length st)"
    using w one small unat_add_small [of ?w 2] by (auto simp: word_less_nat_alt)
  ultimately show ?thesis using w
    by (simp add: voice_dsp_sample_at_def Let_def fetch_agrees [OF region])
qed

lemma read_agrees:
  assumes ok: "voice_ok st" and agree: "agree_on_region st f g"
  shows "voice_dsp_read U st f = voice_dsp_read U st g"
proof -
  have region: "unat (voice_start st) + unat (voice_length st) \<le> 4294967280"
    and pos: "unat (voice_position st) < unat (voice_length st) * 4294967296"
    and C: "unat (voice_loop_begin st) + 2 * unat (voice_crossfade st) \<le> unat (voice_length st)"
    using ok by (simp_all add: voice_ok_def)
  note same = sample_agrees [OF region agree]
  let ?w = "shifted (voice_length st - voice_crossfade st)"
  let ?h = "shifted (voice_loop_begin st) + (voice_position st - ?w)"
  have w: "unat ?w = (unat (voice_length st) - unat (voice_crossfade st)) * 4294967296"
    using C by (simp add: unat_shifted unat_sub_le word_le_nat_alt)
  have "voice_dsp_sample_at U st ?h f = voice_dsp_sample_at U st ?h g"
    if "\<not> voice_position st < ?w" "voice_crossfade st \<noteq> 0"
  proof (rule same)
    have into: "unat (voice_position st - ?w) = unat (voice_position st) - unat ?w"
      using that by (simp add: unat_sub_le)
    have "0 < unat (voice_crossfade st)" using that(2) by (simp add: unat_gt_0)
    moreover have "unat (voice_position st) - unat ?w < unat (voice_crossfade st) * 4294967296 \<or>
        unat (voice_position st) \<le> unat ?w"
      unfolding w using pos C by (auto simp: diff_mult_distrib)
    ultimately have "unat (voice_loop_begin st) * 4294967296 + (unat (voice_position st) - unat ?w) <
        unat (voice_length st) * 4294967296"
      using C by auto
    moreover from this have "unat ?h = unat (voice_loop_begin st) * 4294967296 + (unat (voice_position st) - unat ?w)"
      using region by (subst unat_add_small) (simp_all add: unat_shifted into)
    ultimately show "unat ?h < unat (voice_length st) * 4294967296" by simp
  qed
  then show ?thesis using same [OF pos] by (simp add: voice_dsp_read_def Let_def)
qed

section \<open>A voice over time\<close>

text \<open>The states a voice is read in, over at most so many frames, and the frames it gives.\<close>

fun voice_states :: "nat \<Rightarrow> voice_state \<Rightarrow> voice_state list" where
  "voice_states 0 st = []"
| "voice_states (Suc n) st =
     st # (case voice_dsp_advance st of (alive, st') \<Rightarrow> if alive then voice_states n st' else [])"

definition voice_frames :: "fpu \<Rightarrow> nat \<Rightarrow> voice_state \<Rightarrow> (u32 \<Rightarrow> u32) \<Rightarrow> u32 list" where
  "voice_frames U n st fetch = map (\<lambda>s. voice_dsp_read U s fetch) (voice_states n st)"

lemma same_voice_trans: "same_voice a b \<Longrightarrow> same_voice b c \<Longrightarrow> same_voice a c"
  unfolding same_voice_def by (metis (no_types, lifting) voice_state.surjective voice_state.update_convs(1,14))

lemma voice_states_ok:
  assumes "voice_ok st" "s \<in> set (voice_states n st)"
  shows "voice_ok s \<and> same_voice st s"
  using assms
proof (induction n arbitrary: st)
  case (Suc n)
  obtain alive st' where adv: "voice_dsp_advance st = (alive, st')" by fastforce
  then have same: "same_voice st st'" by (intro advance_same) simp
  have "same_voice st st" by (simp add: same_voice_def)
  moreover have "voice_ok s \<and> same_voice st s" if alive "s \<in> set (voice_states n st')"
  proof -
    have "voice_ok st'" using voice_ok_advance [OF Suc.prems(1)] adv that(1) by simp
    then show ?thesis using Suc.IH that(2) same same_voice_trans by blast
  qed
  ultimately show ?case using Suc.prems adv by (auto split: if_splits)
qed simp

lemma frames_agree:
  assumes "voice_ok st" "agree_on_region st f g"
  shows "voice_frames U n st f = voice_frames U n st g"
proof -
  have "voice_dsp_read U s f = voice_dsp_read U s g" if "s \<in> set (voice_states n st)" for s
  proof (rule read_agrees)
    show "voice_ok s" using voice_states_ok [OF assms(1) that] by blast
    have "same_voice st s" using voice_states_ok [OF assms(1) that] by blast
    then show "agree_on_region s f g" using assms(2) by (simp add: agree_on_region_def same_voice_fields)
  qed
  then show ?thesis by (simp add: voice_frames_def)
qed

section \<open>Starting\<close>

text \<open>
  The documented behaviour of \<open>std::exp2\<close> and \<open>std::llround\<close> the pitch relies on: \<open>exp2\<close> is exact at whole
  octaves and monotone, so from -2400 to 2400 cents the step lies between a quarter and four frames.
\<close>

definition steps_bounded :: "fpu \<Rightarrow> bool" where
  "steps_bounded U \<longleftrightarrow> (\<forall>c \<in> {- 2400..2400}.
     let s = d_llround U (d_mul U (d_exp2 U (d_div U (d_of_int U c) 0x4092C00000000000)) 0x41F0000000000000)
     in 1073741824 \<le> s \<and> s \<le> 17179869184)"

lemma pitch_step_bounds:
  assumes "steps_bounded U" "- 2400 \<le> sint c" "sint c \<le> 2400"
  shows "0 < unat (pitch_step U c)" "unat (pitch_step U c) \<le> 17179869184"
proof -
  define s where "s = d_llround U (d_mul U (d_exp2 U (d_div U (d_of_int U (sint c)) 0x4092C00000000000))
    0x41F0000000000000)"
  have s: "1073741824 \<le> s" "s \<le> 17179869184"
    using assms by (auto simp: steps_bounded_def s_def Let_def)
  then have "unat (of_int s :: u64) = nat s"
    by (simp add: unsigned_of_int take_bit_int_eq_self)
  then show "0 < unat (pitch_step U c)" "unat (pitch_step U c) \<le> 17179869184"
    using s by (simp_all add: pitch_step_def nat_le_iff flip: s_def)
qed

text \<open>What a started voice is, as far as its read head is concerned.\<close>

lemma not_refused:
  assumes "\<not> voice_block_refused p n"
  shows "play_start_frame p < play_end_frame p" "unat (play_end_frame p) \<le> n"
    "- 2400 \<le> sint (dsp_pitch_cents (play_dsp p))" "sint (dsp_pitch_cents (play_dsp p)) \<le> 2400"
    "dsp_loop_start_offset (play_dsp p) < play_end_frame p - play_start_frame p"
    "dsp_loop_crossfade_frames (play_dsp p) \<le>
       (play_end_frame p - play_start_frame p - dsp_loop_start_offset (play_dsp p)) div 2"
proof -
  define flags_bad where "flags_bad \<longleftrightarrow> dsp_flags (play_dsp p) AND NOT (kReverse OR kPingPong) \<noteq> 0"
  define envelope_bad where "envelope_bad \<longleftrightarrow> kVoiceDspMaxAttackFrames < dsp_attack_frames (play_dsp p) \<or>
    kVoiceDspMaxReleaseFrames < dsp_release_frames (play_dsp p) \<or> \<not> tone_fits (play_dsp p)"
  note guards = assms [unfolded voice_block_refused_def Let_def, folded flags_bad_def envelope_bad_def]
  show "play_start_frame p < play_end_frame p" "unat (play_end_frame p) \<le> n"
    "- 2400 \<le> sint (dsp_pitch_cents (play_dsp p))" "sint (dsp_pitch_cents (play_dsp p)) \<le> 2400"
    "dsp_loop_start_offset (play_dsp p) < play_end_frame p - play_start_frame p"
    "dsp_loop_crossfade_frames (play_dsp p) \<le>
       (play_end_frame p - play_start_frame p - dsp_loop_start_offset (play_dsp p)) div 2"
    using guards by (auto simp only: not_le not_less simp_thms split: if_splits)
qed

lemma started_voice_simps [simp]:
  "voice_start (started_voice U p) = play_start_frame p"
  "voice_length (started_voice U p) = play_end_frame p - play_start_frame p"
  "voice_looping (started_voice U p) = voice_loops (play_trigger_mode p)"
  "voice_position (started_voice U p) = 0" "voice_backwards (started_voice U p) = False"
  "voice_ping_pong (started_voice U p) =
    (voice_loops (play_trigger_mode p) \<and> has_flag (dsp_flags (play_dsp p)) kPingPong)"
  "voice_reverse (started_voice U p) = has_flag (dsp_flags (play_dsp p)) kReverse"
  "voice_step (started_voice U p) = pitch_step U (dsp_pitch_cents (play_dsp p))"
  "voice_loop_begin (started_voice U p) =
    (if voice_loops (play_trigger_mode p) then dsp_loop_start_offset (play_dsp p) else 0)"
  "voice_crossfade (started_voice U p) =
    (if voice_loops (play_trigger_mode p) \<and> \<not> has_flag (dsp_flags (play_dsp p)) kPingPong
     then dsp_loop_crossfade_frames (play_dsp p) else 0)"
  by (simp_all add: started_voice_def Let_def)

lemma filter_count: "length (prepare_filters U dsp) \<le> 4"
  by (simp add: prepare_filters_def Let_def)

lemma prepared_voice_ok:
  assumes "steps_bounded U" "unat (play_end_frame p) \<le> 4294967280" "prepare_voice_dsp U p n = Some st"
  shows "voice_ok st"
proof -
  let ?len = "play_end_frame p - play_start_frame p" and ?b = "dsp_loop_start_offset (play_dsp p)"
  have "\<not> voice_block_refused p n" and st: "st = started_voice U p"
    using assms(3) by (simp_all add: prepare_voice_dsp_def split: if_splits)
  note P = not_refused [OF this(1)]
  have len: "unat ?len = unat (play_end_frame p) - unat (play_start_frame p)"
    using P(1) by (simp add: unat_sub_le)
  have span: "unat (play_start_frame p) < unat (play_end_frame p)" using P(1) by (simp add: word_less_nat_alt)
  have b: "unat ?b < unat ?len" using P(5) by (simp only: word_less_nat_alt)
  then have "unat (?len - ?b) = unat ?len - unat ?b" by (intro unat_sub_le) (simp add: word_le_nat_alt)
  then have "unat (dsp_loop_crossfade_frames (play_dsp p)) \<le> (unat ?len - unat ?b) div 2"
    using P(6) by (simp add: word_le_nat_alt unat_div)
  then have "unat ?b + 2 * unat (dsp_loop_crossfade_frames (play_dsp p)) \<le> unat ?len" using b by linarith
  then show ?thesis
    using span b assms(2) pitch_step_bounds [OF assms(1) P(3,4)]
    by (simp add: voice_ok_def st len)
qed

section \<open>What a voice plays\<close>

lemma div_up_step: "0 < r \<Longrightarrow> r < n \<Longrightarrow> div_up n r = Suc (div_up (n - r) r)"
  using div_add_self2 [of r "n - r + (r - 1)"] by (simp add: div_up_def)

lemma div_up_one: "0 < n \<Longrightarrow> n \<le> r \<Longrightarrow> div_up n r = 1"
  using div_add_self2 [of r "n - 1"] by (simp add: div_up_def)

text \<open>A voice that does not loop ends after the frames its region lasts at its pitch.\<close>

lemma one_shot_states:
  assumes "voice_ok st" "\<not> voice_looping st"
  shows "length (voice_states n st) =
      min n (div_up (unat (voice_length st) * 4294967296 - unat (voice_position st)) (unat (voice_step st)))"
    and "i < length (voice_states n st) \<Longrightarrow>
      unat (voice_position (voice_states n st ! i)) = unat (voice_position st) + i * unat (voice_step st)"
proof -
  have "length (voice_states n st) =
      min n (div_up (unat (voice_length st) * 4294967296 - unat (voice_position st)) (unat (voice_step st))) \<and>
    (\<forall>i < length (voice_states n st).
      unat (voice_position (voice_states n st ! i)) = unat (voice_position st) + i * unat (voice_step st))"
    using assms
  proof (induction n arbitrary: st)
    case (Suc n)
    let ?E = "unat (voice_length st) * 4294967296" and ?p = "unat (voice_position st)" and ?s = "unat (voice_step st)"
    have pos: "?p < ?E" "0 < ?s" using Suc.prems(1) by (simp_all add: voice_ok_def)
    have "\<not> voice_ping_pong st" using Suc.prems by (auto simp: voice_ok_def)
    then have adv: "voice_dsp_advance st = advance_forward st" by (simp add: voice_dsp_advance_def)
    note exact = advance_forward_exact [OF Suc.prems(1), folded adv]
    obtain alive st' where st': "voice_dsp_advance st = (alive, st')" by fastforce
    then have "same_voice st st'" by (intro advance_same) simp
    note same = same_voice_fields [OF this]
    show ?case
    proof (cases "?p + ?s < ?E")
      case True
      then have a: alive and q: "unat (voice_position st') = ?p + ?s" using exact(1,2) st' by auto
      then have "voice_ok st'" using voice_ok_advance [OF Suc.prems(1)] st' by simp
      moreover have "\<not> voice_looping st'" using Suc.prems(2) same by simp
      ultimately have IH: "length (voice_states n st') = min n (div_up (?E - (?p + ?s)) ?s)"
        "\<forall>i < length (voice_states n st'). unat (voice_position (voice_states n st' ! i)) = ?p + ?s + i * ?s"
        using Suc.IH [of st'] q same by simp_all
      have "div_up (?E - ?p) ?s = Suc (div_up (?E - (?p + ?s)) ?s)"
        using div_up_step [of ?s "?E - ?p"] pos(2) True by simp
      then show ?thesis using IH st' a by (auto simp: nth_Cons split: nat.split)
    next
      case False
      then have "\<not> alive" using exact(1) Suc.prems(2) st' by auto
      moreover have "div_up (?E - ?p) ?s = 1" using pos False by (intro div_up_one) simp_all
      ultimately show ?thesis using st' by simp
    qed
  qed simp
  then show "length (voice_states n st) =
      min n (div_up (unat (voice_length st) * 4294967296 - unat (voice_position st)) (unat (voice_step st)))"
    and "i < length (voice_states n st) \<Longrightarrow>
      unat (voice_position (voice_states n st ! i)) = unat (voice_position st) + i * unat (voice_step st)"
    by blast+
qed

text \<open>A voice that loops never ends.\<close>

definition voice_at :: "nat \<Rightarrow> voice_state \<Rightarrow> voice_state" where
  "voice_at i st = ((\<lambda>s. snd (voice_dsp_advance s)) ^^ i) st"

lemma voice_at_Suc: "voice_at (Suc i) st = snd (voice_dsp_advance (voice_at i st))"
  by (simp add: voice_at_def)

lemma looping_alive:
  assumes "voice_looping st" shows "fst (voice_dsp_advance st)"
  using assms by (simp add: voice_dsp_advance_def advance_forward_def Let_def)

lemma voice_at_ok:
  assumes "voice_ok st" "voice_looping st"
  shows "voice_ok (voice_at i st) \<and> same_voice st (voice_at i st)"
proof (induction i)
  case 0
  then show ?case using assms by (simp add: voice_at_def same_voice_def)
next
  case (Suc i)
  let ?s = "voice_at i st"
  have "voice_looping ?s" using Suc assms(2) same_voice_fields(6) by blast
  then have "voice_dsp_advance ?s = (True, voice_at (Suc i) st)"
    using looping_alive [of ?s] by (simp add: voice_at_Suc prod_eq_iff)
  then show ?case
    using Suc voice_ok_advance [of ?s "voice_at (Suc i) st"] advance_same [of ?s "voice_at (Suc i) st"] same_voice_trans
    by auto
qed

lemma looping_states:
  assumes "voice_ok st" "voice_looping st"
  shows "voice_states n st = map (\<lambda>i. voice_at i st) [0..<n]"
  using assms
proof (induction n arbitrary: st)
  case (Suc n)
  let ?s = "snd (voice_dsp_advance st)"
  have adv: "voice_dsp_advance st = (True, ?s)" using looping_alive [OF Suc.prems(2)] by (simp add: prod_eq_iff)
  then have "voice_states n ?s = map (\<lambda>i. voice_at i ?s) [0..<n]"
    using Suc.prems(2) same_voice_fields(6) [OF advance_same [OF refl]] voice_ok_advance [OF Suc.prems(1)]
    by (intro Suc.IH) auto
  moreover have "voice_at i ?s = voice_at (Suc i) st" for i
    by (simp only: voice_at_def funpow_Suc_right comp_def)
  ultimately have "voice_states (Suc n) st = voice_at 0 st # map (\<lambda>i. voice_at (Suc i) st) [0..<n]"
    by (subst voice_states.simps, subst adv) (simp add: voice_at_def)
  also have "\<dots> = map (\<lambda>i. voice_at i st) [0..<Suc n]"
    by (simp add: upt_conv_Cons map_Suc_upt [symmetric] comp_def del: upt_Suc)
  finally show ?case .
qed simp

text \<open>
  The frame a looping voice reads at its \<open>i\<close>-th output frame, at the source rate and counted in the
  direction of play: forward it resumes at the loop point, ping-pong it turns at the last frame and at
  the loop point without repeating either.
\<close>

definition loop_cursor :: "nat \<Rightarrow> nat \<Rightarrow> nat \<Rightarrow> nat" where
  "loop_cursor b len i = (if i < len then i else b + (i - len) mod (len - b))"

definition pong_cursor :: "nat \<Rightarrow> nat \<Rightarrow> nat \<Rightarrow> nat" where
  "pong_cursor b len i =
     (let m = len - 1 - b; j = (i - (len - 1)) mod (2 * m)
      in if i < len then i else if j \<le> m then len - 1 - j else b + (j - m))"

text \<open>Whether it then moves down.\<close>

definition pong_down :: "nat \<Rightarrow> nat \<Rightarrow> nat \<Rightarrow> bool" where
  "pong_down b len i =
     (let m = len - 1 - b; j = (i - (len - 1)) mod (2 * m) in len \<le> i \<and> 0 < j \<and> j \<le> m)"

lemma loop_cursor_less: "b < len \<Longrightarrow> loop_cursor b len i < len"
  using mod_less_divisor [of "len - b" "i - len"] by (simp only: loop_cursor_def split: if_splits) linarith

lemma loop_cursor_Suc:
  assumes "b < len"
  shows "loop_cursor b len (Suc i) = (if loop_cursor b len i + 1 < len then loop_cursor b len i + 1 else b)"
proof (cases "Suc i < len")
  case True
  then show ?thesis by (simp add: loop_cursor_def)
next
  case False
  show ?thesis
  proof (cases "i < len")
    case True
    then have "len = Suc i" using False by simp
    then show ?thesis by (simp add: loop_cursor_def)
  next
    case i: False
    define r where "r = (i - len) mod (len - b)"
    have "r < len - b" using assms by (simp add: r_def)
    moreover have "(Suc i - len) mod (len - b) = (if Suc r = len - b then 0 else Suc r)"
      using i by (simp add: Suc_diff_le mod_Suc r_def)
    ultimately show ?thesis using False i assms by (auto simp: loop_cursor_def simp flip: r_def)
  qed
qed

lemma pong_cursor_Suc:
  assumes "b < len" "b \<noteq> len - 1"
  shows "pong_step b (len - 1) 1 (pong_cursor b len i, pong_down b len i) =
    (pong_cursor b len (Suc i), pong_down b len (Suc i))"
proof -
  define m where "m = len - 1 - b"
  have m: "0 < m" "len - 1 = b + m" "len = Suc (b + m)" using assms by (auto simp: m_def)
  show ?thesis
  proof (cases "i < len - 1")
    case True
    then show ?thesis using m by (auto simp: pong_step_def pong_cursor_def pong_down_def Let_def)
  next
    case False
    define j where "j = (i - (b + m)) mod (2 * m)"
    have j: "j < 2 * m" using m(1) by (simp add: j_def)
    have j': "(Suc i - (b + m)) mod (2 * m) = (if Suc j = 2 * m then 0 else Suc j)"
      using False m(2) by (simp add: j_def Suc_diff_le mod_Suc)
    have now: "pong_cursor b len i = (if j \<le> m then b + m - j else b + (j - m))"
      "pong_down b len i = (0 < j \<and> j \<le> m)"
      using False m j by (cases "i = b + m"; auto simp: pong_cursor_def pong_down_def Let_def j_def not_less)+
    have "\<not> Suc i < len" using False m by simp
    then have later: "pong_cursor b len (Suc i) = (let k = if Suc j = 2 * m then 0 else Suc j in
        if k \<le> m then b + m - k else b + (k - m))"
      "pong_down b len (Suc i) = (let k = if Suc j = 2 * m then 0 else Suc j in 0 < k \<and> k \<le> m)"
      using m j' by (simp_all add: pong_cursor_def pong_down_def Let_def)
    show ?thesis unfolding now later using m j
      by (auto simp: pong_step_def Let_def)
  qed
qed

lemma pong_step_scaled:
  assumes "0 < Q"
  shows "pong_step (b * Q) (h * Q) Q (k * Q, d) = map_prod (\<lambda>x. x * Q) id (pong_step b h 1 (k, d))"
proof -
  have "k * Q + Q = (k + 1) * Q" "2 * (h * Q) = (2 * h) * Q" by simp_all
  moreover have "k * Q - b * Q = (k - b) * Q" by (simp add: diff_mult_distrib)
  moreover have "Q \<le> (k - b) * Q \<longleftrightarrow> 1 \<le> k - b" using assms by (cases "k - b") auto
  moreover have "h * Q \<le> b * Q \<longleftrightarrow> h \<le> b" "h * Q < (k + 1) * Q \<longleftrightarrow> h < k + 1"
    using assms by (simp_all only: mult_le_cancel2 mult_less_cancel2 simp_thms)
  moreover have "(2 * h) * Q - (k + 1) * Q = (2 * h - (k + 1)) * Q" by (simp add: diff_mult_distrib)
  moreover have "max (b * Q) (x * Q) = max b x * Q" "min (h * Q) (x * Q) = min h x * Q" for x
    using assms by (simp_all add: max_def min_def)
  moreover have "b * Q + (Q - (k - b) * Q) = (b + (1 - (k - b))) * Q" "k * Q - Q = (k - 1) * Q"
    by (simp_all add: diff_mult_distrib distrib_right)
  ultimately show ?thesis unfolding pong_step_def by (simp only: prod.case map_prod_simp id_apply split: if_splits) simp
qed

text \<open>The logical frame at the \<open>i\<close>-th output frame of a looping voice.\<close>

definition cursor_of :: "voice_state \<Rightarrow> nat \<Rightarrow> nat" where
  "cursor_of st i =
     (let b = unat (voice_loop_begin st); len = unat (voice_length st)
      in if \<not> voice_ping_pong st then loop_cursor b len i
         else if b = len - 1 then (if i = 0 then 0 else b) else pong_cursor b len i)"

lemma voice_at_cursor:
  assumes ok: "voice_ok st" and loops: "voice_looping st" and step: "voice_step st = 0x100000000"
    and start: "voice_position st = 0" "\<not> voice_backwards st" "voice_crossfade st = 0"
  shows "unat (voice_position (voice_at i st)) = cursor_of st i * 4294967296"
    and "voice_ping_pong st \<Longrightarrow> unat (voice_loop_begin st) \<noteq> unat (voice_length st) - 1 \<Longrightarrow>
      voice_backwards (voice_at i st) = pong_down (unat (voice_loop_begin st)) (unat (voice_length st)) i"
proof -
  let ?b = "unat (voice_loop_begin st)" and ?len = "unat (voice_length st)"
  have b: "?b < ?len" using ok by (simp add: voice_ok_def)
  have "unat (voice_position (voice_at i st)) = cursor_of st i * 4294967296 \<and>
    (voice_ping_pong st \<and> ?b \<noteq> ?len - 1 \<longrightarrow> voice_backwards (voice_at i st) = pong_down ?b ?len i)"
  proof (induction i)
    case 0
    then show ?case using start b
      by (auto simp: voice_at_def cursor_of_def loop_cursor_def pong_cursor_def pong_down_def Let_def)
  next
    case (Suc i)
    let ?s = "voice_at i st"
    have sok: "voice_ok ?s" and "same_voice st ?s" using voice_at_ok [OF ok loops] by blast+
    note same = same_voice_fields [OF this(2)]
    show ?case
    proof (cases "voice_ping_pong st")
      case False
      then have adv: "voice_dsp_advance ?s = advance_forward ?s" using same by (simp add: voice_dsp_advance_def)
      let ?k = "loop_cursor ?b ?len i"
      have k: "unat (voice_position ?s) = ?k * 4294967296" using Suc False by (simp add: cursor_of_def Let_def)
      have "unat (voice_position (snd (advance_forward ?s))) =
          (if ?k + 1 < ?len then ?k + 1 else ?b) * 4294967296"
      proof -
        have kl: "?k < ?len" using b by (rule loop_cursor_less)
        have q: "?k * 4294967296 + 4294967296 = (?k + 1) * 4294967296" by simp
        have s: "unat (voice_step st) = 4294967296" "unat (voice_crossfade st) = 0"
          using step start(3) by simp_all
        have "unat (voice_position (snd (advance_forward ?s))) =
            (if (?k + 1) * 4294967296 < ?len * 4294967296 then (?k + 1) * 4294967296
             else (?b + 0) * 4294967296 + ((?k + 1) * 4294967296 - ?len * 4294967296) mod
               (?len * 4294967296 - (?b + 0) * 4294967296))"
          using advance_forward_exact(2) [OF sok] loops unfolding same k s q by blast
        moreover have "?k + 1 = ?len" if "\<not> ?k + 1 < ?len" using that kl by simp
        ultimately show ?thesis by (cases "?k + 1 < ?len") (simp_all del: distrib_right_numeral)
      qed
      then show ?thesis using False loop_cursor_Suc [OF b] by (simp add: voice_at_Suc adv cursor_of_def Let_def)
    next
      case True
      then have adv: "snd (voice_dsp_advance ?s) = advance_ping_pong ?s" using same by (simp add: voice_dsp_advance_def)
      let ?d = "voice_backwards ?s" and ?k = "cursor_of st i"
      have s: "unat (voice_step st) = 4294967296" using step by simp
      have "(unat (voice_position (advance_ping_pong ?s)), voice_backwards (advance_ping_pong ?s)) =
          pong_step (?b * 4294967296) ((?len - 1) * 4294967296) 4294967296 (?k * 4294967296, ?d)"
        using advance_ping_pong_exact [OF sok] True Suc unfolding same s by simp
      then have next_s: "(unat (voice_position (advance_ping_pong ?s)), voice_backwards (advance_ping_pong ?s)) =
          map_prod (\<lambda>x. x * 4294967296) id (pong_step ?b (?len - 1) 1 (?k, ?d))"
        by (simp add: pong_step_scaled)
      show ?thesis
      proof (cases "?b = ?len - 1")
        case one: True
        then have "pong_step ?b (?len - 1) 1 (?k, ?d) = (?b, ?d)" by (simp add: pong_step_def)
        then show ?thesis using True one next_s by (simp add: voice_at_Suc adv cursor_of_def Let_def)
      next
        case False
        then have "(?k, ?d) = (pong_cursor ?b ?len i, pong_down ?b ?len i)"
          using Suc True by (simp add: cursor_of_def Let_def)
        then have "pong_step ?b (?len - 1) 1 (?k, ?d) = (pong_cursor ?b ?len (Suc i), pong_down ?b ?len (Suc i))"
          using pong_cursor_Suc [OF b False] by simp
        then show ?thesis using True False next_s by (simp add: voice_at_Suc adv cursor_of_def Let_def)
      qed
    qed
  qed
  then show "unat (voice_position (voice_at i st)) = cursor_of st i * 4294967296"
    and "voice_ping_pong st \<Longrightarrow> ?b \<noteq> ?len - 1 \<Longrightarrow> voice_backwards (voice_at i st) = pong_down ?b ?len i"
    by blast+
qed

text \<open>At a whole frame outside a crossfade the sample is the frame itself.\<close>

lemma word_of_unat: "unat (x :: u32) = n \<Longrightarrow> x = of_nat n"
  by auto

lemma whole_read:
  assumes ok: "voice_ok st" and k: "unat (voice_position st) = k * 4294967296" and C: "voice_crossfade st = 0"
  shows "voice_dsp_read U st f = f (of_nat (unat (voice_start st) +
    (if voice_reverse st then unat (voice_length st) - 1 - k else k)))"
proof -
  let ?w = "ucast (drop_bit 32 (voice_position st)) :: u32"
  have region: "unat (voice_start st) + unat (voice_length st) \<le> 4294967280"
    and "k < unat (voice_length st)" and w: "unat ?w = k"
    using ok k by (simp_all add: voice_ok_def unat_whole)
  then have "unat (voice_dsp_physical_frame st ?w) =
      unat (voice_start st) + (if voice_reverse st then unat (voice_length st) - 1 - k else k)"
    using physical_inside [OF region, of ?w] by simp
  then have "voice_dsp_physical_frame st ?w =
      of_nat (unat (voice_start st) + (if voice_reverse st then unat (voice_length st) - 1 - k else k))"
    by (rule word_of_unat)
  then show ?thesis using k C by (simp add: voice_dsp_read_def voice_dsp_sample_at_def fraction_zero Let_def)
qed

text \<open>The frame of the material a logical frame of a playback is.\<close>

definition region_frame :: "resolved_playback \<Rightarrow> nat \<Rightarrow> u32" where
  "region_frame p k = of_nat (unat (play_start_frame p) +
     (if has_flag (dsp_flags (play_dsp p)) kReverse
      then unat (play_end_frame p) - unat (play_start_frame p) - 1 - k else k))"

text \<open>The logical frame at the \<open>i\<close>-th output frame of a looping playback.\<close>

definition loop_order :: "resolved_playback \<Rightarrow> nat \<Rightarrow> nat" where
  "loop_order p i =
     (let b = unat (dsp_loop_start_offset (play_dsp p));
          len = unat (play_end_frame p) - unat (play_start_frame p)
      in if \<not> has_flag (dsp_flags (play_dsp p)) kPingPong then loop_cursor b len i
         else if b = len - 1 then (if i = 0 then 0 else b) else pong_cursor b len i)"

definition looping_playback :: "resolved_playback \<Rightarrow> bool" where
  "looping_playback p \<longleftrightarrow> voice_loops (play_trigger_mode p)"

lemma prepared_facts:
  assumes "steps_bounded U" "unat (play_end_frame p) \<le> 4294967280" "prepare_voice_dsp U p n = Some st"
  shows "voice_ok st" "st = started_voice U p"
    and "unat (play_end_frame p - play_start_frame p) = unat (play_end_frame p) - unat (play_start_frame p)"
proof -
  show "voice_ok st" using assms by (rule prepared_voice_ok)
  have "\<not> voice_block_refused p n" and "st = started_voice U p"
    using assms(3) by (simp_all add: prepare_voice_dsp_def split: if_splits)
  then show "st = started_voice U p"
    and "unat (play_end_frame p - play_start_frame p) = unat (play_end_frame p) - unat (play_start_frame p)"
    using not_refused(1) [of p n] by (simp_all add: unat_sub_le)
qed

lemma one_shot_frames:
  assumes "steps_bounded U" "unat (play_end_frame p) \<le> 4294967280" "prepare_voice_dsp U p n = Some st"
    and "\<not> looping_playback p"
  shows "length (voice_frames U k st f) =
      min k (div_up ((unat (play_end_frame p) - unat (play_start_frame p)) * 4294967296)
        (unat (pitch_step U (dsp_pitch_cents (play_dsp p)))))"
    and "dsp_pitch_cents (play_dsp p) = 0 \<Longrightarrow> voice_frames U k st f =
      map (\<lambda>i. f (region_frame p i)) [0..<min k (unat (play_end_frame p) - unat (play_start_frame p))]"
proof -
  note P = prepared_facts [OF assms(1-3)]
  let ?len = "unat (play_end_frame p) - unat (play_start_frame p)"
  have loop: "\<not> voice_looping st" using assms(4) by (simp add: P(2) looping_playback_def)
  note S = one_shot_states [OF P(1) loop]
  show len: "length (voice_frames U k st f) =
      min k (div_up (?len * 4294967296) (unat (pitch_step U (dsp_pitch_cents (play_dsp p)))))"
    using S(1) [of k] by (simp add: voice_frames_def P(2,3))
  show "voice_frames U k st f = map (\<lambda>i. f (region_frame p i)) [0..<min k ?len]"
    if cents: "dsp_pitch_cents (play_dsp p) = 0"
  proof (rule nth_equalityI)
    have step: "pitch_step U (dsp_pitch_cents (play_dsp p)) = 0x100000000" using cents by (simp add: pitch_step_def)
    have up: "div_up (?len * 4294967296) 4294967296 = ?len"
    proof (rule antisym)
      show "div_up (?len * 4294967296) 4294967296 \<le> ?len" by (subst div_up_le) simp_all
      have "?len * 4294967296 \<le> div_up (?len * 4294967296) 4294967296 * 4294967296"
        using div_up_le [of 4294967296 "?len * 4294967296" "div_up (?len * 4294967296) 4294967296"] by simp
      then show "?len \<le> div_up (?len * 4294967296) 4294967296" by simp
    qed
    show n: "length (voice_frames U k st f) = length (map (\<lambda>i. f (region_frame p i)) [0..<min k ?len])"
      using len by (simp add: step up)
    fix i assume "i < length (voice_frames U k st f)"
    then have i: "i < length (voice_states k st)" "i < min k ?len" using n by (simp_all add: voice_frames_def)
    let ?s = "voice_states k st ! i"
    have s: "voice_ok ?s" "same_voice st ?s" using voice_states_ok [OF P(1) nth_mem [OF i(1)]] by blast+
    have "unat (voice_position ?s) = i * 4294967296" using S(2) [OF i(1)] by (simp add: P(2) step)
    then have "voice_dsp_read U ?s f = f (region_frame p i)"
      using whole_read [OF s(1), of i] assms(4) same_voice_fields [OF s(2)]
      by (simp add: P(2,3) looping_playback_def region_frame_def)
    then show "voice_frames U k st f ! i = map (\<lambda>i. f (region_frame p i)) [0..<min k ?len] ! i"
      using i by (simp add: voice_frames_def)
  qed
qed

lemma looping_frames:
  assumes "steps_bounded U" "unat (play_end_frame p) \<le> 4294967280" "prepare_voice_dsp U p n = Some st"
    and "looping_playback p"
  shows "length (voice_frames U k st f) = k"
    and "dsp_pitch_cents (play_dsp p) = 0 \<Longrightarrow> dsp_loop_crossfade_frames (play_dsp p) = 0 \<Longrightarrow>
      voice_frames U k st f = map (\<lambda>i. f (region_frame p (loop_order p i))) [0..<k]"
proof -
  note P = prepared_facts [OF assms(1-3)]
  have loop: "voice_looping st" using assms(4) by (simp add: P(2) looping_playback_def)
  have eq: "voice_frames U k st f = map (\<lambda>i. voice_dsp_read U (voice_at i st) f) [0..<k]"
    by (simp add: voice_frames_def looping_states [OF P(1) loop] comp_def)
  show "length (voice_frames U k st f) = k" by (simp add: eq)
  show "voice_frames U k st f = map (\<lambda>i. f (region_frame p (loop_order p i))) [0..<k]"
    if cents: "dsp_pitch_cents (play_dsp p) = 0" and C: "dsp_loop_crossfade_frames (play_dsp p) = 0"
  proof -
    have "voice_dsp_read U (voice_at i st) f = f (region_frame p (loop_order p i))" for i
    proof -
      have s: "voice_ok (voice_at i st)" "same_voice st (voice_at i st)" using voice_at_ok [OF P(1) loop] by blast+
      note same = same_voice_fields [OF s(2)]
      have order: "cursor_of st i = loop_order p i"
        using assms(4) by (simp add: cursor_of_def loop_order_def P(2,3) looping_playback_def)
      have "unat (voice_position (voice_at i st)) = loop_order p i * 4294967296"
        unfolding order [symmetric] using cents C
        by (intro voice_at_cursor(1) [OF P(1) loop]) (simp_all add: P(2) pitch_step_def)
      then have "voice_dsp_read U (voice_at i st) f = f (of_nat (unat (voice_start st) +
          (if voice_reverse st then unat (voice_length st) - 1 - loop_order p i else loop_order p i)))"
        using whole_read [OF s(1)] C unfolding same by (simp add: P(2))
      then show ?thesis by (simp add: P(2,3) region_frame_def)
    qed
    then show ?thesis by (simp add: eq)
  qed
qed

end
