(* ===== verification/Voice_Start.thy ===== *)
theory Voice_Start
  imports Voice_Kernel_Laws Cook_Laws
begin

unbundle bit_operations_syntax

text \<open>
  The cooker and the voice kernel together: every playback the cooker resolves is one the kernel
  starts. Then the properties of both: a Pad of a cooked snapshot plays its trimmed region and nothing else.
\<close>

section \<open>What the cooker resolves starts\<close>

lemma uint_from_sint: "uint (w :: i32) = take_bit 32 (sint w)"
  using unsigned_less [of w, where 'a = int]
  by (simp add: sint_uint take_bit_signed_take_bit take_bit_int_eq_self)

lemma sint_narrow:
  fixes w :: i32
  assumes "- (2 ^ (LENGTH('a) - 1)) \<le> sint w" "sint w < 2 ^ (LENGTH('a) - 1)" "LENGTH('a) \<le> 32"
  shows "sint (ucast w :: 'a::len word) = sint w"
proof -
  let ?n = "LENGTH('a)"
  have n: "\<not> ?n \<le> ?n - 1" "?n - 1 < 32" using assms(3) len_gt_0 [where ?'a = 'a] by linarith+
  have "sint (ucast w :: 'a word) = signed_take_bit (?n - 1) (take_bit ?n (uint w))"
    by (simp only: sint_uint unsigned_ucast_eq One_nat_def)
  also have "\<dots> = signed_take_bit (?n - 1) (take_bit 32 (sint w))"
    using n by (simp only: signed_take_bit_take_bit uint_from_sint if_False)
  also have "\<dots> = signed_take_bit (?n - 1) (sint w)"
    using n by (simp add: signed_take_bit_take_bit)
  also have "\<dots> = sint w" using assms(1,2) by (simp add: signed_take_bit_int_eq_self)
  finally show ?thesis .
qed

lemma uint_narrow:
  fixes w :: i32
  assumes "0 \<le> sint w" "sint w < 65536"
  shows "uint (ucast w :: u16) = sint w"
proof -
  have "uint w = sint w" using assms by (simp add: take_bit_int_eq_self uint_from_sint)
  then show ?thesis using assms by (simp add: unsigned_ucast_eq take_bit_int_eq_self)
qed

lemma frames_of_ms:
  fixes w :: i32
  assumes "0 \<le> sint w" "sint w \<le> m" "m * 48 < 2 ^ 32"
  shows "uint (w * 48) \<le> m * 48"
proof -
  have u: "uint w = sint w" using assms by (simp add: take_bit_int_eq_self uint_from_sint)
  have "uint (w * 48) = uint w * 48 mod 2 ^ 32" by (simp add: uint_word_ariths)
  then show ?thesis using u assms by simp
qed

lemma voice_block_simps [simp]:
  "dsp_pitch_cents (voice_block p rate a b) = ucast (pitch_cents p)"
  "dsp_pan (voice_block p rate a b) = ucast (pan p)"
  "dsp_flags (voice_block p rate a b) =
    ((if reversed p then kReverse else 0) OR (if loop_mode p = LM_ping_pong then kPingPong else 0))"
  "dsp_attack_frames (voice_block p rate a b) = attack_ms p * 48"
  "dsp_release_frames (voice_block p rate a b) = resolved_release_ms p * 48"
  "dsp_tone (voice_block p rate a b) = resolved_tone (tone p)"
  "dsp_eq_flags (voice_block p rate a b) = 0"
  by (simp_all add: voice_block_def neutral_dsp_def Let_def)

lemma put_band_simps [simp]:
  "dsp_pitch_cents (put_high_band hb (put_mid_band mb (put_low_band lb d))) = dsp_pitch_cents d"
  "dsp_pan (put_high_band hb (put_mid_band mb (put_low_band lb d))) = dsp_pan d"
  "dsp_flags (put_high_band hb (put_mid_band mb (put_low_band lb d))) = dsp_flags d"
  "dsp_attack_frames (put_high_band hb (put_mid_band mb (put_low_band lb d))) = dsp_attack_frames d"
  "dsp_release_frames (put_high_band hb (put_mid_band mb (put_low_band lb d))) = dsp_release_frames d"
  "dsp_tone (put_high_band hb (put_mid_band mb (put_low_band lb d))) = dsp_tone d"
  by (simp_all add: put_low_band_def put_mid_band_def put_high_band_def split: option.splits)

text \<open>The EQ flags of the three bands, and that each band's fields stay its own.\<close>

lemma band_flags:
  assumes "dsp_eq_flags d = 0" and e: "e = put_high_band hb (put_mid_band mb (put_low_band lb d))"
  shows "has_flag (dsp_eq_flags e) kEqLow \<longleftrightarrow> lb \<noteq> None" "has_flag (dsp_eq_flags e) kEqMid \<longleftrightarrow> mb \<noteq> None"
    "has_flag (dsp_eq_flags e) kEqHigh \<longleftrightarrow> hb \<noteq> None"
    "has_flag (dsp_eq_flags e) kEqLowCut \<longrightarrow> lb \<noteq> None" "has_flag (dsp_eq_flags e) kEqHighCut \<longrightarrow> hb \<noteq> None"
    "dsp_eq_flags e AND NOT (kEqLow OR kEqLowCut OR kEqMid OR kEqHigh OR kEqHighCut) = 0"
  using assms(1) unfolding e
  by (simp_all add: put_low_band_def put_mid_band_def put_high_band_def has_flag_def split: option.splits)

lemma band_fields_of [simp]:
  "dsp_eq_low_freq_hz (put_high_band hb (put_mid_band mb (put_low_band (Some x) d))) = ucast (shelf_freq_hz x)"
  "dsp_eq_low_gain_millidb (put_high_band hb (put_mid_band mb (put_low_band (Some x) d))) = ucast (shelf_gain_millidb x)"
  "dsp_eq_mid_freq_hz (put_high_band hb (put_mid_band (Some y) d)) = ucast (bell_freq_hz y)"
  "dsp_eq_mid_gain_millidb (put_high_band hb (put_mid_band (Some y) d)) = ucast (bell_gain_millidb y)"
  "dsp_eq_mid_q_milli (put_high_band hb (put_mid_band (Some y) d)) = ucast (bell_q_milli y)"
  "dsp_eq_high_freq_hz (put_high_band (Some z) d) = ucast (shelf_freq_hz z)"
  "dsp_eq_high_gain_millidb (put_high_band (Some z) d) = ucast (shelf_gain_millidb z)"
  by (simp_all add: put_low_band_def put_mid_band_def put_high_band_def split: option.splits)

lemma tone_narrow:
  assumes "- 100 \<le> sint t" "sint t \<le> 100"
  shows "- 100 \<le> sint (resolved_tone t) \<and> sint (resolved_tone t) \<le> 100"
  using assms sint_narrow [where ?'a = 8, of t] by (simp add: resolved_tone_def)

lemma gain_narrow: "- 18000 \<le> sint g \<Longrightarrow> sint g \<le> 18000 \<Longrightarrow> sint (ucast g :: i16) = sint g" for g :: i32
  by (rule sint_narrow) simp_all

lemma tone_fitsI:
  assumes "dsp_eq_flags d AND NOT (kEqLow OR kEqLowCut OR kEqMid OR kEqHigh OR kEqHighCut) = 0"
    and "has_flag (dsp_eq_flags d) kEqLowCut \<Longrightarrow> has_flag (dsp_eq_flags d) kEqLow"
    and "has_flag (dsp_eq_flags d) kEqHighCut \<Longrightarrow> has_flag (dsp_eq_flags d) kEqHigh"
    and "- 100 \<le> sint (dsp_tone d) \<and> sint (dsp_tone d) \<le> 100"
    and "has_flag (dsp_eq_flags d) kEqLow \<Longrightarrow> 20 \<le> uint (dsp_eq_low_freq_hz d) \<and>
      uint (dsp_eq_low_freq_hz d) \<le> 2000 \<and>
      - 18000 \<le> sint (dsp_eq_low_gain_millidb d) \<and> sint (dsp_eq_low_gain_millidb d) \<le> 18000"
    and "has_flag (dsp_eq_flags d) kEqMid \<Longrightarrow> 100 \<le> uint (dsp_eq_mid_freq_hz d) \<and>
      uint (dsp_eq_mid_freq_hz d) \<le> 10000 \<and>
      - 18000 \<le> sint (dsp_eq_mid_gain_millidb d) \<and> sint (dsp_eq_mid_gain_millidb d) \<le> 18000 \<and>
      100 \<le> uint (dsp_eq_mid_q_milli d) \<and> uint (dsp_eq_mid_q_milli d) \<le> 10000"
    and "has_flag (dsp_eq_flags d) kEqHigh \<Longrightarrow> 1000 \<le> uint (dsp_eq_high_freq_hz d) \<and>
      uint (dsp_eq_high_freq_hz d) \<le> 20000 \<and>
      - 18000 \<le> sint (dsp_eq_high_gain_millidb d) \<and> sint (dsp_eq_high_gain_millidb d) \<le> 18000"
  shows "tone_fits d"
proof (rule ccontr)
  assume "\<not> tone_fits d"
  then show False using assms(2-7)
    unfolding tone_fits_def Let_def int_in_range_def assms(1)
    by (simp only: simp_thms not_not split: if_splits) blast+
qed

lemma valid_block_fits:
  assumes "is_valid_tone_playback p"
  shows "tone_fits (put_high_band (eq_high (playback_eq p)) (put_mid_band (eq_mid (playback_eq p))
    (put_low_band (eq_low (playback_eq p)) (voice_block p rate a b))))" (is "tone_fits ?e")
proof -
  have "- 100 \<le> sint (tone p)" "sint (tone p) \<le> 100"
    using assms by (auto simp: is_valid_tone_playback_def in_range_def)
  note t = tone_narrow [OF this]
  note F = band_flags [OF voice_block_simps(7) [of p rate a b] refl, of "eq_high (playback_eq p)"
    "eq_mid (playback_eq p)" "eq_low (playback_eq p)"]
  have low: "20 \<le> uint (dsp_eq_low_freq_hz ?e) \<and> uint (dsp_eq_low_freq_hz ?e) \<le> 2000 \<and>
      - 18000 \<le> sint (dsp_eq_low_gain_millidb ?e) \<and> sint (dsp_eq_low_gain_millidb ?e) \<le> 18000"
    if "eq_low (playback_eq p) = Some x" for x
    using assms that uint_narrow [of "shelf_freq_hz x"] gain_narrow [of "shelf_gain_millidb x"]
    by (simp add: is_valid_tone_playback_def is_valid_eq_shelf_def in_range_def)
  have mid: "100 \<le> uint (dsp_eq_mid_freq_hz ?e) \<and> uint (dsp_eq_mid_freq_hz ?e) \<le> 10000 \<and>
      - 18000 \<le> sint (dsp_eq_mid_gain_millidb ?e) \<and> sint (dsp_eq_mid_gain_millidb ?e) \<le> 18000 \<and>
      100 \<le> uint (dsp_eq_mid_q_milli ?e) \<and> uint (dsp_eq_mid_q_milli ?e) \<le> 10000"
    if "eq_mid (playback_eq p) = Some y" for y
    using assms that uint_narrow [of "bell_freq_hz y"] uint_narrow [of "bell_q_milli y"] gain_narrow [of "bell_gain_millidb y"]
    by (simp add: is_valid_tone_playback_def in_range_def)
  have high: "1000 \<le> uint (dsp_eq_high_freq_hz ?e) \<and> uint (dsp_eq_high_freq_hz ?e) \<le> 20000 \<and>
      - 18000 \<le> sint (dsp_eq_high_gain_millidb ?e) \<and> sint (dsp_eq_high_gain_millidb ?e) \<le> 18000"
    if "eq_high (playback_eq p) = Some z" for z
    using assms that uint_narrow [of "shelf_freq_hz z"] gain_narrow [of "shelf_gain_millidb z"]
    by (simp add: is_valid_tone_playback_def is_valid_eq_shelf_def in_range_def)
  have L: "has_flag (dsp_eq_flags ?e) kEqLow \<Longrightarrow> 20 \<le> uint (dsp_eq_low_freq_hz ?e) \<and>
      uint (dsp_eq_low_freq_hz ?e) \<le> 2000 \<and>
      - 18000 \<le> sint (dsp_eq_low_gain_millidb ?e) \<and> sint (dsp_eq_low_gain_millidb ?e) \<le> 18000"
    using F(1) low by blast
  have M: "has_flag (dsp_eq_flags ?e) kEqMid \<Longrightarrow> 100 \<le> uint (dsp_eq_mid_freq_hz ?e) \<and>
      uint (dsp_eq_mid_freq_hz ?e) \<le> 10000 \<and>
      - 18000 \<le> sint (dsp_eq_mid_gain_millidb ?e) \<and> sint (dsp_eq_mid_gain_millidb ?e) \<le> 18000 \<and>
      100 \<le> uint (dsp_eq_mid_q_milli ?e) \<and> uint (dsp_eq_mid_q_milli ?e) \<le> 10000"
    using F(2) mid by blast
  have H: "has_flag (dsp_eq_flags ?e) kEqHigh \<Longrightarrow> 1000 \<le> uint (dsp_eq_high_freq_hz ?e) \<and>
      uint (dsp_eq_high_freq_hz ?e) \<le> 20000 \<and>
      - 18000 \<le> sint (dsp_eq_high_gain_millidb ?e) \<and> sint (dsp_eq_high_gain_millidb ?e) \<le> 18000"
    using F(3) high by blast
  have cuts: "has_flag (dsp_eq_flags ?e) kEqLowCut \<Longrightarrow> has_flag (dsp_eq_flags ?e) kEqLow"
    "has_flag (dsp_eq_flags ?e) kEqHighCut \<Longrightarrow> has_flag (dsp_eq_flags ?e) kEqHigh"
    using F(1,3,4,5) by blast+
  have "sint (dsp_tone ?e) = sint (resolved_tone (tone p))" by simp
  then have T: "- 100 \<le> sint (dsp_tone ?e) \<and> sint (dsp_tone ?e) \<le> 100" using t by simp
  show ?thesis
    by (rule tone_fitsI, rule F(6), erule cuts(1), erule cuts(2), rule T, erule L, erule M, erule H)
qed

lemma resolved_shape:
  assumes "resolve_pad_playback True gain p rate n = Inr r"
  obtains a b where "play_dsp r = put_high_band (eq_high (playback_eq p)) (put_mid_band (eq_mid (playback_eq p))
      (put_low_band (eq_low (playback_eq p)) (voice_block p rate a b)))"
    "play_trigger_mode r = trigger_mode p" "is_valid_playback_for_source p n"
    "dsp_loop_crossfade_frames (play_dsp r) = ucast (runtime_crossfade p rate (b - runtime_loop_start p rate a b))"
    "linear_gain r = gain (gain_millidb p)"
proof -
  let ?a = "trim_start_frame p * 48000 div ucast rate :: u64"
  let ?b = "ceiling_div (value_or (trim_end_frame p) n * 48000) (ucast rate)"
  have "is_valid_playback_for_source p n \<and> play_trigger_mode r = trigger_mode p \<and>
    linear_gain r = gain (gain_millidb p) \<and>
    play_dsp r = put_high_band (eq_high (playback_eq p)) (put_mid_band (eq_mid (playback_eq p))
      (put_low_band (eq_low (playback_eq p)) (voice_block p rate ?a ?b)))"
    using assms
    by (auto simp: resolve_pad_playback_def resolve_voice_dsp_def invalid_argument_error_def Let_def
        split: if_splits sum.splits)
  then show thesis using that [of ?a ?b] by (auto simp: voice_block_def Let_def neutral_dsp_def)
qed

lemma not_refusedI:
  assumes "play_start_frame p < play_end_frame p" "unat (play_end_frame p) \<le> n"
    "dsp_flags (play_dsp p) AND NOT (kReverse OR kPingPong) = 0"
    "- 2400 \<le> sint (dsp_pitch_cents (play_dsp p))" "sint (dsp_pitch_cents (play_dsp p)) \<le> 2400"
    "- 100 \<le> sint (dsp_pan (play_dsp p))" "sint (dsp_pan (play_dsp p)) \<le> 100"
    "dsp_attack_frames (play_dsp p) \<le> kVoiceDspMaxAttackFrames"
    "dsp_release_frames (play_dsp p) \<le> kVoiceDspMaxReleaseFrames" "tone_fits (play_dsp p)"
    "dsp_loop_start_offset (play_dsp p) < play_end_frame p - play_start_frame p"
    "has_flag (dsp_flags (play_dsp p)) kPingPong \<Longrightarrow> dsp_loop_crossfade_frames (play_dsp p) = 0"
    "dsp_loop_crossfade_frames (play_dsp p) \<le>
       (play_end_frame p - play_start_frame p - dsp_loop_start_offset (play_dsp p)) div 2"
  shows "\<not> voice_block_refused p n"
proof
  assume "voice_block_refused p n"
  then show False using assms
    by (auto simp only: voice_block_refused_def Let_def not_le not_less simp_thms
        dest: leD split: if_splits)
qed

lemma resolved_not_refused:
  assumes "resolve_pad_playback True gain p rate n = Inr r" "unat (play_end_frame r) \<le> m"
  shows "\<not> voice_block_refused r m"
proof -
  obtain a b where dsp: "play_dsp r = put_high_band (eq_high (playback_eq p)) (put_mid_band (eq_mid (playback_eq p))
      (put_low_band (eq_low (playback_eq p)) (voice_block p rate a b)))" (is "_ = ?e")
    and valid: "is_valid_playback_for_source p n"
    and C: "dsp_loop_crossfade_frames (play_dsp r) = ucast (runtime_crossfade p rate (b - runtime_loop_start p rate a b))"
    using assms(1) by (rule resolved_shape)
  have vp: "is_valid_playback p" using valid by (simp add: is_valid_playback_for_source_def split: if_splits)
  have fits: "playback_fits r (frame_ceiling (unat n) rate)"
    using resolved_playback_exact [of gain p rate n] assms(1) by blast
  have P: "- 2400 \<le> sint (pitch_cents p)" "sint (pitch_cents p) \<le> 2400" "- 100 \<le> sint (pan p)" "sint (pan p) \<le> 100"
    "is_valid_tone_playback p" "0 \<le> sint (attack_ms p)" "sint (attack_ms p) \<le> 2000"
    "0 \<le> sint (resolved_release_ms p)" "sint (resolved_release_ms p) \<le> 4000"
    "loop_mode p = LM_ping_pong \<Longrightarrow> loop_crossfade_frames p = 0"
    using vp by (auto simp: is_valid_playback_def is_valid_tone_playback_def in_range_def resolved_release_ms_def
        split: if_splits)
  have cents: "sint (dsp_pitch_cents ?e) = sint (pitch_cents p)" and pan: "sint (dsp_pan ?e) = sint (pan p)"
    using P sint_narrow [where ?'a = 16, of "pitch_cents p"] sint_narrow [where ?'a = 8, of "pan p"] by simp_all
  have attack: "dsp_attack_frames ?e \<le> 96000" "dsp_release_frames ?e \<le> 192000"
    using frames_of_ms [of "attack_ms p" 2000] frames_of_ms [of "resolved_release_ms p" 4000] P
    by (simp_all add: word_le_def)
  have flags: "dsp_flags ?e AND NOT (kReverse OR kPingPong) = 0"
    "has_flag (dsp_flags ?e) kPingPong \<longleftrightarrow> loop_mode p = LM_ping_pong"
    by (simp_all add: has_flag_def)
  let ?len = "play_end_frame r - play_start_frame r" and ?off = "dsp_loop_start_offset (play_dsp r)"
    and ?c = "dsp_loop_crossfade_frames (play_dsp r)"
  have loop: "unat (play_start_frame r) + unat ?off < unat (play_end_frame r)"
    "unat (play_start_frame r) + unat ?off + 2 * unat ?c \<le> unat (play_end_frame r)"
    using fits by (simp_all add: playback_fits_def Let_def)
  then have start: "play_start_frame r < play_end_frame r" by (simp add: word_less_nat_alt)
  then have len: "unat ?len = unat (play_end_frame r) - unat (play_start_frame r)" by (simp add: unat_sub_le)
  have off: "?off < ?len" using loop(1) len by (simp add: word_less_nat_alt)
  then have "unat (?len - ?off) = unat ?len - unat ?off" by (simp add: unat_sub_le)
  then have c: "?c \<le> (?len - ?off) div 2" using loop(2) len by (simp add: word_le_nat_alt unat_div)
  have "?c = 0" if "loop_mode p = LM_ping_pong" using P(10) [OF that] C by (simp add: runtime_crossfade_def)
  then show ?thesis
    using start assms(2) flags P(1-4) cents pan attack valid_block_fits [OF P(5), of rate a b] off c dsp
    by (intro not_refusedI) simp_all
qed

section \<open>Properties\<close>

definition unit_fpu :: fpu where
  "unit_fpu = \<lparr>f_add = (+), f_sub = (-), f_mul = (*), f_div = (\<lambda>a b. a), f_less = (<), f_sin = id,
     f_of_int = of_int, f_to_nat = unat, d_add = (+), d_sub = (-), d_mul = (*), d_div = (\<lambda>a b. a),
     d_sin = id, d_cos = id, d_pow = (\<lambda>a b. a), d_sqrt = id, d_exp2 = id, d_of_int = of_int,
     d_llround = (\<lambda>_. 4294967296), d_to_float = ucast\<rparr>"

lemma unit_steps: "steps_bounded unit_fpu"
  by (simp add: steps_bounded_def unit_fpu_def)

text \<open>A playback of eight frames from frame 100, reversed, in a ping-pong loop from its third frame.\<close>

definition demo_playback :: "trigger_mode \<Rightarrow> u8 \<Rightarrow> resolved_playback" where
  "demo_playback mode flags = \<lparr>play_start_frame = 100, play_end_frame = 108, play_trigger_mode = mode,
     linear_gain = 0x3F800000, play_muted = False,
     play_dsp = neutral_dsp\<lparr>dsp_loop_start_offset := 3, dsp_flags := flags\<rparr>\<rparr>"

lemma demo_started:
  "prepare_voice_dsp unit_fpu (demo_playback TM_loop_gate 3) 200 = Some (started_voice unit_fpu (demo_playback TM_loop_gate 3))"
  "prepare_voice_dsp unit_fpu (demo_playback TM_one_shot 1) 200 = Some (started_voice unit_fpu (demo_playback TM_one_shot 1))"
  by (simp_all add: prepare_voice_dsp_def voice_block_refused_def demo_playback_def neutral_dsp_def tone_fits_def
      has_flag_def int_in_range_def Let_def)

text \<open>
  Property C5. A voice reads only its trimmed region: whatever its pitch, direction, loop, crossfade and
  length, two materials that agree from the start frame up to the end frame play the same, for any
  number of output frames. The arithmetic unit is any whose pitch steps lie between a quarter frame and four.
\<close>

theorem voice_reads_only_region:
  assumes "steps_bounded U" "prepare_voice_dsp U p n = Some st" "unat (play_end_frame p) \<le> 4294967280"
    and "\<forall>i. play_start_frame p \<le> i \<and> i < play_end_frame p \<longrightarrow> f i = h i"
  shows "voice_frames U k st f = voice_frames U k st h"
proof (rule frames_agree)
  note P = prepared_facts [OF assms(1,3,2)]
  show "voice_ok st" by (rule P)
  have "play_start_frame p < play_end_frame p"
    using assms(2) not_refused(1) [of p n] by (auto simp: prepare_voice_dsp_def split: if_splits)
  then show "agree_on_region st f h" using assms(4)
    by (simp add: agree_on_region_def P(2,3) word_less_nat_alt)
qed

theorem voice_reads_only_region_witness:
  "voice_frames unit_fpu 20 (started_voice unit_fpu (demo_playback TM_loop_gate 3)) id =
   voice_frames unit_fpu 20 (started_voice unit_fpu (demo_playback TM_loop_gate 3)) (\<lambda>i. if i < 108 then i else 7)"
  by (rule voice_reads_only_region [OF unit_steps demo_started(1)]) (simp_all add: demo_playback_def)

text \<open>
  Property C32. What a voice plays at the source rate: a voice that does not loop plays its region once,
  from the start or, reversed, from the end, and ends; a voice that loops never ends, resumes at the loop
  point, and in ping-pong turns at the last frame and at the loop point without repeating either. At any
  other pitch a voice that does not loop lasts the length of its region over its step, rounded up.
\<close>

theorem voice_plays_region_in_order:
  assumes "steps_bounded U" "prepare_voice_dsp U p n = Some st" "unat (play_end_frame p) \<le> 4294967280"
  defines "len \<equiv> unat (play_end_frame p) - unat (play_start_frame p)"
    and "step \<equiv> unat (pitch_step U (dsp_pitch_cents (play_dsp p)))"
  shows "length (voice_frames U k st f) =
      (if looping_playback p then k else min k (div_up (len * 4294967296) step)) \<and>
    (dsp_pitch_cents (play_dsp p) = 0 \<longrightarrow> dsp_loop_crossfade_frames (play_dsp p) = 0 \<longrightarrow>
      voice_frames U k st f = (if looping_playback p then map (\<lambda>i. f (region_frame p (loop_order p i))) [0..<k]
        else map (\<lambda>i. f (region_frame p i)) [0..<min k len]))"
  using one_shot_frames [OF assms(1,3,2), of k f] looping_frames [OF assms(1,3,2), of k f]
  by (simp_all add: len_def step_def)

theorem voice_plays_region_in_order_witness:
  "voice_frames unit_fpu 14 (started_voice unit_fpu (demo_playback TM_loop_gate 3)) id =
     [107, 106, 105, 104, 103, 102, 101, 100, 101, 102, 103, 104, 103, 102] \<and>
   voice_frames unit_fpu 14 (started_voice unit_fpu (demo_playback TM_one_shot 1)) id =
     [107, 106, 105, 104, 103, 102, 101, 100]"
proof -
  have small: "unat (play_end_frame (demo_playback m x)) \<le> 4294967280" for m x by (simp add: demo_playback_def)
  have "map (\<lambda>i. id (region_frame (demo_playback TM_loop_gate 3) (loop_order (demo_playback TM_loop_gate 3) i))) [0..<14] =
      [107, 106, 105, 104, 103, 102, 101, 100, 101, 102, 103, 104, 103, 102]"
    "map (\<lambda>i. id (region_frame (demo_playback TM_one_shot 1) i)) [0..<8] = [107, 106, 105, 104, 103, 102, 101, 100]"
    by code_simp+
  then show ?thesis
    using voice_plays_region_in_order [OF unit_steps demo_started(1) small, of 14 id]
      voice_plays_region_in_order [OF unit_steps demo_started(2) small, of 14 id]
    by (simp add: looping_playback_def voice_loops_def) (simp add: demo_playback_def neutral_dsp_def voice_loops_def)
qed

text \<open>
  Property C29. Every Pad of a cooked snapshot starts a voice: the kernel accepts the block the cooker
  resolved for the sample it prepared, and the voice then reads nothing outside that Pad's range.
\<close>

theorem cooked_pads_start:
  assumes "cook True g s pid (Some resolve) = Inr snap" "rp \<in> set (snapshot_pads snap)" "steps_bounded U"
  defines "p \<equiv> resolved_playback_of rp"
  shows "\<exists>st. prepare_voice_dsp U p (pcm_frames (resolved_sample rp)) = Some st \<and>
    (\<forall>k f h. (\<forall>i. play_start_frame p \<le> i \<and> i < play_end_frame p \<longrightarrow> f i = h i) \<longrightarrow>
      voice_frames U k st f = voice_frames U k st h)"
proof -
  have "pad_decoded g rp" using snapshot_decoded [OF assms(1)] assms(2) by (simp add: list_all_iff)
  then obtain bs source pb where d: "decode_wav bs = Inr source" "prepare_runtime_pcm source = Inr (resolved_sample rp)"
    and r: "resolve_pad_playback True g pb (sample_rate source) (of_nat (pcm_frames source)) = Inr p"
    by (auto simp: pad_decoded_def p_def)
  have "playback_fits p (pcm_frames (resolved_sample rp))"
    using resolve_playback_prepared [OF d] r by metis
  then have fits: "unat (play_end_frame p) \<le> pcm_frames (resolved_sample rp)" "play_start_frame p < play_end_frame p"
    by (auto simp: playback_fits_def Let_def word_less_nat_alt)
  have st: "prepare_voice_dsp U p (pcm_frames (resolved_sample rp)) = Some (started_voice U p)"
    using resolved_not_refused [OF r fits(1)] by (simp add: prepare_voice_dsp_def)
  have "unat (play_end_frame p) \<le> 4294967280" using fits(1) prepared_small [OF d] by simp
  note P = prepared_facts [OF assms(3) this st]
  have "voice_frames U k (started_voice U p) f = voice_frames U k (started_voice U p) h"
    if "\<forall>i. play_start_frame p \<le> i \<and> i < play_end_frame p \<longrightarrow> f i = h i" for k f h
    using that fits(2) by (intro frames_agree P(1)) (simp add: agree_on_region_def P(3) word_less_nat_alt)
  with st show ?thesis by blast
qed

lemma cook_pads_slots:
  assumes "cook_pads v g s resolve cache sps = Inr pads"
  shows "map resolved_slot pads = map fst (filter (\<lambda>sp. slot_asset (snd sp) \<noteq> None) sps)"
  using assms
proof (induction v g s resolve cache sps arbitrary: pads rule: cook_pads.induct)
  case (2 v g s resolve cache slot assignment rest)
  then show ?case by (fastforce simp: cook_error_def split: if_splits option.splits sum.splits)
qed simp

lemma demo_cook_pads:
  assumes "cook True unit_gain demo_cook_project (pattern_key demo_pattern) (Some demo_resolver) = Inr snap"
  shows "snapshot_pads snap \<noteq> []"
proof -
  let ?s = demo_cook_project
  obtain p pads where pads: "cook_pads True unit_gain ?s demo_resolver map_empty (pad_positions ?s) = Inr pads"
    and snap: "snap = snapshot_of ?s p pads"
    using assms unfolding cook_is_from cook_from_Inr by blast
  have len: "0 < length (banks ?s)" "3 < length (banks ?s ! 0)"
    using demo_cook_good(2) by (auto simp: array_extents_def list_all_length)
  then have "(\<lparr>bank = of_nat 0, pad = of_nat 3\<rparr>, banks ?s ! 0 ! 3) \<in> set (pad_positions ?s)"
    by (force simp: pad_positions_def)
  moreover have "slot_asset (banks ?s ! 0 ! 3) \<noteq> None" by (simp add: demo_cook_project_def demo_banks)
  ultimately have "filter (\<lambda>sp. slot_asset (snd sp) \<noteq> None) (pad_positions ?s) \<noteq> []"
    by (force simp: filter_empty_conv)
  then have "map resolved_slot pads \<noteq> []" unfolding cook_pads_slots [OF pads] by simp
  then show ?thesis by (simp add: snap snapshot_of_def)
qed

theorem cooked_pads_start_witness:
  "\<exists>snap. cook True unit_gain demo_cook_project (pattern_key demo_pattern) (Some demo_resolver) = Inr snap \<and>
     snapshot_pads snap \<noteq> [] \<and>
     list_all (\<lambda>rp. prepare_voice_dsp unit_fpu (resolved_playback_of rp) (pcm_frames (resolved_sample rp)) \<noteq> None)
       (snapshot_pads snap)"
proof -
  have "is_ok (cook True unit_gain demo_cook_project (pattern_key demo_pattern) (Some demo_resolver))"
    using project_cooks [OF demo_cook_good demo_resolver_addressed] demo_pads_cook by blast
  then obtain snap where snap: "cook True unit_gain demo_cook_project (pattern_key demo_pattern) (Some demo_resolver) = Inr snap"
    by (auto simp: is_ok_def split: sum.splits)
  have "list_all (\<lambda>rp. prepare_voice_dsp unit_fpu (resolved_playback_of rp) (pcm_frames (resolved_sample rp)) \<noteq> None)
      (snapshot_pads snap)"
    using cooked_pads_start [OF snap _ unit_steps] by (fastforce simp: list_all_iff)
  with snap demo_cook_pads [OF snap] show ?thesis by blast
qed

end
