(* ===== verification/Prepared_Pattern_Laws.thy ===== *)
theory Prepared_Pattern_Laws
  imports Prepared_Pattern Voice_Start
begin

text \<open>
  What preparing a Pattern guarantees: exactly when it succeeds, that its events lie inside the loop with
  the first frame of each tick, that another tempo gives what preparing at that tempo gives, and
  that every cooked snapshot can be prepared.
\<close>

section \<open>Frames of ticks\<close>

definition frame_at :: "u16 \<Rightarrow> u64 \<Rightarrow> u64" where
  "frame_at b tick = (case tick_boundary_frame tick b kTransportPpq of Inr f \<Rightarrow> f | Inl _ \<Rightarrow> 0)"

lemma frame_at_exact:
  assumes "valid_bpm b" "unat tick \<le> max_tick"
  shows "tick_boundary_frame tick b kTransportPpq = Inr (frame_at b tick)"
    and "unat (frame_at b tick) \<le> g \<longleftrightarrow> unat tick * 2880000 \<le> g * tick_rate b"
proof -
  obtain f where "tick_boundary_frame tick b kTransportPpq = Inr f"
    using assms by (rule tick_boundary_total)
  then show "tick_boundary_frame tick b kTransportPpq = Inr (frame_at b tick)"
    by (simp add: frame_at_def)
  then show "unat (frame_at b tick) \<le> g \<longleftrightarrow> unat tick * 2880000 \<le> g * tick_rate b"
    by (rule tick_boundary_first)
qed

text \<open>At most 240 beats a minute leave more than one frame to a tick.\<close>

lemma frame_at_less:
  assumes "valid_bpm b" "unat t \<le> max_tick" "unat s \<le> max_tick"
  shows "frame_at b s < frame_at b t \<longleftrightarrow> s < t"
proof -
  note rate = tick_rate_bounds [OF assms(1)]
  have up: "unat (frame_at b t) \<le> unat (frame_at b s)" if "unat t \<le> unat s"
  proof -
    have "unat t * 2880000 \<le> unat s * 2880000" using that by simp
    also have "\<dots> \<le> unat (frame_at b s) * tick_rate b" using frame_at_exact(2) [OF assms(1,3)] by blast
    finally show ?thesis using frame_at_exact(2) [OF assms(1,2)] by blast
  qed
  have "\<not> unat (frame_at b t) \<le> unat (frame_at b s)" if st: "unat s < unat t"
  proof
    assume le: "unat (frame_at b t) \<le> unat (frame_at b s)"
    show False
    proof (cases "unat (frame_at b s)")
      case 0
      then have "unat t * 2880000 \<le> 0 * tick_rate b" using frame_at_exact(2) [OF assms(1,2), of 0] le by simp
      then show False using st by simp
    next
      case (Suc n)
      have "\<not> unat (frame_at b s) \<le> n" using Suc by simp
      then have "n * tick_rate b < unat s * 2880000" using frame_at_exact(2) [OF assms(1,3)] by (simp add: not_le)
      moreover have "unat t * 2880000 \<le> Suc n * tick_rate b"
        using frame_at_exact(2) [OF assms(1,2)] le Suc by simp
      moreover have "unat s * 2880000 + 2880000 \<le> unat t * 2880000" using st by simp
      ultimately show False using rate by simp
    qed
  qed
  with up show ?thesis unfolding word_less_nat_alt by (meson not_le)
qed

lemma frame_at_pos: "valid_bpm b \<Longrightarrow> unat t \<le> max_tick \<Longrightarrow> frame_at b t = 0 \<longleftrightarrow> t = 0"
  using frame_at_exact(2) [of b t 0] by (auto simp: unsigned_eq_0_iff)

section \<open>Events\<close>

definition event_fits :: "pattern_materials \<Rightarrow> u32 \<Rightarrow> pattern_event \<Rightarrow> bool" where
  "event_fits materials limit e \<longleftrightarrow>
     valid_pattern_event limit e \<and> materials (global_slot (event_slot e)) \<noteq> None"

definition event_release_tick :: "u32 \<Rightarrow> u32 \<Rightarrow> u64" where
  "event_release_tick onset duration = ucast onset + ucast duration"

definition prepared_of :: "u16 \<Rightarrow> pattern_materials \<Rightarrow> pattern_event \<Rightarrow> prepared_event" where
  "prepared_of b materials e =
     (let material = the (materials (global_slot (event_slot e)))
      in \<lparr>prep_slot = event_slot e, prep_onset_tick = onset_tick e, prep_duration_tick = duration_tick e,
          prep_velocity = velocity e, prep_start_frame = frame_at b (ucast (onset_tick e)),
          prep_release_frame = frame_at b (event_release_tick (onset_tick e) (duration_tick e)),
          prep_material = material_view_of material, prep_playback = material_playback material\<rparr>)"

lemma unat_u32_up: "unat (ucast (x :: u32) :: u64) = unat x"
  by (rule unat_ucast_up) simp

lemma unat_release: "unat (event_release_tick onset duration) = unat onset + unat duration"
  using unsigned_less [of onset, where 'a = nat] unsigned_less [of duration, where 'a = nat]
  by (simp add: event_release_tick_def unat_add_small unat_u32_up del: unsigned_ucast_eq)

lemma event_ticks:
  assumes "valid_pattern_event limit e"
  shows "unat (onset_tick e) < unat limit" "0 < unat (duration_tick e)"
    "unat (onset_tick e) + unat (duration_tick e) \<le> unat limit"
  using assms by (auto simp: valid_pattern_event_nat)

lemma prepare_events_exact:
  assumes "valid_bpm (snapshot_bpm snap)" "snapshot_ppq snap = kTransportPpq"
    "unat (snapshot_loop_ticks snap) \<le> 979200"
  shows "prepare_events snap (frame_at (snapshot_bpm snap) (ucast (snapshot_loop_ticks snap))) materials es =
    (if list_all (event_fits materials (snapshot_loop_ticks snap)) es
     then Inr (map (prepared_of (snapshot_bpm snap) materials) es)
     else timing_failure ''runtime snapshot Pattern event is invalid'')"
proof (induction es)
  case (Cons e es)
  let ?b = "snapshot_bpm snap" and ?limit = "snapshot_loop_ticks snap"
  have guard: "(\<not> is_valid_slot (event_slot e) \<or> velocity e < 1 \<or> 127 < velocity e \<or>
      materials (global_slot (event_slot e)) = None \<or> ?limit \<le> onset_tick e \<or> duration_tick e < 1 \<or>
      ?limit - onset_tick e < duration_tick e) = (\<not> event_fits materials ?limit e)"
    by (auto simp: event_fits_def valid_pattern_event_def valid_velocity_def not_le word_one_le not_less
        simp flip: not_less)
  show ?case
  proof (cases "event_fits materials ?limit e")
    case True
    let ?on = "ucast (onset_tick e) :: u64" and ?off = "event_release_tick (onset_tick e) (duration_tick e)"
    have "valid_pattern_event ?limit e" using True by (simp add: event_fits_def)
    note t = event_ticks [OF this]
    have small: "unat ?on \<le> max_tick" "unat ?off \<le> max_tick" "unat (ucast ?limit :: u64) \<le> max_tick"
      using t assms(3) by (simp_all add: unat_release unat_u32_up del: unsigned_ucast_eq)
    have less: "?on < ucast ?limit" "?on < ?off" "\<not> ucast ?limit < ?off"
      using t by (simp_all add: word_less_nat_alt unat_release unat_u32_up del: unsigned_ucast_eq)
    have "event_bounds e ?b (snapshot_ppq snap) = (Inr (frame_at ?b ?on), Inr (frame_at ?b ?off))"
      using frame_at_exact(1) [OF assms(1) small(1)] frame_at_exact(1) [OF assms(1) small(2)]
      by (simp add: event_bounds_def assms(2) event_release_tick_def)
    moreover have "\<not> frame_at ?b (ucast ?limit) \<le> frame_at ?b ?on" "\<not> frame_at ?b ?off \<le> frame_at ?b ?on"
      "\<not> frame_at ?b (ucast ?limit) < frame_at ?b ?off"
      using less frame_at_less [OF assms(1)] small by (simp_all add: not_le)
    ultimately show ?thesis using True Cons
      unfolding prepare_events.simps guard by (simp add: prepared_of_def Let_def timing_failure_def)
  next
    case False
    then show ?thesis unfolding prepare_events.simps guard by (simp add: timing_failure_def)
  qed
qed simp

section \<open>When a Pattern prepares\<close>

definition timing_ok :: "runtime_snapshot \<Rightarrow> bool" where
  "timing_ok snap \<longleftrightarrow>
     is_valid_uuid (snapshot_project_id snap) \<and> is_valid_uuid (snapshot_pattern_id snap) \<and>
     valid_bpm (snapshot_bpm snap) \<and> snapshot_ppq snap = kTransportPpq \<and> snapshot_loop_ticks snap \<noteq> 0 \<and>
     snapshot_loop_ticks snap = pattern_length_ticks (snapshot_bars snap)"

definition merged_events :: "bool \<Rightarrow> pattern_event list \<Rightarrow> pattern_event list \<Rightarrow> pattern_event list" where
  "merged_events canonical base overlay = (if canonical then base else merge_pattern_events base overlay)"

definition pattern_view ::
  "runtime_snapshot \<Rightarrow> pattern_materials \<Rightarrow> pattern_event list \<Rightarrow> bool \<Rightarrow> prepared_pattern" where
  "pattern_view snap materials es has_overlay =
     \<lparr>view_project_id = snapshot_project_id snap, view_pattern_id = snapshot_pattern_id snap,
      view_revision = snapshot_revision snap, view_bpm = snapshot_bpm snap, view_ppq = snapshot_ppq snap,
      view_loop_ticks = snapshot_loop_ticks snap,
      view_loop_frames = frame_at (snapshot_bpm snap) (ucast (snapshot_loop_ticks snap)),
      view_bar_frames = frame_at (snapshot_bpm snap) (ucast kBarTicks4x4),
      view_events = map (prepared_of (snapshot_bpm snap) materials) es, view_has_overlay = has_overlay\<rparr>"

lemma loop_ticks_bound: "timing_ok snap \<Longrightarrow> unat (snapshot_loop_ticks snap) \<le> 979200"
  using unat_u8_less [of "snapshot_bars snap"] by (simp add: timing_ok_def unat_pattern_length)

lemma prepare_pattern_exact:
  "prepare_pattern vd U snap overlay canonical = Inr v \<longleftrightarrow> timing_ok snap \<and>
     (\<exists>materials base. gather_materials vd U (snapshot_pads snap) (\<lambda>_. None) = Inr materials \<and>
        base_events canonical [] (snapshot_events snap) = Inr base \<and>
        list_all (event_fits materials (snapshot_loop_ticks snap)) (merged_events canonical base overlay) \<and>
        v = pattern_view snap materials (merged_events canonical base overlay) (overlay \<noteq> []))"
proof (cases "timing_ok snap")
  case True
  let ?b = "snapshot_bpm snap"
  have ok: "is_valid_uuid (snapshot_project_id snap)" "is_valid_uuid (snapshot_pattern_id snap)"
    "valid_bpm ?b" "snapshot_ppq snap = kTransportPpq" "snapshot_loop_ticks snap \<noteq> 0"
    "snapshot_loop_ticks snap = pattern_length_ticks (snapshot_bars snap)"
    using True unfolding timing_ok_def by blast+
  note L = loop_ticks_bound [OF True]
  have small: "unat (ucast (snapshot_loop_ticks snap) :: u64) \<le> max_tick" "unat (ucast kBarTicks4x4 :: u64) \<le> max_tick"
    using L by (simp_all add: unat_u32_up del: unsigned_ucast_eq)
  note frames = frame_at_exact(1) [OF ok(3) small(1)] frame_at_exact(1) [OF ok(3) small(2)]
  have nz: "frame_at ?b (ucast (snapshot_loop_ticks snap)) \<noteq> 0" "frame_at ?b (ucast kBarTicks4x4) \<noteq> 0"
  proof -
    have "unat (ucast (snapshot_loop_ticks snap) :: u64) \<noteq> 0"
      using ok(5) by (simp only: unat_u32_up unsigned_eq_0_iff) simp
    then show "frame_at ?b (ucast (snapshot_loop_ticks snap)) \<noteq> 0"
      using frame_at_pos [OF ok(3) small(1)] by force
    show "frame_at ?b (ucast kBarTicks4x4) \<noteq> 0" using frame_at_pos [OF ok(3) small(2)] by simp
  qed
  have guard: "\<not> (\<not> is_valid_uuid (snapshot_project_id snap) \<or> \<not> is_valid_uuid (snapshot_pattern_id snap) \<or>
      \<not> valid_bpm ?b \<or> snapshot_ppq snap \<noteq> kTransportPpq \<or> snapshot_loop_ticks snap = 0 \<or>
      snapshot_loop_ticks snap \<noteq> pattern_length_ticks (snapshot_bars snap))"
    using ok by blast
  have frames': "tick_boundary_frame (ucast (snapshot_loop_ticks snap)) ?b (snapshot_ppq snap) =
      Inr (frame_at ?b (ucast (snapshot_loop_ticks snap)))"
    "tick_boundary_frame (ucast kBarTicks4x4) ?b (snapshot_ppq snap) = Inr (frame_at ?b (ucast kBarTicks4x4))"
    unfolding ok(4) by (rule frames)+
  have "prepare_pattern vd U snap overlay canonical =
    (case gather_materials vd U (snapshot_pads snap) (\<lambda>_. None) of
       Inl err \<Rightarrow> failure err
     | Inr materials \<Rightarrow>
         (case base_events canonical [] (snapshot_events snap) of
            Inl err \<Rightarrow> failure err
          | Inr base \<Rightarrow>
              if list_all (event_fits materials (snapshot_loop_ticks snap)) (merged_events canonical base overlay)
              then Inr (pattern_view snap materials (merged_events canonical base overlay) (overlay \<noteq> []))
              else timing_failure ''runtime snapshot Pattern event is invalid''))"
    unfolding prepare_pattern_def if_not_P [OF guard] frames' prod.case sum.case Let_def
      merged_events_def [symmetric] prepare_events_exact [OF ok(3,4) L]
    using nz by (simp add: pattern_view_def timing_failure_def split: sum.split)
  then show ?thesis using True by (auto simp: timing_failure_def split: sum.splits)
next
  case False
  then have "\<not> is_valid_uuid (snapshot_project_id snap) \<or> \<not> is_valid_uuid (snapshot_pattern_id snap) \<or>
      \<not> valid_bpm (snapshot_bpm snap) \<or> snapshot_ppq snap \<noteq> kTransportPpq \<or> snapshot_loop_ticks snap = 0 \<or>
      snapshot_loop_ticks snap \<noteq> pattern_length_ticks (snapshot_bars snap)"
    unfolding timing_ok_def by blast
  then have "prepare_pattern vd U snap overlay canonical =
      timing_failure ''runtime snapshot Pattern timing is invalid''"
    unfolding prepare_pattern_def by (rule if_P)
  then show ?thesis using False by (simp add: timing_failure_def)
qed

section \<open>The materials and the events of a snapshot\<close>

definition slot_of_pad :: "resolved_pad \<Rightarrow> u8" where
  "slot_of_pad rp = global_slot (resolved_slot rp)"

definition material_of :: "resolved_pad \<Rightarrow> pattern_material" where
  "material_of rp = \<lparr>material_view_of = \<lparr>view_interleaved = interleaved (resolved_sample rp),
     view_frame_count = of_nat (pcm_frames (resolved_sample rp)), view_channels = channels (resolved_sample rp)\<rparr>,
     material_playback = resolved_playback_of rp\<rparr>"

definition pad_preparable :: "bool \<Rightarrow> fpu \<Rightarrow> resolved_pad \<Rightarrow> bool" where
  "pad_preparable vd U rp \<longleftrightarrow>
     is_valid_slot (resolved_slot rp) \<and> pcm_ok (resolved_sample rp) \<and> sample_rate (resolved_sample rp) = 48000 \<and>
     pcm_frames (resolved_sample rp) < 2 ^ 32 \<and>
     valid_playback vd U (resolved_playback_of rp) (pcm_frames (resolved_sample rp))"

lemma gather_exact:
  "gather_materials vd U pads materials = Inr m \<longleftrightarrow>
     list_all (pad_preparable vd U) pads \<and> distinct (map slot_of_pad pads) \<and>
     (\<forall>rp\<in>set pads. materials (slot_of_pad rp) = None) \<and>
     m = materials ++ map_of (map (\<lambda>rp. (slot_of_pad rp, material_of rp)) pads)"
proof (induction pads arbitrary: materials)
  case (Cons rp pads)
  let ?s = "resolved_sample rp" and ?k = "slot_of_pad rp"
  have shape: "(\<not> is_valid_slot (resolved_slot rp) \<or> materials (global_slot (resolved_slot rp)) \<noteq> None \<or>
      sample_rate ?s \<noteq> kTransportSampleRate \<or> (channels ?s \<noteq> 1 \<and> channels ?s \<noteq> 2) \<or>
      interleaved ?s = [] \<or> length (interleaved ?s) mod unat (channels ?s) \<noteq> 0) =
    (\<not> (is_valid_slot (resolved_slot rp) \<and> materials ?k = None \<and> pcm_ok ?s \<and> sample_rate ?s = 48000))"
    by (auto simp: pcm_ok_def slot_of_pad_def)
  have big: "(2 ^ 32 - 1 < pcm_frames ?s) = (\<not> pcm_frames ?s < 2 ^ 32)" by auto
  have step: "gather_materials vd U (rp # pads) materials =
    (if \<not> (is_valid_slot (resolved_slot rp) \<and> materials ?k = None \<and> pcm_ok ?s \<and> sample_rate ?s = 48000) then
       timing_failure ''runtime snapshot Pattern Pad is invalid''
     else if \<not> pcm_frames ?s < 2 ^ 32 \<or> \<not> valid_playback vd U (resolved_playback_of rp) (pcm_frames ?s) then
       timing_failure ''runtime snapshot Pattern Pad material is invalid''
     else gather_materials vd U pads (materials(?k \<mapsto> material_of rp)))"
    unfolding gather_materials.simps Let_def shape pcm_frames_def [symmetric] big
    by (simp add: material_of_def slot_of_pad_def)
  show ?case
  proof (cases "pad_preparable vd U rp \<and> materials ?k = None")
    case True
    let ?new = "materials(?k \<mapsto> material_of rp)"
    let ?table = "\<lambda>ps. map_of (map (\<lambda>rp. (slot_of_pad rp, material_of rp)) ps)"
    have next_pads: "gather_materials vd U (rp # pads) materials = gather_materials vd U pads ?new"
      using True unfolding step by (simp add: pad_preparable_def)
    have free: "(\<forall>q\<in>set pads. ?new (slot_of_pad q) = None) \<longleftrightarrow>
        ?k \<notin> slot_of_pad ` set pads \<and> (\<forall>q\<in>set pads. materials (slot_of_pad q) = None)"
      unfolding image_iff fun_upd_apply by (metis option.distinct(1))
    show ?thesis
    proof (cases "?k \<in> slot_of_pad ` set pads")
      case True
      then show ?thesis unfolding next_pads Cons.IH free by simp
    next
      case new: False
      then have same: "?new ++ ?table pads = materials ++ ?table (rp # pads)"
        by (simp add: map_add_upd_left dom_map_of_conv_image_fst image_image)
      define T where "T = ?table (rp # pads)"
      show ?thesis using True new unfolding next_pads Cons.IH free same T_def [symmetric] by simp
    qed
  next
    case False
    then have "\<exists>e. gather_materials vd U (rp # pads) materials = Inl e"
      unfolding step by (auto simp: pad_preparable_def timing_failure_def)
    then show ?thesis using False by auto
  qed
qed auto

lemma unat_global_slot:
  assumes "is_valid_slot x"
  shows "unat (pad x) < 16" "unat (global_slot x) = unat (bank x) * 16 + unat (pad x)"
proof -
  have n: "unat (bank x) < 4" "unat (pad x) < 16" using assms by (simp_all add: is_valid_slot_def word_less_nat_alt)
  then show "unat (pad x) < 16" "unat (global_slot x) = unat (bank x) * 16 + unat (pad x)"
    by (simp_all add: global_slot_def unat_word_ariths)
qed

lemma global_slot_inj:
  assumes "is_valid_slot a" "is_valid_slot b" "global_slot a = global_slot b"
  shows "a = b"
proof -
  note n = unat_global_slot [OF assms(1)] unat_global_slot [OF assms(2)]
  have "unat (global_slot a) div 16 = unat (global_slot b) div 16" "unat (global_slot a) mod 16 = unat (global_slot b) mod 16"
    using assms(3) by simp_all
  then have "unat (bank a) = unat (bank b)" "unat (pad a) = unat (pad b)" unfolding n using n(1,3) by simp_all
  then show ?thesis by (cases a, cases b) (simp add: unsigned_word_eqI)
qed

lemma base_events_any: "base_events False base es = Inr (base @ map authored_event es)"
  by (induction es arbitrary: base) simp_all

lemma base_events_canonical:
  assumes "sorted_wrt (<) (map tie_key base)"
  shows "base_events True base es = (if sorted_wrt (<) (map tie_key (base @ map authored_event es))
    then Inr (base @ map authored_event es)
    else timing_failure ''runtime snapshot events are not canonical'')"
  using assms
proof (induction es arbitrary: base)
  case (Cons e es)
  let ?e = "authored_event e"
  have last: "sorted_wrt (<) (map tie_key (base @ [?e])) \<longleftrightarrow> base = [] \<or> tie_key (last base) < tie_key ?e"
    using Cons.prems by (cases base rule: rev_cases) (auto simp: sorted_wrt_append intro: less_trans)
  show ?case
  proof (cases "base = [] \<or> tie_key (last base) < tie_key ?e")
    case True
    then show ?thesis using Cons.IH [of "base @ [?e]"] last by (auto simp: not_le)
  next
    case False
    then have "\<not> sorted_wrt (<) (map tie_key ((base @ [?e]) @ map authored_event es))"
      using last unfolding map_append [of tie_key "base @ [?e]"] sorted_wrt_append by blast
    then show ?thesis using False by (auto simp: not_less)
  qed
qed simp

section \<open>Another tempo\<close>

lemma retime_exact:
  assumes "valid_bpm b" "list_all (valid_pattern_event limit) es" "unat limit \<le> 979200"
  shows "retime_events b kTransportPpq (map (prepared_of b0 materials) es) = Inr (map (prepared_of b materials) es)"
  using assms(2)
proof (induction es)
  case (Cons e es)
  then have "valid_pattern_event limit e" by simp
  note t = event_ticks [OF this]
  have small: "unat (ucast (onset_tick e) :: u64) \<le> max_tick"
    "unat (event_release_tick (onset_tick e) (duration_tick e)) \<le> max_tick"
    using t assms(3) by (simp_all add: unat_release unat_u32_up del: unsigned_ucast_eq)
  have "tick_boundary_frame (ucast (onset_tick e) + ucast (duration_tick e)) b kTransportPpq =
      Inr (frame_at b (event_release_tick (onset_tick e) (duration_tick e)))"
    using frame_at_exact(1) [OF assms(1) small(2)] by (simp add: event_release_tick_def)
  then show ?case using Cons frame_at_exact(1) [OF assms(1) small(1)]
    by (simp add: prepared_of_def Let_def)
qed simp

lemma retempo_is_prepare:
  assumes "prepare_pattern vd U snap overlay canonical = Inr v" "valid_bpm b"
  shows "with_tempo v b = prepare_pattern vd U (snap\<lparr>snapshot_bpm := b\<rparr>) overlay canonical"
proof -
  from assms(1) obtain materials base where ok: "timing_ok snap"
    and g: "gather_materials vd U (snapshot_pads snap) (\<lambda>_. None) = Inr materials"
    and base: "base_events canonical [] (snapshot_events snap) = Inr base"
    and fits: "list_all (event_fits materials (snapshot_loop_ticks snap)) (merged_events canonical base overlay)"
    and v: "v = pattern_view snap materials (merged_events canonical base overlay) (overlay \<noteq> [])"
    unfolding prepare_pattern_exact by blast
  let ?snap = "snap\<lparr>snapshot_bpm := b\<rparr>" and ?es = "merged_events canonical base overlay"
  have "timing_ok ?snap" using ok assms(2) unfolding timing_ok_def by (elim conjE, intro conjI) simp_all
  then have now: "prepare_pattern vd U ?snap overlay canonical = Inr (pattern_view ?snap materials ?es (overlay \<noteq> []))"
    unfolding prepare_pattern_exact using g base fits by simp
  note L = loop_ticks_bound [OF ok]
  have ppq: "snapshot_ppq snap = kTransportPpq" using ok by (simp add: timing_ok_def)
  have small: "unat (ucast (snapshot_loop_ticks snap) :: u64) \<le> max_tick" "unat (ucast kBarTicks4x4 :: u64) \<le> max_tick"
    using L by (simp_all add: unat_u32_up del: unsigned_ucast_eq)
  have "list_all (valid_pattern_event (snapshot_loop_ticks snap)) ?es"
    using fits by (auto simp: list_all_iff event_fits_def)
  note events = retime_exact [OF assms(2) this L]
  have "with_tempo v b = Inr (pattern_view ?snap materials ?es (overlay \<noteq> []))"
    using frame_at_exact(1) [OF assms(2) small(1)] frame_at_exact(1) [OF assms(2) small(2)] assms(2) events
    by (simp add: with_tempo_def v pattern_view_def ppq)
  with now show ?thesis by simp
qed

section \<open>What a view holds\<close>




lemma tie_key_order: "tie_key = key_order"
  by (rule ext) (simp add: tie_key_def key_order_def)


section \<open>Cooked snapshots prepare\<close>

lemma cooked_pad_preparable:
  assumes "pad_decoded g rp" "pad_playable rp" "is_valid_slot (resolved_slot rp)" "\<And>m. float_not_negative (g m)"
  shows "pad_preparable True U rp"
proof -
  obtain bs source pb where d: "decode_wav bs = Inr source" "prepare_runtime_pcm source = Inr (resolved_sample rp)"
    and r: "resolve_pad_playback True g pb (sample_rate source) (of_nat (pcm_frames source)) =
      Inr (resolved_playback_of rp)"
    using assms(1) by (auto simp: pad_decoded_def)
  let ?n = "pcm_frames (resolved_sample rp)" and ?p = "resolved_playback_of rp"
  have fits: "unat (play_end_frame ?p) \<le> ?n" "play_start_frame ?p < play_end_frame ?p"
    using assms(2) by (auto simp: pad_playable_def playback_fits_def Let_def word_less_nat_alt)
  have "\<not> voice_block_refused ?p ?n" using resolved_not_refused [OF r fits(1)] .
  then have "voice_dsp_fits True U ?p ?n" by (simp add: voice_dsp_fits_def prepare_voice_dsp_def)
  moreover obtain "play_trigger_mode ?p = trigger_mode pb" "is_valid_playback_for_source pb (of_nat (pcm_frames source))"
    "linear_gain ?p = g (gain_millidb pb)"
    using r by (rule resolved_shape)
  moreover have "float_finite (g (gain_millidb pb))"
    using resolved_playback_exact [of g pb "sample_rate source" "of_nat (pcm_frames source)"] r by simp
  ultimately have "valid_playback True U ?p ?n"
    using fits assms(4) by (auto simp: valid_playback_def is_valid_playback_for_source_def is_valid_playback_def split: if_splits)
  then show ?thesis using assms(2,3) prepared_small [OF d] by (simp add: pad_preparable_def pad_playable_def)
qed

lemma cooked_timing:
  assumes "cook True g s pid (Some resolve) = Inr snap"
  shows "timing_ok snap"
proof -
  from assms obtain p pads where "is_valid_uuid (state_id s)" "\<not> bpm s < 40" "\<not> 240 < bpm s"
    and p: "valid_pattern p" "snap = snapshot_of s p pads"
    unfolding cook_is_from cook_from_Inr by blast
  moreover have "is_valid_uuid (pattern_key p)" "pattern_length_ticks (pattern_bars p) \<noteq> 0"
    using p(1) pattern_length_cases [of "pattern_bars p"] by (auto simp: valid_pattern_iff validate_pattern_ok)
  ultimately show ?thesis by (simp add: timing_ok_def snapshot_of_def valid_bpm_def not_less)
qed

lemma cooked_prepares:
  assumes "array_extents s" "cook True g s pid (Some resolve) = Inr snap" "\<And>m. float_not_negative (g m)"
  shows "\<exists>v. from_canonical_snapshot True U snap = Inr v \<and> pattern_from_snapshot True U snap = Inr v"
proof -
  let ?pads = "snapshot_pads snap" and ?base = "map authored_event (snapshot_events snap)"
  note sound = snapshot_sound [OF assms(1,2)]
  have valid_slots: "is_valid_slot (resolved_slot rp)" if "rp \<in> set ?pads" for rp
    using sound that by (auto simp: list_all_iff pad_resolved_def resolve_slot_asset_def split: if_splits)
  have "pad_preparable True U rp" if "rp \<in> set ?pads" for rp
    using snapshot_decoded [OF assms(2)] sound that valid_slots [OF that] assms(3)
    by (intro cooked_pad_preparable) (auto simp: list_all_iff)
  moreover have "distinct (map slot_of_pad ?pads)"
  proof -
    have "distinct (map (\<lambda>rp. slot_place (resolved_slot rp)) ?pads)" using sound by (simp add: strict_sorted_iff)
    then show ?thesis unfolding distinct_map slot_of_pad_def inj_on_def
      using valid_slots global_slot_inj by metis
  qed
  ultimately obtain materials where g: "gather_materials True U ?pads (\<lambda>_. None) = Inr materials"
    and m: "materials = map_of (map (\<lambda>rp. (slot_of_pad rp, material_of rp)) ?pads)"
    by (simp add: gather_exact list_all_iff)
  have "map tie_key ?base = map event_place (snapshot_events snap)"
    by (simp add: authored_event_def tie_key_def event_place_def slot_place_def)
  then have asc: "sorted_wrt (<) (map tie_key ?base)" using sound by (simp only:)
  then have canonical: "canonical_events ?base" by (simp add: canonical_iff_ascending tie_key_order sorted_wrt_map)
  then have merged: "merge_pattern_events ?base [] = ?base"
    using merge_canonical [of ?base "[]"] canonical_events_unique by (auto simp: event_map_merge)
  have "event_fits materials (snapshot_loop_ticks snap) (authored_event e)" if "e \<in> set (snapshot_events snap)" for e
  proof -
    have "event_playable snap e" using sound that by (simp add: list_all_iff)
    then obtain rp where rp: "rp \<in> set ?pads" "resolved_slot rp = played_slot e"
      and e: "valid_velocity (played_velocity e)" "0 < unat (played_duration_tick e)"
      "unat (played_onset_tick e) + unat (played_duration_tick e) \<le> unat (snapshot_loop_ticks snap)"
      by (auto simp: event_playable_def)
    have k: "global_slot (played_slot e) = slot_of_pad rp" using rp(2) by (simp add: slot_of_pad_def)
    then have "materials (global_slot (played_slot e)) \<noteq> None"
      using rp(1) by (simp add: m map_of_eq_None_iff image_image del: not_None_eq)
    moreover have "is_valid_slot (played_slot e)" using valid_slots [OF rp(1)] rp(2) by simp
    ultimately show ?thesis using e by (auto simp: event_fits_def valid_pattern_event_nat authored_event_def)
  qed
  then have "list_all (event_fits materials (snapshot_loop_ticks snap)) ?base" by (auto simp: list_all_iff)
  moreover have "base_events True [] (snapshot_events snap) = Inr ?base" "base_events False [] (snapshot_events snap) = Inr ?base"
    using asc by (simp_all add: base_events_canonical base_events_any)
  ultimately have "prepare_pattern True U snap [] c = Inr (pattern_view snap materials ?base False)" for c
    unfolding prepare_pattern_exact using cooked_timing [OF assms(2)] g merged
    by (cases c) (simp_all add: merged_events_def)
  then show ?thesis by (simp add: from_canonical_snapshot_def pattern_from_snapshot_def)
qed

section \<open>Properties\<close>

lemma demo_snapshot:
  obtains snap v where "cook True unit_gain demo_cook_project (pattern_key demo_pattern) (Some demo_resolver) = Inr snap"
    "pattern_from_snapshot True unit_fpu snap = Inr v"
proof -
  have "is_ok (cook True unit_gain demo_cook_project (pattern_key demo_pattern) (Some demo_resolver))"
    using project_cooks [OF demo_cook_good demo_resolver_addressed] demo_pads_cook by blast
  then obtain snap where snap: "cook True unit_gain demo_cook_project (pattern_key demo_pattern) (Some demo_resolver) = Inr snap"
    by (auto simp: is_ok_def split: sum.splits)
  with cooked_prepares [OF demo_cook_good(2) snap, of unit_fpu] show thesis
    using that by (auto simp: float_not_negative_def float_sign_def)
qed



text \<open>
  Property C8. Deriving another tempo is preparing at that tempo: from a view of a snapshot, \<open>with_tempo\<close>
  gives the view of the snapshot with the new tempo, whatever the overlay, and it fails only for
  a tempo outside 40 to 240. So tempo changes can be chained in any way and lose nothing.
\<close>

theorem tempo_is_preparing_again:
  assumes "prepare_pattern vd U snap overlay canonical = Inr v"
  shows "with_tempo v b = (if valid_bpm b then prepare_pattern vd U (snap\<lparr>snapshot_bpm := b\<rparr>) overlay canonical
     else timing_failure ''Pattern tempo must be from 40 through 240 BPM'')"
  using retempo_is_prepare [OF assms] by (simp add: with_tempo_def)

theorem tempo_is_preparing_again_witness:
  "\<exists>snap v. pattern_from_snapshot True unit_fpu snap = Inr v \<and>
     with_tempo v 90 = pattern_from_snapshot True unit_fpu (snap\<lparr>snapshot_bpm := 90\<rparr>) \<and> \<not> is_ok (with_tempo v 30)"
proof -
  obtain snap v where v: "pattern_from_snapshot True unit_fpu snap = Inr v" by (rule demo_snapshot)
  then have "prepare_pattern True unit_fpu snap [] False = Inr v" by (simp only: pattern_from_snapshot_def)
  note tempo = tempo_is_preparing_again [OF this]
  have "valid_bpm 90" "\<not> valid_bpm 30" by (simp_all add: valid_bpm_def)
  then have "with_tempo v 90 = pattern_from_snapshot True unit_fpu (snap\<lparr>snapshot_bpm := 90\<rparr>)"
    "\<not> is_ok (with_tempo v 30)"
    using tempo [of 90] tempo [of 30] by (simp_all add: pattern_from_snapshot_def timing_failure_def)
  with v show ?thesis by blast
qed

text \<open>
  Property C30. Every cooked snapshot can be played: with gains that are not negative, preparing it succeeds, both
  with the merge and with the strict reader that only checks the order, and both give the same view.
\<close>

theorem cooked_pattern_prepares:
  assumes "array_extents s" "cook True g s pid (Some resolve) = Inr snap" "\<forall>m. float_not_negative (g m)"
  shows "\<exists>v. from_canonical_snapshot True U snap = Inr v \<and> pattern_from_snapshot True U snap = Inr v"
  using cooked_prepares [OF assms(1,2)] assms(3) by blast

theorem cooked_pattern_prepares_witness:
  "\<exists>snap v. cook True unit_gain demo_cook_project (pattern_key demo_pattern) (Some demo_resolver) = Inr snap \<and>
     from_canonical_snapshot True unit_fpu snap = Inr v"
proof -
  obtain snap where snap: "cook True unit_gain demo_cook_project (pattern_key demo_pattern) (Some demo_resolver) = Inr snap"
    by (rule demo_snapshot)
  have "\<forall>m. float_not_negative (unit_gain m)" by (simp add: float_not_negative_def float_sign_def)
  with cooked_pattern_prepares [OF demo_cook_good(2) snap, of unit_fpu] snap show ?thesis by blast
qed

end
