(* ===== verification/Spsc_Queue.thy ===== *)
theory Spsc_Queue
  imports Prelude
begin

text \<open>
  The lock-free queue between one producer and one consumer thread
  (\<open>packages/audio-runtime/include/lmdj/audio/detail/fixed_spsc_queue.hpp\<close> and
  \<open>runtime_spsc_storage.hpp\<close>, which differ only in where the cells are). Indices are \<open>std::size_t\<close> below the
  number of cells, so their arithmetic does not wrap and they are natural numbers; only the byte count of
  the allocation can overflow and is kept at 64 bits.

  First the operations, then the bounded queue they implement, then the interleavings: the shared memory
  accesses of both threads as the steps of a transition system. The acquire and release orderings of the
  source make each thread see the cells the other has published with its index, so the steps interleave
  in one order.
\<close>

section \<open>The operations\<close>

record 'a spsc =
  cells :: "'a list"
  read_index :: nat
  write_index :: nat

text \<open>The number of cells, one more than the capacity.\<close>

abbreviation storage :: "'a spsc \<Rightarrow> nat" where
  "storage q \<equiv> length (cells q)"

definition new_queue :: "'a \<Rightarrow> nat \<Rightarrow> 'a spsc" where
  "new_queue zero cap = \<lparr>cells = replicate (cap + 1) zero, read_index = 0, write_index = 0\<rparr>"

definition allocation_bytes :: "u64 \<Rightarrow> u64 \<Rightarrow> u64 option" where
  "allocation_bytes element_size cap =
     (if cap = 0 \<or> 0xFFFFFFFFFFFFFFFF div element_size \<le> cap then None else Some ((cap + 1) * element_size))"

definition queue_capacity :: "'a spsc \<Rightarrow> nat" where
  "queue_capacity q = storage q - 1"

definition increment :: "'a spsc \<Rightarrow> nat \<Rightarrow> nat" where
  "increment q v = (if v + 1 = storage q then 0 else v + 1)"

definition try_push :: "'a spsc \<Rightarrow> 'a \<Rightarrow> bool \<times> 'a spsc" where
  "try_push q v =
     (let w = write_index q; next_index = increment q w
      in if next_index = read_index q then (False, q)
         else (True, q\<lparr>cells := (cells q)[w := v], write_index := next_index\<rparr>))"

definition try_pop :: "'a spsc \<Rightarrow> 'a option \<times> 'a spsc" where
  "try_pop q =
     (let r = read_index q
      in if r = write_index q then (None, q)
         else (Some (cells q ! r), q\<lparr>read_index := increment q r\<rparr>))"

definition size_approx :: "'a spsc \<Rightarrow> nat" where
  "size_approx q =
     (let r = read_index q; w = write_index q in if r \<le> w then w - r else storage q - r + w)"

definition clear_quiescent :: "'a spsc \<Rightarrow> nat \<times> 'a spsc" where
  "clear_quiescent q = (size_approx q, q\<lparr>read_index := write_index q\<rparr>)"

section \<open>A bounded queue\<close>

text \<open>What the engine relies on: a queue of at most \<open>limit\<close> values, read through its contents.\<close>

locale bounded_queue =
  fixes valid :: "'q \<Rightarrow> bool"
    and contents :: "'q \<Rightarrow> 'v list"
    and limit :: "'q \<Rightarrow> nat"
    and push :: "'q \<Rightarrow> 'v \<Rightarrow> bool \<times> 'q"
    and pop :: "'q \<Rightarrow> 'v option \<times> 'q"
    and clear :: "'q \<Rightarrow> nat \<times> 'q"
  assumes bounded: "valid q \<Longrightarrow> length (contents q) \<le> limit q"
    and push_valid: "valid q \<Longrightarrow> valid (snd (push q v)) \<and> limit (snd (push q v)) = limit q"
    and push_fits: "valid q \<Longrightarrow> length (contents q) < limit q \<Longrightarrow>
      fst (push q v) \<and> contents (snd (push q v)) = contents q @ [v]"
    and push_full: "valid q \<Longrightarrow> length (contents q) = limit q \<Longrightarrow>
      \<not> fst (push q v) \<and> contents (snd (push q v)) = contents q"
    and pop_valid: "valid q \<Longrightarrow> valid (snd (pop q)) \<and> limit (snd (pop q)) = limit q"
    and pop_first: "valid q \<Longrightarrow> contents q = v # vs \<Longrightarrow> fst (pop q) = Some v \<and> contents (snd (pop q)) = vs"
    and pop_empty: "valid q \<Longrightarrow> contents q = [] \<Longrightarrow> fst (pop q) = None \<and> contents (snd (pop q)) = []"
    and clear_valid: "valid q \<Longrightarrow> valid (snd (clear q)) \<and> limit (snd (clear q)) = limit q"
    and clear_all: "valid q \<Longrightarrow> fst (clear q) = length (contents q) \<and> contents (snd (clear q)) = []"
begin

text \<open>Any sequence of pushes (\<open>Some v\<close>) and pops (\<open>None\<close>): the values accepted and the values taken.\<close>

fun exchange :: "'v option list \<Rightarrow> 'q \<Rightarrow> 'v list \<times> 'v list \<times> 'q" where
  "exchange [] q = ([], [], q)"
| "exchange (Some v # ops) q =
     (case push q v of (ok, q') \<Rightarrow>
       (case exchange ops q' of (taken_in, out, r) \<Rightarrow> ((if ok then v # taken_in else taken_in), out, r)))"
| "exchange (None # ops) q =
     (case pop q of (x, q') \<Rightarrow>
       (case exchange ops q' of (taken_in, out, r) \<Rightarrow>
         (taken_in, (case x of None \<Rightarrow> out | Some v \<Rightarrow> v # out), r)))"

lemma fifo:
  assumes "valid q" "exchange ops q = (accepted, taken, r)"
  shows "valid r \<and> limit r = limit q \<and> contents q @ accepted = taken @ contents r"
  using assms
proof (induction ops q arbitrary: accepted taken r rule: exchange.induct)
  case (2 v ops q)
  obtain ok q' where p: "push q v = (ok, q')" by fastforce
  obtain a t where e: "exchange ops q' = (a, t, r)" "accepted = (if ok then v # a else a)" "taken = t"
    using "2.prems"(2) p by (auto split: prod.splits)
  have q': "valid q'" "limit q' = limit q" using push_valid [OF "2.prems"(1), of v] p by simp_all
  from "2.IH" [OF p [symmetric] q'(1) e(1)] have IH: "valid r" "limit r = limit q'" "contents q' @ a = t @ contents r"
    by blast+
  have "contents q @ accepted = contents q' @ a"
  proof (cases "length (contents q) < limit q")
    case True
    then show ?thesis using push_fits [OF "2.prems"(1), of v] p e(2) by simp
  next
    case False
    then have "length (contents q) = limit q" using bounded [OF "2.prems"(1)] by simp
    then show ?thesis using push_full [OF "2.prems"(1), of v] p e(2) by simp
  qed
  then show ?case using IH q' e(3) by simp
next
  case (3 ops q)
  obtain x q' where p: "pop q = (x, q')" by fastforce
  obtain t where e: "exchange ops q' = (accepted, t, r)" "taken = (case x of None \<Rightarrow> t | Some v \<Rightarrow> v # t)"
    using "3.prems"(2) p by (auto split: prod.splits)
  have q': "valid q'" "limit q' = limit q" using pop_valid [OF "3.prems"(1)] p by simp_all
  from "3.IH" [OF p [symmetric] q'(1) e(1)] have "valid r" "limit r = limit q'" "contents q' @ accepted = t @ contents r"
    by blast+
  then show ?case using q' p e(2) pop_first [OF "3.prems"(1)] pop_empty [OF "3.prems"(1)]
    by (cases "contents q") auto
qed simp

end

section \<open>The ring of cells is one\<close>

definition queue_ok :: "'a spsc \<Rightarrow> bool" where
  "queue_ok q \<longleftrightarrow> 2 \<le> storage q \<and> read_index q < storage q \<and> write_index q < storage q"

definition queued :: "'a spsc \<Rightarrow> 'a list" where
  "queued q = map (\<lambda>i. cells q ! ((read_index q + i) mod storage q)) [0..<size_approx q]"

lemma increment_mod: "v < storage q \<Longrightarrow> increment q v = (v + 1) mod storage q"
  by (auto simp: increment_def mod_Suc)

lemma size_small: "queue_ok q \<Longrightarrow> size_approx q < storage q"
  by (auto simp: queue_ok_def size_approx_def Let_def)

lemma write_is_end:
  assumes "queue_ok q"
  shows "write_index q = (read_index q + size_approx q) mod storage q"
proof (cases "read_index q \<le> write_index q")
  case True
  then show ?thesis using assms by (simp add: queue_ok_def size_approx_def)
next
  case False
  then have "read_index q + size_approx q = storage q + write_index q"
    using assms by (simp add: queue_ok_def size_approx_def)
  then show ?thesis using assms by (simp add: queue_ok_def)
qed

text \<open>The size is the one number of cells from the read index to the write index.\<close>

lemma mod_shift_inj:
  fixes r a b n :: nat
  assumes "(r + a) mod n = (r + b) mod n" "a < n" "b < n"
  shows "a = b"
proof -
  have "x = y" if "x \<le> y" "(r + x) mod n = (r + y) mod n" "y < n" for x y
  proof -
    have "n dvd (r + y) - (r + x)" using that mod_eq_dvd_iff_nat [of "r + x" "r + y" n] by simp
    then show ?thesis using that(1,3) by (auto dest: dvd_imp_le)
  qed
  with assms show ?thesis by (metis nle_le)
qed

lemma size_unique:
  assumes "queue_ok q" "write_index q = (read_index q + n) mod storage q" "n < storage q"
  shows "size_approx q = n"
  using mod_shift_inj write_is_end [OF assms(1)] assms size_small by metis

lemma queued_length [simp]: "length (queued q) = size_approx q"
  by (simp add: queued_def)

lemma empty_iff: "queue_ok q \<Longrightarrow> read_index q = write_index q \<longleftrightarrow> size_approx q = 0"
  by (auto simp: queue_ok_def size_approx_def Let_def)

text \<open>Writing the cell at the write index and moving the index past it.\<close>

lemma stored_push:
  fixes q :: "'a spsc" and v :: 'a
  assumes ok: "queue_ok q" and room: "size_approx q < queue_capacity q"
  defines "q' \<equiv> q\<lparr>cells := (cells q)[write_index q := v], write_index := increment q (write_index q)\<rparr>"
  shows "queue_ok q'" "queue_capacity q' = queue_capacity q" "queued q' = queued q @ [v]"
proof -
  let ?n = "storage q" and ?s = "size_approx q"
  have n: "2 \<le> ?n" "write_index q < ?n" "?s + 1 < ?n"
    using ok room by (simp_all add: queue_ok_def queue_capacity_def)
  show q': "queue_ok q'" using ok by (auto simp: q'_def queue_ok_def increment_def)
  show "queue_capacity q' = queue_capacity q" by (simp add: q'_def queue_capacity_def)
  have "write_index q' = (write_index q + 1) mod ?n" using n by (simp add: q'_def increment_mod)
  also have "\<dots> = (read_index q + (?s + 1)) mod ?n"
    using write_is_end [OF ok] by (metis add.assoc mod_add_left_eq)
  finally have size: "size_approx q' = ?s + 1"
    using q' n by (intro size_unique) (simp_all add: q'_def)
  have old: "cells q' ! ((read_index q + i) mod ?n) = cells q ! ((read_index q + i) mod ?n)" if "i < ?s" for i
  proof -
    have "(read_index q + i) mod ?n \<noteq> write_index q"
      using mod_shift_inj [of "read_index q" i ?n ?s] write_is_end [OF ok] that n(3) by auto
    then show ?thesis by (simp add: q'_def)
  qed
  have "cells q' ! ((read_index q + ?s) mod ?n) = v"
    using write_is_end [OF ok] n by (simp add: q'_def)
  with old show "queued q' = queued q @ [v]" by (simp add: queued_def size) (simp add: q'_def)
qed

text \<open>Moving the read index past the first value.\<close>

lemma taken_pop:
  assumes ok: "queue_ok q" and some: "size_approx q \<noteq> 0"
  defines "q' \<equiv> q\<lparr>read_index := increment q (read_index q)\<rparr>"
  shows "queue_ok q'" "queue_capacity q' = queue_capacity q" "queued q = cells q ! read_index q # queued q'"
proof -
  let ?n = "storage q" and ?s = "size_approx q"
  have n: "2 \<le> ?n" "read_index q < ?n" "?s < ?n" using ok size_small [OF ok] by (simp_all add: queue_ok_def)
  show q': "queue_ok q'" using ok by (auto simp: q'_def queue_ok_def increment_def)
  show "queue_capacity q' = queue_capacity q" by (simp add: q'_def queue_capacity_def)
  have r: "read_index q' = (read_index q + 1) mod ?n" using n by (simp add: q'_def increment_mod)
  have shift: "(read_index q' + i) mod ?n = (read_index q + Suc i) mod ?n" for i
    unfolding r by (simp add: mod_add_left_eq)
  have "write_index q' = (read_index q' + (?s - 1)) mod ?n"
    unfolding shift using write_is_end [OF ok] some by (simp add: q'_def)
  then have size: "size_approx q' = ?s - 1" using q' n by (intro size_unique) (simp_all add: q'_def)
  have cells: "cells q' = cells q" by (simp add: q'_def)
  have "[0..<?s] = 0 # map Suc [0..<?s - 1]" using some by (simp add: map_Suc_upt upt_conv_Cons)
  then show "queued q = cells q ! read_index q # queued q'"
    using n by (simp add: queued_def size cells shift)
qed

lemma full_iff:
  assumes "queue_ok q"
  shows "increment q (write_index q) = read_index q \<longleftrightarrow> size_approx q = queue_capacity q"
proof -
  let ?n = "storage q"
  have n: "2 \<le> ?n" "write_index q < ?n" "read_index q < ?n" using assms by (simp_all add: queue_ok_def)
  define m where "m = (size_approx q + 1) mod ?n"
  have m: "m < ?n" unfolding m_def by (rule mod_less_divisor) (use n in linarith)
  have "increment q (write_index q) = (read_index q + (size_approx q + 1)) mod ?n"
    using write_is_end [OF assms] n by (simp add: increment_mod mod_Suc_eq)
  also have "\<dots> = (read_index q + m) mod ?n" by (simp add: m_def mod_add_right_eq)
  finally have inc: "increment q (write_index q) = (read_index q + m) mod ?n" .
  have "(read_index q + m) mod ?n = read_index q \<longleftrightarrow> m = 0"
  proof
    assume "(read_index q + m) mod ?n = read_index q"
    then have "(read_index q + m) mod ?n = (read_index q + 0) mod ?n" using n by simp
    then show "m = 0" using mod_shift_inj m n by (metis le_less_trans zero_le)
  qed (use n in simp)
  moreover have "m = 0 \<longleftrightarrow> size_approx q = queue_capacity q"
    using size_small [OF assms] n by (auto simp: m_def queue_capacity_def mod_Suc)
  ultimately show ?thesis by (simp add: inc)
qed

interpretation ring: bounded_queue queue_ok queued queue_capacity try_push try_pop clear_quiescent
proof (unfold_locales, goal_cases)
  case (1 q) then show ?case using size_small [of q] by (simp add: queue_capacity_def)
next
  case (2 q v) then show ?case
    using full_iff [of q] size_small [of q] stored_push(1,2) [of q v]
    by (auto simp: try_push_def Let_def queue_capacity_def)
next
  case (3 q v) then show ?case
    using full_iff [of q] stored_push(3) [of q v] by (auto simp: try_push_def Let_def)
next
  case (4 q v) then show ?case using full_iff [of q] by (simp add: try_push_def Let_def)
next
  case (5 q) then show ?case
    using empty_iff [of q] taken_pop(1,2) [of q] by (auto simp: try_pop_def Let_def)
next
  case (6 q v vs) then show ?case
    using empty_iff [of q] taken_pop(3) [of q] queued_length [of q] by (auto simp: try_pop_def Let_def)
next
  case (7 q) then show ?case
    using empty_iff [of q] queued_length [of q] by (simp add: try_pop_def Let_def)
next
  case (8 q) then show ?case by (simp add: clear_quiescent_def queue_ok_def queue_capacity_def)
next
  case (9 q) then show ?case by (simp add: clear_quiescent_def) (simp add: queued_def size_approx_def)
qed

section \<open>Interleavings\<close>

text \<open>
  Where each thread stands between two accesses to shared memory. A push loads both indices, writes
  its cell, then publishes the index; a pop loads both indices, copies the cell, then releases it.
\<close>

datatype 'a push_at =
  Push_idle
| Push_begun 'a nat
| Push_room 'a nat
| Push_written 'a nat

datatype 'a pop_at =
  Pop_idle
| Pop_begun nat
| Pop_some nat
| Pop_copied nat 'a

record 'a spsc_threads =
  shared :: "'a spsc"
  producer :: "'a push_at"
  consumer :: "'a pop_at"
  published :: "'a list"
  consumed :: "'a list"

inductive spsc_step :: "'a spsc_threads \<Rightarrow> 'a spsc_threads \<Rightarrow> bool" where
  push_load_write: "producer c = Push_idle \<Longrightarrow>
    spsc_step c (c\<lparr>producer := Push_begun v (write_index (shared c))\<rparr>)"
| push_full: "producer c = Push_begun v w \<Longrightarrow> increment (shared c) w = read_index (shared c) \<Longrightarrow>
    spsc_step c (c\<lparr>producer := Push_idle\<rparr>)"
| push_load_read: "producer c = Push_begun v w \<Longrightarrow> increment (shared c) w \<noteq> read_index (shared c) \<Longrightarrow>
    spsc_step c (c\<lparr>producer := Push_room v w\<rparr>)"
| push_store_cell: "producer c = Push_room v w \<Longrightarrow>
    spsc_step c (c\<lparr>shared := (shared c)\<lparr>cells := (cells (shared c))[w := v]\<rparr>, producer := Push_written v w\<rparr>)"
| push_publish: "producer c = Push_written v w \<Longrightarrow>
    spsc_step c (c\<lparr>shared := (shared c)\<lparr>write_index := increment (shared c) w\<rparr>, producer := Push_idle,
      published := published c @ [v]\<rparr>)"
| pop_load_read: "consumer c = Pop_idle \<Longrightarrow>
    spsc_step c (c\<lparr>consumer := Pop_begun (read_index (shared c))\<rparr>)"
| pop_empty: "consumer c = Pop_begun r \<Longrightarrow> r = write_index (shared c) \<Longrightarrow>
    spsc_step c (c\<lparr>consumer := Pop_idle\<rparr>)"
| pop_load_write: "consumer c = Pop_begun r \<Longrightarrow> r \<noteq> write_index (shared c) \<Longrightarrow>
    spsc_step c (c\<lparr>consumer := Pop_some r\<rparr>)"
| pop_copy: "consumer c = Pop_some r \<Longrightarrow>
    spsc_step c (c\<lparr>consumer := Pop_copied r (cells (shared c) ! r)\<rparr>)"
| pop_release: "consumer c = Pop_copied r v \<Longrightarrow>
    spsc_step c (c\<lparr>shared := (shared c)\<lparr>read_index := increment (shared c) r\<rparr>, consumer := Pop_idle,
      consumed := consumed c @ [v]\<rparr>)"

definition spsc_start :: "'a \<Rightarrow> nat \<Rightarrow> 'a spsc_threads" where
  "spsc_start zero cap = \<lparr>shared = new_queue zero cap, producer = Push_idle, consumer = Pop_idle,
     published = [], consumed = []\<rparr>"

text \<open>One thread alone runs its operation as the sequential one.\<close>

lemma push_alone:
  assumes "producer c = Push_idle" "try_push (shared c) v = (ok, q)"
  shows "spsc_step\<^sup>*\<^sup>* c (c\<lparr>shared := q, published := published c @ (if ok then [v] else [])\<rparr>)"
proof -
  let ?w = "write_index (shared c)"
  let ?begun = "c\<lparr>producer := Push_begun v ?w\<rparr>"
  have begun: "spsc_step c ?begun" using assms(1) by (rule push_load_write)
  show ?thesis
  proof (cases "increment (shared c) ?w = read_index (shared c)")
    case True
    have "spsc_step ?begun (?begun\<lparr>producer := Push_idle\<rparr>)"
      by (rule push_full [of _ v ?w]) (simp_all add: True)
    moreover have "?begun\<lparr>producer := Push_idle\<rparr> = c\<lparr>shared := q, published := published c @ (if ok then [v] else [])\<rparr>"
      using assms True by (simp add: try_push_def Let_def)
    ultimately show ?thesis using begun by (metis converse_rtranclp_into_rtranclp r_into_rtranclp)
  next
    case False
    let ?room = "?begun\<lparr>producer := Push_room v ?w\<rparr>"
    let ?written = "?room\<lparr>shared := (shared ?room)\<lparr>cells := (cells (shared ?room))[?w := v]\<rparr>, producer := Push_written v ?w\<rparr>"
    let ?done = "?written\<lparr>shared := (shared ?written)\<lparr>write_index := increment (shared ?written) ?w\<rparr>,
      producer := Push_idle, published := published ?written @ [v]\<rparr>"
    have "spsc_step ?begun ?room" by (rule push_load_read [of _ v ?w]) (simp_all add: False)
    moreover have "spsc_step ?room ?written" by (rule push_store_cell) simp
    moreover have "spsc_step ?written ?done" by (rule push_publish) simp
    moreover have "?done = c\<lparr>shared := q, published := published c @ (if ok then [v] else [])\<rparr>"
      using assms False by (simp add: try_push_def Let_def increment_def)
    ultimately show ?thesis using begun
      by (metis (no_types, lifting) converse_rtranclp_into_rtranclp r_into_rtranclp)
  qed
qed

text \<open>What holds between any two steps.\<close>

definition producer_ok :: "'a spsc_threads \<Rightarrow> bool" where
  "producer_ok c \<longleftrightarrow>
     (let q = shared c in case producer c of
        Push_idle \<Rightarrow> True
      | Push_begun v w \<Rightarrow> w = write_index q
      | Push_room v w \<Rightarrow> w = write_index q \<and> size_approx q < queue_capacity q
      | Push_written v w \<Rightarrow> w = write_index q \<and> size_approx q < queue_capacity q \<and> cells q ! w = v)"

definition consumer_ok :: "'a spsc_threads \<Rightarrow> bool" where
  "consumer_ok c \<longleftrightarrow>
     (let q = shared c in case consumer c of
        Pop_idle \<Rightarrow> True
      | Pop_begun r \<Rightarrow> r = read_index q
      | Pop_some r \<Rightarrow> r = read_index q \<and> size_approx q \<noteq> 0
      | Pop_copied r v \<Rightarrow> r = read_index q \<and> size_approx q \<noteq> 0 \<and> cells q ! r = v)"

definition threads_ok :: "'a spsc_threads \<Rightarrow> bool" where
  "threads_ok c \<longleftrightarrow> queue_ok (shared c) \<and> published c = consumed c @ queued (shared c) \<and>
     producer_ok c \<and> consumer_ok c"

lemma cell_store:
  fixes q :: "'a spsc" and v :: 'a
  assumes "queue_ok q"
  defines "q' \<equiv> q\<lparr>cells := (cells q)[write_index q := v]\<rparr>"
  shows "queue_ok q'" "queued q' = queued q" "size_approx q' = size_approx q" "queue_capacity q' = queue_capacity q"
    "size_approx q \<noteq> 0 \<Longrightarrow> cells q' ! read_index q = cells q ! read_index q"
proof -
  let ?n = "storage q"
  show ok: "queue_ok q'" using assms(1) by (simp add: q'_def queue_ok_def)
  show size: "size_approx q' = size_approx q" by (simp add: q'_def size_approx_def Let_def)
  show "queue_capacity q' = queue_capacity q" by (simp add: q'_def queue_capacity_def)
  have "write_index q \<noteq> (read_index q + i) mod ?n" if "i < size_approx q" for i
    using mod_shift_inj [of "read_index q" i ?n "size_approx q"] write_is_end [OF assms(1)] that
      size_small [OF assms(1)] by auto
  then have "cells q' ! ((read_index q + i) mod ?n) = cells q ! ((read_index q + i) mod ?n)" if "i < size_approx q" for i
    using that by (simp add: q'_def)
  then show "queued q' = queued q" by (simp add: queued_def size) (simp add: q'_def)
  show "cells q' ! read_index q = cells q ! read_index q" if "size_approx q \<noteq> 0"
    using empty_iff [OF assms(1)] that by (simp add: q'_def)
qed

lemma threads_ok_step:
  assumes "spsc_step c d" "threads_ok c"
  shows "threads_ok d"
  using assms
proof cases
  case (push_load_write v)
  then show ?thesis using assms(2) by (simp add: threads_ok_def producer_ok_def consumer_ok_def Let_def)
next
  case (push_full v w)
  then show ?thesis using assms(2) by (simp add: threads_ok_def producer_ok_def consumer_ok_def Let_def)
next
  case (push_load_read v w)
  then show ?thesis using assms(2) full_iff [of "shared c"] size_small [of "shared c"]
    by (auto simp: threads_ok_def producer_ok_def consumer_ok_def Let_def queue_capacity_def)
next
  case (push_store_cell v w)
  then have w: "w = write_index (shared c)" "queue_ok (shared c)"
    using assms(2) by (simp_all add: threads_ok_def producer_ok_def Let_def)
  then show ?thesis using assms(2) push_store_cell cell_store [OF w(2), of v]
    by (auto simp: threads_ok_def producer_ok_def consumer_ok_def Let_def queue_ok_def split: pop_at.splits)
next
  case (push_publish v w)
  then have w: "w = write_index (shared c)" "queue_ok (shared c)" "size_approx (shared c) < queue_capacity (shared c)"
    "cells (shared c) ! w = v"
    using assms(2) by (auto simp: threads_ok_def producer_ok_def Let_def)
  let ?q = "(shared c)\<lparr>write_index := increment (shared c) w\<rparr>"
  have cells: "(cells (shared c))[write_index (shared c) := v] = cells (shared c)"
    using w(1,4) by (metis list_update_id)
  have same: "(shared c)\<lparr>cells := cells (shared c), write_index := i\<rparr> = (shared c)\<lparr>write_index := i\<rparr>" for i by simp
  have push: "queue_ok ?q" "queue_capacity ?q = queue_capacity (shared c)" "queued ?q = queued (shared c) @ [v]"
    using stored_push [OF w(2,3), of v] unfolding cells same w(1) by blast+
  have "size_approx ?q = Suc (size_approx (shared c))" using arg_cong [OF push(3), of length] by simp
  then show ?thesis using assms(2) push_publish push
    by (auto simp: threads_ok_def producer_ok_def consumer_ok_def Let_def split: pop_at.splits)
next
  case (pop_load_read)
  then show ?thesis using assms(2) by (simp add: threads_ok_def producer_ok_def consumer_ok_def Let_def)
next
  case (pop_empty r)
  then show ?thesis using assms(2) by (simp add: threads_ok_def producer_ok_def consumer_ok_def Let_def)
next
  case (pop_load_write r)
  then show ?thesis using assms(2) empty_iff [of "shared c"]
    by (auto simp: threads_ok_def producer_ok_def consumer_ok_def Let_def)
next
  case (pop_copy r)
  then show ?thesis using assms(2) by (simp add: threads_ok_def producer_ok_def consumer_ok_def Let_def)
next
  case (pop_release r v)
  then have r: "r = read_index (shared c)" "queue_ok (shared c)" "size_approx (shared c) \<noteq> 0" "cells (shared c) ! r = v"
    using assms(2) by (auto simp: threads_ok_def consumer_ok_def Let_def)
  let ?q = "(shared c)\<lparr>read_index := increment (shared c) r\<rparr>"
  have pop: "queue_ok ?q" "queue_capacity ?q = queue_capacity (shared c)" "queued (shared c) = v # queued ?q"
    using taken_pop [OF r(2,3)] r(4) unfolding r(1) by simp_all
  have "size_approx (shared c) = Suc (size_approx ?q)" using arg_cong [OF pop(3), of length] by simp
  then show ?thesis using assms(2) pop_release pop
    by (auto simp: threads_ok_def producer_ok_def consumer_ok_def Let_def split: push_at.splits)
qed

lemma threads_start: "0 < cap \<Longrightarrow> threads_ok (spsc_start zero cap)"
  by (simp add: threads_ok_def spsc_start_def producer_ok_def consumer_ok_def new_queue_def queue_ok_def)
    (simp add: queued_def size_approx_def)

lemma threads_reachable:
  assumes "spsc_step\<^sup>*\<^sup>* (spsc_start zero cap) c" "0 < cap"
  shows "threads_ok c"
  using assms(1)
proof induction
  case base
  show ?case using assms(2) by (rule threads_start)
next
  case (step c d)
  show ?case by (rule threads_ok_step [OF step.hyps(2) step.IH])
qed

lemma step_keeps_capacity: "spsc_step c d \<Longrightarrow> queue_capacity (shared d) = queue_capacity (shared c)"
  by (erule spsc_step.cases) (simp_all add: queue_capacity_def)

lemma reachable_capacity:
  assumes "spsc_step\<^sup>*\<^sup>* (spsc_start zero cap) c"
  shows "queue_capacity (shared c) = cap"
  using assms
proof induction
  case base
  show ?case by (simp add: spsc_start_def new_queue_def queue_capacity_def)
next
  case (step c d)
  then show ?case by (metis step_keeps_capacity)
qed

section \<open>Properties\<close>

text \<open>
  Property C35. Refinement: the ring is a bounded queue. Of any sequence of pushes and pops, the values taken
  and then the values left are the values before followed by the values accepted, in order; a push is
  refused exactly when the queue holds as many values as its capacity, and a pop exactly when it is empty.
\<close>

theorem ring_is_bounded_queue:
  assumes "queue_ok q"
  shows "(ring.exchange ops q = (accepted, taken, r) \<longrightarrow>
      queue_ok r \<and> queue_capacity r = queue_capacity q \<and> queued q @ accepted = taken @ queued r) \<and>
    fst (try_push q v) = (length (queued q) < queue_capacity q) \<and>
    (fst (try_pop q) = None) = (queued q = []) \<and>
    size_approx q = length (queued q)"
proof -
  have order: "ring.exchange ops q = (accepted, taken, r) \<longrightarrow>
      queue_ok r \<and> queue_capacity r = queue_capacity q \<and> queued q @ accepted = taken @ queued r"
    using ring.fifo [OF assms] by blast
  have push: "fst (try_push q v) = (length (queued q) < queue_capacity q)"
    using ring.push_fits [OF assms, of v] ring.push_full [OF assms, of v] ring.bounded [OF assms]
    by (cases "length (queued q) < queue_capacity q") auto
  have pop: "(fst (try_pop q) = None) = (queued q = [])"
    using ring.pop_first [OF assms] ring.pop_empty [OF assms] by (cases "queued q") auto
  have size: "size_approx q = length (queued q)" by simp
  show ?thesis by (rule conjI [OF order conjI [OF push conjI [OF pop size]]])
qed

theorem ring_is_bounded_queue_witness:
  "queue_ok \<lparr>cells = [7, 8, 10 :: u8], read_index = 2, write_index = 0\<rparr> \<and>
   queued (new_queue 0 2) @ [7, 8, 10] = [7, 8] @ queued \<lparr>cells = [7, 8, 10 :: u8], read_index = 2, write_index = 0\<rparr> \<and>
   fst (try_push (new_queue 0 2) (7 :: u8))"
proof -
  have ok: "queue_ok (new_queue (0 :: u8) 2)" by (simp add: new_queue_def queue_ok_def)
  have "ring.exchange [Some 7, Some 8, Some 9, None, Some 10, None] (new_queue (0 :: u8) 2) =
      ([7, 8, 10], [7, 8], \<lparr>cells = [7, 8, 10], read_index = 2, write_index = 0\<rparr>)"
    by (simp add: new_queue_def try_push_def try_pop_def increment_def numeral_3_eq_3 numeral_2_eq_2)
  moreover have "fst (try_push (new_queue 0 2) (7 :: u8))"
    using ring_is_bounded_queue [OF ok] by (simp add: queue_capacity_def new_queue_def size_approx_def)
  ultimately show ?thesis using ring_is_bounded_queue [OF ok] by blast
qed

text \<open>
  Property C6. However the two threads interleave, the values the consumer has taken and the values still queued
  are exactly the values the producer has published, in order; the producer never writes the cell the
  consumer copies, and a copied value is the published one.
\<close>

theorem spsc_interleavings_safe:
  assumes "spsc_step\<^sup>*\<^sup>* (spsc_start zero cap) c" "0 < cap"
  shows "published c = consumed c @ queued (shared c) \<and> length (queued (shared c)) \<le> cap \<and>
    \<not> (producer c = Push_room v w \<and> consumer c = Pop_some w) \<and>
    (consumer c = Pop_copied r x \<longrightarrow> length (consumed c) < length (published c) \<and>
      published c ! length (consumed c) = x)"
proof -
  have ok: "threads_ok c" using assms by (rule threads_reachable)
  have "queue_capacity (shared c) = cap" using assms(1) by (rule reachable_capacity)
  then have bound: "length (queued (shared c)) \<le> cap"
    using ring.bounded [of "shared c"] ok by (simp add: threads_ok_def)
  have contents_eq: "published c = consumed c @ queued (shared c)" using ok by (simp add: threads_ok_def)
  have apart: "\<not> (producer c = Push_room v w \<and> consumer c = Pop_some w)"
    using ok empty_iff [of "shared c"] by (auto simp: threads_ok_def producer_ok_def consumer_ok_def Let_def)
  have copied: "consumer c = Pop_copied r x \<longrightarrow> length (consumed c) < length (published c) \<and>
      published c ! length (consumed c) = x"
  proof
    assume "consumer c = Pop_copied r x"
    then have r: "r = read_index (shared c)" "size_approx (shared c) \<noteq> 0" "cells (shared c) ! r = x"
      using ok by (auto simp: threads_ok_def consumer_ok_def Let_def)
    then have "queued (shared c) = x # tl (queued (shared c))"
      using taken_pop(3) [of "shared c"] ok by (auto simp: threads_ok_def)
    then show "length (consumed c) < length (published c) \<and> published c ! length (consumed c) = x"
      unfolding contents_eq by (metis append_is_Nil_conv length_append_singleton length_append less_add_same_cancel1
          list.discI list.size(4) nth_append_length zero_less_Suc add_is_0 length_greater_0_conv)
  qed
  show ?thesis by (rule conjI [OF contents_eq conjI [OF bound conjI [OF apart copied]]])
qed

theorem spsc_interleavings_safe_witness:
  "\<exists>c. spsc_step\<^sup>*\<^sup>* (spsc_start (0 :: u8) 2) c \<and> published c = [7] \<and> published c = consumed c @ queued (shared c) \<and>
     consumer c = Pop_copied 0 7 \<and> length (queued (shared c)) \<le> 2"
proof -
  let ?c = "spsc_start (0 :: u8) 2"
  let ?d = "?c\<lparr>shared := snd (try_push (shared ?c) 7), published := [7]\<rparr>"
  have "spsc_step\<^sup>*\<^sup>* ?c ?d"
    using push_alone [of ?c 7 True "snd (try_push (shared ?c) 7)"]
    by (simp add: spsc_start_def new_queue_def try_push_def increment_def)
  moreover have "spsc_step ?d (?d\<lparr>consumer := Pop_begun 0\<rparr>)"
    using pop_load_read [of ?d] by (simp add: spsc_start_def new_queue_def try_push_def increment_def)
  moreover have "spsc_step (?d\<lparr>consumer := Pop_begun 0\<rparr>) (?d\<lparr>consumer := Pop_some 0\<rparr>)"
    using pop_load_write [of "?d\<lparr>consumer := Pop_begun 0\<rparr>" 0]
    by (simp add: spsc_start_def new_queue_def try_push_def increment_def)
  moreover have "spsc_step (?d\<lparr>consumer := Pop_some 0\<rparr>) (?d\<lparr>consumer := Pop_copied 0 7\<rparr>)"
    using pop_copy [of "?d\<lparr>consumer := Pop_some 0\<rparr>" 0]
    by (simp add: spsc_start_def new_queue_def try_push_def increment_def)
  ultimately have "spsc_step\<^sup>*\<^sup>* ?c (?d\<lparr>consumer := Pop_copied 0 7\<rparr>)"
    by (meson rtranclp.rtrancl_into_rtrancl)
  from this spsc_interleavings_safe [OF this, of 0 0 0 0] show ?thesis by (intro exI [of _ "?d\<lparr>consumer := Pop_copied 0 7\<rparr>"]) simp
qed

end
