(* ===== verification/Value_Channel.thy ===== *)
theory Value_Channel
  imports Prelude
begin

unbundle bit_operations_syntax

text \<open>
  The latest-value channel between a writer and a reader thread
  (\<open>packages/audio-runtime/include/lmdj/audio/detail/value_channel.hpp\<close>): three slots, one owned by each
  side and one in the middle, exchanged by index with a bit for \<open>not read yet\<close>. First the two operations, then
  the interleavings of their accesses to the shared word and of the copies of the slots.
\<close>

section \<open>The operations\<close>

abbreviation kDirty :: u32 where "kDirty \<equiv> 4"
abbreviation kIndex :: u32 where "kIndex \<equiv> 3"

record 'v channel =
  slots :: "'v list"
  writer_slot :: u32
  reader_slot :: u32
  middle :: u32

definition new_channel :: "'v \<Rightarrow> 'v channel" where
  "new_channel zero = \<lparr>slots = replicate 3 zero, writer_slot = 0, reader_slot = 1, middle = 2\<rparr>"

definition store_value :: "'v channel \<Rightarrow> 'v \<Rightarrow> 'v channel" where
  "store_value ch v = ch\<lparr>slots := (slots ch)[unat (writer_slot ch) := v]\<rparr>"

definition exchange_writer :: "'v channel \<Rightarrow> 'v channel" where
  "exchange_writer ch = ch\<lparr>writer_slot := middle ch AND kIndex, middle := writer_slot ch OR kDirty\<rparr>"

definition publish :: "'v channel \<Rightarrow> 'v \<Rightarrow> 'v channel" where
  "publish ch v = exchange_writer (store_value ch v)"

definition exchange_reader :: "'v channel \<Rightarrow> 'v channel" where
  "exchange_reader ch = ch\<lparr>reader_slot := middle ch AND kIndex, middle := reader_slot ch\<rparr>"

definition acquire_read_slot :: "'v channel \<Rightarrow> 'v channel" where
  "acquire_read_slot ch = (if middle ch AND kDirty \<noteq> 0 then exchange_reader ch else ch)"

definition read_value :: "'v channel \<Rightarrow> 'v \<times> 'v channel" where
  "read_value ch = (let ch' = acquire_read_slot ch in (slots ch' ! unat (reader_slot ch'), ch'))"

section \<open>Ownership\<close>

text \<open>The three slots are owned once each; the middle word is an index, with the bit or without.\<close>

definition channel_ok :: "'v channel \<Rightarrow> bool" where
  "channel_ok ch \<longleftrightarrow>
     length (slots ch) = 3 \<and> {writer_slot ch, reader_slot ch, middle ch AND kIndex} = {0, 1, 2} \<and>
     (middle ch = middle ch AND kIndex \<or> middle ch = (middle ch AND kIndex) OR kDirty)"

definition is_dirty :: "'v channel \<Rightarrow> bool" where
  "is_dirty ch \<longleftrightarrow> middle ch AND kDirty \<noteq> 0"

definition middle_slot :: "'v channel \<Rightarrow> u32" where
  "middle_slot ch = middle ch AND kIndex"

text \<open>All ways the three slots can be owned.\<close>

lemma channel_cases:
  assumes "channel_ok ch"
  obtains "(writer_slot ch, reader_slot ch, middle_slot ch) \<in>
      {(0, 1, 2), (0, 2, 1), (1, 0, 2), (1, 2, 0), (2, 0, 1), (2, 1, 0)}"
    and "middle ch = middle_slot ch \<or> middle ch = middle_slot ch OR kDirty"
    and "length (slots ch) = 3"
proof -
  have s: "{writer_slot ch, reader_slot ch, middle_slot ch} = {0, 1, 2}"
    using assms by (simp add: channel_ok_def middle_slot_def)
  moreover have "card {0 :: u32, 1, 2} = 3" by simp
  ultimately have "card {writer_slot ch, reader_slot ch, middle_slot ch} = 3" by simp
  then have "writer_slot ch \<noteq> reader_slot ch" "writer_slot ch \<noteq> middle_slot ch" "reader_slot ch \<noteq> middle_slot ch"
    by (auto simp: card_insert_if split: if_splits)
  moreover have "writer_slot ch \<in> {0, 1, 2}" "reader_slot ch \<in> {0, 1, 2}" "middle_slot ch \<in> {0, 1, 2}"
    using s by blast+
  ultimately show thesis using that assms by (auto simp: channel_ok_def middle_slot_def)
qed

lemma channel_okI:
  assumes "(writer_slot ch, reader_slot ch, middle_slot ch) \<in>
      {(0, 1, 2), (0, 2, 1), (1, 0, 2), (1, 2, 0), (2, 0, 1), (2, 1, 0)}"
    and "middle ch = middle_slot ch \<or> middle ch = middle_slot ch OR kDirty"
    and "length (slots ch) = 3"
  shows "channel_ok ch"
  using assms by (auto simp: channel_ok_def middle_slot_def)

lemma owned_apart:
  assumes "channel_ok ch"
  shows "unat (writer_slot ch) < 3" "unat (reader_slot ch) < 3" "unat (middle_slot ch) < 3"
    "unat (writer_slot ch) \<noteq> unat (reader_slot ch)" "unat (writer_slot ch) \<noteq> unat (middle_slot ch)"
    "unat (reader_slot ch) \<noteq> unat (middle_slot ch)"
  using assms by (auto elim!: channel_cases)

lemma store_ok: "channel_ok ch \<Longrightarrow> channel_ok (store_value ch v)"
  by (simp add: channel_ok_def store_value_def)

text \<open>An index survives the exchange with the bit and without it.\<close>

lemma index_bits:
  assumes "channel_ok ch"
  shows "(writer_slot ch OR kDirty) AND kIndex = writer_slot ch" "(writer_slot ch OR kDirty) AND kDirty \<noteq> 0"
    "reader_slot ch AND kIndex = reader_slot ch" "reader_slot ch AND kDirty = 0"
proof -
  from assms have "writer_slot ch \<in> {0, 1, 2}" "reader_slot ch \<in> {0, 1, 2}" by (auto elim!: channel_cases)
  then show "(writer_slot ch OR kDirty) AND kIndex = writer_slot ch" "(writer_slot ch OR kDirty) AND kDirty \<noteq> 0"
    "reader_slot ch AND kIndex = reader_slot ch" "reader_slot ch AND kDirty = 0"
    by auto
qed

lemma exchange_writer_fields:
  assumes "channel_ok ch"
  shows "is_dirty (exchange_writer ch)"
    "middle_slot (exchange_writer ch) = writer_slot ch" "writer_slot (exchange_writer ch) = middle_slot ch"
    "reader_slot (exchange_writer ch) = reader_slot ch" "slots (exchange_writer ch) = slots ch"
  using index_bits [OF assms] by (simp_all add: exchange_writer_def middle_slot_def is_dirty_def)

lemma exchange_reader_fields:
  assumes "channel_ok ch"
  shows "\<not> is_dirty (exchange_reader ch)"
    "middle_slot (exchange_reader ch) = reader_slot ch" "reader_slot (exchange_reader ch) = middle_slot ch"
    "writer_slot (exchange_reader ch) = writer_slot ch" "slots (exchange_reader ch) = slots ch"
  using index_bits [OF assms] by (simp_all add: exchange_reader_def middle_slot_def is_dirty_def)

lemma exchange_writer_ok:
  assumes "channel_ok ch"
  shows "channel_ok (exchange_writer ch)"
proof (rule channel_okI)
  show "(writer_slot (exchange_writer ch), reader_slot (exchange_writer ch), middle_slot (exchange_writer ch)) \<in>
      {(0, 1, 2), (0, 2, 1), (1, 0, 2), (1, 2, 0), (2, 0, 1), (2, 1, 0)}"
    unfolding exchange_writer_fields [OF assms] using assms by (auto elim!: channel_cases)
  show "middle (exchange_writer ch) = middle_slot (exchange_writer ch) \<or>
      middle (exchange_writer ch) = middle_slot (exchange_writer ch) OR kDirty"
    unfolding exchange_writer_fields [OF assms] by (simp add: exchange_writer_def)
  show "length (slots (exchange_writer ch)) = 3"
    using assms by (simp add: exchange_writer_def channel_ok_def)
qed

lemma exchange_reader_ok:
  assumes "channel_ok ch"
  shows "channel_ok (exchange_reader ch)"
proof (rule channel_okI)
  show "(writer_slot (exchange_reader ch), reader_slot (exchange_reader ch), middle_slot (exchange_reader ch)) \<in>
      {(0, 1, 2), (0, 2, 1), (1, 0, 2), (1, 2, 0), (2, 0, 1), (2, 1, 0)}"
    unfolding exchange_reader_fields [OF assms] using assms by (auto elim!: channel_cases)
  show "middle (exchange_reader ch) = middle_slot (exchange_reader ch) \<or>
      middle (exchange_reader ch) = middle_slot (exchange_reader ch) OR kDirty"
    unfolding exchange_reader_fields [OF assms] by (simp add: exchange_reader_def)
  show "length (slots (exchange_reader ch)) = 3"
    using assms by (simp add: exchange_reader_def channel_ok_def)
qed

lemma new_channel_ok: "channel_ok (new_channel zero)" "\<not> is_dirty (new_channel zero)"
  by (auto simp: channel_ok_def is_dirty_def new_channel_def)

text \<open>One thread after the other: a read after a publication returns the published value, again and again.\<close>

lemma read_after_publish:
  assumes "channel_ok ch"
  shows "fst (read_value (publish ch v)) = v" "fst (read_value (snd (read_value (publish ch v)))) = v"
proof -
  let ?s = "store_value ch v" let ?p = "exchange_writer ?s" let ?r = "exchange_reader ?p"
  have ok: "channel_ok ?s" "channel_ok ?p"
    using store_ok [OF assms] exchange_writer_ok [OF store_ok [OF assms]] by simp_all
  have r: "acquire_read_slot ?p = ?r" "acquire_read_slot ?r = ?r"
    using exchange_writer_fields(1) [OF ok(1)] exchange_reader_fields(1) [OF ok(2)]
    by (simp_all add: acquire_read_slot_def is_dirty_def)
  have "slots ?r ! unat (reader_slot ?r) = v"
    using exchange_reader_fields(3,5) [OF ok(2)] exchange_writer_fields(2,5) [OF ok(1)] owned_apart(1) [OF assms] assms
    by (simp add: store_value_def channel_ok_def)
  then show "fst (read_value (publish ch v)) = v" "fst (read_value (snd (read_value (publish ch v)))) = v"
    using r by (simp_all add: read_value_def publish_def Let_def)
qed

section \<open>Interleavings\<close>

text \<open>
  The accesses of the two threads, one a step. The copy into the writer's slot is not atomic: between its
  first and its last store the slot holds any value. The reader loads the word, exchanges it when the bit was
  set, and copies its slot. \<open>sent\<close> lists what the writer has published, the initial value first,
  \<open>reader_index\<close> is the place in it of the value the reader's slot holds, \<open>latest_at\<close> the last place at the
  load that began the read, and \<open>received\<close> what the reads returned; none of these four influences a step.
\<close>

datatype 'v write_at = Write_idle | Writing 'v | Written 'v

datatype read_at = Read_idle | Read_dirty | Reading

record 'v channel_threads =
  chan :: "'v channel"
  writer_at :: "'v write_at"
  reader_at :: read_at
  sent :: "'v list"
  reader_index :: nat
  latest_at :: nat
  received :: "(nat \<times> nat \<times> 'v) list"

inductive channel_step :: "'v channel_threads \<Rightarrow> 'v channel_threads \<Rightarrow> bool" where
  write_begin: "writer_at c = Write_idle \<Longrightarrow>
    channel_step c (c\<lparr>chan := store_value (chan c) partial, writer_at := Writing v\<rparr>)"
| write_end: "writer_at c = Writing v \<Longrightarrow>
    channel_step c (c\<lparr>chan := store_value (chan c) v, writer_at := Written v\<rparr>)"
| write_exchange: "writer_at c = Written v \<Longrightarrow>
    channel_step c (c\<lparr>chan := exchange_writer (chan c), writer_at := Write_idle, sent := sent c @ [v]\<rparr>)"
| read_clean: "reader_at c = Read_idle \<Longrightarrow> \<not> is_dirty (chan c) \<Longrightarrow>
    channel_step c (c\<lparr>reader_at := Reading, latest_at := length (sent c) - 1\<rparr>)"
| read_dirty: "reader_at c = Read_idle \<Longrightarrow> is_dirty (chan c) \<Longrightarrow>
    channel_step c (c\<lparr>reader_at := Read_dirty, latest_at := length (sent c) - 1\<rparr>)"
| read_exchange: "reader_at c = Read_dirty \<Longrightarrow>
    channel_step c (c\<lparr>chan := exchange_reader (chan c), reader_at := Reading, reader_index := length (sent c) - 1\<rparr>)"
| read_copy: "reader_at c = Reading \<Longrightarrow>
    channel_step c (c\<lparr>reader_at := Read_idle,
      received := received c @ [(latest_at c, reader_index c, slots (chan c) ! unat (reader_slot (chan c)))]\<rparr>)"

definition channel_start :: "'v \<Rightarrow> 'v channel_threads" where
  "channel_start zero = \<lparr>chan = new_channel zero, writer_at = Write_idle, reader_at = Read_idle,
     sent = [zero], reader_index = 0, latest_at = 0, received = []\<rparr>"

text \<open>A writer alone publishes as the operation does.\<close>

lemma publish_alone:
  assumes "writer_at c = Write_idle"
  shows "channel_step\<^sup>*\<^sup>* c (c\<lparr>chan := publish (chan c) v, sent := sent c @ [v]\<rparr>)"
proof -
  let ?c1 = "c\<lparr>chan := store_value (chan c) v, writer_at := Writing v\<rparr>"
  let ?c2 = "?c1\<lparr>chan := store_value (chan ?c1) v, writer_at := Written v\<rparr>"
  let ?c3 = "?c2\<lparr>chan := exchange_writer (chan ?c2), writer_at := Write_idle, sent := sent ?c2 @ [v]\<rparr>"
  have "channel_step c ?c1" using assms by (rule write_begin)
  moreover have "channel_step ?c1 ?c2" by (rule write_end) simp
  moreover have "channel_step ?c2 ?c3" by (rule write_exchange) simp
  ultimately have "channel_step\<^sup>*\<^sup>* c ?c3" by (meson rtranclp.rtrancl_into_rtrancl r_into_rtranclp)
  moreover have "?c3 = c\<lparr>chan := publish (chan c) v, sent := sent c @ [v]\<rparr>"
    using assms by (simp add: publish_def store_value_def)
  ultimately show ?thesis by simp
qed

text \<open>What holds between any two steps: of the slots, of the two threads, of what was received.\<close>

definition slots_ok :: "'v channel_threads \<Rightarrow> bool" where
  "slots_ok c \<longleftrightarrow>
     channel_ok (chan c) \<and> reader_index c < length (sent c) \<and>
     slots (chan c) ! unat (reader_slot (chan c)) = sent c ! reader_index c \<and>
     (is_dirty (chan c) \<longrightarrow> slots (chan c) ! unat (middle_slot (chan c)) = last (sent c)) \<and>
     (\<not> is_dirty (chan c) \<longrightarrow> Suc (reader_index c) = length (sent c))"

definition sides_ok :: "'v channel_threads \<Rightarrow> bool" where
  "sides_ok c \<longleftrightarrow>
     (\<forall>v. writer_at c = Written v \<longrightarrow> slots (chan c) ! unat (writer_slot (chan c)) = v) \<and>
     (reader_at c = Read_dirty \<longrightarrow> is_dirty (chan c) \<and> latest_at c < length (sent c)) \<and>
     (reader_at c = Reading \<longrightarrow> latest_at c \<le> reader_index c)"

definition received_ok :: "'v channel_threads \<Rightarrow> bool" where
  "received_ok c \<longleftrightarrow>
     (\<forall>(l, i, v) \<in> set (received c). l \<le> i \<and> i < length (sent c) \<and> v = sent c ! i) \<and>
     sorted (map (\<lambda>(l, i, v). i) (received c) @ [reader_index c])"

lemma store_elsewhere:
  assumes "channel_ok ch"
  shows "slots (store_value ch v) ! unat (reader_slot ch) = slots ch ! unat (reader_slot ch)"
    "slots (store_value ch v) ! unat (middle_slot ch) = slots ch ! unat (middle_slot ch)"
    "slots (store_value ch v) ! unat (writer_slot ch) = v"
    "writer_slot (store_value ch v) = writer_slot ch" "reader_slot (store_value ch v) = reader_slot ch"
    "middle_slot (store_value ch v) = middle_slot ch" "is_dirty (store_value ch v) = is_dirty ch"
proof -
  have "length (slots ch) = 3" using assms by (simp add: channel_ok_def)
  then show "slots (store_value ch v) ! unat (reader_slot ch) = slots ch ! unat (reader_slot ch)"
    "slots (store_value ch v) ! unat (middle_slot ch) = slots ch ! unat (middle_slot ch)"
    "slots (store_value ch v) ! unat (writer_slot ch) = v"
    using owned_apart [OF assms] by (simp_all add: store_value_def)
qed (simp_all add: store_value_def middle_slot_def is_dirty_def)

lemma slots_ok_step:
  assumes "channel_step c d" "slots_ok c" "sides_ok c"
  shows "slots_ok d"
proof -
  from assms(2) have ok: "channel_ok (chan c)" by (simp add: slots_ok_def)
  show ?thesis using assms(1)
  proof cases
    case (write_exchange v)
    then have "slots (chan c) ! unat (writer_slot (chan c)) = v" using assms(3) by (simp add: sides_ok_def)
    then show ?thesis using assms(2) write_exchange exchange_writer_fields [OF ok] exchange_writer_ok [OF ok]
      by (simp add: slots_ok_def nth_append less_SucI)
  next
    case read_exchange
    then have "is_dirty (chan c)" using assms(3) by (simp add: sides_ok_def)
    moreover have "sent c \<noteq> []" using assms(2) by (auto simp: slots_ok_def)
    ultimately show ?thesis using assms(2) read_exchange exchange_reader_fields [OF ok] exchange_reader_ok [OF ok]
      by (simp add: slots_ok_def last_conv_nth)
  qed (use assms(2) store_elsewhere [OF ok] store_ok [OF ok] in \<open>simp_all add: slots_ok_def\<close>)
qed

lemma sides_ok_step:
  assumes "channel_step c d" "slots_ok c" "sides_ok c"
  shows "sides_ok d"
proof -
  from assms(2) have ok: "channel_ok (chan c)" and some: "reader_index c < length (sent c)"
    by (simp_all add: slots_ok_def)
  show ?thesis using assms(1)
  proof cases
    case (write_exchange v)
    then show ?thesis using assms(3) exchange_writer_fields [OF ok] by (auto simp: sides_ok_def)
  next
    case read_exchange
    then show ?thesis using assms(3) exchange_reader_fields [OF ok] by (auto simp: sides_ok_def)
  next
    case read_clean
    then show ?thesis using assms(2,3) by (auto simp: sides_ok_def slots_ok_def)
  next
    case read_dirty
    then show ?thesis using assms(3) some by (auto simp: sides_ok_def)
  qed (use assms(3) store_elsewhere [OF ok] in \<open>auto simp: sides_ok_def\<close>)
qed

lemma received_ok_step:
  assumes "channel_step c d" "slots_ok c" "sides_ok c" "received_ok c"
  shows "received_ok d"
  using assms(1)
proof cases
  case (write_exchange v)
  then show ?thesis using assms(4) by (auto simp: received_ok_def nth_append)
next
  case read_exchange
  have "reader_index c \<le> length (sent c) - 1" using assms(2) by (auto simp: slots_ok_def)
  then show ?thesis using assms(4) read_exchange by (fastforce simp: received_ok_def sorted_append)
next
  case read_copy
  then show ?thesis using assms(2-4) by (auto simp: received_ok_def slots_ok_def sides_ok_def sorted_append)
qed (use assms(4) in \<open>simp_all add: received_ok_def\<close>)

lemma channel_reachable:
  assumes "channel_step\<^sup>*\<^sup>* (channel_start zero) c"
  shows "slots_ok c" "sides_ok c" "received_ok c"
proof -
  from assms have "slots_ok c \<and> sides_ok c \<and> received_ok c"
  proof induction
    case base
    show ?case using new_channel_ok [of zero]
      by (simp add: slots_ok_def sides_ok_def received_ok_def channel_start_def) (simp add: new_channel_def)
  next
    case (step c d)
    then show ?case using slots_ok_step sides_ok_step received_ok_step by blast
  qed
  then show "slots_ok c" "sides_ok c" "received_ok c" by simp_all
qed

lemma reading_slot_kept:
  assumes "channel_step c d" "slots_ok c" "reader_at c = Reading"
  shows "slots (chan d) ! unat (reader_slot (chan d)) = slots (chan c) ! unat (reader_slot (chan c))"
proof -
  from assms(2) have ok: "channel_ok (chan c)" by (simp add: slots_ok_def)
  show ?thesis using assms(1)
  proof cases
    case (write_exchange v)
    then show ?thesis using exchange_writer_fields [OF ok] by simp
  qed (use assms(3) store_elsewhere [OF ok] in simp_all)
qed

section \<open>Property\<close>

text \<open>
  Property C7. However the writer and the reader interleave, the two never own the same slot and no step changes
  the slot the reader copies; every read returns a value that was published whole, none older than the
  last one published when the read began, and later reads never return older ones.
\<close>

theorem value_channel_interleavings_safe:
  assumes "channel_step\<^sup>*\<^sup>* (channel_start zero) c"
  shows "writer_slot (chan c) \<noteq> reader_slot (chan c) \<and>
    (reader_at c = Reading \<longrightarrow> channel_step c d \<longrightarrow>
      slots (chan d) ! unat (reader_slot (chan d)) = slots (chan c) ! unat (reader_slot (chan c))) \<and>
    ((l, i, v) \<in> set (received c) \<longrightarrow> l \<le> i \<and> i < length (sent c) \<and> sent c ! i = v) \<and>
    sorted (map (\<lambda>(l, i, v). i) (received c))"
proof -
  note ok = channel_reachable [OF assms]
  then have "channel_ok (chan c)" by (simp add: slots_ok_def)
  from owned_apart(4) [OF this] have apart: "writer_slot (chan c) \<noteq> reader_slot (chan c)" by auto
  have kept: "reader_at c = Reading \<longrightarrow> channel_step c d \<longrightarrow>
      slots (chan d) ! unat (reader_slot (chan d)) = slots (chan c) ! unat (reader_slot (chan c))"
    using reading_slot_kept ok(1) by blast
  have whole: "(l, i, v) \<in> set (received c) \<longrightarrow> l \<le> i \<and> i < length (sent c) \<and> sent c ! i = v"
    using ok(3) by (auto simp: received_ok_def)
  have order: "sorted (map (\<lambda>(l, i, v). i) (received c))"
    using ok(3) by (simp add: received_ok_def sorted_append)
  show ?thesis by (rule conjI [OF apart conjI [OF kept conjI [OF whole order]]])
qed

text \<open>The reader loads the word before the second publication and exchanges it after.\<close>

theorem value_channel_interleavings_safe_witness:
  "\<exists>c. channel_step\<^sup>*\<^sup>* (channel_start (0 :: u8)) c \<and> sent c = [0, 7, 9] \<and> received c = [(1, 2, 9)] \<and>
     writer_slot (chan c) \<noteq> reader_slot (chan c) \<and> sent c ! 2 = 9"
proof -
  let ?c0 = "channel_start (0 :: u8)"
  let ?c1 = "?c0\<lparr>chan := publish (chan ?c0) 7, sent := sent ?c0 @ [7]\<rparr>"
  let ?c2 = "?c1\<lparr>reader_at := Read_dirty, latest_at := length (sent ?c1) - 1\<rparr>"
  let ?c3 = "?c2\<lparr>chan := publish (chan ?c2) 9, sent := sent ?c2 @ [9]\<rparr>"
  let ?c4 = "?c3\<lparr>chan := exchange_reader (chan ?c3), reader_at := Reading, reader_index := length (sent ?c3) - 1\<rparr>"
  let ?c5 = "?c4\<lparr>reader_at := Read_idle,
      received := received ?c4 @ [(latest_at ?c4, reader_index ?c4, slots (chan ?c4) ! unat (reader_slot (chan ?c4)))]\<rparr>"
  have "channel_step\<^sup>*\<^sup>* ?c0 ?c1" by (rule publish_alone) (simp add: channel_start_def)
  moreover have "channel_step ?c1 ?c2"
    by (rule read_dirty)
      (simp_all add: channel_start_def new_channel_def publish_def store_value_def exchange_writer_def is_dirty_def)
  moreover have "channel_step\<^sup>*\<^sup>* ?c2 ?c3" by (rule publish_alone) (simp add: channel_start_def)
  moreover have "channel_step ?c3 ?c4" by (rule read_exchange) simp
  moreover have "channel_step ?c4 ?c5" by (rule read_copy) simp
  ultimately have reach: "channel_step\<^sup>*\<^sup>* ?c0 ?c5" by (meson rtranclp_trans r_into_rtranclp)
  have got: "received ?c5 = [(1, 2, 9)]" "sent ?c5 = [0, 7, 9]"
    by (simp_all add: channel_start_def new_channel_def publish_def store_value_def exchange_writer_def exchange_reader_def)
  then have "(1, 2, 9) \<in> set (received ?c5)" by (simp only: list.set_intros)
  then have "sent ?c5 ! 2 = 9" using value_channel_interleavings_safe [OF reach, of ?c0 1 2 9] by blast
  with reach got value_channel_interleavings_safe [OF reach, of ?c0 1 2 9] show ?thesis by (intro exI [of _ ?c5]) blast
qed

end
