(* ===== verification/Spec2Isabelle.thy ===== *)
theory Spec2Isabelle
  imports Sessions Live_State_Codec Migration Soundset_Laws Wav_Selection Runtime_Content_Laws
    Prepared_Pattern_Laws Spsc_Queue Value_Channel
begin

text \<open>
  A verification development of the LMDJ instrument, from the authored Project to the voice that plays
  it. It models \<open>packages/foundation\<close> and \<open>packages/authoring-domain\<close>, from \<open>packages/project-io\<close>
  the history of an authoring session, \<open>packages/project-cooker\<close> without the Performance replay, and from
  \<open>packages/audio-runtime\<close> the prepared Pattern, the voice kernel and the two lock-free channels.

  The parts of the program and how they interact

    \<^item> A Project (\<open>ProjectState\<close>, \<open>project.hpp\<close>) is the authored truth: Assets with their lineage, four
      Banks of sixteen Pads, Patterns and the slots that select them, recorded Performances.
    \<^item> A host changes a Project by sending a command (\<open>commands.hpp\<close>). \<open>apply\<close> in
      \<open>command_handler.cpp\<close> checks the receipts the store holds, the expected revision and the
      contract, runs the handler of the command, and answers with the next state, an event and a
      receipt. Project I/O stores the answer before the next command runs.
    \<^item> An undo or redo step is not a command of its own kind: the session keeps for every action the
      difference of the two Project contents (\<open>diff_content\<close>, \<open>authoring_delta.cpp\<close>), and sends that
      difference or its reverse through the same revision and receipt protocol (\<open>apply\<close> of an
      \<open>AuthoringDelta\<close>). \<open>AuthoringHistory\<close> keeps the two stacks, groups the edits of a gesture, and
      reconciles itself when it cannot know whether a write reached the disk.
    \<^item> The codecs read and write lineage, events, live states and slot masks as JSON values of a
      library. The Sound Set reader accepts a manifest and decides which Pads an installation writes;
      the installation is again a command.
    \<^item> Cooking turns a Project and one of its Patterns into a \<open>RuntimeSnapshot\<close>: WAV bytes are decoded,
      converted to 48 kHz, and every Pad's playback is resolved to output frames. A snapshot can be
      written to bytes (\<open>runtime_content.cpp\<close>) and read by a player that trusts none of them.
    \<^item> The player prepares the snapshot's Pattern (\<open>PreparedPatternView\<close>): the frames of every event at a
      tempo, with the sample of its Pad. On the audio thread \<open>prepare_voice_dsp\<close> starts a voice for an event
      and \<open>voice_dsp_read\<close> and \<open>voice_dsp_advance\<close> play it. Control and audio threads exchange events through a
      ring and the latest values through three slots, without locks.

  Theories and sources

    \<^item> \<open>Prelude\<close>, \<open>Std_Map\<close>: fixed-width integers, results, and the ordered container \<open>std::map\<close> (a
      typedef of strictly sorted association lists, so equality of maps is equality of contents).
    \<^item> \<open>Foundation\<close>, \<open>Utf8\<close>: error codes and results (\<open>error.hpp\<close>), identifiers, artifacts, the three
      regular expressions and the two UTF-8 decoders; \<open>Utf8\<close> proves that the decoders accept exactly
      the concatenations of encoded scalar values and count them.
    \<^item> \<open>Project_Data\<close>: every struct and enumeration of \<open>project.hpp\<close>, in its order, as records and
      datatypes with the names of the source; \<open>std::uintN_t\<close> is an \<open>N word\<close>.
    \<^item> \<open>Pad_Rules\<close>, \<open>Pattern_Rules\<close>, \<open>Lineage\<close>, \<open>Performance_Rules\<close>: the rules of \<open>project.cpp\<close>:
      playback, colours, tick arithmetic, quantisation, the event merge, the slot table, lineage
      validation, the event profiles and orders and the gesture state machine. Each is compared with
      a reference: the merge with the union of two maps, the gesture validator with a statement
      about the status of every control before every event, the onset with the nearest grid line.
    \<^item> \<open>Content\<close>: \<open>valid_content\<close> of \<open>authoring_delta.cpp\<close> and \<open>create_project\<close>.
    \<^item> \<open>Commands\<close>: every command struct and every overload of \<open>apply_new_command\<close>.
      \<open>Command_Invariants\<close>: each keeps a Project valid. \<open>Command_Effects\<close>: what the commit protocol
      guarantees, which part of the Project each handler may touch. \<open>Pattern_Commands\<close>: the handlers
      that change Patterns, as operations on the keyed content.
    \<^item> \<open>Cells\<close>, \<open>Delta\<close>, \<open>Delta_Laws\<close>, \<open>Undo_Redo\<close>: \<open>authoring_delta.hpp\<close> and
      \<open>authoring_delta.cpp\<close>. \<open>Cells\<close> states a store of cells as a locale and proves the laws of point
      changes once; \<open>Delta_Laws\<close> interprets it on the five stores of a Project. Applying a
      delta and being the difference of two contents are the same, and reversing and composing deltas
      follow from it.
    \<^item> \<open>History\<close>, \<open>History_Laws\<close>, \<open>Sessions\<close>: \<open>authoring_history.cpp\<close>. The two stacks are chains of
      differences through valid contents; \<open>Sessions\<close> runs the history beside the Project it follows, as a
      step relation with edits, steps, sealing, cancelling and writes of unknown result, and proves
      what holds in every reachable session.
    \<^item> \<open>Decimal\<close>, \<open>Json_Library\<close>, \<open>Slot_Masks\<close>, \<open>Lineage_Codec\<close>, \<open>Performance_Codec\<close>,
      \<open>Live_State_Codec\<close>, \<open>Migration\<close>: the JSON forms in \<open>project.cpp\<close> and \<open>migration.cpp\<close>, with the
      round trips of the writers and readers and the errors the readers give.
    \<^item> \<open>Soundset\<close>, \<open>Soundset_Laws\<close>: \<open>soundset_manifest.cpp\<close> and the write set of an installation.
    \<^item> \<open>Bytes\<close>, \<open>Wav_Reader\<close>, \<open>Wav_Selection\<close>, \<open>Wav_Inspector\<close>, \<open>Sample_Analysis\<close>: \<open>wav_reader.cpp\<close>,
      \<open>wav_selection.cpp\<close>, \<open>wav_metadata_inspector.cpp\<close> and \<open>sample_analysis.cpp\<close>. The streaming inspector
      is a simulation of the decoder; a selection decodes to the selected frames; the conversion to 48 kHz
      never fails on decoded PCM.
    \<^item> \<open>Sha256\<close>, \<open>Playback_Resolution\<close>, \<open>Cooker\<close>, \<open>Cook_Laws\<close>: \<open>project_cooker.cpp\<close>. What a cooked snapshot
      guarantees and exactly when a valid Project cooks.
    \<^item> \<open>Runtime_Content\<close>, \<open>Runtime_Content_Laws\<close>: \<open>runtime_content.cpp\<close>, writer, reader and inspector: the
      round trip, the guarantees of whatever is accepted, and the agreement of inspector and reader.
    \<^item> \<open>Transport\<close>, \<open>Prepared_Pattern\<close>, \<open>Prepared_Pattern_Laws\<close>: the transport arithmetic and
      \<open>PreparedPatternView\<close> of \<open>prepared_sample_bank.hpp\<close> and \<open>prepared_sample_bank.cpp\<close>. A boundary is the
      first frame of its tick, a view holds the merged events inside its loop, another tempo is
      preparing again, and every cooked snapshot can be prepared.
    \<^item> \<open>Voice_Kernel\<close>, \<open>Voice_Kernel_Laws\<close>, \<open>Voice_Start\<close>: \<open>detail/voice_dsp.hpp\<close> and \<open>voice_dsp.cpp\<close>. The
      invariant of a playing voice, that it never reads outside its region, the order it plays in, and
      that every cooked Pad starts.
    \<^item> \<open>Spsc_Queue\<close>, \<open>Value_Channel\<close>: \<open>detail/fixed_spsc_queue.hpp\<close>, \<open>detail/runtime_spsc_storage.hpp\<close>
      and \<open>detail/value_channel.hpp\<close>. The ring implements the locale of a bounded queue; for both, the
      accesses of the two threads are a step relation, and what holds in every interleaving is proved by
      invariants over it.
    \<^item> This theory: Projects reachable by all of these together.

  What is a parameter

  The JSON library (\<open>nlohmann::json\<close>) is not part of the repository. Its values are a type variable and
  the operations the codecs call are the fields of the record \<open>json_lib\<close>, an argument of every
  reader and writer. The hypotheses \<open>json_laws\<close>, \<open>json_text\<close> and \<open>array_laws\<close> state its documented
  behaviour: what is written into an object or array is read back under the same key or index, with the
  same type, and nothing else. The instance \<open>documents\<close> satisfies them, so they can hold.

  A float or double is the word of its bits. Its arithmetic is that of the target: the record \<open>fpu\<close> of
  functions on words is an argument of the voice kernel, and the conversion of a gain an argument of the
  cooker. What is proved of the kernel holds for every such unit whose pitch steps lie between a quarter
  frame and four (\<open>steps_bounded\<close>); comparisons of bits the source makes (finite, sign) are written out.
  The resolver of artifacts is a function from names to bytes, \<open>content_addressed\<close> where a property needs the
  bytes to be the declared ones. The build switch \<open>LMDJ_VOICE_DSP\<close> is a Boolean argument. Clocks,
  identifiers and the artifact store appear as arguments: the timestamp and the request id are in the
  metadata of a command, the receipts in the table it is given.

  Bounds and termination

  Loops of the source are structural recursion on the list or the count they run over, or have a
  measure, and nothing needs fuel. Two loops whose end is not evident from their code are partial
  functions, \<open>feed_loop\<close> of the streaming inspector and \<open>bucket_loop\<close> of the waveform; that each of them
  always returns is proved in its theory. Integers keep their width, so the wrap-around of revisions and of tick
  arithmetic is in the model and the properties say where it cannot occur. The operations of the history run
  under one mutex in the source, so they are atomic steps here. The steps of the two channels are single
  accesses to a shared word and copies of a cell, interleaved in any order; acquire and release
  order on the one word each side publishes is what makes that order of steps adequate.

  Not modelled

    \<^item> \<open>describe_artifact\<close>, \<open>canonical_json\<close> and \<open>parse_bounded_json\<close>: file and JSON library calls.
    \<^item> The rest of \<open>packages/project-io\<close> (Project store, sequence journal, bundle transfer): the
      sequence of file operations and their crash points.
    \<^item> \<open>performance_replay.cpp\<close> of \<open>packages/project-cooker\<close>.
    \<^item> The rest of \<open>packages/audio-runtime\<close>: the real-time engine, the sample bank with its generations,
      the master effects, the offline renderer and the WAV writer, which call the parts modelled here.
    \<^item> \<open>packages/application-facade\<close>, \<open>packages/web-runtime-platform\<close>, \<open>packages/provider-sdk\<close> and the
      hosts: controllers and bindings that call the operations modelled here.
\<close>

section \<open>Reachable Projects\<close>





section \<open>What a reachable Project stores can be read back\<close>









text \<open>
  The limit of that statement. The comment on \<open>parse_input_sequence\<close> says a durable input sequence
  counts from 1, and the reader refuses 0; \<open>validate_performance\<close> does not, so a valid headered
  Performance can hold an event whose JSON form is not read back.
\<close>

definition zero_event :: performance_event where
  "zero_event = \<lparr>payload = HoldOn 30, input_sequence = Some 0\<rparr>"

lemma sequence_zero_not_durable:
  "is_ok (validate_performance (handover_performance\<lparr>performance_events := [zero_event]\<rparr>)) \<and>
   \<not> is_ok (performance_event_from_json documents (performance_event_json documents zero_event))"
  by code_simp

end
